(* ===== verification/GoPrelude.thy ===== *)
theory GoPrelude
  imports Main "HOL-Library.Word" "HOL-Library.AList" "HOL-Library.Multiset"
    "HOL-Library.Sublist" "HOL-Library.Char_ord" "HOL-Library.List_Lexorder"
begin

text \<open>
  The part of Go and of its standard library that the sources use, and the lemmas the
  component theories share.

  \<^item> A Go string or byte slice is a HOL \<open>string\<close>: a list of 8-bit \<open>char\<close>s.
  \<^item> \<open>int\<close> and \<open>int64\<close> values are HOL integers; where the source's arithmetic can leave the
    64-bit range the model applies \<open>wrap64\<close>.
  \<^item> A Go map is an association list with distinct keys (\<open>gomap\<close>): \<open>m[k] = v\<close> is
    \<open>AList.update\<close>, \<open>delete\<close> is \<open>AList.delete\<close>, a lookup is \<open>map_of\<close>. The list's order is
    the order in which \<open>range\<close> visits the keys; theorems hold for every list, hence for
    every order. Where the source ranges over the same map repeatedly, the order of each
    pass is an explicit parameter.
  \<^item> A call that may panic or never return has a result of type \<open>go\<close>: \<open>Ret\<close> the returned
    value, \<open>Panic\<close> a run-time panic, \<open>Hang\<close> a call that does not return. Go's
    multi-value \<open>(v, err)\<close> results are sums or options inside \<open>Ret\<close>.
  \<^item> Log lines (logrus, \<open>fmt.Printf\<close> to the console) have no effect on any modelled state and
    are left out.
\<close>

named_theorems go_simps \<open>definitions of the Go library model, for evaluation\<close>
named_theorems gomap_simps \<open>lookups and key lists after the updates of a Go map\<close>

type_synonym ('k, 'v) gomap = "('k \<times> 'v) list"

section \<open>Outcomes of a call\<close>

datatype 'a go = Ret 'a | Panic | Hang

fun bindg :: "'a go \<Rightarrow> ('a \<Rightarrow> 'b go) \<Rightarrow> 'b go" where
  "bindg (Ret x) f = f x"
| "bindg Panic f = Panic"
| "bindg Hang f = Hang"

fun is_Ret :: "'a go \<Rightarrow> bool" where
  "is_Ret (Ret x) = True"
| "is_Ret Panic = False"
| "is_Ret Hang = False"

text \<open>A \<open>for\<close> loop whose body may panic or hang: the state after the last element.\<close>

fun foldg :: "('s \<Rightarrow> 'a \<Rightarrow> 's go) \<Rightarrow> 's \<Rightarrow> 'a list \<Rightarrow> 's go" where
  "foldg f s [] = Ret s"
| "foldg f s (x # xs) = bindg (f s x) (\<lambda>s'. foldg f s' xs)"

fun mapg :: "('a \<Rightarrow> 'b go) \<Rightarrow> 'a list \<Rightarrow> 'b list go" where
  "mapg f [] = Ret []"
| "mapg f (x # xs) = bindg (f x) (\<lambda>y. bindg (mapg f xs) (\<lambda>ys. Ret (y # ys)))"

section \<open>Machine integers\<close>

definition wrap64 :: "int \<Rightarrow> int" where
  "wrap64 x = (x + 2 ^ 63) mod 2 ^ 64 - 2 ^ 63"

definition in_int64 :: "int \<Rightarrow> bool" where
  "in_int64 x \<longleftrightarrow> - (2 ^ 63) \<le> x \<and> x < 2 ^ 63"

definition wrap32 :: "int \<Rightarrow> int" where
  "wrap32 x = (x + 2 ^ 31) mod 2 ^ 32 - 2 ^ 31"

section \<open>strings\<close>

text \<open>\<open>strings.HasPrefix\<close>, \<open>strings.Index\<close>, \<open>strings.Split\<close> by a one-byte separator,
  \<open>strings.Join\<close>.\<close>

definition has_prefix :: "string \<Rightarrow> string \<Rightarrow> bool" where
  "has_prefix s p \<longleftrightarrow> take (length p) s = p"

fun index_of :: "string \<Rightarrow> string \<Rightarrow> nat option" where
  "index_of [] p = (if p = [] then Some 0 else None)"
| "index_of (c # s) p =
     (if has_prefix (c # s) p then Some 0 else map_option Suc (index_of s p))"

fun split_char :: "char \<Rightarrow> string \<Rightarrow> string list" where
  "split_char d [] = [[]]"
| "split_char d (c # s) =
     (if c = d then [] # split_char d s
      else (case split_char d s of [] \<Rightarrow> [[c]] | w # ws \<Rightarrow> (c # w) # ws))"

fun join_with :: "string \<Rightarrow> string list \<Rightarrow> string" where
  "join_with sep [] = []"
| "join_with sep [w] = w"
| "join_with sep (w # v # ws) = w @ sep @ join_with sep (v # ws)"

text \<open>
  \<open>unicode.IsSpace\<close> of a single byte taken as a code point (\<open>rune(s[i])\<close>), and the UTF-8
  encodings of the code points that \<open>strings.TrimSpace\<close> and \<open>strings.Fields\<close> treat as
  white space.
\<close>

definition byte_is_space :: "char \<Rightarrow> bool" where
  "byte_is_space c \<longleftrightarrow>
     c \<in> set [CHR 0x09, CHR 0x0A, CHR 0x0B, CHR 0x0C, CHR 0x0D, CHR 0x20, CHR 0x85, CHR 0xA0]"

definition space_seqs :: "string list" where
  "space_seqs =
     [[CHR 0x09], [CHR 0x0A], [CHR 0x0B], [CHR 0x0C], [CHR 0x0D], [CHR 0x20],
      [CHR 0xC2, CHR 0x85], [CHR 0xC2, CHR 0xA0], [CHR 0xE1, CHR 0x9A, CHR 0x80]]
     @ map (\<lambda>b. [CHR 0xE2, CHR 0x80, b])
         [CHR 0x80, CHR 0x81, CHR 0x82, CHR 0x83, CHR 0x84, CHR 0x85, CHR 0x86, CHR 0x87, CHR 0x88,
          CHR 0x89, CHR 0x8A, CHR 0xA8, CHR 0xA9, CHR 0xAF]
     @ [[CHR 0xE2, CHR 0x81, CHR 0x9F], [CHR 0xE3, CHR 0x80, CHR 0x80]]"

definition space_len :: "string \<Rightarrow> nat" where
  "space_len s = (case find (has_prefix s) space_seqs of None \<Rightarrow> 0 | Some q \<Rightarrow> length q)"

definition rspace_len :: "string \<Rightarrow> nat" where
  "rspace_len r = (case find (\<lambda>q. has_prefix r (rev q)) space_seqs of None \<Rightarrow> 0 | Some q \<Rightarrow> length q)"

fun trim_by :: "(string \<Rightarrow> nat) \<Rightarrow> string \<Rightarrow> string" where
  "trim_by f [] = []"
| "trim_by f (c # s) = (case f (c # s) of 0 \<Rightarrow> c # s | Suc k \<Rightarrow> trim_by f (drop k s))"

definition TrimSpace :: "string \<Rightarrow> string" where
  "TrimSpace s = rev (trim_by rspace_len (rev (trim_by space_len s)))"

fun fields_aux :: "string \<Rightarrow> string \<Rightarrow> string list" where
  "fields_aux acc [] = (if acc = [] then [] else [rev acc])"
| "fields_aux acc (c # s) =
     (case space_len (c # s) of
        0 \<Rightarrow> fields_aux (c # acc) s
      | Suc k \<Rightarrow> (if acc = [] then [] else [rev acc]) @ fields_aux [] (drop k s))"

definition Fields :: "string \<Rightarrow> string list" where
  "Fields s = fields_aux [] s"

section \<open>strconv and fmt\<close>

definition digit_val :: "char \<Rightarrow> nat option" where
  "digit_val c = (let n = of_char c in if 48 \<le> n \<and> n \<le> 57 then Some (n - 48) else None)"

definition digit_char :: "nat \<Rightarrow> char" where
  "digit_char d = char_of (48 + d)"

fun digits_val :: "nat \<Rightarrow> string \<Rightarrow> nat option" where
  "digits_val acc [] = Some acc"
| "digits_val acc (c # s) =
     (case digit_val c of None \<Rightarrow> None | Some d \<Rightarrow> digits_val (10 * acc + d) s)"

definition parse_nat :: "string \<Rightarrow> nat option" where
  "parse_nat s = (if s = [] then None else digits_val 0 s)"

text \<open>The syntax \<open>strconv.Atoi\<close> accepts, before its range check.\<close>

definition parse_int :: "string \<Rightarrow> int option" where
  "parse_int s = (case s of
       [] \<Rightarrow> None
     | c # t \<Rightarrow> (if c = CHR ''-'' then map_option (\<lambda>n. - int n) (parse_nat t)
                 else if c = CHR ''+'' then map_option int (parse_nat t)
                 else map_option int (parse_nat s)))"

text \<open>\<open>strconv.Atoi\<close>: \<open>None\<close> when its error is not nil (bad syntax, or outside int64).\<close>

definition Atoi :: "string \<Rightarrow> int option" where
  "Atoi s = (case parse_int s of
       None \<Rightarrow> None
     | Some v \<Rightarrow> if in_int64 v then Some v else None)"

fun show_nat :: "nat \<Rightarrow> string" where
  "show_nat n = (if n < 10 then [digit_char n] else show_nat (n div 10) @ [digit_char (n mod 10)])"

declare show_nat.simps [simp del]

text \<open>\<open>fmt.Sprintf("%d", i)\<close>.\<close>

definition Itoa :: "int \<Rightarrow> string" where
  "Itoa i = (if i < 0 then CHR ''-'' # show_nat (nat (- i)) else show_nat (nat i))"

definition ParseBool :: "string \<Rightarrow> bool option" where
  "ParseBool s =
     (if s \<in> set [''1'', ''t'', ''T'', ''TRUE'', ''true'', ''True''] then Some True
      else if s \<in> set [''0'', ''f'', ''F'', ''FALSE'', ''false'', ''False''] then Some False
      else None)"

section \<open>Lemmas on outcomes\<close>

lemma bindg_assoc [simp]: "bindg (bindg m f) g = bindg m (\<lambda>x. bindg (f x) g)"
  by (cases m) auto

lemma bindg_Ret [simp]: "bindg m Ret = m"
  by (cases m) auto

lemma bindg_eq_Ret: "bindg m f = Ret y \<longleftrightarrow> (\<exists>x. m = Ret x \<and> f x = Ret y)"
  by (cases m) auto

lemma is_Ret_iff: "is_Ret m \<longleftrightarrow> (\<exists>x. m = Ret x)"
  by (cases m) auto

lemma foldg_append: "foldg f s (xs @ ys) = bindg (foldg f s xs) (\<lambda>s'. foldg f s' ys)"
  by (induction xs arbitrary: s) auto

lemma foldg_Ret: "foldg (\<lambda>s x. Ret (f s x)) s xs = Ret (foldl f s xs)"
  by (induction xs arbitrary: s) auto

text \<open>An invariant of the body is an invariant of the loop.\<close>

lemma foldg_inv:
  assumes "foldg f s xs = Ret s'" and "P s"
    and "\<And>s x s'. P s \<Longrightarrow> x \<in> set xs \<Longrightarrow> f s x = Ret s' \<Longrightarrow> P s'"
  shows "P s'"
  using assms
proof (induction xs arbitrary: s)
  case (Cons x xs)
  from Cons.prems(1) obtain t where t: "f s x = Ret t" "foldg f t xs = Ret s'"
    by (auto simp: bindg_eq_Ret)
  have "P t" using Cons.prems(2) _ t(1) by (rule Cons.prems(3)) simp
  with t(2) show ?case
    by (rule Cons.IH) (rule Cons.prems(3), simp_all)
qed simp

section \<open>Lemmas on machine integers\<close>

lemma wrap64_id [simp]: "in_int64 x \<Longrightarrow> wrap64 x = x"
  by (simp add: wrap64_def in_int64_def)

lemma wrap64_in_int64 [simp, intro]: "in_int64 (wrap64 x)"
proof -
  have "0 \<le> (x + 2 ^ 63) mod 2 ^ 64" and "(x + 2 ^ 63) mod 2 ^ 64 < (2 ^ 64 :: int)"
    by simp_all
  then show ?thesis unfolding wrap64_def in_int64_def by simp
qed

lemma wrap64_overflow: "2 ^ 63 \<le> x \<Longrightarrow> x < 2 ^ 64 \<Longrightarrow> wrap64 x = x - 2 ^ 64"
proof -
  assume a: "2 ^ 63 \<le> x" "x < 2 ^ 64"
  have "(x + 2 ^ 63) mod 2 ^ 64 = (x - 2 ^ 63) mod 2 ^ 64"
    by (simp add: mod_eq_dvd_iff)
  also have "\<dots> = x - 2 ^ 63" using a by simp
  finally show ?thesis by (simp add: wrap64_def)
qed

section \<open>Lemmas on strings\<close>

lemma has_prefix_iff: "has_prefix s p \<longleftrightarrow> (\<exists>t. s = p @ t)"
  by (auto simp: has_prefix_def) (metis append_take_drop_id)

lemma has_prefix_append [simp]: "has_prefix (p @ t) p"
  by (auto simp: has_prefix_iff)

lemma has_prefix_Nil [simp]: "has_prefix s []"
  by (simp add: has_prefix_def)

lemma index_of_Some:
  "index_of s p = Some i \<Longrightarrow> i + length p \<le> length s \<and> s = take i s @ p @ drop (i + length p) s"
proof (induction s p arbitrary: i rule: index_of.induct)
  case (1 p)
  then show ?case by (auto split: if_splits)
next
  case (2 c s p)
  show ?case
  proof (cases "has_prefix (c # s) p")
    case True
    with "2.prems" have i: "i = 0" by simp
    from True obtain t where "c # s = p @ t" by (auto simp: has_prefix_iff)
    with i show ?thesis by simp
  next
    case False
    with "2.prems" obtain j where "index_of s p = Some j" "i = Suc j" by auto
    with "2.IH" False show ?thesis by auto
  qed
qed

lemma index_of_None: "index_of s p = None \<Longrightarrow> \<not> sublist p s"
proof (induction s p rule: index_of.induct)
  case (1 p)
  then show ?case by (auto split: if_splits)
next
  case (2 c s p)
  then have "\<not> has_prefix (c # s) p" "index_of s p = None"
    by (auto split: if_splits)
  with "2.IH" show ?case
    by (auto simp: sublist_Cons_right has_prefix_iff prefix_def)
qed

lemma index_of_least: "index_of s p = Some i \<Longrightarrow> j < i \<Longrightarrow> \<not> has_prefix (drop j s) p"
proof (induction s p arbitrary: i j rule: index_of.induct)
  case (1 p)
  then show ?case by (auto split: if_splits)
next
  case (2 c s p)
  show ?case
  proof (cases "has_prefix (c # s) p")
    case True
    with "2.prems" show ?thesis by simp
  next
    case False
    with "2.prems" obtain k where k: "index_of s p = Some k" "i = Suc k" by auto
    show ?thesis
    proof (cases j)
      case 0
      with False show ?thesis by simp
    next
      case (Suc j')
      with "2.IH"[OF False k(1), of j'] k(2) "2.prems"(2) show ?thesis by simp
    qed
  qed
qed

text \<open>The marker's first byte does not occur before it: \<open>Index\<close> finds it right there.\<close>

lemma index_of_skip: "c \<notin> set u \<Longrightarrow> index_of (u @ (c # p) @ t) (c # p) = Some (length u)"
proof (induction u)
  case Nil
  have "has_prefix (c # p @ t) (c # p)"
    by (metis append_Cons has_prefix_append)
  then show ?case by simp
next
  case (Cons x u)
  then have "\<not> has_prefix (x # u @ (c # p) @ t) (c # p)"
    by (auto simp: has_prefix_def)
  with Cons show ?case by simp
qed

lemma index_of_absent: "c \<notin> set u \<Longrightarrow> index_of u (c # p) = None"
  by (induction u) (auto simp: has_prefix_def)

lemma index_of_skip_map: "c \<notin> set u \<Longrightarrow> index_of (u @ w) (c # p) = map_option ((+) (length u)) (index_of w (c # p))"
proof (induction u)
  case Nil
  show ?case by (simp add: option.map_ident_strong)
next
  case (Cons x u)
  then show ?case by (auto simp: has_prefix_def option.map_comp comp_def)
qed

text \<open>A pattern whose first byte does not occur in it again cannot overlap itself.\<close>

lemma index_of_append_pattern:
  "c \<notin> set p \<Longrightarrow> index_of u (c # p) = None \<Longrightarrow> index_of (u @ (c # p) @ t) (c # p) = Some (length u)"
proof (induction u)
  case Nil
  then show ?case by (simp add: has_prefix_def)
next
  case (Cons x u)
  have none: "\<not> has_prefix (x # u) (c # p)" "index_of u (c # p) = None" using Cons.prems(2) by (auto split: if_splits)
  have "\<not> has_prefix (x # u @ (c # p) @ t) (c # p)"
  proof
    assume h: "has_prefix (x # u @ (c # p) @ t) (c # p)"
    then have p: "take (length p) (u @ (c # p) @ t) = p" "x = c" by (auto simp: has_prefix_def)
    show False
    proof (cases "length u < length p")
      case True
      then have "p ! length u = (u @ (c # p) @ t) ! length u" using p(1) by (metis nth_take)
      also have "\<dots> = c" by simp
      finally show False using Cons.prems(1) True by (metis nth_mem)
    next
      case False
      then show False using none(1) p by (simp add: has_prefix_def)
    qed
  qed
  with Cons.IH Cons.prems(1) none(2) show ?case by simp
qed

lemma split_char_not_Nil [simp]: "split_char d s \<noteq> []"
  by (induction s) (auto split: list.splits)

lemma join_split_char: "join_with [d] (split_char d s) = s"
proof (induction s)
  case (Cons c s)
  obtain w ws where w: "split_char d s = w # ws"
    by (cases "split_char d s") auto
  with Cons show ?case by (cases ws) auto
qed simp

lemma split_char_single: "d \<notin> set s \<Longrightarrow> split_char d s = [s]"
  by (induction s) auto

lemma split_char_append: "d \<notin> set u \<Longrightarrow> split_char d (u @ d # t) = u # split_char d t"
  by (induction u) auto

lemma split_join_char:
  "ws \<noteq> [] \<Longrightarrow> \<forall>w\<in>set ws. d \<notin> set w \<Longrightarrow> split_char d (join_with [d] ws) = ws"
proof (induction ws rule: induct_list012)
  case (3 w v ws)
  then show ?case by (simp add: split_char_append)
qed (auto simp: split_char_single)

lemma split_char_no_sep: "w \<in> set (split_char c s) \<Longrightarrow> c \<notin> set w"
proof (induction s arbitrary: w)
  case (Cons x s)
  then show ?case by (cases "split_char c s") (auto split: if_splits)
qed simp

lemma find_prefix_None: "\<forall>q\<in>set seqs. q \<noteq> [] \<and> hd q \<noteq> c \<Longrightarrow> find (has_prefix (c # s)) seqs = None"
  by (auto simp: find_None_iff has_prefix_def neq_Nil_conv)

lemma trim_by_stop: "f (c # s) = 0 \<Longrightarrow> trim_by f (c # s) = c # s"
  by simp

text \<open>A byte that begins none of the white space sequences is not trimmed, nor, at the end, one that ends none.\<close>

lemma space_len_0: "\<forall>q\<in>set space_seqs. hd q \<noteq> c \<Longrightarrow> space_len (c # s) = 0"
proof -
  assume h: "\<forall>q\<in>set space_seqs. hd q \<noteq> c"
  have "[] \<notin> set space_seqs" by (simp add: space_seqs_def)
  with h find_prefix_None[of space_seqs c s] show ?thesis by (force simp: space_len_def)
qed

lemma rspace_len_0: "\<forall>q\<in>set space_seqs. last q \<noteq> c \<Longrightarrow> rspace_len (c # s) = 0"
proof -
  assume h: "\<forall>q\<in>set space_seqs. last q \<noteq> c"
  have "[] \<notin> set space_seqs" by (simp add: space_seqs_def)
  with h have "\<forall>q\<in>set (map rev space_seqs). q \<noteq> [] \<and> hd q \<noteq> c" by (auto simp: hd_rev)
  from find_prefix_None[OF this, of s] have "find (\<lambda>q. has_prefix (c # s) (rev q)) space_seqs = None"
    by (auto simp: find_None_iff)
  then show ?thesis by (simp add: rspace_len_def)
qed

section \<open>Lemmas on numerals\<close>

lemma digit_val_digit_char [simp]: "d < 10 \<Longrightarrow> digit_val (digit_char d) = Some d"
  by (simp add: digit_val_def digit_char_def Let_def)

lemma digits_val_append:
  "digits_val a (s @ t) = (case digits_val a s of None \<Rightarrow> None | Some b \<Rightarrow> digits_val b t)"
  by (induction s arbitrary: a) (auto split: option.splits)

lemma digits_val_show_nat: "digits_val 0 (show_nat n) = Some n"
proof (induction n rule: show_nat.induct)
  case (1 n)
  show ?case
  proof (cases "n < 10")
    case True
    then show ?thesis by (simp add: show_nat.simps[of n])
  next
    case False
    with "1" have "digits_val 0 (show_nat (n div 10)) = Some (n div 10)" by simp
    with False show ?thesis
      by (subst show_nat.simps) (simp add: digits_val_append)
  qed
qed

lemma show_nat_not_Nil [simp]: "show_nat n \<noteq> []"
  by (subst show_nat.simps) simp

lemma parse_nat_show_nat [simp]: "parse_nat (show_nat n) = Some n"
  by (simp add: parse_nat_def digits_val_show_nat)

lemma show_nat_digits: "c \<in> set (show_nat n) \<Longrightarrow> \<exists>d<10. c = digit_char d"
proof (induction n rule: show_nat.induct)
  case (1 n)
  show ?case
  proof (cases "n < 10")
    case True
    with "1.prems" show ?thesis by (subst (asm) show_nat.simps) auto
  next
    case False
    with "1.prems" have "c \<in> set (show_nat (n div 10)) \<or> c = digit_char (n mod 10)"
      by (subst (asm) show_nat.simps) auto
    with "1.IH"[OF False] show ?thesis by (auto intro: exI[of _ "n mod 10"])
  qed
qed

lemma digit_char_not [simp]:
  assumes "d < 10"
  shows "digit_char d \<noteq> CHR ''-''" "digit_char d \<noteq> CHR ''+''" "digit_char d \<noteq> CHR ''%''"
    "digit_char d \<noteq> CHR '':''" "digit_char d \<noteq> CHR '','' "
    "digit_char d \<noteq> CHR '' ''" "digit_char d \<noteq> CHR 0x0A" "digit_char d \<noteq> CHR ''.''"
proof -
  have "of_char (digit_char d) = 48 + d" using assms by (simp add: digit_char_def)
  with assms show "digit_char d \<noteq> CHR ''-''" "digit_char d \<noteq> CHR ''+''" "digit_char d \<noteq> CHR ''%''"
    "digit_char d \<noteq> CHR '':''" "digit_char d \<noteq> CHR '','' "
    "digit_char d \<noteq> CHR '' ''" "digit_char d \<noteq> CHR 0x0A" "digit_char d \<noteq> CHR ''.''"
    by auto
qed

lemma Itoa_chars: "c \<in> set (Itoa i) \<Longrightarrow> c = CHR ''-'' \<or> (\<exists>d<10. c = digit_char d)"
  by (auto simp: Itoa_def split: if_splits dest: show_nat_digits)

lemma percent_notin_Itoa [simp]: "CHR ''%'' \<notin> set (Itoa i)"
  using Itoa_chars[of "CHR ''%''" i] by (auto dest: digit_char_not(3)[symmetric])

lemma parse_int_Itoa [simp]: "parse_int (Itoa i) = Some i"
proof (cases "i < 0")
  case True
  then show ?thesis by (simp add: parse_int_def Itoa_def)
next
  case False
  obtain c t where ct: "show_nat (nat i) = c # t"
    by (cases "show_nat (nat i)") auto
  then obtain d where "d < 10" "c = digit_char d"
    using show_nat_digits[of c "nat i"] by auto
  moreover have "parse_nat (c # t) = Some (nat i)"
    using parse_nat_show_nat[of "nat i"] ct by simp
  ultimately show ?thesis
    using False ct by (simp add: parse_int_def Itoa_def)
qed

lemma Atoi_Itoa [simp]: "in_int64 i \<Longrightarrow> Atoi (Itoa i) = Some i"
  by (simp add: Atoi_def)

lemma Atoi_in_int64: "Atoi s = Some v \<Longrightarrow> in_int64 v"
  by (auto simp: Atoi_def split: option.splits if_splits)

section \<open>Lemmas on maps\<close>

lemma map_of_update [simp, gomap_simps]: "map_of (AList.update k v m) = (map_of m)(k \<mapsto> v)"
  by (simp add: update_conv')

lemma map_of_delete [simp, gomap_simps]: "map_of (AList.delete k m) = (map_of m)(k := None)"
  by (simp add: delete_conv')

lemma keys_update [gomap_simps]:
  "set (map fst (AList.update k v m)) = insert k (set (map fst m))"
  by (simp add: dom_map_of_conv_image_fst flip: dom_map_of_conv_image_fst)

lemma update_fresh: "k \<notin> set (map fst m) \<Longrightarrow> AList.update k v m = m @ [(k, v)]"
  by (induction m) auto

lemma update_same: "map_of m k = Some v \<Longrightarrow> AList.update k v m = m"
  by (induction m) (auto split: if_splits)

lemma distinct_snd_unique:
  "distinct (map snd m) \<Longrightarrow> (k, a) \<in> set m \<Longrightarrow> (k', a) \<in> set m \<Longrightarrow> k = k'"
  by (induction m) (auto simp: image_iff)

lemmas gomap_wf = distinct_update distinct_delete

end
