(* ===== verification/StringExpr.thy ===== *)
theory StringExpr
  imports GoPrelude
begin

text \<open>
  \<open>subprocess/config/string_expression.go\<close>: the \<open>%(name)s\<close> and \<open>%(name)d\<close> templates of the
  supervisor's configuration values. The operating system (\<open>os.Environ\<close>, \<open>os.Hostname\<close>) is
  the record \<open>os_env\<close>. What \<open>fmt\<close> prints for a directive outside the
  flags-width-precision grammar is the parameter \<open>other\<close>; no theorem restricts it.
  The lemmas show that evaluation is substitution on well-formed templates, that an unknown
  variable is an error, and that a variable whose value mentions itself makes the loop run
  forever. The parameter \<open>other\<close> is the field \<open>fmt_other\<close> of that record for the callers of
  \<open>Eval\<close>.
\<close>

section \<open>fmt.Sprintf of one integer directive\<close>

record fmt_flags =
  f_sharp :: bool
  f_zero :: bool
  f_plus :: bool
  f_minus :: bool
  f_space :: bool

fun scan_flags :: "fmt_flags \<Rightarrow> string \<Rightarrow> fmt_flags \<times> string" where
  "scan_flags f [] = (f, [])"
| "scan_flags f (c # m) =
     (if c = CHR ''#'' then scan_flags (f\<lparr>f_sharp := True\<rparr>) m
      else if c = CHR ''0'' then scan_flags (f\<lparr>f_zero := \<not> f_minus f\<rparr>) m
      else if c = CHR ''+'' then scan_flags (f\<lparr>f_plus := True\<rparr>) m
      else if c = CHR ''-'' then scan_flags (f\<lparr>f_minus := True, f_zero := False\<rparr>) m
      else if c = CHR '' '' then scan_flags (f\<lparr>f_space := True\<rparr>) m
      else (f, c # m))"

definition take_digits :: "string \<Rightarrow> string \<times> string" where
  "take_digits m = (takeWhile (\<lambda>c. digit_val c \<noteq> None) m, dropWhile (\<lambda>c. digit_val c \<noteq> None) m)"

text \<open>A width or precision; \<open>fmt\<close> ignores one above 1000000, which is outside the grammar.\<close>

definition small_num :: "string \<Rightarrow> nat option" where
  "small_num ds = (case parse_nat ds of None \<Rightarrow> Some 0 | Some n \<Rightarrow> if int n \<le> 1000000 then Some n else None)"

text \<open>The digits of \<open>i\<close> to the precision, the sign, and the padding to the width
  (\<open>fmtInteger\<close> with base ten).\<close>

definition fmt_integer :: "fmt_flags \<Rightarrow> nat option \<Rightarrow> nat option \<Rightarrow> int \<Rightarrow> string" where
  "fmt_integer f wid prec i =
     (let w = (case wid of None \<Rightarrow> 0 | Some w \<Rightarrow> w);
          signed = i < 0 \<or> f_plus f \<or> f_space f;
          p = (case prec of Some p \<Rightarrow> p
                 | None \<Rightarrow> if f_zero f \<and> wid \<noteq> None then w - (if signed then 1 else 0) else 0);
          ds = (if prec = Some 0 \<and> i = 0 then [] else show_nat (nat \<bar>i\<bar>));
          body = replicate (p - length ds) (CHR ''0'') @ ds;
          sign = (if i < 0 then ''-'' else if f_plus f then ''+'' else if f_space f then '' '' else []);
          txt = (if prec = Some 0 \<and> i = 0 then [] else sign @ body);
          pad = replicate (w - length txt) (CHR '' '')
      in if f_minus f then txt @ pad else pad @ txt)"

text \<open>\<open>fmt.Sprintf("%" + m + "d", i)\<close> for a directive of the grammar.\<close>

definition sprintf_d :: "string \<Rightarrow> int \<Rightarrow> string option" where
  "sprintf_d m i =
     (let (f, m1) = scan_flags \<lparr>f_sharp = False, f_zero = False, f_plus = False, f_minus = False, f_space = False\<rparr> m;
          (wd, m2) = take_digits m1
      in case small_num wd of
           None \<Rightarrow> None
         | Some w \<Rightarrow>
             (let wid = (if wd = [] then None else Some w)
              in case m2 of
                   [] \<Rightarrow> Some (fmt_integer f wid None i)
                 | c # m3 \<Rightarrow>
                     if c = CHR ''.'' then
                       (let (pd, m4) = take_digits m3
                        in if m4 = [] then map_option (\<lambda>p. fmt_integer f wid (Some p) i) (small_num pd)
                           else None)
                     else None))"

section \<open>NewStringExpression and Eval\<close>

record os_env =
  os_environ :: "string list"
  os_hostname :: "string option"
  fmt_other :: "string \<Rightarrow> int \<Rightarrow> string"

type_synonym str_env = "(string, string) gomap"

text \<open>\<open>t := strings.Split(env, "="); se.env["ENV_"+t[0]] = t[1]\<close>: index 1 panics without \<open>=\<close>.\<close>

definition add_environ :: "str_env \<Rightarrow> string \<Rightarrow> str_env go" where
  "add_environ e s = (case split_char (CHR ''='') s of
       t0 # t1 # _ \<Rightarrow> Ret (AList.update (''ENV_'' @ t0) t1 e)
     | _ \<Rightarrow> Panic)"

fun add_pairs :: "str_env \<Rightarrow> string list \<Rightarrow> str_env" where
  "add_pairs e (k # v # r) = add_pairs (AList.update k v e) r"
| "add_pairs e _ = e"

definition NewStringExpression :: "os_env \<Rightarrow> string list \<Rightarrow> str_env go" where
  "NewStringExpression os envs =
     bindg (foldg add_environ [] (os_environ os)) (\<lambda>e.
       let e' = add_pairs e envs
       in Ret (case os_hostname os of None \<Rightarrow> e' | Some h \<Rightarrow> AList.update ''host_node_name'' h e'))"

definition se_Add :: "str_env \<Rightarrow> string \<Rightarrow> string \<Rightarrow> str_env" where
  "se_Add e k v = AList.update k v e"

datatype eval_error =
    NoVariable string
  | NotAnInteger string
  | NotImplementType char
  | InvalidFormat

definition is_letter :: "char \<Rightarrow> bool" where
  "is_letter c \<longleftrightarrow> (let n = of_char c in (97 \<le> n \<and> n \<le> 122) \<or> (65 \<le> n \<and> n \<le> (90::nat)))"

text \<open>
  One pass of the loop of \<open>Eval\<close>: \<open>Inl\<close> the result, or \<open>Inr\<close> the string of the next pass.
  \<open>s = u @ "%(" @ name @ ")" @ mid @ [typ] @ tail\<close>, \<open>mid\<close> free of letters.
\<close>

definition eval_step ::
  "(string \<Rightarrow> int \<Rightarrow> string) \<Rightarrow> str_env \<Rightarrow> string \<Rightarrow> (eval_error + string) + string" where
  "eval_step other e s =
     (case index_of s ''%('' of
        None \<Rightarrow> Inl (Inr s)
      | Some start \<Rightarrow>
          (let u = take start s;
               r = drop (start + 2) s;
               varName = takeWhile (\<lambda>c. c \<noteq> CHR '')'') r;
               after = drop 1 (dropWhile (\<lambda>c. c \<noteq> CHR '')'') r);
               mid = takeWhile (\<lambda>c. \<not> is_letter c) after
           in case dropWhile (\<lambda>c. \<not> is_letter c) after of
                [] \<Rightarrow> Inl (Inl InvalidFormat)
              | typ # tail \<Rightarrow>
                  (case map_of e varName of
                     None \<Rightarrow> Inl (Inl (NoVariable varName))
                   | Some v \<Rightarrow>
                       if typ = CHR ''d'' then
                         (case Atoi v of
                            None \<Rightarrow> Inl (Inl (NotAnInteger v))
                          | Some i \<Rightarrow>
                              Inr (u @ (case sprintf_d mid i of Some t \<Rightarrow> t | None \<Rightarrow> other mid i) @ tail))
                       else if typ = CHR ''s'' then Inr (u @ v @ tail)
                       else Inl (Inl (NotImplementType typ)))))"

partial_function (option) eval_loop ::
  "(string \<Rightarrow> int \<Rightarrow> string) \<Rightarrow> str_env \<Rightarrow> string \<Rightarrow> (eval_error + string) option" where
  "eval_loop other e s =
     (case eval_step other e s of Inl r \<Rightarrow> Some r | Inr s' \<Rightarrow> eval_loop other e s')"

definition Eval :: "(string \<Rightarrow> int \<Rightarrow> string) \<Rightarrow> str_env \<Rightarrow> string \<Rightarrow> (eval_error + string) go" where
  "Eval other e s = (case eval_loop other e s of None \<Rightarrow> Hang | Some r \<Rightarrow> Ret r)"

declare eval_loop.simps [code]

section \<open>Templates\<close>

text \<open>
  The language \<open>Eval\<close> accepts, as syntax: literal text, \<open>%(name)s\<close>, and \<open>%(name)Md\<close>
  with \<open>M\<close> the flags, width and precision.
\<close>

datatype template = Lit string | VarS string | VarD string string

fun render :: "template list \<Rightarrow> string" where
  "render [] = []"
| "render (Lit t # ts) = t @ render ts"
| "render (VarS x # ts) = ''%('' @ x @ '')s'' @ render ts"
| "render (VarD m x # ts) = ''%('' @ x @ '')'' @ m @ ''d'' @ render ts"

fun subst1 :: "str_env \<Rightarrow> template \<Rightarrow> string option" where
  "subst1 e (Lit t) = Some t"
| "subst1 e (VarS x) = map_of e x"
| "subst1 e (VarD m x) =
     (case map_of e x of None \<Rightarrow> None
      | Some v \<Rightarrow> (case Atoi v of None \<Rightarrow> None | Some i \<Rightarrow> sprintf_d m i))"

fun subst_all :: "str_env \<Rightarrow> template list \<Rightarrow> string option" where
  "subst_all e [] = Some []"
| "subst_all e (t # ts) =
     (case subst1 e t of None \<Rightarrow> None
      | Some u \<Rightarrow> map_option ((@) u) (subst_all e ts))"

fun wf_template :: "template \<Rightarrow> bool" where
  "wf_template (Lit t) \<longleftrightarrow> CHR ''%'' \<notin> set t"
| "wf_template (VarS x) \<longleftrightarrow> CHR '')'' \<notin> set x"
| "wf_template (VarD m x) \<longleftrightarrow> CHR '')'' \<notin> set x \<and> (\<forall>c\<in>set m. \<not> is_letter c)"

definition percent_free :: "str_env \<Rightarrow> bool" where
  "percent_free e \<longleftrightarrow> (\<forall>v\<in>set (map snd e). CHR ''%'' \<notin> set v)"

section \<open>Properties of the formatter\<close>

lemma percent_notin_show_nat [simp]: "CHR ''%'' \<notin> set (show_nat n)"
  using show_nat_digits[of "CHR ''%''" n] by (auto dest: digit_char_not(3)[symmetric])

lemma percent_notin_fmt_integer [simp]: "CHR ''%'' \<notin> set (fmt_integer f w p i)"
  by (auto simp: fmt_integer_def Let_def)

lemma percent_notin_sprintf_d: "sprintf_d m i = Some t \<Longrightarrow> CHR ''%'' \<notin> set t"
  by (auto simp: sprintf_d_def Let_def split: prod.splits option.splits list.splits if_splits)

lemma sprintf_d_plain [simp]: "sprintf_d [] i = Some (Itoa i)"
  by (auto simp: sprintf_d_def fmt_integer_def take_digits_def small_num_def parse_nat_def Itoa_def Let_def)

section \<open>Properties of Eval\<close>

lemma eval_step_no_marker: "index_of s ''%('' = None \<Longrightarrow> eval_step other e s = Inl (Inr s)"
  by (simp add: eval_step_def)

lemma eval_step_var:
  assumes u: "CHR ''%'' \<notin> set u" and x: "CHR '')'' \<notin> set x"
    and m: "\<forall>c\<in>set m. \<not> is_letter c" and t: "is_letter t"
    and v: "map_of e x = Some v"
  shows "eval_step other e (u @ ''%('' @ x @ '')'' @ m @ t # tail) =
    (if t = CHR ''d'' then
       (case Atoi v of None \<Rightarrow> Inl (Inl (NotAnInteger v))
        | Some i \<Rightarrow> Inr (u @ (case sprintf_d m i of Some w \<Rightarrow> w | None \<Rightarrow> other m i) @ tail))
     else if t = CHR ''s'' then Inr (u @ v @ tail)
     else Inl (Inl (NotImplementType t)))"
proof -
  let ?r = "x @ '')'' @ m @ t # tail"
  have i: "index_of (u @ ''%('' @ ?r) ''%('' = Some (length u)"
    using index_of_skip[OF u, of "''(''" ?r] by simp
  have tk: "take (length u) (u @ ''%('' @ ?r) = u" and dr: "drop (length u + 2) (u @ ''%('' @ ?r) = ?r"
    by simp_all
  have tw: "takeWhile (\<lambda>c. c \<noteq> CHR '')'') ?r = x"
    and dw: "drop 1 (dropWhile (\<lambda>c. c \<noteq> CHR '')'') ?r) = m @ t # tail"
    using x by (auto simp: takeWhile_append dropWhile_append)
  have tm: "takeWhile (\<lambda>c. \<not> is_letter c) (m @ t # tail) = m"
    and dm: "dropWhile (\<lambda>c. \<not> is_letter c) (m @ t # tail) = t # tail"
    using m t by (auto simp: takeWhile_append dropWhile_append)
  show ?thesis
    by (simp only: eval_step_def Let_def i option.case tk dr tw dw tm dm list.case v)
qed

lemma is_letter_sd [simp]: "is_letter (CHR ''s'')" "is_letter (CHR ''d'')"
  by (simp_all add: is_letter_def Let_def)

lemma percent_free_value: "percent_free e \<Longrightarrow> map_of e x = Some v \<Longrightarrow> CHR ''%'' \<notin> set v"
  by (auto simp: percent_free_def dest!: map_of_SomeD)

text \<open>Evaluation of a well-formed template after percent-free text.\<close>

lemma eval_loop_render:
  assumes "percent_free e"
  shows "\<forall>t\<in>set ts. wf_template t \<Longrightarrow> subst_all e ts = Some r \<Longrightarrow> CHR ''%'' \<notin> set u \<Longrightarrow>
    eval_loop other e (u @ render ts) = Some (Inr (u @ r))"
proof (induction ts arbitrary: u r)
  case Nil
  then show ?case
    by (subst eval_loop.simps) (simp add: eval_step_no_marker index_of_absent)
next
  case (Cons t ts)
  obtain w r' where w: "subst1 e t = Some w" and r': "subst_all e ts = Some r'" and r: "r = w @ r'"
    using Cons.prems(2) by (auto split: option.splits)
  have IH: "CHR ''%'' \<notin> set u' \<Longrightarrow> eval_loop other e (u' @ render ts) = Some (Inr (u' @ r'))" for u'
    using Cons.IH[OF _ r'] Cons.prems(1) by simp
  show ?case
  proof (cases t)
    case (Lit s)
    with Cons.prems w IH[of "u @ s"] r show ?thesis by simp
  next
    case (VarS x)
    with w have v: "map_of e x = Some w" by simp
    have st: "eval_step other e (u @ ''%('' @ x @ '')'' @ [] @ CHR ''s'' # render ts) = Inr (u @ w @ render ts)"
      using eval_step_var[OF Cons.prems(3) _ _ _ v, of "[]" "CHR ''s''"] Cons.prems(1) VarS by simp
    have "CHR ''%'' \<notin> set (u @ w)"
      using Cons.prems(3) percent_free_value[OF assms v] by simp
    from IH[OF this] st r VarS show ?thesis
      by (subst eval_loop.simps) simp
  next
    case (VarD m x)
    then obtain v i where v: "map_of e x = Some v" "Atoi v = Some i" "sprintf_d m i = Some w"
      using w by (auto split: option.splits)
    have st: "eval_step other e (u @ ''%('' @ x @ '')'' @ m @ CHR ''d'' # render ts) = Inr (u @ w @ render ts)"
      using eval_step_var[OF Cons.prems(3) _ _ _ v(1), of m "CHR ''d''"] Cons.prems(1) VarD v by simp
    have "CHR ''%'' \<notin> set (u @ w)"
      using Cons.prems(3) percent_notin_sprintf_d[OF v(3)] by simp
    from IH[OF this] st r VarD show ?thesis
      by (subst eval_loop.simps) simp
  qed
qed

lemma eval_loop_stuck:
  assumes "eval_step other e s = Inr s"
  shows "eval_loop other e s = None"
proof (rule ccontr)
  assume "eval_loop other e s \<noteq> None"
  then obtain r where ret: "eval_loop other e s = Some r" by blast
  have "\<not> (other, e, s) = (other, e, s)"
  proof (rule eval_loop.raw_induct[where P = "\<lambda>o' e' s' r'. \<not> (o', e', s') = (other, e, s)", OF _ ret])
    fix loop o' e' s' r'
    assume IH: "\<And>o' e' s' r'. loop o' e' s' = Some r' \<Longrightarrow> \<not> (o', e', s') = (other, e, s)"
      and eq: "(case eval_step o' e' s' of Inl r \<Rightarrow> Some r | Inr s'' \<Rightarrow> loop o' e' s'') = Some r'"
    show "\<not> (o', e', s') = (other, e, s)"
    proof
      assume "(o', e', s') = (other, e, s)"
      with eq assms have "loop other e s = Some r'" by simp
      with IH show False by blast
    qed
  qed
  then show False by simp
qed

lemma Eval_plain: "index_of s ''%('' = None \<Longrightarrow> Eval other e s = Ret (Inr s)"
  by (simp add: Eval_def eval_loop.simps eval_step_no_marker)

section \<open>Claims\<close>

lemma eval_step_returns: "eval_step other e s = Inl (Inr t) \<Longrightarrow> index_of t ''%('' = None"
  by (auto simp: eval_step_def Let_def split: option.splits list.splits if_splits)

text \<open>What \<open>Eval\<close> returns has no variable left.\<close>

lemma Eval_result_plain: "Eval other e s = Ret (Inr t) \<Longrightarrow> index_of t ''%('' = None"
proof -
  have "r = Inr t \<longrightarrow> index_of t ''%('' = None" if "eval_loop other e s = Some r" for r
  proof (rule eval_loop.raw_induct[where P = "\<lambda>other e s r. r = Inr t \<longrightarrow> index_of t ''%('' = None", OF _ that])
    fix rec other e s y
    assume IH: "\<And>other e s y. rec other e s = Some y \<Longrightarrow> y = Inr t \<longrightarrow> index_of t ''%('' = None"
      and y: "(case eval_step other e s of Inl r \<Rightarrow> Some r | Inr s' \<Rightarrow> rec other e s') = Some y"
    from y IH show "y = Inr t \<longrightarrow> index_of t ''%('' = None"
      by (cases "eval_step other e s") (auto dest: eval_step_returns)
  qed
  then show "Eval other e s = Ret (Inr t) \<Longrightarrow> index_of t ''%('' = None"
    by (auto simp: Eval_def split: option.splits)
qed

text \<open>
  C19. On a well-formed template (literal text without \<open>%\<close>, \<open>%(name)s\<close>, \<open>%(name)Md\<close> with a
  directive \<open>M\<close> that \<open>fmt\<close> understands) whose variables are all defined with percent-free
  values, \<open>Eval\<close> returns, and the result is the template with every variable replaced.
\<close>

theorem Eval_substitutes:
  assumes "percent_free e" and "\<forall>t\<in>set ts. wf_template t" and "subst_all e ts = Some r"
  shows "Eval other e (render ts) = Ret (Inr r)"
  using eval_loop_render[OF assms, of "[]" other] by (simp add: Eval_def)

theorem Eval_substitutes_witness:
  "Eval (\<lambda>_ _. []) [(''program_name'', ''telegraf''), (''process_num'', ''7'')]
     ''/var/log/%(program_name)s-%(process_num)02d.log'' = Ret (Inr ''/var/log/telegraf-07.log'')"
proof -
  let ?e = "[(''program_name'', ''telegraf''), (''process_num'', ''7'')]"
  let ?ts = "[Lit ''/var/log/'', VarS ''program_name'', Lit ''-'', VarD ''02'' ''process_num'', Lit ''.log'']"
  have "percent_free ?e" by code_simp
  moreover have "\<forall>t\<in>set ?ts. wf_template t" by code_simp
  moreover have "subst_all ?e ?ts = Some ''/var/log/telegraf-07.log''" by code_simp
  ultimately have "Eval (\<lambda>_ _. []) ?e (render ?ts) = Ret (Inr ''/var/log/telegraf-07.log'')"
    by (rule Eval_substitutes)
  then show ?thesis by simp
qed

text \<open>
  A variable whose value is its own template makes \<open>Eval\<close> run forever: each pass of the
  loop rewrites the string to itself.
\<close>

theorem Eval_self_reference_hangs:
  assumes "CHR '')'' \<notin> set x" and "map_of e x = Some (render [VarS x])"
  shows "Eval other e (render [VarS x]) = Hang"
proof -
  have "eval_step other e (render [VarS x]) = Inr (render [VarS x])"
    using eval_step_var[of "[]" x "[]" "CHR ''s''" e "render [VarS x]" other "[]"] assms by simp
  then show ?thesis by (simp add: Eval_def eval_loop_stuck)
qed

theorem Eval_self_reference_hangs_witness:
  "Eval (\<lambda>_ _. []) [(''a'', ''%(a)s'')] ''%(a)s'' = Hang"
  using Eval_self_reference_hangs[of "''a''" "[(''a'', ''%(a)s'')]" "\<lambda>_ _. []"] by simp

lemma add_environ_split:
  "CHR ''='' \<notin> set k \<Longrightarrow>
   add_environ e (k @ CHR ''='' # v) = Ret (AList.update (''ENV_'' @ k) (hd (split_char (CHR ''='') v)) e)"
  by (cases "split_char (CHR ''='') v") (auto simp: add_environ_def split_char_append)

lemma add_environ_no_eq: "CHR ''='' \<notin> set s \<Longrightarrow> add_environ e s = Panic"
  by (simp add: add_environ_def split_char_single)

text \<open>
  \<open>NewStringExpression\<close> keeps, of an environment variable \<open>k=v\<close>, only the part of \<open>v\<close>
  before its first \<open>=\<close>; the whole value arrives only when \<open>v\<close> has no \<open>=\<close>.
\<close>

lemma environ_value_cut_at_equals:
  assumes "CHR ''='' \<notin> set k" and "CHR ''='' \<notin> set v1"
    and "os = \<lparr>os_environ = [k @ ''='' @ v1 @ ''='' @ v2], os_hostname = None, fmt_other = fo\<rparr>"
  shows "NewStringExpression os [] = Ret [(''ENV_'' @ k, v1)]"
  using assms(2) by (simp add: assms(3) NewStringExpression_def add_environ_split[OF assms(1)] split_char_append)

lemma environ_value_cut_at_equals_witness:
  "NewStringExpression \<lparr>os_environ = [''OPTS=-Dx=1''], os_hostname = None, fmt_other = (\<lambda>_ _. [])\<rparr> [] = Ret [(''ENV_OPTS'', ''-Dx'')]"
  using environ_value_cut_at_equals[of "''OPTS''" "''-Dx''" _ "''1''" "\<lambda>_ _. []"] by simp

end
