(* ===== verification/ConfigEntries.thy ===== *)
theory ConfigEntries
  imports StringExpr
begin

text \<open>
  \<open>ConfigEntry\<close> of \<open>subprocess/config/config.go\<close>: one section of the supervisor's configuration
  and its typed accessors. An accessor that evaluates templates returns a \<open>go\<close> outcome, because
  \<open>Eval\<close> may not return and \<open>NewStringExpression\<close> may panic. The lemmas show the byte-size
  suffixes with their wrap-around, the round trip of quoted environment settings, and the
  inputs on which \<open>GetEnv\<close> panics.
\<close>

record ConfigEntry =
  ConfigDir :: string
  ce_Group :: string
  ce_Name :: string
  keyValues :: "(string, string) gomap"

definition NewConfigEntry :: "string \<Rightarrow> ConfigEntry" where
  "NewConfigEntry configDir = \<lparr>ConfigDir = configDir, ce_Group = [], ce_Name = [], keyValues = []\<rparr>"

section \<open>The kind and the name of an entry\<close>

definition IsProgram :: "ConfigEntry \<Rightarrow> bool" where
  "IsProgram c = has_prefix (ce_Name c) ''program:''"

definition GetProgramName :: "ConfigEntry \<Rightarrow> string" where
  "GetProgramName c =
     (if has_prefix (ce_Name c) ''program:'' then drop (length ''program:'') (ce_Name c) else [])"

definition IsEventListener :: "ConfigEntry \<Rightarrow> bool" where
  "IsEventListener c = has_prefix (ce_Name c) ''eventlistener:''"

definition GetEventListenerName :: "ConfigEntry \<Rightarrow> string" where
  "GetEventListenerName c =
     (if has_prefix (ce_Name c) ''eventlistener:'' then drop (length ''eventlistener:'') (ce_Name c) else [])"

definition IsGroup :: "ConfigEntry \<Rightarrow> bool" where
  "IsGroup c = has_prefix (ce_Name c) ''group:''"

definition GetGroupName :: "ConfigEntry \<Rightarrow> string" where
  "GetGroupName c =
     (if has_prefix (ce_Name c) ''group:'' then drop (length ''group:'') (ce_Name c) else [])"

definition setGroup :: "string \<Rightarrow> ConfigEntry \<Rightarrow> ConfigEntry" where
  "setGroup grp c = c\<lparr>ce_Group := grp\<rparr>"

section \<open>Typed accessors\<close>

definition GetBool :: "ConfigEntry \<Rightarrow> string \<Rightarrow> bool \<Rightarrow> bool" where
  "GetBool c key defValue = (case map_of (keyValues c) key of
       None \<Rightarrow> defValue
     | Some value \<Rightarrow> (case ParseBool value of Some b \<Rightarrow> b | None \<Rightarrow> defValue))"

definition HasParameter :: "ConfigEntry \<Rightarrow> string \<Rightarrow> bool" where
  "HasParameter c key \<longleftrightarrow> map_of (keyValues c) key \<noteq> None"

definition toInt :: "string \<Rightarrow> int \<Rightarrow> int \<Rightarrow> int" where
  "toInt s factor defValue = (case Atoi s of Some i \<Rightarrow> wrap64 (i * factor) | None \<Rightarrow> defValue)"

definition GetInt :: "ConfigEntry \<Rightarrow> string \<Rightarrow> int \<Rightarrow> int" where
  "GetInt c key defValue = (case map_of (keyValues c) key of
       None \<Rightarrow> defValue
     | Some value \<Rightarrow> toInt value 1 defValue)"

definition GetBytes :: "ConfigEntry \<Rightarrow> string \<Rightarrow> int \<Rightarrow> int" where
  "GetBytes c key defValue = (case map_of (keyValues c) key of
       None \<Rightarrow> defValue
     | Some v \<Rightarrow>
         (let n = length v; lastTwoBytes = drop (n - 2) v; front = take (n - 2) v
          in if n > 2 \<and> lastTwoBytes = ''MB'' then toInt front (1024 * 1024) defValue
             else if n > 2 \<and> lastTwoBytes = ''GB'' then toInt front (1024 * 1024 * 1024) defValue
             else if n > 2 \<and> lastTwoBytes = ''KB'' then toInt front 1024 defValue
             else toInt v 1 defValue))"

definition GetString :: "os_env \<Rightarrow> ConfigEntry \<Rightarrow> string \<Rightarrow> string \<Rightarrow> string go" where
  "GetString os c key defValue = (case map_of (keyValues c) key of
       None \<Rightarrow> Ret defValue
     | Some s \<Rightarrow>
         bindg (NewStringExpression os [''here'', ConfigDir c]) (\<lambda>env.
         bindg (Eval (fmt_other os) env s) (\<lambda>r.
           Ret (case r of Inr rep_s \<Rightarrow> rep_s | Inl err \<Rightarrow> defValue))))"

text \<open>The default argument of the source is never used: an absent or empty key gives \<open>""\<close>.\<close>

definition GetStringExpression :: "os_env \<Rightarrow> ConfigEntry \<Rightarrow> string \<Rightarrow> string \<Rightarrow> string go" where
  "GetStringExpression os c key defValue = (case map_of (keyValues c) key of
       None \<Rightarrow> Ret []
     | Some s \<Rightarrow>
         if s = [] then Ret []
         else
           (let host_name = (case os_hostname os of None \<Rightarrow> ''Unknown'' | Some h \<Rightarrow> h)
            in bindg (GetString os c ''process_num'' ''0'') (\<lambda>process_num.
               bindg (NewStringExpression os
                 [''program_name'', GetProgramName c,
                  ''process_num'', process_num,
                  ''group_name'', GetGroupName c,
                  ''here'', ConfigDir c,
                  ''host_node_name'', host_name]) (\<lambda>env.
               bindg (Eval (fmt_other os) env s) (\<lambda>r.
                 Ret (case r of Inl err \<Rightarrow> s | Inr result \<Rightarrow> result))))))"

definition GetStringArray :: "ConfigEntry \<Rightarrow> string \<Rightarrow> char \<Rightarrow> string list" where
  "GetStringArray c key sep = (case map_of (keyValues c) key of
       None \<Rightarrow> []
     | Some s \<Rightarrow> split_char sep s)"

definition ce_GetPrograms :: "ConfigEntry \<Rightarrow> string list" where
  "ce_GetPrograms c = (if IsGroup c then map TrimSpace (GetStringArray c ''programs'' (CHR '','')) else [])"

section \<open>GetEnv\<close>

text \<open>The scanning loops \<open>for i = start; i < n && value[i] != ch; { i++ }\<close>.\<close>

definition scan_to :: "char \<Rightarrow> string \<Rightarrow> nat \<Rightarrow> nat" where
  "scan_to ch v i = i + length (takeWhile (\<lambda>c. c \<noteq> ch) (drop i v))"

definition slice :: "'a list \<Rightarrow> nat \<Rightarrow> nat \<Rightarrow> 'a list" where
  "slice xs i j = take (j - i) (drop i xs)"

definition env_item :: "string \<Rightarrow> string \<Rightarrow> string" where
  "env_item key val = TrimSpace key @ ''='' @ TrimSpace val"

text \<open>The endless \<open>for\<close> of \<open>GetEnv\<close>; reading \<open>value[start]\<close> past the end panics.\<close>

function getenv_loop :: "string \<Rightarrow> nat \<Rightarrow> string list \<Rightarrow> string list go" where
  "getenv_loop value start env =
     (let n = length value;
          i = scan_to (CHR ''='') value start;
          key = slice value start i;
          start1 = i + 1
      in if n \<le> start1 then Panic
         else if value ! start1 = CHR 0x22 then
           (let j = scan_to (CHR 0x22) value (start1 + 1);
                env' = (if j < n then env @ [env_item key (slice value (start1 + 1) j)] else env)
            in if j + 1 < n \<and> value ! (j + 1) = CHR '','' then getenv_loop value (j + 2) env'
               else Ret env')
         else
           (let j = scan_to (CHR '','') value start1
            in if j < n then getenv_loop value (j + 1) (env @ [env_item key (slice value start1 j)])
               else Ret (env @ [env_item key (drop start1 value)])))"
  by pat_completeness auto
termination
  by (relation "measure (\<lambda>(value, start, env). length value + 1 - start)") (auto simp: scan_to_def)

declare getenv_loop.simps [simp del]

definition env_scope :: "os_env \<Rightarrow> ConfigEntry \<Rightarrow> str_env go" where
  "env_scope os c =
     bindg (GetString os c ''process_num'' ''0'') (\<lambda>process_num.
       NewStringExpression os [''program_name'', GetProgramName c, ''process_num'', process_num,
         ''group_name'', GetGroupName c, ''here'', ConfigDir c])"

definition GetEnv :: "os_env \<Rightarrow> ConfigEntry \<Rightarrow> string \<Rightarrow> string list go" where
  "GetEnv os c key =
     bindg (case map_of (keyValues c) key of None \<Rightarrow> Ret [] | Some value \<Rightarrow> getenv_loop value 0 [])
       (foldg (\<lambda>result item.
          bindg (env_scope os c) (\<lambda>env.
          bindg (Eval (fmt_other os) env item) (\<lambda>r.
            Ret (case r of Inr tmp \<Rightarrow> result @ [tmp] | Inl err \<Rightarrow> result)))) [])"

section \<open>Lemmas\<close>

lemmas entry_kind_defs = IsProgram_def IsEventListener_def IsGroup_def
  GetProgramName_def GetEventListenerName_def GetGroupName_def

lemma entry_kinds_disjoint:
  "IsProgram c \<Longrightarrow> \<not> IsEventListener c \<and> \<not> IsGroup c"
  "IsEventListener c \<Longrightarrow> \<not> IsGroup c"
  by (auto simp: entry_kind_defs has_prefix_iff)

lemma program_name_round [simp]:
  "IsProgram (c\<lparr>ce_Name := ''program:'' @ n\<rparr>)"
  "GetProgramName (c\<lparr>ce_Name := ''program:'' @ n\<rparr>) = n"
  by (auto simp: entry_kind_defs has_prefix_def)

lemma program_name_inj:
  "IsProgram c \<Longrightarrow> ce_Name c = ''program:'' @ GetProgramName c"
  by (auto simp: entry_kind_defs has_prefix_iff)

lemma toInt_Itoa: "in_int64 n \<Longrightarrow> toInt (Itoa n) factor d = wrap64 (n * factor)"
  by (simp add: toInt_def)

lemma GetInt_range: "in_int64 d \<Longrightarrow> in_int64 (GetInt c key d)"
  by (auto simp: GetInt_def toInt_def split: option.splits)

lemma GetString_plain:
  assumes "map_of (keyValues c) key = Some s" and "CHR ''%'' \<notin> set s"
    and "NewStringExpression os [''here'', ConfigDir c] = Ret env"
  shows "GetString os c key d = Ret s"
  using assms by (simp add: GetString_def Eval_plain index_of_absent)

lemma GetString_absent [simp]: "map_of (keyValues c) key = None \<Longrightarrow> GetString os c key d = Ret d"
  by (simp add: GetString_def)

lemma set_trim_by: "set (trim_by f s) \<subseteq> set s"
proof (induction f s rule: trim_by.induct)
  case (2 f c s)
  show ?case
  proof (cases "f (c # s)")
    case (Suc k)
    with "2" have "set (trim_by f (drop k s)) \<subseteq> set (drop k s)" by simp
    also have "\<dots> \<subseteq> set s" by (rule set_drop_subset)
    finally show ?thesis using Suc by auto
  qed simp
qed simp

lemma set_TrimSpace: "set (TrimSpace s) \<subseteq> set s"
  using set_trim_by[of space_len s] set_trim_by[of rspace_len "rev (trim_by space_len s)"]
  by (auto simp: TrimSpace_def)

lemma percent_notin_env_item:
  "CHR ''%'' \<notin> set k \<Longrightarrow> CHR ''%'' \<notin> set v \<Longrightarrow> CHR ''%'' \<notin> set (env_item k v)"
  using set_TrimSpace[of k] set_TrimSpace[of v] by (auto simp: env_item_def)

lemma scan_to_hit: "ch \<notin> set u \<Longrightarrow> scan_to ch (pre @ u @ ch # t) (length pre) = length pre + length u"
  by (induction u) (auto simp: scan_to_def)

lemma scan_to_miss: "ch \<notin> set u \<Longrightarrow> scan_to ch (pre @ u) (length pre) = length pre + length u"
  by (induction u) (auto simp: scan_to_def)

lemma slice_mid: "slice (pre @ u @ t) (length pre) (length pre + length u) = u"
  by (simp add: slice_def)

text \<open>The documented form \<open>A="env 1",B="this is a test"\<close>.\<close>

definition quoted :: "string \<times> string \<Rightarrow> string" where
  "quoted kv = fst kv @ ''='' @ [CHR 0x22] @ snd kv @ [CHR 0x22]"

definition quotable :: "string \<times> string \<Rightarrow> bool" where
  "quotable kv \<longleftrightarrow> CHR ''='' \<notin> set (fst kv) \<and> CHR 0x22 \<notin> set (snd kv) \<and>
     CHR ''%'' \<notin> set (fst kv) \<and> CHR ''%'' \<notin> set (snd kv)"

text \<open>One pass of the loop over a quoted item.\<close>

lemma getenv_loop_quoted:
  assumes "CHR ''='' \<notin> set k" and "CHR 0x22 \<notin> set v"
  shows "getenv_loop (pre @ quoted (k, v) @ rest) (length pre) env =
    (if rest \<noteq> [] \<and> hd rest = CHR '','' then
       getenv_loop (pre @ quoted (k, v) @ rest) (length pre + length (quoted (k, v)) + 1) (env @ [env_item k v])
     else Ret (env @ [env_item k v]))"
proof -
  let ?q = "CHR 0x22"
  let ?w = "pre @ quoted (k, v) @ rest"
  have w: "?w = pre @ k @ CHR ''='' # (?q # v @ ?q # rest)" by (simp add: quoted_def)
  have w2: "?w = (pre @ k @ [CHR ''='', ?q]) @ v @ ?q # rest" by (simp add: quoted_def)
  have i: "scan_to (CHR ''='') ?w (length pre) = length pre + length k"
    unfolding w by (rule scan_to_hit[OF assms(1)])
  have key: "slice ?w (length pre) (length pre + length k) = k"
    unfolding w by (rule slice_mid)
  have j: "scan_to ?q ?w (length pre + length k + 2) = length pre + length k + 2 + length v"
    using scan_to_hit[OF assms(2), of "pre @ k @ [CHR ''='', ?q]" rest] w2 by simp
  have val: "slice ?w (length pre + length k + 2) (length pre + length k + 2 + length v) = v"
    using slice_mid[of "pre @ k @ [CHR ''='', ?q]" v "?q # rest"] w2 by simp
  have q: "?w ! Suc (length pre + length k) = ?q"
    by (simp add: w nth_append)
  have c: "rest \<noteq> [] \<Longrightarrow> ?w ! (length pre + length k + 3 + length v) = hd rest"
    by (simp add: w nth_append hd_conv_nth)
  have len: "length ?w = length pre + length k + 3 + length v + length rest"
    by (simp add: quoted_def)
  have lq: "length (quoted (k, v)) = length k + length v + 3" by (simp add: quoted_def)
  show ?thesis
    using i key j val q c len lq
    by (subst getenv_loop.simps) (auto simp: Let_def numeral_eq_Suc ac_simps)
qed

lemma getenv_loop_items:
  assumes "kvs \<noteq> []" and "\<forall>kv\<in>set kvs. quotable kv"
  shows "getenv_loop (pre @ join_with '','' (map quoted kvs)) (length pre) env =
    Ret (env @ map (\<lambda>(k, v). env_item k v) kvs)"
  using assms
proof (induction kvs arbitrary: pre env)
  case (Cons kv kvs)
  obtain k v where kv: "kv = (k, v)" by (cases kv)
  with Cons.prems have q: "CHR ''='' \<notin> set k" "CHR 0x22 \<notin> set v" by (auto simp: quotable_def)
  show ?case
  proof (cases kvs)
    case Nil
    with getenv_loop_quoted[OF q, of pre "[]" env] kv show ?thesis by simp
  next
    case (Cons kv' r)
    let ?rest = "'','' @ join_with '','' (map quoted kvs)"
    have eq: "pre @ join_with '','' (map quoted (kv # kvs)) = pre @ quoted (k, v) @ ?rest"
      using kv Cons by simp
    have "getenv_loop (pre @ quoted (k, v) @ ?rest) (length pre) env =
      getenv_loop (pre @ quoted (k, v) @ ?rest) (length pre + length (quoted (k, v)) + 1) (env @ [env_item k v])"
      by (subst getenv_loop_quoted[OF q]) simp
    also have "\<dots> = Ret ((env @ [env_item k v]) @ map (\<lambda>(k, v). env_item k v) kvs)"
      using Cons.IH[of "pre @ quoted (k, v) @ '',''" "env @ [env_item k v]"] Cons.prems Cons by simp
    finally show ?thesis using eq kv by simp
  qed
qed simp

text \<open>The loop over a run of quoted items, each followed by a comma.\<close>

lemma getenv_loop_prefix:
  assumes "\<forall>kv\<in>set kvs. quotable kv"
  shows "getenv_loop (pre @ concat (map (\<lambda>kv. quoted kv @ '','') kvs) @ x) (length pre) env =
    getenv_loop (pre @ concat (map (\<lambda>kv. quoted kv @ '','') kvs) @ x)
      (length (pre @ concat (map (\<lambda>kv. quoted kv @ '','') kvs))) (env @ map (\<lambda>(k, v). env_item k v) kvs)"
  using assms
proof (induction kvs arbitrary: pre env)
  case (Cons kv kvs)
  obtain k v where kv: "kv = (k, v)" by (cases kv)
  with Cons.prems have q: "CHR ''='' \<notin> set k" "CHR 0x22 \<notin> set v" by (auto simp: quotable_def)
  let ?rest = "'','' @ concat (map (\<lambda>kv. quoted kv @ '','') kvs) @ x"
  have "getenv_loop (pre @ quoted (k, v) @ ?rest) (length pre) env =
    getenv_loop (pre @ quoted (k, v) @ ?rest) (length pre + length (quoted (k, v)) + 1) (env @ [env_item k v])"
    by (subst getenv_loop_quoted[OF q]) simp
  then show ?case
    using Cons.IH[of "pre @ quoted (k, v) @ '',''" "env @ [env_item k v]"] Cons.prems kv
    by (simp add: algebra_simps)
qed simp

lemma GetEnv_eval_plain:
  assumes "env_scope os c = Ret sc" and "\<forall>x\<in>set items. CHR ''%'' \<notin> set x"
  shows "foldg (\<lambda>result item.
          bindg (env_scope os c) (\<lambda>env.
          bindg (Eval (fmt_other os) env item) (\<lambda>r.
            Ret (case r of Inr tmp \<Rightarrow> result @ [tmp] | Inl err \<Rightarrow> result)))) acc items = Ret (acc @ items)"
  using assms(2) by (induction items arbitrary: acc) (auto simp: assms(1) Eval_plain index_of_absent)

section \<open>Claims\<close>

text \<open>
  \<open>GetEnv\<close> reads back every list of settings written in the documented quoted form
  (\<open>A="env 1",B="this is a test"\<close>), in order, each as \<open>key=value\<close> with the surrounding
  white space of both sides trimmed.
\<close>

theorem GetEnv_quoted_roundtrip:
  assumes "kvs \<noteq> []" and "\<forall>kv\<in>set kvs. quotable kv"
    and "map_of (keyValues c) key = Some (join_with '','' (map quoted kvs))"
    and "env_scope os c = Ret sc"
  shows "GetEnv os c key = Ret (map (\<lambda>(k, v). env_item k v) kvs)"
proof -
  have "\<forall>x\<in>set (map (\<lambda>(k, v). env_item k v) kvs). CHR ''%'' \<notin> set x"
    using assms(2) percent_notin_env_item by (fastforce simp: quotable_def)
  from GetEnv_eval_plain[OF assms(4) this, of "[]"]
  show ?thesis
    using getenv_loop_items[OF assms(1,2), of "[]" "[]"] assms(3) by (simp add: GetEnv_def)
qed

definition demo_os :: os_env where
  "demo_os = \<lparr>os_environ = [''HOME=/root'', ''LANG=C''], os_hostname = Some ''edge-1'', fmt_other = (\<lambda>_ _. [])\<rparr>"

theorem GetEnv_quoted_roundtrip_witness:
  "GetEnv demo_os \<lparr>ConfigDir = ''.'', ce_Group = ''g'', ce_Name = ''program:p'',
      keyValues = [(''environment'', ''A='' @ [CHR 0x22] @ ''env 1'' @ [CHR 0x22] @ '',B='' @ [CHR 0x22] @ ''x,y'' @ [CHR 0x22])]\<rparr>
     ''environment'' = Ret [''A=env 1'', ''B=x,y'']"
proof -
  let ?c = "\<lparr>ConfigDir = ''.'', ce_Group = ''g'', ce_Name = ''program:p'',
      keyValues = [(''environment'', ''A='' @ [CHR 0x22] @ ''env 1'' @ [CHR 0x22] @ '',B='' @ [CHR 0x22] @ ''x,y'' @ [CHR 0x22])]\<rparr>"
  let ?kvs = "[(''A'', ''env 1''), (''B'', ''x,y'')]"
  have "\<forall>kv\<in>set ?kvs. quotable kv" by code_simp
  moreover have "map_of (keyValues ?c) ''environment'' = Some (join_with '','' (map quoted ?kvs))"
    by (simp add: quoted_def)
  moreover have "is_Ret (env_scope demo_os ?c)" by code_simp
  then obtain sc where "env_scope demo_os ?c = Ret sc" by (auto simp: is_Ret_iff)
  moreover have "map (\<lambda>(k, v). env_item k v) ?kvs = [''A=env 1'', ''B=x,y'']" by code_simp
  ultimately show ?thesis using GetEnv_quoted_roundtrip[of ?kvs ?c "''environment''" demo_os sc] by simp
qed

text \<open>
  A last item without a value (\<open>...,KEY\<close>, \<open>...,KEY=\<close>, or a trailing comma) makes \<open>GetEnv\<close>
  index past the end of the string: the call panics instead of skipping the item.
\<close>

lemma GetEnv_missing_value_panics:
  assumes "\<forall>kv\<in>set kvs. quotable kv" and "CHR ''='' \<notin> set k" and "e = [] \<or> e = ''=''"
    and "map_of (keyValues c) key = Some (concat (map (\<lambda>kv. quoted kv @ '','') kvs) @ k @ e)"
  shows "GetEnv os c key = Panic"
proof -
  let ?pre = "concat (map (\<lambda>kv. quoted kv @ '','') kvs)"
  have "length (?pre @ k @ e) \<le> scan_to (CHR ''='') (?pre @ k @ e) (length ?pre) + 1"
    using assms(3) scan_to_hit[OF assms(2), of ?pre "[]"] scan_to_miss[OF assms(2), of ?pre] by auto
  then have "getenv_loop (?pre @ k @ e) (length ?pre) env = Panic" for env
    by (subst getenv_loop.simps) (simp add: Let_def)
  then have "getenv_loop (?pre @ k @ e) 0 [] = Panic"
    using getenv_loop_prefix[OF assms(1), of "[]" "k @ e" "[]"] by simp
  with assms(4) show ?thesis by (simp add: GetEnv_def)
qed

lemma GetEnv_missing_value_panics_witness:
  "GetEnv demo_os ((NewConfigEntry ''.'')\<lparr>keyValues := [(''environment'', ''A='' @ [CHR 0x22] @ ''1'' @ [CHR 0x22] @ '','')]\<rparr>)
     ''environment'' = Panic"
  by (rule GetEnv_missing_value_panics[of "[(''A'', ''1'')]" "[]" "[]"])
    (simp_all add: NewConfigEntry_def quotable_def quoted_def)

text \<open>
  A size setting with the suffix \<open>KB\<close>, \<open>MB\<close> or \<open>GB\<close> is the number times the unit in
  64-bit arithmetic: the exact product where it fits, and the wrapped one where it does not.
\<close>

theorem GetBytes_units:
  assumes "in_int64 n" and "(unit_sfx, factor) \<in> {(''KB'', 1024), (''MB'', 1024 ^ 2), (''GB'', 1024 ^ 3)}"
    and "map_of (keyValues c) key = Some (Itoa n @ unit_sfx)"
  shows "GetBytes c key d = wrap64 (n * factor) \<and> (in_int64 (n * factor) \<longrightarrow> GetBytes c key d = n * factor)"
proof -
  have l: "length unit_sfx = 2" using assms(2) by auto
  have "Itoa n \<noteq> []" by (simp add: Itoa_def)
  then have "2 < length (Itoa n @ unit_sfx)" using l by (cases "Itoa n") auto
  then have "GetBytes c key d = wrap64 (n * factor)"
    using assms l by (auto simp: GetBytes_def Let_def toInt_Itoa)
  then show ?thesis by simp
qed

theorem GetBytes_units_witness:
  "GetBytes ((NewConfigEntry ''.'')\<lparr>keyValues := [(''stdout_logfile_maxbytes'', Itoa 50 @ ''MB'')]\<rparr>)
     ''stdout_logfile_maxbytes'' 0 = 52428800 \<and>
   GetBytes ((NewConfigEntry ''.'')\<lparr>keyValues := [(''stdout_logfile_maxbytes'', Itoa (2 ^ 33) @ ''GB'')]\<rparr>)
     ''stdout_logfile_maxbytes'' 0 = - (2 ^ 63)"
proof -
  have a: "in_int64 50" "in_int64 (2 ^ 33)" by (simp_all add: in_int64_def)
  show ?thesis
    using GetBytes_units[OF a(1), of "''MB''" "1024 ^ 2" "((NewConfigEntry ''.'')\<lparr>keyValues := [(''stdout_logfile_maxbytes'', Itoa 50 @ ''MB'')]\<rparr>)" "''stdout_logfile_maxbytes''" 0]
      GetBytes_units[OF a(2), of "''GB''" "1024 ^ 3" "((NewConfigEntry ''.'')\<lparr>keyValues := [(''stdout_logfile_maxbytes'', Itoa (2 ^ 33) @ ''GB'')]\<rparr>)" "''stdout_logfile_maxbytes''" 0]
    by (simp add: in_int64_def wrap64_def)
qed

end
