(* ===== verification/Steps.thy ===== *)
theory Steps
  imports GoPrelude
begin

text \<open>
  Interfaces shared by the concurrent parts of the supervisor: a transition system with its
  reachable states, where a goroutine and the calls of other goroutines interleave as atomic
  steps, a bounded queue of which a client sees the content only, and a table by name.
\<close>

text \<open>
  A system whose steps are named by actions, \<open>None\<close> meaning that an action is not possible: the
  state after a list of actions.
\<close>

fun run_acts :: "('a \<Rightarrow> 's \<Rightarrow> 's option) \<Rightarrow> 'a list \<Rightarrow> 's \<Rightarrow> 's option" where
  "run_acts f [] s = Some s"
| "run_acts f (a # acts) s = (case f a s of None \<Rightarrow> None | Some s' \<Rightarrow> run_acts f acts s')"

lemma run_acts_append: "run_acts f acts s = Some s1 \<Longrightarrow> run_acts f (acts @ acts') s = run_acts f acts' s1"
  by (induction acts arbitrary: s) (auto split: option.splits)

locale transition_system =
  fixes initial :: "'s \<Rightarrow> bool"
    and step :: "'s \<Rightarrow> 's \<Rightarrow> bool"
begin

inductive reachable :: "'s \<Rightarrow> bool" where
  start: "initial s \<Longrightarrow> reachable s"
| move: "reachable s \<Longrightarrow> step s s' \<Longrightarrow> reachable s'"

lemma reachable_invariant:
  assumes "reachable s"
    and init: "\<And>s. initial s \<Longrightarrow> I s"
    and keep: "\<And>s s'. reachable s \<Longrightarrow> I s \<Longrightarrow> step s s' \<Longrightarrow> I s'"
  shows "I s"
  using assms(1) by induction (blast intro: init keep)+

lemma reachable_run: "reachable s \<Longrightarrow> step\<^sup>*\<^sup>* s t \<Longrightarrow> reachable t"
  by (rotate_tac, induction rule: rtranclp_induct) (blast intro: move)+

lemma reachable_iff: "reachable t \<longleftrightarrow> (\<exists>s. initial s \<and> step\<^sup>*\<^sup>* s t)"
proof
  assume "reachable t"
  then show "\<exists>s. initial s \<and> step\<^sup>*\<^sup>* s t"
    by induction (auto intro: rtranclp.rtrancl_into_rtrancl)
qed (auto intro: start reachable_run)

lemma reachable_acts:
  assumes "\<And>a s s'. f a s = Some s' \<Longrightarrow> step s s'" "run_acts f acts s = Some s'" "reachable s"
  shows "reachable s'"
  using assms(2,3)
proof (induction acts arbitrary: s)
  case (Cons a acts)
  then obtain s1 where "f a s = Some s1" "run_acts f acts s1 = Some s'" by (auto split: option.splits)
  moreover from this(1) have "reachable s1" using assms(1) Cons.prems(2) by (blast intro: move)
  ultimately show ?case by (blast intro: Cons.IH)
qed simp

end

text \<open>
  A first-in first-out queue that refuses an element when it is full: \<open>push\<close> tells whether the
  element was taken.
\<close>

locale bounded_fifo =
  fixes content :: "'q \<Rightarrow> 'a list"
    and capacity :: "'q \<Rightarrow> nat"
    and push :: "'a \<Rightarrow> 'q \<Rightarrow> 'q"
    and drop_first :: "'q \<Rightarrow> 'q"
    and front :: "'q \<Rightarrow> 'a option"
  assumes content_push: "content (push x q) = (if length (content q) < capacity q then content q @ [x] else content q)"
    and content_drop_first: "content (drop_first q) = tl (content q)"
    and front_content: "front q = (case content q of [] \<Rightarrow> None | x # xs \<Rightarrow> Some x)"
    and capacity_push: "capacity (push x q) = capacity q"
    and capacity_drop_first: "capacity (drop_first q) = capacity q"
begin

lemmas queue_simps = content_push content_drop_first capacity_push capacity_drop_first

lemma push_all_capacity: "capacity (foldl (\<lambda>q x. push x q) q xs) = capacity q"
  by (induction xs arbitrary: q) (simp_all add: queue_simps)

lemma push_bounded: "length (content q) \<le> capacity q \<Longrightarrow> length (content (push x q)) \<le> capacity (push x q)"
  by (simp add: queue_simps)

lemma front_stable: "content q \<noteq> [] \<Longrightarrow> front (push x q) = front q"
  by (cases "content q") (simp_all add: front_content content_push)

lemma push_all_content:
  "length (content q) \<le> capacity q \<Longrightarrow>
   content (foldl (\<lambda>q x. push x q) q xs) = take (capacity q) (content q @ xs)"
proof (induction xs arbitrary: q)
  case (Cons x xs)
  show ?case
  proof (cases "length (content q) < capacity q")
    case True
    then show ?thesis using Cons.IH[of "push x q"] by (simp add: queue_simps)
  next
    case False
    then show ?thesis using Cons.IH[of "push x q"] Cons.prems by (simp add: queue_simps)
  qed
qed simp

end

text \<open>A table from names to values: what a lookup gives after a deletion and after an update.\<close>

locale name_deletion =
  fixes lookup :: "'t \<Rightarrow> string \<Rightarrow> 'v option"
    and del :: "string \<Rightarrow> 't \<Rightarrow> 't"
  assumes lookup_del: "lookup (del k t) = (lookup t)(k := None)"
begin

lemma lookup_dels: "lookup (foldl (\<lambda>t k. del k t) t ks) = (\<lambda>k. if k \<in> set ks then None else lookup t k)"
  by (induction ks arbitrary: t) (auto simp: lookup_del)

end

locale name_table = name_deletion +
  fixes put :: "string \<Rightarrow> 'v \<Rightarrow> 't \<Rightarrow> 't"
  assumes lookup_put: "lookup (put k v t) = (lookup t)(k \<mapsto> v)"
begin

lemma lookup_put_del: "lookup (del k (put k v t)) = lookup (del k t)"
  by (simp add: lookup_del lookup_put)

end

end
