(* ===== verification/Events.thy ===== *)
theory Events
  imports ConfigEntries Steps
begin

text \<open>
  \<open>subprocess/events/events.go\<close>: the events, their bodies and their wire format, the serial
  numbers, the registry of event listeners and the delivery of an event to the listeners'
  queues. The package's global variables and the listeners, which the code shares by pointer,
  are one record: a listener is an address into \<open>listeners\<close>.
\<close>

section \<open>Events\<close>

record BaseEvent =
  be_serial :: "64 word"
  be_eventType :: string

datatype event =
    RemoteCommunicationEvent BaseEvent string string
  | ProcCommEvent BaseEvent string string int string
  | TickEvent BaseEvent int
  | ProcessStateEvent BaseEvent string string string int int int
  | SupervisorStateChangeEvent BaseEvent
  | ProcessLogEvent BaseEvent string string int string
  | ProcessGroupEvent BaseEvent string

fun base :: "event \<Rightarrow> BaseEvent" where
  "base (RemoteCommunicationEvent b typ data) = b"
| "base (ProcCommEvent b processName groupName pid data) = b"
| "base (TickEvent b w) = b"
| "base (ProcessStateEvent b process_name group_name from_state tries expected pid) = b"
| "base (SupervisorStateChangeEvent b) = b"
| "base (ProcessLogEvent b process_name group_name pid data) = b"
| "base (ProcessGroupEvent b group_name) = b"

definition GetSerial :: "event \<Rightarrow> 64 word" where
  "GetSerial e = be_serial (base e)"

definition GetType :: "event \<Rightarrow> string" where
  "GetType e = be_eventType (base e)"

definition proc_body :: "string \<Rightarrow> string \<Rightarrow> int \<Rightarrow> string \<Rightarrow> string" where
  "proc_body p g pid data =
     ''processname:'' @ p @ '' groupname:'' @ g @ '' pid:'' @ Itoa pid @ [CHR 0x0A] @ data"

definition state_body :: "string \<Rightarrow> string \<Rightarrow> string \<Rightarrow> int \<Rightarrow> int \<Rightarrow> int \<Rightarrow> string" where
  "state_body p g from_state tries expected pid =
     (let body = ''processname:'' @ p @ '' groupname:'' @ g @ '' from_state:'' @ from_state;
          body = (if tries \<ge> 0 then body @ '' tries:'' @ Itoa tries else body);
          body = (if expected \<noteq> - 1 then body @ '' expected:'' @ Itoa expected else body)
      in if pid \<noteq> 0 then body @ '' pid:'' @ Itoa pid else body)"

fun GetBody :: "event \<Rightarrow> string" where
  "GetBody (RemoteCommunicationEvent b typ data) = ''type:'' @ typ @ [CHR 0x0A] @ data"
| "GetBody (ProcCommEvent b processName groupName pid data) = proc_body processName groupName pid data"
| "GetBody (TickEvent b w) = ''when:'' @ Itoa w"
| "GetBody (ProcessStateEvent b process_name group_name from_state tries expected pid) =
     state_body process_name group_name from_state tries expected pid"
| "GetBody (SupervisorStateChangeEvent b) = []"
| "GetBody (ProcessLogEvent b process_name group_name pid data) = proc_body process_name group_name pid data"
| "GetBody (ProcessGroupEvent b group_name) = ''groupname:'' @ group_name"

section \<open>The package's state\<close>

text \<open>
  \<open>in_stream\<close> is what the listener program has yet to send on its standard output (the
  supervisor's \<open>stdin\<close> reader), \<open>out_stream\<close> what was written to it.
\<close>

record EventListener =
  pool :: string
  server :: string
  queue :: "string list"
  buffer_size :: int
  in_stream :: string
  out_stream :: "string list"

record ev_sys =
  eventSerial :: "64 word"
  poolserial :: "(string, 64 word) gomap"
  listeners :: "EventListener list"
  namedListeners :: "(string, nat) gomap"
  eventListeners :: "(string, (nat, bool) gomap) gomap"

definition NewEventListenerManager :: ev_sys where
  "NewEventListenerManager =
     \<lparr>eventSerial = 0, poolserial = [], listeners = [], namedListeners = [], eventListeners = []\<rparr>"

text \<open>\<open>atomic.AddUint64(&eventSerial, 1)\<close>: the new value, wrapping after 2^64.\<close>

definition nextEventSerial :: "ev_sys \<Rightarrow> 64 word \<times> ev_sys" where
  "nextEventSerial \<sigma> = (eventSerial \<sigma> + 1, \<sigma>\<lparr>eventSerial := eventSerial \<sigma> + 1\<rparr>)"

definition nextSerial :: "(string, 64 word) gomap \<Rightarrow> string \<Rightarrow> 64 word \<times> (string, 64 word) gomap" where
  "nextSerial ps p =
     (let r = (case map_of ps p of Some r \<Rightarrow> r | None \<Rightarrow> 1) in (r, AList.update p (r + 1) ps))"

section \<open>Constructors\<close>

definition new_event :: "string \<Rightarrow> (BaseEvent \<Rightarrow> event) \<Rightarrow> ev_sys \<Rightarrow> event \<times> ev_sys" where
  "new_event typ mk \<sigma> = (let (n, \<sigma>') = nextEventSerial \<sigma> in (mk \<lparr>be_serial = n, be_eventType = typ\<rparr>, \<sigma>'))"

definition NewRemoteCommunicationEvent :: "string \<Rightarrow> string \<Rightarrow> ev_sys \<Rightarrow> event \<times> ev_sys" where
  "NewRemoteCommunicationEvent typ data = new_event ''REMOTE_COMMUNICATION'' (\<lambda>b. RemoteCommunicationEvent b typ data)"

definition NewProcCommEvent :: "string \<Rightarrow> string \<Rightarrow> string \<Rightarrow> int \<Rightarrow> string \<Rightarrow> ev_sys \<Rightarrow> event \<times> ev_sys" where
  "NewProcCommEvent typ procName groupName pid data = new_event typ (\<lambda>b. ProcCommEvent b procName groupName pid data)"

definition NewTickEvent :: "string \<Rightarrow> int \<Rightarrow> ev_sys \<Rightarrow> event \<times> ev_sys" where
  "NewTickEvent tickType w = new_event tickType (\<lambda>b. TickEvent b w)"

definition CreateProcessStartingEvent :: "string \<Rightarrow> string \<Rightarrow> string \<Rightarrow> int \<Rightarrow> ev_sys \<Rightarrow> event \<times> ev_sys" where
  "CreateProcessStartingEvent p g from_state tries =
     new_event ''PROCESS_STATE_STARTING'' (\<lambda>b. ProcessStateEvent b p g from_state tries (- 1) 0)"

definition CreateProcessRunningEvent :: "string \<Rightarrow> string \<Rightarrow> string \<Rightarrow> int \<Rightarrow> ev_sys \<Rightarrow> event \<times> ev_sys" where
  "CreateProcessRunningEvent p g from_state pid =
     new_event ''PROCESS_STATE_RUNNING'' (\<lambda>b. ProcessStateEvent b p g from_state (- 1) (- 1) pid)"

definition CreateProcessBackoffEvent :: "string \<Rightarrow> string \<Rightarrow> string \<Rightarrow> int \<Rightarrow> ev_sys \<Rightarrow> event \<times> ev_sys" where
  "CreateProcessBackoffEvent p g from_state tries =
     new_event ''PROCESS_STATE_BACKOFF'' (\<lambda>b. ProcessStateEvent b p g from_state tries (- 1) 0)"

definition CreateProcessStoppingEvent :: "string \<Rightarrow> string \<Rightarrow> string \<Rightarrow> int \<Rightarrow> ev_sys \<Rightarrow> event \<times> ev_sys" where
  "CreateProcessStoppingEvent p g from_state pid =
     new_event ''PROCESS_STATE_STOPPING'' (\<lambda>b. ProcessStateEvent b p g from_state (- 1) (- 1) pid)"

definition CreateProcessExitedEvent :: "string \<Rightarrow> string \<Rightarrow> string \<Rightarrow> int \<Rightarrow> int \<Rightarrow> ev_sys \<Rightarrow> event \<times> ev_sys" where
  "CreateProcessExitedEvent p g from_state expected pid =
     new_event ''PROCESS_STATE_EXITED'' (\<lambda>b. ProcessStateEvent b p g from_state (- 1) expected pid)"

definition CreateProcessStoppedEvent :: "string \<Rightarrow> string \<Rightarrow> string \<Rightarrow> int \<Rightarrow> ev_sys \<Rightarrow> event \<times> ev_sys" where
  "CreateProcessStoppedEvent p g from_state pid =
     new_event ''PROCESS_STATE_STOPPED'' (\<lambda>b. ProcessStateEvent b p g from_state (- 1) (- 1) pid)"

definition CreateProcessFatalEvent :: "string \<Rightarrow> string \<Rightarrow> string \<Rightarrow> ev_sys \<Rightarrow> event \<times> ev_sys" where
  "CreateProcessFatalEvent p g from_state =
     new_event ''PROCESS_STATE_FATAL'' (\<lambda>b. ProcessStateEvent b p g from_state (- 1) (- 1) 0)"

definition CreateProcessUnknownEvent :: "string \<Rightarrow> string \<Rightarrow> string \<Rightarrow> ev_sys \<Rightarrow> event \<times> ev_sys" where
  "CreateProcessUnknownEvent p g from_state =
     new_event ''PROCESS_STATE_UNKNOWN'' (\<lambda>b. ProcessStateEvent b p g from_state (- 1) (- 1) 0)"

definition CreateSupervisorStateChangeRunning :: "ev_sys \<Rightarrow> event \<times> ev_sys" where
  "CreateSupervisorStateChangeRunning = new_event ''SUPERVISOR_STATE_CHANGE_RUNNING'' SupervisorStateChangeEvent"

definition createSupervisorStateChangeStopping :: "ev_sys \<Rightarrow> event \<times> ev_sys" where
  "createSupervisorStateChangeStopping = new_event ''SUPERVISOR_STATE_CHANGE_STOPPING'' SupervisorStateChangeEvent"

definition CreateProcessLogStdoutEvent :: "string \<Rightarrow> string \<Rightarrow> int \<Rightarrow> string \<Rightarrow> ev_sys \<Rightarrow> event \<times> ev_sys" where
  "CreateProcessLogStdoutEvent p g pid data = new_event ''PROCESS_LOG_STDOUT'' (\<lambda>b. ProcessLogEvent b p g pid data)"

definition CreateProcessLogStderrEvent :: "string \<Rightarrow> string \<Rightarrow> int \<Rightarrow> string \<Rightarrow> ev_sys \<Rightarrow> event \<times> ev_sys" where
  "CreateProcessLogStderrEvent p g pid data = new_event ''PROCESS_LOG_STDERR'' (\<lambda>b. ProcessLogEvent b p g pid data)"

definition CreateProcessGroupAddedEvent :: "string \<Rightarrow> ev_sys \<Rightarrow> event \<times> ev_sys" where
  "CreateProcessGroupAddedEvent g = new_event ''PROCESS_GROUP_ADDED'' (\<lambda>b. ProcessGroupEvent b g)"

definition CreateProcessGroupRemovedEvent :: "string \<Rightarrow> ev_sys \<Rightarrow> event \<times> ev_sys" where
  "CreateProcessGroupRemovedEvent g = new_event ''PROCESS_GROUP_REMOVED'' (\<lambda>b. ProcessGroupEvent b g)"

section \<open>A listener's queue\<close>

definition EVENT_SYS_VERSION :: string where
  "EVENT_SYS_VERSION = ''3.0''"

definition event_header :: "EventListener \<Rightarrow> event \<Rightarrow> 64 word \<Rightarrow> string" where
  "event_header el e n =
     ''ver:'' @ EVENT_SYS_VERSION @ '' server:'' @ server el @ '' serial:'' @ show_nat (unat (GetSerial e))
     @ '' pool:'' @ pool el @ '' poolserial:'' @ show_nat (unat n) @ '' eventname:'' @ GetType e
     @ '' len:'' @ show_nat (length (GetBody e)) @ [CHR 0x0A]"

definition encodeEvent :: "EventListener \<Rightarrow> event \<Rightarrow> ev_sys \<Rightarrow> string \<times> ev_sys" where
  "encodeEvent el e \<sigma> =
     (let (n, ps) = nextSerial (poolserial \<sigma>) (pool el)
      in (event_header el e n @ GetBody e, \<sigma>\<lparr>poolserial := ps\<rparr>))"

definition push_event :: "string \<Rightarrow> EventListener \<Rightarrow> EventListener" where
  "push_event b el =
     (if int (length (queue el)) \<le> buffer_size el then el\<lparr>queue := queue el @ [b]\<rparr> else el)"

text \<open>The event is encoded, and takes a pool serial number, also when it is then discarded.\<close>

definition HandleEvent :: "nat \<Rightarrow> event \<Rightarrow> ev_sys \<Rightarrow> ev_sys" where
  "HandleEvent a e \<sigma> =
     (let el = listeners \<sigma> ! a;
          (b, \<sigma>') = encodeEvent el e \<sigma>
      in \<sigma>'\<lparr>listeners := (listeners \<sigma>')[a := push_event b el]\<rparr>)"

text \<open>\<open>None\<close>: the caller waits on the condition variable.\<close>

definition getFirstEvent :: "EventListener \<Rightarrow> string option" where
  "getFirstEvent el = (case queue el of [] \<Rightarrow> None | b # bs \<Rightarrow> Some b)"

definition removeFirstEvent :: "EventListener \<Rightarrow> EventListener" where
  "removeFirstEvent el = el\<lparr>queue := tl (queue el)\<rparr>"

section \<open>The registry\<close>

definition eventTypeDerives :: "(string, string list) gomap" where
  "eventTypeDerives =
     [(''PROCESS_STATE_STARTING'', [''EVENT'', ''PROCESS_STATE'']),
      (''PROCESS_STATE_RUNNING'', [''EVENT'', ''PROCESS_STATE'']),
      (''PROCESS_STATE_BACKOFF'', [''EVENT'', ''PROCESS_STATE'']),
      (''PROCESS_STATE_STOPPING'', [''EVENT'', ''PROCESS_STATE'']),
      (''PROCESS_STATE_EXITED'', [''EVENT'', ''PROCESS_STATE'']),
      (''PROCESS_STATE_STOPPED'', [''EVENT'', ''PROCESS_STATE'']),
      (''PROCESS_STATE_FATAL'', [''EVENT'', ''PROCESS_STATE'']),
      (''PROCESS_STATE_UNKNOWN'', [''EVENT'', ''PROCESS_STATE'']),
      (''REMOTE_COMMUNICATION'', [''EVENT'']),
      (''PROCESS_LOG_STDOUT'', [''EVENT'', ''PROCESS_LOG'']),
      (''PROCESS_LOG_STDERR'', [''EVENT'', ''PROCESS_LOG'']),
      (''PROCESS_COMMUNICATION_STDOUT'', [''EVENT'', ''PROCESS_COMMUNICATION'']),
      (''PROCESS_COMMUNICATION_STDERR'', [''EVENT'', ''PROCESS_COMMUNICATION'']),
      (''SUPERVISOR_STATE_CHANGE_RUNNING'', [''EVENT'', ''SUPERVISOR_STATE_CHANGE'']),
      (''SUPERVISOR_STATE_CHANGE_STOPPING'', [''EVENT'', ''SUPERVISOR_STATE_CHANGE'']),
      (''TICK_5'', [''EVENT'', ''TICK'']),
      (''TICK_60'', [''EVENT'', ''TICK'']),
      (''TICK_3600'', [''EVENT'', ''TICK'']),
      (''PROCESS_GROUP_ADDED'', [''EVENT'', ''PROCESS_GROUP'']),
      (''PROCESS_GROUP_REMOVED'', [''EVENT'', ''PROCESS_GROUP''])]"

text \<open>The body of the loops over \<open>events\<close> and \<open>eventTypeDerives\<close>: \<open>all_events[k] = true\<close> or nothing.\<close>

definition match_derive :: "string \<Rightarrow> (string, bool) gomap \<Rightarrow> string \<times> string list \<Rightarrow> (string, bool) gomap" where
  "match_derive event all_events kv =
     (let (k, values) = kv
      in if event = k then AList.update k True all_events
         else foldl (\<lambda>m val. if val = event then AList.update k True m else m) all_events values)"

definition expand_events :: "string list \<Rightarrow> (string, bool) gomap" where
  "expand_events events =
     foldl (\<lambda>m event. foldl (match_derive event) m eventTypeDerives) [] events"

definition subscribe :: "nat \<Rightarrow> (string, (nat, bool) gomap) gomap \<Rightarrow> string \<Rightarrow> (string, (nat, bool) gomap) gomap" where
  "subscribe listener m event =
     (let m1 = (case map_of m event of None \<Rightarrow> AList.update event [] m | Some _ \<Rightarrow> m)
      in AList.update event (AList.update listener True (the (map_of m1 event))) m1)"

definition registerEventListener :: "string \<Rightarrow> string list \<Rightarrow> nat \<Rightarrow> ev_sys \<Rightarrow> ev_sys" where
  "registerEventListener eventListenerName events listener \<sigma> =
     (let \<sigma>1 = \<sigma>\<lparr>namedListeners := AList.update eventListenerName listener (namedListeners \<sigma>)\<rparr>;
          all_events = expand_events events
      in \<sigma>1\<lparr>eventListeners := foldl (subscribe listener) (eventListeners \<sigma>1) (List.map fst all_events)\<rparr>)"

definition unregisterEventListener :: "string \<Rightarrow> ev_sys \<Rightarrow> nat option \<times> ev_sys" where
  "unregisterEventListener eventListenerName \<sigma> =
     (case map_of (namedListeners \<sigma>) eventListenerName of
        Some listener \<Rightarrow>
          (Some listener,
           \<sigma>\<lparr>namedListeners := AList.delete eventListenerName (namedListeners \<sigma>),
             eventListeners := List.map (\<lambda>(event, ls). (event, AList.delete listener ls)) (eventListeners \<sigma>)\<rparr>)
      | None \<Rightarrow> (None, \<sigma>))"

text \<open>\<open>NewEventListener\<close>: a new listener object; its goroutine is the next theory's subject.\<close>

definition NewEventListener :: "string \<Rightarrow> string \<Rightarrow> string \<Rightarrow> int \<Rightarrow> ev_sys \<Rightarrow> nat \<times> ev_sys" where
  "NewEventListener p srv input bufsize \<sigma> =
     (length (listeners \<sigma>),
      \<sigma>\<lparr>listeners := listeners \<sigma> @
          [\<lparr>pool = p, server = srv, queue = [], buffer_size = bufsize, in_stream = input, out_stream = []\<rparr>]\<rparr>)"

definition EmitEvent :: "event \<Rightarrow> ev_sys \<Rightarrow> ev_sys" where
  "EmitEvent e \<sigma> =
     (case map_of (eventListeners \<sigma>) (GetType e) of
        Some ls \<Rightarrow> foldl (\<lambda>\<sigma> a. HandleEvent a e \<sigma>) \<sigma> (List.map fst ls)
      | None \<Rightarrow> \<sigma>)"

text \<open>Create an event and emit it, as most callers do.\<close>

definition emit_new :: "(ev_sys \<Rightarrow> event \<times> ev_sys) \<Rightarrow> ev_sys \<Rightarrow> ev_sys" where
  "emit_new mk \<sigma> = (let (e, \<sigma>') = mk \<sigma> in EmitEvent e \<sigma>')"

section \<open>The tick timer\<close>

definition tickConfigs :: "(string, int) gomap" where
  "tickConfigs = [(''TICK_5'', 5), (''TICK_60'', 60), (''TICK_3600'', 3600)]"

text \<open>
  One tick of the one-second timer at Unix time \<open>now\<close> (not negative, so that Go's division is
  \<open>div\<close>); the order of \<open>cfg\<close> is the order in which \<open>range\<close> visits \<open>tickConfigs\<close>.
\<close>

definition tick1 :: "int \<Rightarrow> (string, int) gomap \<times> ev_sys \<Rightarrow> string \<times> int \<Rightarrow> (string, int) gomap \<times> ev_sys" where
  "tick1 now st cfg =
     (let (lastTickSlice, \<sigma>) = st;
          (tickType, period) = cfg;
          time_slice = now div period
      in case map_of lastTickSlice tickType of
           None \<Rightarrow> (AList.update tickType time_slice lastTickSlice, \<sigma>)
         | Some last_time_slice \<Rightarrow>
             if last_time_slice \<noteq> time_slice
             then (AList.update tickType time_slice lastTickSlice, emit_new (NewTickEvent tickType now) \<sigma>)
             else st)"

definition tick :: "int \<Rightarrow> (string, int) gomap \<times> ev_sys \<Rightarrow> (string, int) gomap \<times> ev_sys" where
  "tick now st = foldl (tick1 now) st tickConfigs"

section \<open>The queue is a bounded first-in first-out queue\<close>

text \<open>The bound is \<open>buffer_size + 1\<close>: an event is still taken when the queue holds \<open>buffer_size\<close> of them.\<close>

definition el_capacity :: "EventListener \<Rightarrow> nat" where
  "el_capacity el = nat (buffer_size el + 1)"

interpretation elq: bounded_fifo queue el_capacity push_event removeFirstEvent getFirstEvent
  by unfold_locales
    (auto simp: push_event_def removeFirstEvent_def getFirstEvent_def el_capacity_def split: list.splits)

text \<open>
  A listener's buffer: from an empty queue, whatever sequence of events is handled while the
  listener takes none, the queue holds the first \<open>buffer_size + 1\<close> of them in their order (one
  more than \<open>buffer_size\<close>, because the test is \<open>Len() <= buffer_size\<close>) and the rest are
  discarded.
\<close>

theorem push_event_keeps_first:
  assumes "queue el = []"
  shows "queue (foldl (\<lambda>el b. push_event b el) el bs) = take (nat (buffer_size el + 1)) bs"
  using elq.push_all_content[of el bs] assms by (simp add: el_capacity_def)

theorem push_event_keeps_first_witness:
  "queue (foldl (\<lambda>el b. push_event b el)
     \<lparr>pool = ''p'', server = ''s'', queue = [], buffer_size = 1, in_stream = [], out_stream = []\<rparr>
     [''a'', ''b'', ''c'']) = [''a'', ''b'']"
  by (subst push_event_keeps_first) (simp_all add: numeral_2_eq_2)

section \<open>Who receives an event\<close>

text \<open>
  The contract of the registry: a listener \<open>wants\<close> an event type it subscribed to by name or
  through one of the abstract types the event derives from.
\<close>

definition wants :: "string list \<Rightarrow> string \<Rightarrow> bool" where
  "wants events k \<longleftrightarrow>
     (case map_of eventTypeDerives k of
        None \<Rightarrow> False
      | Some parents \<Rightarrow> k \<in> set events \<or> (\<exists>p\<in>set parents. p \<in> set events))"

definition registered :: "ev_sys \<Rightarrow> nat \<Rightarrow> string \<Rightarrow> bool" where
  "registered \<sigma> a k \<longleftrightarrow>
     (case map_of (eventListeners \<sigma>) k of None \<Rightarrow> False | Some ls \<Rightarrow> map_of ls a \<noteq> None)"

definition ev_wf :: "ev_sys \<Rightarrow> bool" where
  "ev_wf \<sigma> \<longleftrightarrow>
     distinct (List.map fst (namedListeners \<sigma>)) \<and>
     distinct (List.map fst (eventListeners \<sigma>)) \<and>
     (\<forall>(k, ls)\<in>set (eventListeners \<sigma>).
        distinct (List.map fst ls) \<and> (\<forall>a\<in>set (List.map fst ls). a < length (listeners \<sigma>)))"

lemma foldl_mark:
  "dom (map_of (foldl (\<lambda>m v. if v = ev then AList.update k True m else m) m vs)) =
     dom (map_of m) \<union> (if ev \<in> set vs then {k} else {})"
  by (induction vs arbitrary: m) auto

lemma dom_match_derive:
  "dom (map_of (match_derive ev m (k, vs))) = dom (map_of m) \<union> (if ev = k \<or> ev \<in> set vs then {k} else {})"
  by (simp add: match_derive_def foldl_mark)

lemma dom_match_derives:
  "dom (map_of (foldl (match_derive ev) m kvs)) =
     dom (map_of m) \<union> {k. \<exists>vs. (k, vs) \<in> set kvs \<and> (ev = k \<or> ev \<in> set vs)}"
proof (induction kvs arbitrary: m)
  case (Cons kv kvs)
  obtain k vs where kv: "kv = (k, vs)" by (cases kv)
  show ?case unfolding kv foldl_Cons Cons.IH dom_match_derive by (auto split: if_splits)
qed simp

lemma dom_expand_aux:
  "dom (map_of (foldl (\<lambda>m event. foldl (match_derive event) m kvs) m evs)) =
     dom (map_of m) \<union> {k. \<exists>vs. (k, vs) \<in> set kvs \<and> (k \<in> set evs \<or> (\<exists>v\<in>set vs. v \<in> set evs))}"
proof (induction evs arbitrary: m)
  case (Cons ev evs)
  show ?case unfolding foldl_Cons Cons.IH dom_match_derives by auto
qed simp

lemma distinct_eventTypeDerives: "distinct (List.map fst eventTypeDerives)"
  by code_simp

lemma wants_iff:
  "wants events k \<longleftrightarrow>
     (\<exists>vs. (k, vs) \<in> set eventTypeDerives \<and> (k \<in> set events \<or> (\<exists>v\<in>set vs. v \<in> set events)))"
proof -
  have "(k, vs) \<in> set eventTypeDerives \<longleftrightarrow> map_of eventTypeDerives k = Some vs" for vs
    using map_of_eq_Some_iff[OF distinct_eventTypeDerives] by simp
  then show ?thesis by (simp add: wants_def split: option.split)
qed

lemma dom_expand_events: "set (List.map fst (expand_events events)) = Collect (wants events)"
proof -
  have "set (List.map fst (expand_events events)) = dom (map_of (expand_events events))"
    by (simp add: dom_map_of_conv_image_fst)
  also have "\<dots> = {k. wants events k}"
    unfolding expand_events_def dom_expand_aux wants_iff by simp
  finally show ?thesis .
qed

lemma map_of_subscribe:
  "map_of (subscribe l m k) =
     (map_of m)(k \<mapsto> AList.update l True (case map_of m k of None \<Rightarrow> [] | Some ls \<Rightarrow> ls))"
  by (auto simp: subscribe_def Let_def split: option.split)

lemma subscribes_lookup:
  "(case map_of (foldl (subscribe l) m ks) k of None \<Rightarrow> False | Some ls \<Rightarrow> map_of ls a \<noteq> None) \<longleftrightarrow>
   (case map_of m k of None \<Rightarrow> False | Some ls \<Rightarrow> map_of ls a \<noteq> None) \<or> (a = l \<and> k \<in> set ks)"
proof (induction ks arbitrary: m)
  case (Cons x ks)
  show ?case unfolding foldl_Cons Cons.IH map_of_subscribe by (auto split: option.splits)
qed simp

lemma registered_register:
  "registered (registerEventListener name events l \<sigma>) a k \<longleftrightarrow> registered \<sigma> a k \<or> a = l \<and> wants events k"
  using subscribes_lookup[where l = l and m = "eventListeners \<sigma>" and ks = "List.map fst (expand_events events)"
      and k = k and a = a] dom_expand_events[of events]
  by (simp add: registered_def registerEventListener_def Let_def set_eq_iff del: set_map)

lemma map_of_map_values: "map_of (List.map (\<lambda>(k, v). (k, f v)) m) k = map_option f (map_of m k)"
  by (induction m) auto

lemma registered_unregister:
  "map_of (namedListeners \<sigma>) name = Some l \<Longrightarrow>
   registered (snd (unregisterEventListener name \<sigma>)) a k \<longleftrightarrow> registered \<sigma> a k \<and> a \<noteq> l"
  by (auto simp: registered_def unregisterEventListener_def map_of_map_values split: option.splits)

section \<open>The registry's invariant\<close>

definition inner_wf :: "nat \<Rightarrow> (string, (nat, bool) gomap) gomap \<Rightarrow> bool" where
  "inner_wf n m \<longleftrightarrow> distinct (List.map fst m) \<and>
     (\<forall>(k, ls)\<in>set m. distinct (List.map fst ls) \<and> (\<forall>a\<in>set (List.map fst ls). a < n))"

lemma ev_wf_inner:
  "ev_wf \<sigma> \<longleftrightarrow> distinct (List.map fst (namedListeners \<sigma>)) \<and> inner_wf (length (listeners \<sigma>)) (eventListeners \<sigma>)"
  by (simp add: ev_wf_def inner_wf_def)

lemma inner_wf_lookup:
  "inner_wf n m \<Longrightarrow> map_of m k = Some ls \<Longrightarrow> distinct (List.map fst ls) \<and> (\<forall>a\<in>set (List.map fst ls). a < n)"
  by (auto simp: inner_wf_def dest!: map_of_SomeD)

lemma keys_of_update: "fst ` set (AList.update k v m) = insert k (fst ` set m)"
  using map_of_update[of k v m] by (simp add: dom_map_of_conv_image_fst[symmetric])

lemma keys_of_delete: "fst ` set (AList.delete k m) = fst ` set m - {k}"
  using map_of_delete[of k m] by (auto simp: dom_map_of_conv_image_fst[symmetric] simp del: map_of_delete)

lemma inner_wf_update:
  assumes "inner_wf n m" "distinct (List.map fst ls)" "\<forall>a\<in>set (List.map fst ls). a < n"
  shows "inner_wf n (AList.update k ls m)"
proof -
  have d: "distinct (List.map fst (AList.update k ls m))" using assms(1) by (simp add: inner_wf_def distinct_update)
  have "distinct (List.map fst v) \<and> (\<forall>a\<in>set (List.map fst v). a < n)" if "(q, v) \<in> set (AList.update k ls m)" for q v
  proof -
    have "map_of (AList.update k ls m) q = Some v" using d that by (rule map_of_is_SomeI)
    with assms inner_wf_lookup[OF assms(1), of q v] show ?thesis by (auto split: if_splits)
  qed
  with d show ?thesis by (auto simp: inner_wf_def)
qed

lemma inner_wf_subscribe: "inner_wf n m \<Longrightarrow> l < n \<Longrightarrow> inner_wf n (subscribe l m k)"
proof -
  assume m: "inner_wf n m" and l: "l < n"
  let ?m1 = "case map_of m k of None \<Rightarrow> AList.update k [] m | Some _ \<Rightarrow> m"
  have m1: "inner_wf n ?m1" using m by (auto split: option.split intro: inner_wf_update)
  obtain ls where ls: "map_of ?m1 k = Some ls" by (cases "map_of m k") auto
  have "distinct (List.map fst (AList.update l True ls))" "\<forall>a\<in>set (List.map fst (AList.update l True ls)). a < n"
    using inner_wf_lookup[OF m1 ls] l by (simp_all add: distinct_update keys_of_update)
  from inner_wf_update[OF m1 this] ls show ?thesis by (simp add: subscribe_def Let_def)
qed

lemma inner_wf_subscribes: "inner_wf n m \<Longrightarrow> l < n \<Longrightarrow> inner_wf n (foldl (subscribe l) m ks)"
  by (induction ks arbitrary: m) (auto intro: inner_wf_subscribe)

lemma inner_wf_map_delete:
  assumes "inner_wf n m"
  shows "inner_wf n (List.map (\<lambda>(k, ls). (k, AList.delete l ls)) m)"
proof -
  have "List.map fst (List.map (\<lambda>(k, ls). (k, AList.delete l ls)) m) = List.map fst m"
    by (simp add: comp_def case_prod_beta)
  moreover have "distinct (List.map fst (AList.delete l ls)) \<and> (\<forall>a\<in>fst ` set (AList.delete l ls). a < n)"
    if "(k, ls) \<in> set m" for k ls
    using assms that by (auto simp: inner_wf_def distinct_delete keys_of_delete)
  moreover have "distinct (List.map fst m)" using assms by (simp add: inner_wf_def)
  ultimately show ?thesis unfolding inner_wf_def by (auto simp del: map_map)
qed

section \<open>Delivery\<close>

lemma HandleEvent_frame:
  "eventListeners (HandleEvent a e \<sigma>) = eventListeners \<sigma>"
  "namedListeners (HandleEvent a e \<sigma>) = namedListeners \<sigma>"
  "eventSerial (HandleEvent a e \<sigma>) = eventSerial \<sigma>"
  "length (listeners (HandleEvent a e \<sigma>)) = length (listeners \<sigma>)"
  by (simp_all add: HandleEvent_def encodeEvent_def split_beta Let_def)

lemma HandleEvents_frame:
  "eventListeners (foldl (\<lambda>\<sigma> a. HandleEvent a e \<sigma>) \<sigma> as) = eventListeners \<sigma> \<and>
   namedListeners (foldl (\<lambda>\<sigma> a. HandleEvent a e \<sigma>) \<sigma> as) = namedListeners \<sigma> \<and>
   eventSerial (foldl (\<lambda>\<sigma> a. HandleEvent a e \<sigma>) \<sigma> as) = eventSerial \<sigma> \<and>
   length (listeners (foldl (\<lambda>\<sigma> a. HandleEvent a e \<sigma>) \<sigma> as)) = length (listeners \<sigma>)"
  by (induction as arbitrary: \<sigma>) (simp_all add: HandleEvent_frame)

lemma EmitEvent_frame:
  "eventListeners (EmitEvent e \<sigma>) = eventListeners \<sigma>"
  "namedListeners (EmitEvent e \<sigma>) = namedListeners \<sigma>"
  "eventSerial (EmitEvent e \<sigma>) = eventSerial \<sigma>"
  "length (listeners (EmitEvent e \<sigma>)) = length (listeners \<sigma>)"
  by (simp_all add: EmitEvent_def HandleEvents_frame split: option.split)

lemma HandleEvent_self:
  "a < length (listeners \<sigma>) \<Longrightarrow>
   listeners (HandleEvent a e \<sigma>) ! a =
     push_event (event_header (listeners \<sigma> ! a) e (fst (nextSerial (poolserial \<sigma>) (pool (listeners \<sigma> ! a)))) @ GetBody e)
       (listeners \<sigma> ! a)"
  by (simp add: HandleEvent_def encodeEvent_def split_beta Let_def)

lemma HandleEvent_other: "a \<noteq> b \<Longrightarrow> listeners (HandleEvent a e \<sigma>) ! b = listeners \<sigma> ! b"
  by (simp add: HandleEvent_def encodeEvent_def split_beta Let_def)

lemma HandleEvents_deliver:
  assumes "distinct as" "\<forall>a\<in>set as. a < length (listeners \<sigma>)"
  shows "b \<notin> set as \<Longrightarrow> listeners (foldl (\<lambda>\<sigma> a. HandleEvent a e \<sigma>) \<sigma> as) ! b = listeners \<sigma> ! b"
    and "b \<in> set as \<Longrightarrow> \<exists>n. listeners (foldl (\<lambda>\<sigma> a. HandleEvent a e \<sigma>) \<sigma> as) ! b =
      push_event (event_header (listeners \<sigma> ! b) e n @ GetBody e) (listeners \<sigma> ! b)"
  using assms
proof (induction as arbitrary: \<sigma>)
  case (Cons a as)
  {
    case 1
    with Cons.IH(1)[of "HandleEvent a e \<sigma>"] show ?case by (simp add: HandleEvent_frame HandleEvent_other)
  next
    case 2
    show ?case
    proof (cases "b = a")
      case True
      with 2 Cons.IH(1)[of "HandleEvent a e \<sigma>"] show ?thesis
        by (auto simp: HandleEvent_frame HandleEvent_self)
    next
      case False
      with 2 Cons.IH(2)[of "HandleEvent a e \<sigma>"] show ?thesis by (simp add: HandleEvent_frame HandleEvent_other)
    qed
  }
qed simp_all

text \<open>The invariant of the registry holds from the start and is kept by every operation.\<close>

lemma ev_wf_ops:
  "ev_wf NewEventListenerManager"
  "ev_wf \<sigma> \<Longrightarrow> ev_wf (snd (nextEventSerial \<sigma>))"
  "ev_wf \<sigma> \<Longrightarrow> ev_wf (snd (NewEventListener p srv inp sz \<sigma>))"
  "ev_wf \<sigma> \<Longrightarrow> l < length (listeners \<sigma>) \<Longrightarrow> ev_wf (registerEventListener name evs l \<sigma>)"
  "ev_wf \<sigma> \<Longrightarrow> ev_wf (snd (unregisterEventListener name \<sigma>))"
  "ev_wf \<sigma> \<Longrightarrow> ev_wf (EmitEvent e \<sigma>)"
proof -
  show "ev_wf NewEventListenerManager" by (simp add: ev_wf_def NewEventListenerManager_def)
  show "ev_wf \<sigma> \<Longrightarrow> ev_wf (snd (nextEventSerial \<sigma>))" by (simp add: ev_wf_def nextEventSerial_def)
  show "ev_wf \<sigma> \<Longrightarrow> ev_wf (snd (NewEventListener p srv inp sz \<sigma>))"
    by (fastforce simp: ev_wf_def NewEventListener_def)
  show "ev_wf \<sigma> \<Longrightarrow> l < length (listeners \<sigma>) \<Longrightarrow> ev_wf (registerEventListener name evs l \<sigma>)"
    by (simp add: ev_wf_inner registerEventListener_def Let_def inner_wf_subscribes distinct_update)
  show "ev_wf \<sigma> \<Longrightarrow> ev_wf (snd (unregisterEventListener name \<sigma>))"
    by (auto simp: ev_wf_inner unregisterEventListener_def inner_wf_map_delete distinct_delete split: option.split)
  show "ev_wf \<sigma> \<Longrightarrow> ev_wf (EmitEvent e \<sigma>)" by (simp add: ev_wf_def EmitEvent_frame)
qed

lemma EmitEvent_deliver:
  assumes "ev_wf \<sigma>"
  shows "\<not> registered \<sigma> a (GetType e) \<Longrightarrow> listeners (EmitEvent e \<sigma>) ! a = listeners \<sigma> ! a"
    and "registered \<sigma> a (GetType e) \<Longrightarrow> \<exists>n. listeners (EmitEvent e \<sigma>) ! a =
      push_event (event_header (listeners \<sigma> ! a) e n @ GetBody e) (listeners \<sigma> ! a)"
proof -
  have wf: "distinct (List.map fst ls) \<and> (\<forall>a\<in>set (List.map fst ls). a < length (listeners \<sigma>))"
    if "map_of (eventListeners \<sigma>) (GetType e) = Some ls" for ls
    using assms that inner_wf_lookup unfolding ev_wf_inner by blast
  have key: "map_of ls a = None \<longleftrightarrow> a \<notin> fst ` set ls" for ls :: "(nat, bool) gomap"
    by (rule map_of_eq_None_iff)
  show "\<not> registered \<sigma> a (GetType e) \<Longrightarrow> listeners (EmitEvent e \<sigma>) ! a = listeners \<sigma> ! a"
    using wf HandleEvents_deliver(1)[where b = a]
    by (cases "map_of (eventListeners \<sigma>) (GetType e)") (simp_all add: registered_def EmitEvent_def key)
  show "registered \<sigma> a (GetType e) \<Longrightarrow> \<exists>n. listeners (EmitEvent e \<sigma>) ! a =
      push_event (event_header (listeners \<sigma> ! a) e n @ GetBody e) (listeners \<sigma> ! a)"
    using wf HandleEvents_deliver(2)[where b = a]
    by (cases "map_of (eventListeners \<sigma>) (GetType e)") (simp_all add: registered_def EmitEvent_def key)
qed

lemma EmitEvent_registered [simp]: "registered (EmitEvent e \<sigma>) a k = registered \<sigma> a k"
  by (simp add: registered_def EmitEvent_frame)

text \<open>
  Delivery of events: after a listener \<open>l\<close> is registered for a list of event names, emitting
  an event changes exactly the listeners that were registered for its type, and \<open>l\<close> when the
  list names the type or an abstract type it derives from: each of them gets the event, encoded
  with its own header, pushed once at the back of its queue (or discarded when the queue is
  full); every other listener is left as it was.
\<close>

theorem register_then_emit:
  assumes "ev_wf \<sigma>" "l < length (listeners \<sigma>)"
  shows "if registered \<sigma> a (GetType e) \<or> a = l \<and> wants evs (GetType e)
    then \<exists>n. listeners (EmitEvent e (registerEventListener name evs l \<sigma>)) ! a =
      push_event (event_header (listeners \<sigma> ! a) e n @ GetBody e) (listeners \<sigma> ! a)
    else listeners (EmitEvent e (registerEventListener name evs l \<sigma>)) ! a = listeners \<sigma> ! a"
proof -
  let ?\<sigma> = "registerEventListener name evs l \<sigma>"
  have wf: "ev_wf ?\<sigma>" using assms by (rule ev_wf_ops)
  have same: "listeners ?\<sigma> = listeners \<sigma>" by (simp add: registerEventListener_def Let_def)
  show ?thesis using EmitEvent_deliver[OF wf, of a e] by (simp add: same registered_register)
qed

definition demo_sys :: ev_sys where
  "demo_sys = snd (NewEventListener ''q'' ''srv'' [] 10 (snd (NewEventListener ''p'' ''srv'' [] 10 NewEventListenerManager)))"

theorem register_then_emit_witness:
  "\<exists>n. listeners (EmitEvent (TickEvent \<lparr>be_serial = 1, be_eventType = ''TICK_5''\<rparr> 25)
       (registerEventListener ''x'' [''TICK''] 1 demo_sys)) ! 1 =
     push_event (event_header (listeners demo_sys ! 1) (TickEvent \<lparr>be_serial = 1, be_eventType = ''TICK_5''\<rparr> 25) n @ ''when:25'')
       (listeners demo_sys ! 1)"
proof -
  have "ev_wf demo_sys" unfolding demo_sys_def by (intro ev_wf_ops)
  moreover have "1 < length (listeners demo_sys)" by (simp add: demo_sys_def NewEventListener_def NewEventListenerManager_def)
  moreover have "wants [''TICK''] ''TICK_5''" by code_simp
  moreover have "Itoa 25 = ''25''" by code_simp
  ultimately show ?thesis
    using register_then_emit[of demo_sys 1 1 "TickEvent \<lparr>be_serial = 1, be_eventType = ''TICK_5''\<rparr> 25" "[''TICK'']" "''x''"]
    by (simp add: GetType_def)
qed

text \<open>
  Unregistering: a listener unregistered by its name receives no event any more, whatever
  was registered before, and every other listener receives exactly what it received.
\<close>

theorem unregister_then_emit:
  assumes "ev_wf \<sigma>" "map_of (namedListeners \<sigma>) name = Some l"
  shows "if registered \<sigma> a (GetType e) \<and> a \<noteq> l
    then \<exists>n. listeners (EmitEvent e (snd (unregisterEventListener name \<sigma>))) ! a =
      push_event (event_header (listeners \<sigma> ! a) e n @ GetBody e) (listeners \<sigma> ! a)
    else listeners (EmitEvent e (snd (unregisterEventListener name \<sigma>))) ! a = listeners \<sigma> ! a"
proof -
  let ?\<sigma> = "snd (unregisterEventListener name \<sigma>)"
  have wf: "ev_wf ?\<sigma>" using assms(1) by (rule ev_wf_ops)
  have same: "listeners ?\<sigma> = listeners \<sigma>" by (simp add: unregisterEventListener_def split: option.split)
  show ?thesis using EmitEvent_deliver[OF wf, of a e] by (simp add: same registered_unregister[OF assms(2)])
qed

theorem unregister_then_emit_witness:
  "listeners (EmitEvent (TickEvent \<lparr>be_serial = 1, be_eventType = ''TICK_5''\<rparr> 25)
     (snd (unregisterEventListener ''x'' (registerEventListener ''x'' [''TICK''] 1 demo_sys)))) ! 1 =
   listeners demo_sys ! 1"
proof -
  let ?\<sigma> = "registerEventListener ''x'' [''TICK''] 1 demo_sys"
  have "ev_wf ?\<sigma>" unfolding demo_sys_def
    by (intro ev_wf_ops) (simp add: NewEventListener_def NewEventListenerManager_def)
  moreover have "map_of (namedListeners ?\<sigma>) ''x'' = Some 1" by (simp add: registerEventListener_def Let_def)
  ultimately show ?thesis
    using unregister_then_emit[of ?\<sigma> "''x''" 1 1 "TickEvent \<lparr>be_serial = 1, be_eventType = ''TICK_5''\<rparr> 25"]
    by (simp add: registerEventListener_def Let_def)
qed

section \<open>The wire format\<close>

text \<open>
  How a listener program reads an event: the header is one line of \<open>key:value\<close> fields separated
  by spaces, and its field \<open>len\<close> is the number of bytes of the body that follows.
\<close>

definition split_field :: "string \<Rightarrow> string \<times> string" where
  "split_field f = (takeWhile (\<lambda>c. c \<noteq> CHR '':'') f, drop 1 (dropWhile (\<lambda>c. c \<noteq> CHR '':'') f))"

definition decode_event :: "string \<Rightarrow> ((string \<times> string) list \<times> string \<times> string) option" where
  "decode_event s =
     (let line = takeWhile (\<lambda>c. c \<noteq> CHR 0x0A) s;
          rest = drop (length line + 1) s;
          fs = List.map split_field (split_char (CHR '' '') line)
      in case map_of fs ''len'' of
           None \<Rightarrow> None
         | Some l \<Rightarrow> (case Atoi l of None \<Rightarrow> None | Some n \<Rightarrow> Some (fs, take (nat n) rest, drop (nat n) rest)))"

definition plain_word :: "string \<Rightarrow> bool" where
  "plain_word w \<longleftrightarrow> CHR '' '' \<notin> set w \<and> CHR 0x0A \<notin> set w"

definition header_fields :: "EventListener \<Rightarrow> event \<Rightarrow> 64 word \<Rightarrow> (string \<times> string) list" where
  "header_fields el e n =
     [(''ver'', ''3.0''), (''server'', server el), (''serial'', show_nat (unat (GetSerial e))), (''pool'', pool el),
      (''poolserial'', show_nat (unat n)), (''eventname'', GetType e), (''len'', show_nat (length (GetBody e)))]"

lemma plain_show_nat: "plain_word (show_nat n)"
  by (auto simp: plain_word_def dest!: show_nat_digits dest: sym)

lemma split_field_key: "CHR '':'' \<notin> set k \<Longrightarrow> split_field (k @ CHR '':'' # v) = (k, v)"
  by (simp add: split_field_def takeWhile_append dropWhile_append)

lemma event_header_join:
  "event_header el e n =
     join_with '' '' (List.map (\<lambda>(k, v). k @ CHR '':'' # v) (header_fields el e n)) @ [CHR 0x0A]"
  by (simp add: event_header_def header_fields_def EVENT_SYS_VERSION_def)

lemma header_line_fields:
  assumes "plain_word (server el)" "plain_word (pool el)" "plain_word (GetType e)"
  shows "\<forall>w\<in>set (List.map (\<lambda>(k, v). k @ CHR '':'' # v) (header_fields el e n)). plain_word w"
  using assms plain_show_nat by (auto simp: header_fields_def plain_word_def)

lemma split_header_fields:
  "List.map split_field (List.map (\<lambda>(k, v). k @ CHR '':'' # v) (header_fields el e n)) = header_fields el e n"
proof -
  have "\<forall>(k, v)\<in>set (header_fields el e n). CHR '':'' \<notin> set k" by (simp add: header_fields_def)
  then show ?thesis unfolding map_map by (intro map_idI) (auto simp: split_field_key)
qed

lemma join_no_newline:
  "\<forall>w\<in>set ws. plain_word w \<Longrightarrow> CHR 0x0A \<notin> set (join_with '' '' ws)"
  by (induction "'' ''" ws rule: join_with.induct) (auto simp: plain_word_def)

text \<open>
  C38. The wire format of an event reads back: when the server name, the pool name and the event
  type contain no space and no newline, a listener that reads the header line and then as many
  bytes as the header's \<open>len\<close> field says gets the event's serial number, type and pool serial
  number and exactly its body, whatever bytes the body contains, and leaves the bytes that
  follow the event untouched. The pool's serial number then advances by one.
\<close>

theorem encodeEvent_decodes:
  assumes "plain_word (server el)" "plain_word (pool el)" "plain_word (GetType e)"
    and "int (length (GetBody e)) < 2 ^ 63"
  shows "\<exists>n. decode_event (fst (encodeEvent el e \<sigma>) @ following) = Some (header_fields el e n, GetBody e, following) \<and>
    map_of (poolserial (snd (encodeEvent el e \<sigma>))) (pool el) = Some (n + 1) \<and>
    n = (case map_of (poolserial \<sigma>) (pool el) of None \<Rightarrow> 1 | Some r \<Rightarrow> r)"
proof -
  let ?n = "case map_of (poolserial \<sigma>) (pool el) of None \<Rightarrow> 1 | Some r \<Rightarrow> r"
  let ?ws = "List.map (\<lambda>(k, v). k @ CHR '':'' # v) (header_fields el e ?n)"
  let ?line = "join_with '' '' ?ws"
  have enc: "fst (encodeEvent el e \<sigma>) = ?line @ CHR 0x0A # GetBody e"
    "map_of (poolserial (snd (encodeEvent el e \<sigma>))) (pool el) = Some (?n + 1)"
    by (simp_all add: encodeEvent_def nextSerial_def Let_def event_header_join)
  have plain: "\<forall>w\<in>set ?ws. plain_word w" using assms(1-3) by (rule header_line_fields)
  have line: "takeWhile (\<lambda>c. c \<noteq> CHR 0x0A) (?line @ CHR 0x0A # t) = ?line" for t
    using join_no_newline[OF plain] by (subst takeWhile_append2) auto
  have "?ws \<noteq> []" by (simp add: header_fields_def)
  moreover have "\<forall>w\<in>set ?ws. CHR '' '' \<notin> set w" using plain by (simp add: plain_word_def)
  ultimately have split: "split_char (CHR '' '') ?line = ?ws" by (rule split_join_char)
  have len: "map_of (header_fields el e ?n) ''len'' = Some (show_nat (length (GetBody e)))"
    by (simp add: header_fields_def)
  have "Atoi (show_nat k) = Some (int k)" if "int k < 2 ^ 63" for k
    using Atoi_Itoa[of "int k"] that by (simp add: Itoa_def in_int64_def)
  then have atoi: "Atoi (show_nat (length (GetBody e))) = Some (int (length (GetBody e)))" using assms(4) .
  have "decode_event (fst (encodeEvent el e \<sigma>) @ following) = Some (header_fields el e ?n, GetBody e, following)"
    unfolding decode_event_def enc append_assoc append_Cons line split Let_def split_header_fields len
    by (simp add: atoi)
  with enc(2) show ?thesis by blast
qed

theorem encodeEvent_decodes_witness:
  "\<exists>n. decode_event (fst (encodeEvent (listeners demo_sys ! 0)
       (TickEvent \<lparr>be_serial = 7, be_eventType = ''TICK_5''\<rparr> 25) demo_sys) @ ''ver:'') =
     Some (header_fields (listeners demo_sys ! 0) (TickEvent \<lparr>be_serial = 7, be_eventType = ''TICK_5''\<rparr> 25) n,
       ''when:25'', ''ver:'')"
proof -
  have "Itoa 25 = ''25''" by code_simp
  then show ?thesis
    using encodeEvent_decodes[of "listeners demo_sys ! 0" "TickEvent \<lparr>be_serial = 7, be_eventType = ''TICK_5''\<rparr> 25" demo_sys "''ver:''"]
    by (auto simp: demo_sys_def NewEventListener_def NewEventListenerManager_def plain_word_def GetType_def)
qed

section \<open>Serial numbers and ticks\<close>

lemma new_event_serial:
  "GetSerial (fst (new_event typ mk \<sigma>)) = eventSerial \<sigma> + 1 \<and> eventSerial (snd (new_event typ mk \<sigma>)) = eventSerial \<sigma> + 1"
  if "\<And>b. base (mk b) = b"
  using that by (simp add: new_event_def nextEventSerial_def GetSerial_def)

lemma tick1_last:
  "map_of (fst (tick1 now (m, \<sigma>) (t, p))) = (map_of m)(t \<mapsto> now div p)"
  by (auto simp: tick1_def Let_def split: option.split)

lemma tick1_emits:
  "snd (tick1 now (m, \<sigma>) (t, p)) =
     (if map_of m t \<noteq> None \<and> map_of m t \<noteq> Some (now div p) then emit_new (NewTickEvent t now) \<sigma> else \<sigma>)"
  by (auto simp: tick1_def Let_def split: option.split)

lemma ticks_last:
  "distinct (List.map fst cfg) \<Longrightarrow>
   map_of (fst (foldl (tick1 now) st cfg)) t =
     (case map_of cfg t of Some p \<Rightarrow> Some (now div p) | None \<Rightarrow> map_of (fst st) t)"
proof (induction cfg arbitrary: st)
  case (Cons c cfg)
  obtain t' p where c: "c = (t', p)" by (cases c)
  obtain m \<sigma> where st: "st = (m, \<sigma>)" by (cases st)
  have "map_of cfg t' = None" using Cons.prems c by (simp add: map_of_eq_None_iff)
  with Cons c st show ?case by (auto simp: tick1_last split: option.split)
qed simp

lemma ticks_emit:
  "distinct (List.map fst cfg) \<Longrightarrow> (\<And>t p. (t, p) \<in> set cfg \<Longrightarrow> map_of m t = Some (t0 div p)) \<Longrightarrow>
   snd (foldl (tick1 now) (m, \<sigma>) cfg) =
     foldl (\<lambda>\<sigma> (t, p). if now div p \<noteq> t0 div p then emit_new (NewTickEvent t now) \<sigma> else \<sigma>) \<sigma> cfg"
proof (induction cfg arbitrary: m \<sigma>)
  case (Cons c cfg)
  obtain t p where c: "c = (t, p)" by (cases c)
  obtain m' \<sigma>' where st: "tick1 now (m, \<sigma>) (t, p) = (m', \<sigma>')" by (cases "tick1 now (m, \<sigma>) (t, p)")
  have m: "map_of m t = Some (t0 div p)" using Cons.prems(2)[of t p] c by simp
  have \<sigma>': "\<sigma>' = (if now div p \<noteq> t0 div p then emit_new (NewTickEvent t now) \<sigma> else \<sigma>)"
    using tick1_emits[of now m \<sigma> t p] st m by auto
  have "map_of m' = (map_of m)(t \<mapsto> now div p)" using tick1_last[of now m \<sigma> t p] st by simp
  moreover have "t \<notin> fst ` set cfg" using Cons.prems(1) c by simp
  ultimately have "map_of m' t1 = Some (t0 div p1)" if "(t1, p1) \<in> set cfg" for t1 p1
    using Cons.prems(2)[of t1 p1] that by force
  with Cons.IH[of m' \<sigma>'] Cons.prems(1) c st \<sigma>' show ?case by simp
qed simp

lemma tickConfigs_distinct: "distinct (List.map fst tickConfigs)"
  by (simp add: tickConfigs_def)

text \<open>
  The tick timer: after a tick of the one-second timer at time \<open>t0\<close>, the tick at time \<open>now\<close>
  emits the event \<open>TICK_p\<close> exactly for those periods \<open>p\<close> whose time slice \<open>now / p\<close> differs from
  the slice of \<open>t0\<close>, whatever happened in the event system in between.
\<close>

theorem tick_emits_on_new_slice:
  "snd (tick now (fst (tick t0 st), \<sigma>)) =
     foldl (\<lambda>\<sigma> (t, p). if now div p \<noteq> t0 div p then emit_new (NewTickEvent t now) \<sigma> else \<sigma>) \<sigma> tickConfigs"
  unfolding tick_def
proof (rule ticks_emit[OF tickConfigs_distinct])
  fix t p assume "(t, p) \<in> set tickConfigs"
  then have "map_of tickConfigs t = Some p" using tickConfigs_distinct by simp
  then show "map_of (fst (foldl (tick1 t0) st tickConfigs)) t = Some (t0 div p)"
    by (simp add: ticks_last[OF tickConfigs_distinct])
qed

end
