(* ===== verification/EventLoop.thy ===== *)
theory EventLoop
  imports Events
begin

text \<open>
  The goroutine of an event listener (\<open>EventListener.start\<close> of \<open>events.go\<close>) and its reads
  from the listener program, as a transition system: the goroutine's own steps, between two
  accesses of the shared queue each, interleave with \<open>HandleEvent\<close> calls of other goroutines.
  The lemmas show in-order delivery with acknowledgement, for every interleaving and every
  behaviour of the listener program.
\<close>

section \<open>Reading from the listener program\<close>

text \<open>
  The reader's stream is everything the program will ever send; its end is an error for
  the reader (end of file). \<open>bufio.Reader.ReadString\<close> up to a newline: the line and the rest.
\<close>

definition read_line :: "string \<Rightarrow> (string \<times> string) option" where
  "read_line s =
     (let w = takeWhile (\<lambda>c. c \<noteq> CHR 0x0A) s
      in if length w < length s then Some (w @ [CHR 0x0A], drop (length w + 1) s) else None)"

lemma read_line_shorter: "read_line s = Some (l, r) \<Longrightarrow> length r < length s"
  by (auto simp: read_line_def Let_def split: if_splits)

function waitForReady :: "string \<Rightarrow> string option" where
  "waitForReady s =
     (case read_line s of
        None \<Rightarrow> None
      | Some (line, rest) \<Rightarrow> if line = ''READY'' @ [CHR 0x0A] then Some rest else waitForReady rest)"
  by pat_completeness auto
termination
  by (relation "measure length") (auto simp: read_line_shorter)

declare waitForReady.simps [simp del]

text \<open>The longest slice \<open>make\<close> allocates on a 64-bit machine: a longer one is a panic.\<close>

definition makeslice_max :: int where
  "makeslice_max = 2 ^ 48"

text \<open>The result is \<open>None\<close> on an error; the second component is the rest of the stream.\<close>

definition readResult :: "string \<Rightarrow> (string option \<times> string) go" where
  "readResult s =
     (case read_line s of
        None \<Rightarrow> Ret (None, [])
      | Some (line, rest) \<Rightarrow>
          (let fields = Fields line
           in if length fields = 2 \<and> fields ! 0 = ''RESULT'' then
                (case Atoi (fields ! 1) of
                   None \<Rightarrow> Ret (None, rest)
                 | Some n \<Rightarrow>
                     if n < 0 then Ret (None, rest)
                     else if n > makeslice_max then Panic
                     else if nat n \<le> length rest then Ret (Some (take (nat n) rest), drop (nat n) rest)
                     else Ret (None, []))
              else Ret (None, rest)))"

section \<open>The goroutine\<close>

datatype phase = PWait | PLoop | PGot string | PAwait string | PRemove string | PExit | PPanic

text \<open>
  One step; \<open>ok\<close> is whether \<open>stdout.Write\<close> succeeds. \<open>None\<close>: the goroutine waits for an event, or
  has ended.
\<close>

fun listener_next :: "bool \<Rightarrow> phase \<Rightarrow> EventListener \<Rightarrow> (phase \<times> EventListener) option" where
  "listener_next ok PWait el =
     (case waitForReady (in_stream el) of
        None \<Rightarrow> Some (PExit, el\<lparr>in_stream := []\<rparr>)
      | Some rest \<Rightarrow> Some (PLoop, el\<lparr>in_stream := rest\<rparr>))"
| "listener_next ok PLoop el = (case getFirstEvent el of None \<Rightarrow> None | Some b \<Rightarrow> Some (PGot b, el))"
| "listener_next ok (PGot b) el =
     (if ok then Some (PAwait b, el\<lparr>out_stream := out_stream el @ [b]\<rparr>) else Some (PWait, el))"
| "listener_next ok (PAwait b) el =
     (case readResult (in_stream el) of
        Ret (None, rest) \<Rightarrow> Some (PWait, el\<lparr>in_stream := rest\<rparr>)
      | Ret (Some result, rest) \<Rightarrow>
          (let el' = el\<lparr>in_stream := rest\<rparr>
           in if result = ''OK'' then Some (PRemove b, el')
              else if result = ''FAIL'' then Some (PWait, el')
              else Some (PLoop, el'))
      | _ \<Rightarrow> Some (PPanic, el))"
| "listener_next ok (PRemove b) el = Some (PWait, removeFirstEvent el)"
| "listener_next ok PExit el = None"
| "listener_next ok PPanic el = None"

section \<open>Interleavings\<close>

text \<open>
  The listener with its history: the messages taken into the queue, those acknowledged with
  \<open>OK\<close> (\<open>acked\<close> is their number), and which of them each write sent.
\<close>

record lsn_state =
  ls_phase :: phase
  ls_el :: EventListener
  accepted :: "string list"
  acked :: nat
  sent :: "nat list"

inductive lsn_step :: "lsn_state \<Rightarrow> lsn_state \<Rightarrow> bool" where
  own: "listener_next ok (ls_phase s) (ls_el s) = Some (ph, el) \<Longrightarrow>
     lsn_step s (s\<lparr>ls_phase := ph, ls_el := el,
       acked := (case ls_phase s of PRemove b \<Rightarrow> Suc (acked s) | _ \<Rightarrow> acked s),
       sent := (if out_stream el = out_stream (ls_el s) then sent s else sent s @ [acked s])\<rparr>)"
| handle: "el = push_event b (ls_el s) \<Longrightarrow>
     lsn_step s (s\<lparr>ls_el := el, accepted := (if el = ls_el s then accepted s else accepted s @ [b])\<rparr>)"

inductive_simps lsn_step_iff: "lsn_step s s'"

definition lsn_initial :: "lsn_state \<Rightarrow> bool" where
  "lsn_initial s \<longleftrightarrow>
     ls_phase s = PWait \<and> queue (ls_el s) = [] \<and> out_stream (ls_el s) = [] \<and>
     accepted s = [] \<and> acked s = 0 \<and> sent s = []"

interpretation lsn: transition_system lsn_initial lsn_step .

fun holding :: "phase \<Rightarrow> string option" where
  "holding (PGot b) = Some b"
| "holding (PAwait b) = Some b"
| "holding (PRemove b) = Some b"
| "holding _ = None"

fun after_write :: "phase \<Rightarrow> bool" where
  "after_write (PAwait b) = True"
| "after_write (PRemove b) = True"
| "after_write _ = False"

definition in_order :: "lsn_state \<Rightarrow> bool" where
  "in_order s \<longleftrightarrow>
     acked s \<le> length (accepted s) \<and> queue (ls_el s) = drop (acked s) (accepted s) \<and>
     out_stream (ls_el s) = List.map (\<lambda>i. accepted s ! i) (sent s) \<and> sorted (sent s) \<and>
     {..<acked s} \<subseteq> set (sent s) \<and> (\<forall>i\<in>set (sent s). i \<le> acked s \<and> i < length (accepted s))"

definition lsn_inv :: "lsn_state \<Rightarrow> bool" where
  "lsn_inv s \<longleftrightarrow> in_order s \<and> length (queue (ls_el s)) \<le> el_capacity (ls_el s) \<and>
     (\<forall>b. holding (ls_phase s) = Some b \<longrightarrow> queue (ls_el s) \<noteq> [] \<and> hd (queue (ls_el s)) = b) \<and>
     (after_write (ls_phase s) \<longrightarrow> acked s \<in> set (sent s))"

section \<open>The invariant\<close>

lemma in_order_accept:
  assumes "in_order s" "queue el = queue (ls_el s) @ [b]" "out_stream el = out_stream (ls_el s)"
  shows "in_order (s\<lparr>ls_el := el, accepted := accepted s @ [b]\<rparr>)"
  using assms by (auto simp: in_order_def nth_append)

lemma lsn_inv_handle:
  assumes "lsn_inv s" "el = push_event b (ls_el s)"
  shows "lsn_inv (s\<lparr>ls_el := el, accepted := (if el = ls_el s then accepted s else accepted s @ [b])\<rparr>)"
proof (cases "int (length (queue (ls_el s))) \<le> buffer_size (ls_el s)")
  case True
  then have el: "el = (ls_el s)\<lparr>queue := queue (ls_el s) @ [b]\<rparr>" using assms by (simp add: push_event_def)
  then have ne: "el \<noteq> ls_el s" by (metis EventListener.select_convs(3) EventListener.surjective
        EventListener.update_convs(3) append_self_conv not_Cons_self2)
  have io: "in_order (s\<lparr>ls_el := el, accepted := accepted s @ [b]\<rparr>)"
    using assms(1) el by (intro in_order_accept) (auto simp: lsn_inv_def)
  have cap: "length (queue el) \<le> el_capacity el" using True el by (simp add: el_capacity_def)
  show ?thesis using assms(1) ne io cap el unfolding lsn_inv_def
    by auto
next
  case False
  then have "el = ls_el s" using assms by (simp add: push_event_def)
  then show ?thesis using assms(1) by simp
qed

lemma lsn_inv_move:
  assumes "lsn_inv s" "queue el = queue (ls_el s)" "out_stream el = out_stream (ls_el s)" "buffer_size el = buffer_size (ls_el s)"
    and "holding ph = None \<or> holding ph = getFirstEvent (ls_el s) \<and> queue (ls_el s) \<noteq> []"
    and "after_write ph \<Longrightarrow> acked s \<in> set (sent s)"
  shows "lsn_inv (s\<lparr>ls_phase := ph, ls_el := el\<rparr>)"
proof -
  have "in_order (s\<lparr>ls_phase := ph, ls_el := el\<rparr>)" using assms(1-4) by (simp add: lsn_inv_def in_order_def)
  moreover have "length (queue el) \<le> el_capacity el" using assms(1-4) by (simp add: lsn_inv_def el_capacity_def)
  moreover have "queue el \<noteq> [] \<and> hd (queue el) = b" if "holding ph = Some b" for b
    using assms(2,5) that by (auto simp: getFirstEvent_def split: list.splits)
  ultimately show ?thesis using assms(6) by (simp add: lsn_inv_def)
qed

lemma lsn_inv_write:
  assumes "lsn_inv s" "ls_phase s = PGot b"
  shows "lsn_inv (s\<lparr>ls_phase := PAwait b, ls_el := (ls_el s)\<lparr>out_stream := out_stream (ls_el s) @ [b]\<rparr>,
    sent := sent s @ [acked s]\<rparr>)"
proof -
  have q: "queue (ls_el s) = drop (acked s) (accepted s)" "queue (ls_el s) \<noteq> []" "hd (queue (ls_el s)) = b"
    using assms by (auto simp: lsn_inv_def in_order_def)
  then have "acked s < length (accepted s)" "accepted s ! acked s = b" by (auto simp: hd_drop_conv_nth)
  with assms q show ?thesis
    by (auto simp: lsn_inv_def in_order_def el_capacity_def sorted_append)
qed

lemma lsn_inv_remove:
  assumes "lsn_inv s" "ls_phase s = PRemove b"
  shows "lsn_inv (s\<lparr>ls_phase := PWait, ls_el := removeFirstEvent (ls_el s), acked := Suc (acked s)\<rparr>)"
proof -
  have q: "queue (ls_el s) = drop (acked s) (accepted s)" "queue (ls_el s) \<noteq> []" "acked s \<in> set (sent s)"
    using assms by (auto simp: lsn_inv_def in_order_def)
  then have "acked s < length (accepted s)" by auto
  with assms q show ?thesis
    by (auto simp: lsn_inv_def in_order_def el_capacity_def removeFirstEvent_def drop_Suc tl_drop le_Suc_eq lessThan_Suc)
qed

lemma lsn_inv_await:
  assumes inv: "lsn_inv s" and ph: "ls_phase s = PAwait b"
    and nxt: "listener_next ok (ls_phase s) (ls_el s) = Some (ph', el)"
  shows "lsn_inv (s\<lparr>ls_phase := ph', ls_el := el\<rparr>)"
proof -
  have sent: "acked s \<in> set (sent s)" and b: "queue (ls_el s) \<noteq> []" "getFirstEvent (ls_el s) = Some b"
    using inv ph by (auto simp: lsn_inv_def getFirstEvent_def split: list.split)
  obtain r where r: "readResult (in_stream (ls_el s)) = r" by blast
  have "(\<exists>rest. el = (ls_el s)\<lparr>in_stream := rest\<rparr>) \<or> el = ls_el s"
    and "ph' = PWait \<or> ph' = PRemove b \<or> ph' = PLoop \<or> ph' = PPanic"
    using nxt ph r by (auto simp: Let_def split: go.splits prod.splits option.splits if_splits)
  then show ?thesis using inv sent b by (intro lsn_inv_move) auto
qed

lemma lsn_inv_own:
  assumes inv: "lsn_inv s" and nxt: "listener_next ok (ls_phase s) (ls_el s) = Some (ph', el)"
  shows "lsn_inv (s\<lparr>ls_phase := ph', ls_el := el,
       acked := (case ls_phase s of PRemove b \<Rightarrow> Suc (acked s) | _ \<Rightarrow> acked s),
       sent := (if out_stream el = out_stream (ls_el s) then sent s else sent s @ [acked s])\<rparr>)"
proof (cases "ls_phase s")
  case PWait
  then show ?thesis using nxt lsn_inv_move[OF inv, of el ph'] by (auto split: option.splits)
next
  case PLoop
  then have "getFirstEvent (ls_el s) \<noteq> None" using nxt by (auto split: option.splits)
  then have "queue (ls_el s) \<noteq> []" by (auto simp: getFirstEvent_def)
  with PLoop show ?thesis using nxt lsn_inv_move[OF inv, of el ph'] by (auto split: option.splits)
next
  case (PGot b)
  show ?thesis
  proof (cases ok)
    case True
    then show ?thesis using PGot nxt lsn_inv_write[OF inv PGot] by auto
  next
    case False
    then show ?thesis using PGot nxt lsn_inv_move[OF inv, of el ph'] by auto
  qed
next
  case (PAwait b)
  moreover have "out_stream el = out_stream (ls_el s)"
    using PAwait nxt by (auto simp: Let_def split: go.splits prod.splits option.splits if_splits)
  ultimately show ?thesis using lsn_inv_await[OF inv PAwait nxt] by simp
next
  case (PRemove b)
  then show ?thesis using nxt lsn_inv_remove[OF inv PRemove] by (auto simp: removeFirstEvent_def)
qed (use nxt in simp_all)

lemma lsn_reachable_inv: "lsn.reachable s \<Longrightarrow> lsn_inv s"
proof (erule lsn.reachable_invariant)
  fix s assume "lsn_initial s"
  then show "lsn_inv s" by (simp add: lsn_inv_def lsn_initial_def in_order_def)
next
  fix s s' assume inv: "lsn_inv s" and "lsn_step s s'"
  from this(2) show "lsn_inv s'"
  proof cases
    case (own ok ph el)
    with lsn_inv_own[OF inv own(2)] show ?thesis by simp
  next
    case (handle el b)
    with lsn_inv_handle[OF inv handle(2)] show ?thesis by simp
  qed
qed

section \<open>Executable runs\<close>

datatype lsn_cmd = Own bool | Handle string

fun lsn_do :: "lsn_state \<Rightarrow> lsn_cmd \<Rightarrow> lsn_state" where
  "lsn_do s (Own ok) =
     (case listener_next ok (ls_phase s) (ls_el s) of
        None \<Rightarrow> s
      | Some (ph, el) \<Rightarrow> s\<lparr>ls_phase := ph, ls_el := el,
         acked := (case ls_phase s of PRemove b \<Rightarrow> Suc (acked s) | _ \<Rightarrow> acked s),
         sent := (if out_stream el = out_stream (ls_el s) then sent s else sent s @ [acked s])\<rparr>)"
| "lsn_do s (Handle b) =
     (let el = push_event b (ls_el s)
      in s\<lparr>ls_el := el, accepted := (if el = ls_el s then accepted s else accepted s @ [b])\<rparr>)"

lemma lsn_do_reachable: "lsn.reachable s \<Longrightarrow> lsn.reachable (lsn_do s c)"
proof (cases c)
  case (Own ok)
  assume r: "lsn.reachable s"
  show ?thesis
  proof (cases "listener_next ok (ls_phase s) (ls_el s)")
    case None
    with r Own show ?thesis by simp
  next
    case (Some p)
    obtain ph el where p: "p = (ph, el)" by (cases p)
    from lsn.move[OF r own[OF Some[unfolded p]]] show ?thesis by (simp add: Own Some p)
  qed
next
  case (Handle b)
  assume r: "lsn.reachable s"
  from lsn.move[OF r handle[of "push_event b (ls_el s)" b s, OF refl]] show ?thesis by (simp add: Handle Let_def)
qed

lemma lsn_run_reachable: "lsn.reachable s \<Longrightarrow> lsn.reachable (foldl lsn_do s cs)"
  by (induction cs arbitrary: s) (auto intro: lsn_do_reachable)

text \<open>
  C7. In-order delivery with acknowledgement: in every reachable state of a listener's goroutine,
  for every interleaving with \<open>HandleEvent\<close> calls and whatever the listener program sends and
  whichever writes fail, the queue is exactly the accepted events that were not yet
  acknowledged, in their order; every write sent one of the accepted events; the writes go
  through them in order, without leaving one out and repeating only the one that is not
  acknowledged yet (\<open>sent\<close> is sorted and covers all acknowledged ones); and the queue never
  holds more than \<open>buffer_size + 1\<close> events.
\<close>

theorem listener_in_order:
  assumes "lsn.reachable s"
  shows "queue (ls_el s) = drop (acked s) (accepted s) \<and>
    out_stream (ls_el s) = List.map (\<lambda>i. accepted s ! i) (sent s) \<and> sorted (sent s) \<and>
    {..<acked s} \<subseteq> set (sent s) \<and> (\<forall>i\<in>set (sent s). i \<le> acked s \<and> i < length (accepted s)) \<and>
    length (queue (ls_el s)) \<le> nat (buffer_size (ls_el s) + 1)"
  using lsn_reachable_inv[OF assms] unfolding lsn_inv_def in_order_def el_capacity_def by blast

definition lsn_demo :: lsn_state where
  "lsn_demo =
     \<lparr>ls_phase = PWait,
      ls_el = \<lparr>pool = ''p'', server = ''s'', queue = [], buffer_size = 1,
        in_stream = ''READY'' @ [CHR 0x0A] @ ''RESULT 2'' @ [CHR 0x0A] @ ''OK'', out_stream = []\<rparr>,
      accepted = [], acked = 0, sent = []\<rparr>"

definition lsn_demo_run :: lsn_state where
  "lsn_demo_run = foldl lsn_do lsn_demo
     [Handle ''m1'', Own True, Own True, Handle ''m2'', Own True, Handle ''m3'', Own True, Own True]"

theorem listener_in_order_witness:
  "accepted lsn_demo_run = [''m1'', ''m2''] \<and> acked lsn_demo_run = 1 \<and> queue (ls_el lsn_demo_run) = [''m2'']"
proof -
  have "lsn_initial lsn_demo" by code_simp
  then have "lsn.reachable lsn_demo_run" unfolding lsn_demo_run_def by (intro lsn_run_reachable lsn.start)
  from listener_in_order[OF this]
  have q: "queue (ls_el lsn_demo_run) = drop (acked lsn_demo_run) (accepted lsn_demo_run)" by blast
  have a: "accepted lsn_demo_run = [''m1'', ''m2'']" by code_simp
  have k: "acked lsn_demo_run = 1" by code_simp
  show ?thesis using q a k by simp
qed

section \<open>A listener that follows the protocol\<close>

definition ok_reply :: string where
  "ok_reply = ''READY'' @ [CHR 0x0A] @ ''RESULT 2'' @ [CHR 0x0A] @ ''OK''"

lemma read_line_append: "CHR 0x0A \<notin> set w \<Longrightarrow> read_line (w @ CHR 0x0A # r) = Some (w @ [CHR 0x0A], r)"
  by (subst read_line_def) (simp add: takeWhile_append Let_def)

lemma waitForReady_ready: "waitForReady (''READY'' @ CHR 0x0A # r) = Some r"
proof -
  have "read_line (''READY'' @ CHR 0x0A # r) = Some (''READY'' @ [CHR 0x0A], r)" by (rule read_line_append) simp
  then show ?thesis by (subst waitForReady.simps) simp
qed

lemma readResult_ok: "readResult (''RESULT 2'' @ CHR 0x0A # ''OK'' @ r) = Ret (Some ''OK'', r)"
proof -
  have l: "read_line (''RESULT 2'' @ CHR 0x0A # ''OK'' @ r) = Some (''RESULT 2'' @ [CHR 0x0A], ''OK'' @ r)"
    by (rule read_line_append) simp
  have f: "Fields (''RESULT 2'' @ [CHR 0x0A]) = [''RESULT'', ''2'']" by code_simp
  have a: "Atoi ''2'' = Some 2" by code_simp
  show ?thesis unfolding readResult_def l by (simp add: f[simplified] a makeslice_max_def)
qed

lemma lsn_round:
  assumes "ls_phase s = PWait" "queue (ls_el s) = b # q" "in_stream (ls_el s) = ok_reply @ r"
  shows "foldl lsn_do s (replicate 5 (Own True)) =
    s\<lparr>ls_el := (ls_el s)\<lparr>queue := q, in_stream := r, out_stream := out_stream (ls_el s) @ [b]\<rparr>,
      acked := Suc (acked s), sent := sent s @ [acked s]\<rparr>"
proof -
  have w: "waitForReady (in_stream (ls_el s)) = Some (''RESULT 2'' @ CHR 0x0A # ''OK'' @ r)"
    using waitForReady_ready[of "''RESULT 2'' @ CHR 0x0A # ''OK'' @ r"] assms(3) by (simp add: ok_reply_def)
  show ?thesis
    using assms(1,2) w readResult_ok[of r]
    by (simp add: eval_nat_numeral getFirstEvent_def removeFirstEvent_def)
qed

text \<open>
  C16. Progress: when the listener program follows the protocol (it announces \<open>READY\<close>, then
  answers the event with \<open>RESULT 2\<close> and \<open>OK\<close>, once per event) and writes succeed, the goroutine
  sends every queued event, each exactly once and in order, and ends with the queue empty and
  all of them acknowledged, after five steps per event.
\<close>

theorem listener_drains_queue:
  assumes "ls_phase s = PWait" "in_stream (ls_el s) = concat (replicate (length (queue (ls_el s))) ok_reply) @ r"
  shows "let s' = foldl lsn_do s (concat (replicate (length (queue (ls_el s))) (replicate 5 (Own True))))
    in ls_phase s' = PWait \<and> queue (ls_el s') = [] \<and> in_stream (ls_el s') = r \<and>
       out_stream (ls_el s') = out_stream (ls_el s) @ queue (ls_el s) \<and>
       acked s' = acked s + length (queue (ls_el s)) \<and> accepted s' = accepted s"
  using assms
proof (induction "queue (ls_el s)" arbitrary: s)
  case (Cons b q)
  define s1 where "s1 = foldl lsn_do s (replicate 5 (Own True))"
  have len: "length (queue (ls_el s)) = Suc (length q)" using Cons(2)[symmetric] by simp
  have inp: "in_stream (ls_el s) = ok_reply @ (concat (replicate (length q) ok_reply) @ r)"
    using Cons(4) len by simp
  note s1 = lsn_round[OF Cons(3) Cons(2)[symmetric] inp, folded s1_def]
  have f: "ls_phase s1 = PWait" "queue (ls_el s1) = q" "in_stream (ls_el s1) = concat (replicate (length q) ok_reply) @ r"
    "out_stream (ls_el s1) = out_stream (ls_el s) @ [b]" "acked s1 = Suc (acked s)" "accepted s1 = accepted s"
    using Cons(3) by (simp_all add: s1)
  have cmds: "foldl lsn_do s (concat (replicate (length (queue (ls_el s))) (replicate 5 (Own True)))) =
      foldl lsn_do s1 (concat (replicate (length q) (replicate 5 (Own True))))"
    unfolding len by (simp only: replicate_Suc concat.simps foldl_append s1_def)
  have "let s' = foldl lsn_do s1 (concat (replicate (length q) (replicate 5 (Own True))))
    in ls_phase s' = PWait \<and> queue (ls_el s') = [] \<and> in_stream (ls_el s') = r \<and>
       out_stream (ls_el s') = out_stream (ls_el s1) @ q \<and> acked s' = acked s1 + length q \<and> accepted s' = accepted s1"
    using Cons(1)[of s1] f(1-3) by simp
  then show ?case
    unfolding cmds unfolding len Let_def f(4-6) by (simp add: Cons(2)[symmetric])
qed (simp add: Let_def)

theorem listener_drains_queue_witness:
  "out_stream (ls_el (foldl lsn_do
      (lsn_demo\<lparr>ls_el := (ls_el lsn_demo)\<lparr>queue := [''m1''], in_stream := ok_reply\<rparr>\<rparr>) (replicate 5 (Own True)))) = [''m1'']"
  using listener_drains_queue[of "lsn_demo\<lparr>ls_el := (ls_el lsn_demo)\<lparr>queue := [''m1''], in_stream := ok_reply\<rparr>\<rparr>" "[]"]
  by (simp add: Let_def lsn_demo_def)

text \<open>
  A result length the reader cannot allocate: when the listener program answers with
  \<open>RESULT n\<close> and \<open>n\<close> is an int64 beyond what \<open>make\<close> can allocate, \<open>readResult\<close> panics, and with it the
  goroutine (the length sent by the program is used unchecked).
\<close>

lemma readResult_huge_panics:
  assumes "Fields (w @ [CHR 0x0A]) = [''RESULT'', d]" "Atoi d = Some n" "makeslice_max < n" "CHR 0x0A \<notin> set w"
  shows "readResult (w @ CHR 0x0A # r) = Panic"
  unfolding readResult_def read_line_append[OF assms(4)] using assms(1-3) by (simp add: makeslice_max_def)

lemma readResult_huge_panics_witness:
  "readResult (''RESULT 9223372036854775807'' @ CHR 0x0A # ''x'') = Panic"
proof (rule readResult_huge_panics)
  show "Fields (''RESULT 9223372036854775807'' @ [CHR 0x0A]) = [''RESULT'', ''9223372036854775807'']" by code_simp
  show "Atoi ''9223372036854775807'' = Some 9223372036854775807"
    by (simp add: Atoi_def parse_int_def parse_nat_def digit_val_def in_int64_def)
qed (simp_all add: makeslice_max_def)

end
