(* ===== verification/CommandParser.thy ===== *)
theory CommandParser
  imports ConfigEntries
begin

text \<open>
  \<open>subprocess/process/command_parser.go\<close>: splitting a program's command line into arguments,
  with quotes and backslash escapes, and \<open>path_split\<close>, \<open>Path_expand\<close> of
  \<open>subprocess/process/path.go\<close>. Slices out of bounds panic. The lemmas show that the parser
  always ends, that it reads back plain and quoted arguments, and what it does with a quote
  that is never closed.
\<close>

section \<open>command_parser.go\<close>

function findChar :: "string \<Rightarrow> nat \<Rightarrow> char \<Rightarrow> nat option" where
  "findChar s i ch =
     (if i < length s then
        (if s ! i = CHR 0x5C then findChar s (i + 2) ch
         else if s ! i = ch then Some i
         else findChar s (i + 1) ch)
      else None)"
  by pat_completeness auto
termination
  by (relation "measure (\<lambda>(s, i, ch). length s - i)") auto

function skipSpace :: "string \<Rightarrow> nat \<Rightarrow> nat option" where
  "skipSpace s i =
     (if i < length s then (if \<not> byte_is_space (s ! i) then Some i else skipSpace s (i + 1)) else None)"
  by pat_completeness auto
termination
  by (relation "measure (\<lambda>(s, i). length s - i)") auto

declare findChar.simps [simp del] skipSpace.simps [simp del]

definition is_quote :: "char \<Rightarrow> bool" where
  "is_quote c \<longleftrightarrow> c = CHR 0x22 \<or> c = CHR 0x27"

text \<open>\<open>arg[0]\<close> panics on an empty argument, \<open>arg[1:len(arg)-1]\<close> on one of length 1.\<close>

definition appendArgument :: "string \<Rightarrow> string list \<Rightarrow> string list go" where
  "appendArgument arg args =
     (case arg of
        [] \<Rightarrow> Panic
      | c # r \<Rightarrow> if is_quote c then (if r = [] then Panic else Ret (args @ [butlast r]))
                 else Ret (args @ [arg]))"

text \<open>The inner loop, from the first byte \<open>i\<close> of an argument: the arguments and the position after it.\<close>

function parse_arg :: "string \<Rightarrow> nat \<Rightarrow> string list \<Rightarrow> nat \<Rightarrow> (string list \<times> nat) go" where
  "parse_arg command i args j =
     (let cmdLen = length command
      in if j < cmdLen then
           (if byte_is_space (command ! j) then
              bindg (appendArgument (slice command i j) args) (\<lambda>args. Ret (args, j + 1))
            else if command ! j = CHR 0x5C then parse_arg command i args (j + 2)
            else if is_quote (command ! j) then
              (case findChar command (j + 1) (command ! j) of
                 None \<Rightarrow> bindg (appendArgument (drop i command) args) (\<lambda>args. Ret (args, cmdLen))
               | Some k \<Rightarrow> bindg (appendArgument (slice command i (k + 1)) args) (\<lambda>args. Ret (args, k + 1)))
            else parse_arg command i args (j + 1))
         else bindg (appendArgument (drop i command) args) (\<lambda>args. Ret (args, cmdLen)))"
  by pat_completeness auto
termination
  by (relation "measure (\<lambda>(command, i, args, j). length command - j)") auto

declare parse_arg.simps [simp del]

lemma skipSpace_ge: "skipSpace s i = Some j \<Longrightarrow> i \<le> j \<and> j < length s"
proof (induction s i rule: skipSpace.induct)
  case (1 s i)
  then show ?case by (subst (asm) skipSpace.simps) (auto split: if_splits)
qed

lemma findChar_ge: "findChar s i ch = Some k \<Longrightarrow> i \<le> k \<and> k < length s"
proof (induction s i ch rule: findChar.induct)
  case (1 s i ch)
  then show ?case by (subst (asm) findChar.simps) (fastforce split: if_splits)
qed

text \<open>Every argument makes progress, which is why the outer loop ends.\<close>

lemma parse_arg_progress:
  "parse_arg command i args j = Ret (args', i') \<Longrightarrow> i < length command \<Longrightarrow> i \<le> j \<Longrightarrow> i < i'"
proof (induction command i args j rule: parse_arg.induct)
  case (1 command i args j)
  show ?case
  proof (cases "j < length command \<and> \<not> byte_is_space (command ! j) \<and> \<not> is_quote (command ! j)")
    case True
    with 1 show ?thesis
      by (subst (asm) (3) parse_arg.simps) (auto simp: Let_def is_quote_def split: if_splits)
  next
    case False
    have "findChar command (Suc j) c = Some k \<Longrightarrow> i < Suc k" for c k
      using findChar_ge[of command "Suc j" c k] "1.prems"(3) by simp
    with False "1.prems" show ?thesis
      by (subst (asm) parse_arg.simps)
        (auto simp: Let_def bindg_eq_Ret is_quote_def split: if_splits option.splits)
  qed
qed

function parse_args :: "string \<Rightarrow> nat \<Rightarrow> string list \<Rightarrow> string list go" where
  "parse_args command i args =
     (if i < length command then
        (case skipSpace command i of
           None \<Rightarrow> Ret args
         | Some j \<Rightarrow>
             (case parse_arg command j args j of
                Ret (args', i') \<Rightarrow> parse_args command i' args'
              | Panic \<Rightarrow> Panic
              | Hang \<Rightarrow> Hang))
      else Ret args)"
  by pat_completeness auto
termination
proof (relation "measure (\<lambda>(command, i, args). length command - i)", goal_cases)
  case (2 command i args j p args' i')
  then have "i \<le> j" "j < length command" using skipSpace_ge by auto
  moreover have "j < i'"
    using parse_arg_progress[of command j args j args' i'] 2 \<open>j < length command\<close> by simp
  ultimately show ?case by simp
qed simp

declare parse_args.simps [simp del]

text \<open>\<open>None\<close> is the error "no command from empty string".\<close>

definition parseCommand :: "string \<Rightarrow> string list option go" where
  "parseCommand command = bindg (parse_args command 0 []) (\<lambda>args. Ret (if args = [] then None else Some args))"

section \<open>path.go\<close>

text \<open>\<open>filepath.Split\<close>: up to and including the last separator, and the rest.\<close>

definition path_dir :: "string \<Rightarrow> string" where
  "path_dir p = rev (dropWhile (\<lambda>c. c \<noteq> CHR ''/'') (rev p))"

definition path_file :: "string \<Rightarrow> string" where
  "path_file p = rev (takeWhile (\<lambda>c. c \<noteq> CHR ''/'') (rev p))"

lemma path_dir_shrinks: "path_dir p \<noteq> [] \<Longrightarrow> length (butlast (path_dir p)) < length p"
proof -
  assume "path_dir p \<noteq> []"
  then have "0 < length (path_dir p)" by simp
  moreover have "length (path_dir p) \<le> length p"
    using length_dropWhile_le[of "\<lambda>c. c \<noteq> CHR ''/''" "rev p"] by (simp add: path_dir_def)
  ultimately show ?thesis by (simp only: length_butlast)
qed

function path_parts :: "string \<Rightarrow> string list \<Rightarrow> string list" where
  "path_parts cur_path r =
     (let dir = path_dir cur_path;
          file = path_file cur_path;
          r' = (if length file > 0 then r @ [file] else r)
      in if dir = [] then r' else path_parts (butlast dir) r')"
  by pat_completeness auto
termination
  by (relation "measure (\<lambda>(cur_path, r). length cur_path)") (auto simp: path_dir_shrinks simp del: length_butlast)

declare path_parts.simps [simp del]

definition path_split :: "string \<Rightarrow> string list" where
  "path_split path = rev (path_parts path [])"

text \<open>
  \<open>os/user\<close>: the home directory of the current user and of a named one (\<open>None\<close>: the lookup
  failed). \<open>path_join\<close> is \<open>filepath.Join\<close>. The result is \<open>None\<close> on an error.
\<close>

record user_db =
  current_home :: "string option"
  lookup_home :: "string \<Rightarrow> string option"
  path_join :: "string list \<Rightarrow> string"

definition Path_expand :: "user_db \<Rightarrow> string \<Rightarrow> string option" where
  "Path_expand db path =
     (case path_split path of
        (CHR ''~'' # name) # rest \<Rightarrow>
          (case (if name = [] then current_home db else lookup_home db name) of
             None \<Rightarrow> None
           | Some home \<Rightarrow> Some (path_join db (home # rest)))
      | _ \<Rightarrow> Some path)"

section \<open>Reading arguments back\<close>

text \<open>
  An argument as it is written on a command line: a word with no space and no quote, or any text
  between two equal quotes. In both a backslash protects the byte after it, and stays in the value.
\<close>

datatype cmd_arg = Plain string | Quoted char string

fun escaped_body :: "(char \<Rightarrow> bool) \<Rightarrow> string \<Rightarrow> bool" where
  "escaped_body stop [] \<longleftrightarrow> True"
| "escaped_body stop [c] \<longleftrightarrow> c \<noteq> CHR 0x5C \<and> \<not> stop c"
| "escaped_body stop (c # d # r) \<longleftrightarrow>
     (if c = CHR 0x5C then escaped_body stop r else \<not> stop c \<and> escaped_body stop (d # r))"

fun arg_ok :: "cmd_arg \<Rightarrow> bool" where
  "arg_ok (Plain w) \<longleftrightarrow> w \<noteq> [] \<and> escaped_body (\<lambda>c. byte_is_space c \<or> is_quote c) w"
| "arg_ok (Quoted q w) \<longleftrightarrow> is_quote q \<and> escaped_body (\<lambda>c. c = q) w"

fun arg_text :: "cmd_arg \<Rightarrow> string" where
  "arg_text (Plain w) = w"
| "arg_text (Quoted q w) = q # w @ [q]"

fun arg_value :: "cmd_arg \<Rightarrow> string" where
  "arg_value (Plain w) = w"
| "arg_value (Quoted q w) = w"

definition command_line :: "cmd_arg list \<Rightarrow> string" where
  "command_line as = join_with '' '' (List.map arg_text as)"

lemma findChar_body:
  "escaped_body (\<lambda>c. c = q) w \<Longrightarrow> q \<noteq> CHR 0x5C \<Longrightarrow>
   findChar (pre @ w @ q # post) (length pre) q = Some (length pre + length w)"
proof (induction "\<lambda>c. c = q" w arbitrary: pre rule: escaped_body.induct)
  case 1
  then show ?case by (subst findChar.simps) simp
next
  case (2 c)
  have "findChar ((pre @ [c]) @ [] @ q # post) (length (pre @ [c])) q = Some (length (pre @ [c]))"
    using 2 by (subst findChar.simps) (simp add: nth_append)
  with 2 show ?case by (subst findChar.simps) simp
next
  case (3 c d r)
  show ?case
  proof (cases "c = CHR 0x5C")
    case True
    with 3(1)[OF True, of "pre @ [c, d]"] 3(3,4) show ?thesis by (subst findChar.simps) simp
  next
    case False
    with 3(2)[OF False, of "pre @ [c]"] 3(3,4) show ?thesis by (subst findChar.simps) simp
  qed
qed

lemma parse_arg_body:
  "escaped_body (\<lambda>c. byte_is_space c \<or> is_quote c) w \<Longrightarrow>
   parse_arg (pre @ w @ post) i args (length pre) = parse_arg (pre @ w @ post) i args (length pre + length w)"
proof (induction "\<lambda>c. byte_is_space c \<or> is_quote c" w arbitrary: pre rule: escaped_body.induct)
  case (2 c)
  then show ?case by (subst parse_arg.simps) simp
next
  case (3 c d r)
  have sp: "\<not> byte_is_space (CHR 0x5C)" by code_simp
  show ?case
  proof (cases "c = CHR 0x5C")
    case True
    with 3(1)[OF True, of "pre @ [c, d]"] 3(3) sp show ?thesis by (subst parse_arg.simps) simp
  next
    case False
    with 3(2)[OF False, of "pre @ [c]"] 3(3) show ?thesis by (subst parse_arg.simps) simp
  qed
qed simp

text \<open>One argument, at the end of the line or before a space.\<close>

lemma parse_arg_text:
  assumes "arg_ok a" "post = [] \<or> (\<exists>r. post = CHR '' '' # r)"
  shows "\<exists>i'. parse_arg (pre @ arg_text a @ post) (length pre) args (length pre) = Ret (args @ [arg_value a], i')
    \<and> length pre + length (arg_text a) \<le> i' \<and> i' \<le> Suc (length pre + length (arg_text a))"
proof (cases a)
  case (Plain w)
  from assms Plain obtain c r where w: "w = c # r" by (cases w) auto
  with assms Plain have nq: "\<not> is_quote c" by (cases r) (auto simp: is_quote_def split: if_splits)
  have app: "appendArgument w args = Ret (args @ [w])" using nq w by (simp add: appendArgument_def)
  have "parse_arg (pre @ w @ post) (length pre) args (length pre + length w)
        = Ret (args @ [w], if post = [] then length pre + length w else Suc (length pre + length w))"
    using assms(2)
  proof
    assume "post = []"
    then show ?thesis by (subst parse_arg.simps) (simp add: app)
  next
    assume "\<exists>r. post = CHR '' '' # r"
    then obtain r where r: "post = CHR '' '' # r" by blast
    have "(pre @ w @ post) ! (length pre + length w) = CHR '' ''"
      unfolding r append_assoc[symmetric] length_append[symmetric] by (rule nth_append_length)
    moreover have "byte_is_space (CHR '' '')" by code_simp
    ultimately show ?thesis using r by (subst parse_arg.simps) (simp add: slice_mid app)
  qed
  with parse_arg_body[of w pre post "length pre" args] assms(1) Plain show ?thesis by simp
next
  case (Quoted q w)
  with assms have q: "is_quote q" and b: "escaped_body (\<lambda>c. c = q) w" by auto
  then have nq: "q \<noteq> CHR 0x5C" "\<not> byte_is_space q" by (auto simp: is_quote_def byte_is_space_def)
  have fc: "findChar (pre @ q # w @ q # post) (Suc (length pre)) q = Some (Suc (length pre + length w))"
    using findChar_body[OF b nq(1), of "pre @ [q]" post] by simp
  have sl: "slice (pre @ q # w @ q # post) (length pre) (Suc (Suc (length pre + length w))) = q # w @ [q]"
    using slice_mid[of pre "q # w @ [q]" post] by simp
  show ?thesis
    using Quoted q nq by (subst parse_arg.simps) (simp add: fc sl appendArgument_def)
qed

lemma arg_text_first:
  assumes "arg_ok a"
  obtains c r where "arg_text a = c # r" "\<not> byte_is_space c"
proof (cases a)
  case (Plain w)
  with assms obtain c r where "w = c # r" by (cases w) auto
  moreover have "\<not> byte_is_space (CHR 0x5C)" by code_simp
  ultimately show ?thesis using that assms Plain by (cases r) (auto split: if_splits)
next
  case (Quoted q w)
  with assms that show ?thesis by (auto simp: is_quote_def byte_is_space_def)
qed

lemma skipSpace_at:
  "\<not> byte_is_space c \<Longrightarrow> skipSpace (pre @ c # r) (length pre) = Some (length pre)"
  by (subst skipSpace.simps) simp

lemma skipSpace_one:
  "\<not> byte_is_space c \<Longrightarrow> skipSpace (pre @ CHR '' '' # c # r) (length pre) = Some (Suc (length pre))"
proof -
  assume "\<not> byte_is_space c"
  then have "skipSpace ((pre @ [CHR '' '']) @ c # r) (length (pre @ [CHR '' ''])) = Some (length (pre @ [CHR '' '']))"
    by (rule skipSpace_at)
  moreover have "byte_is_space (CHR '' '')" by code_simp
  ultimately show ?thesis by (subst skipSpace.simps) simp
qed

lemma parse_args_end: "length s \<le> i \<Longrightarrow> parse_args s i args = Ret args"
  by (subst parse_args.simps) simp

text \<open>
  The outer loop, from the first byte of an argument, or from the space before it.
\<close>

lemma parse_args_texts:
  "\<forall>a\<in>set (a # as). arg_ok a \<Longrightarrow>
   pre = p0 \<or> pre = p0 @ '' '' \<Longrightarrow>
   parse_args (pre @ command_line (a # as)) (length p0) args = Ret (args @ List.map arg_value (a # as))"
proof (induction as arbitrary: a pre p0 args)
  case Nil
  let ?s = "pre @ arg_text a"
  have a: "arg_ok a" using Nil by simp
  obtain c r where c: "arg_text a = c # r" "\<not> byte_is_space c" using arg_text_first[OF a] .
  have sk: "skipSpace ?s (length p0) = Some (length pre)"
    using Nil(2) c skipSpace_at[OF c(2), of pre r] skipSpace_one[OF c(2), of p0 r] by auto
  obtain i' where i': "parse_arg ?s (length pre) args (length pre) = Ret (args @ [arg_value a], i')"
    "length ?s \<le> i'" using parse_arg_text[OF a, of "[]" pre args] by auto
  have "length p0 < length ?s" using Nil(2) c by auto
  with sk i' show ?case
    by (subst parse_args.simps) (simp add: command_line_def parse_args_end)
next
  case (Cons b as)
  let ?rest = "command_line (b # as)"
  let ?s = "pre @ arg_text a @ CHR '' '' # ?rest"
  have s: "pre @ command_line (a # b # as) = ?s" by (simp add: command_line_def)
  have a: "arg_ok a" using Cons by simp
  obtain c r where c: "arg_text a = c # r" "\<not> byte_is_space c" using arg_text_first[OF a] .
  have sk: "skipSpace ?s (length p0) = Some (length pre)"
    using Cons(3) c skipSpace_at[OF c(2), of pre] skipSpace_one[OF c(2), of p0] by auto
  obtain i' where i': "parse_arg ?s (length pre) args (length pre) = Ret (args @ [arg_value a], i')"
    "i' = length (pre @ arg_text a) \<or> i' = length (pre @ arg_text a @ '' '')"
    using parse_arg_text[OF a, of "CHR '' '' # ?rest" pre args] by (auto simp: le_Suc_eq)
  have ok: "\<forall>x\<in>set (b # as). arg_ok x" using Cons(2) by simp
  have "parse_args ?s i' (args @ [arg_value a]) = Ret ((args @ [arg_value a]) @ List.map arg_value (b # as))"
    using i'(2) Cons(1)[OF ok, of "pre @ arg_text a @ '' ''" "pre @ arg_text a" "args @ [arg_value a]"]
      Cons(1)[OF ok, of "pre @ arg_text a @ '' ''" "pre @ arg_text a @ '' ''" "args @ [arg_value a]"]
    by auto
  moreover have "length p0 < length ?s" using Cons(3) c by auto
  ultimately show ?case using sk i'(1) s
    by (subst parse_args.simps) simp
qed

text \<open>
  C20. Reading a command line back: a line made of arguments separated by one space, each a
  plain word or a text in single or double quotes, is parsed by \<open>parseCommand\<close> into exactly the
  values of the arguments, in their order: quotes are removed, spaces inside quotes are kept, and
  a backslash protects the byte after it (and stays in the value).
\<close>

theorem parseCommand_roundtrip:
  assumes "\<forall>a\<in>set as. arg_ok a"
  shows "parseCommand (command_line as) = Ret (if as = [] then None else Some (List.map arg_value as))"
proof (cases as)
  case Nil
  then show ?thesis by (simp add: parseCommand_def command_line_def parse_args_end)
next
  case (Cons a as')
  with assms have "parse_args ([] @ command_line (a # as')) (length []) [] = Ret ([] @ List.map arg_value (a # as'))"
    using parse_args_texts[of a as' "[]" "[]" "[]"] by simp
  with Cons show ?thesis by (simp add: parseCommand_def)
qed

theorem parseCommand_roundtrip_witness:
  "parseCommand ''ls -l 'my file' a'' =
     Ret (Some [''ls'', ''-l'', ''my file'', ''a''])"
proof -
  let ?as = "[Plain ''ls'', Plain ''-l'', Quoted (CHR 0x27) ''my file'', Plain ''a'']"
  have "\<forall>a\<in>set ?as. arg_ok a" by code_simp
  from parseCommand_roundtrip[OF this] show ?thesis by (simp add: command_line_def)
qed

lemma findChar_absent: "q \<notin> set (drop i s) \<Longrightarrow> findChar s i q = None"
proof (induction s i q rule: findChar.induct)
  case (1 s i ch)
  show ?case
  proof (cases "i < length s")
    case True
    then have d: "drop i s = s ! i # drop (Suc i) s" by (simp add: Cons_nth_drop_Suc)
    have "set (drop (i + 2) s) \<subseteq> set (drop i s)" by (rule set_drop_subset_set_drop) simp
    with 1 True d show ?thesis by (subst findChar.simps) auto
  qed (subst findChar.simps, simp)
qed

text \<open>
  A quote that is never closed: for an argument that opens with a quote which does not
  occur again, \<open>parseCommand\<close> takes everything to the end of the line as the argument and then cuts
  off its last byte as if that were the closing quote; a lone quote makes the slice
  \<open>arg[1:len(arg)-1]\<close> panic.
\<close>

lemma parseCommand_unterminated:
  assumes "is_quote q" "q \<notin> set w"
  shows "parseCommand (q # w) = (if w = [] then Panic else Ret (Some [butlast w]))"
proof -
  have nsp: "\<not> byte_is_space q" using assms by (auto simp: is_quote_def byte_is_space_def)
  have nb: "q \<noteq> CHR 0x5C" using assms by (auto simp: is_quote_def)
  have "findChar (q # w) (Suc 0) q = None" using assms by (intro findChar_absent) simp
  then have pa: "parse_arg (q # w) 0 [] 0 = (if w = [] then Panic else Ret ([butlast w], length (q # w)))"
    using assms nsp nb by (subst parse_arg.simps) (simp add: appendArgument_def)
  have "skipSpace (q # w) 0 = Some 0" using skipSpace_at[OF nsp, of "[]" w] by simp
  with pa show ?thesis
    by (simp add: parseCommand_def parse_args.simps[of _ 0] parse_args_end)
qed

lemma parseCommand_unterminated_witness:
  "parseCommand (CHR 0x22 # ''abc'') = Ret (Some [''ab'']) \<and> parseCommand [CHR 0x27] = Panic"
proof -
  have "is_quote (CHR 0x22)" "CHR 0x22 \<notin> set ''abc''" by (simp_all add: is_quote_def)
  from parseCommand_unterminated[OF this]
  have a: "parseCommand (CHR 0x22 # ''abc'') = Ret (Some [''ab''])" by simp
  have "is_quote (CHR 0x27)" "CHR 0x27 \<notin> set []" by (simp_all add: is_quote_def)
  from parseCommand_unterminated[OF this]
  have "parseCommand [CHR 0x27] = Panic" by simp
  with a show ?thesis by simp
qed

end
