(* ===== verification/LogFile.thy ===== *)
theory LogFile
  imports Events CommandParser
begin

text \<open>
  \<open>FileLogger\<close> of \<open>subprocess/logger/log.go\<close>: a log kept in a ring of numbered files, over a
  model of the file system, and the fault codes of \<open>subprocess/faults\<close>. Every operation takes
  the logger and the world and returns its result with both; I/O errors are values. The lemmas
  show that the ring of files implements an abstract log that keeps the newest segments.
\<close>

section \<open>faults.go\<close>

definition BAD_ARGUMENTS :: int where "BAD_ARGUMENTS = 3"
definition BAD_NAME :: int where "BAD_NAME = 10"
definition BAD_SIGNAL :: int where "BAD_SIGNAL = 11"
definition NO_FILE :: int where "NO_FILE = 20"
definition FAILED :: int where "FAILED = 30"
definition NOT_RUNNING :: int where "NOT_RUNNING = 70"
definition SUCCESS :: int where "SUCCESS = 80"
definition SHUTDOWN_STATE :: int where "SHUTDOWN_STATE = 6"

text \<open>\<open>Fault\<close> is \<open>faults.NewFault\<close>, \<open>Errorf\<close> an error with a text, \<open>OsError\<close> one of the operating system.\<close>

datatype log_error = Fault int string | Errorf string | OsError

section \<open>The world of a logger\<close>

text \<open>
  The files by their canonical path, with content and modification time; the paths that cannot
  be opened, created or removed and the directories that do not exist; whether writing to an
  open file fails; the standard streams; the syslog daemon; the event system; and the process
  identifier that a log event carries (\<open>pidFunc\<close>).
\<close>

record os_file =
  f_content :: string
  f_mtime :: int

record world =
  files :: "(string, os_file) gomap"
  clock :: int
  denied :: "string list"
  nodirs :: "string list"
  disk_full :: bool
  std_out :: "string list"
  std_err :: "string list"
  std_broken :: bool
  sys_out :: "string list"
  sys_up :: bool
  ev :: ev_sys
  pidFunc :: "string \<Rightarrow> int"

definition blocked :: "world \<Rightarrow> string \<Rightarrow> bool" where
  "blocked w p \<longleftrightarrow> p \<in> set (denied w) \<or> path_dir p \<in> set (nodirs w)"

definition os_Create :: "string \<Rightarrow> world \<Rightarrow> bool \<times> world" where
  "os_Create p w =
     (if blocked w p then (False, w)
      else (True, w\<lparr>files := AList.update p \<lparr>f_content = [], f_mtime = clock w\<rparr> (files w)\<rparr>))"

definition os_exists :: "world \<Rightarrow> string \<Rightarrow> bool" where
  "os_exists w p \<longleftrightarrow> \<not> blocked w p \<and> map_of (files w) p \<noteq> None"

definition os_Remove :: "string \<Rightarrow> world \<Rightarrow> bool \<times> world" where
  "os_Remove p w = (if os_exists w p then (True, w\<lparr>files := AList.delete p (files w)\<rparr>) else (False, w))"

definition file_text :: "world \<Rightarrow> string \<Rightarrow> string" where
  "file_text w p = (case map_of (files w) p of None \<Rightarrow> [] | Some f \<Rightarrow> f_content f)"

text \<open>Writing to an open file appends to it: only its logger writes to it.\<close>

definition os_append :: "string \<Rightarrow> string \<Rightarrow> world \<Rightarrow> world" where
  "os_append p b w =
     (case map_of (files w) p of
        None \<Rightarrow> w
      | Some f \<Rightarrow> w\<lparr>files := AList.update p \<lparr>f_content = f_content f @ b, f_mtime = clock w\<rparr> (files w)\<rparr>)"

text \<open>\<open>ioutil.ReadDir\<close> of the directory of a path: base names and files, sorted by name.\<close>

definition ReadDir :: "string \<Rightarrow> world \<Rightarrow> (string \<times> os_file) list option" where
  "ReadDir name w =
     (if path_dir name \<in> set (nodirs w) then None
      else Some (sort_key fst
        [(path_file p, f). (p, f) \<leftarrow> files w, path_dir p = path_dir name]))"

section \<open>Log events\<close>

datatype LogEventEmitter = NullLogEventEmitter | StdLogEventEmitter string string string

definition NewStdoutLogEventEmitter :: "string \<Rightarrow> string \<Rightarrow> LogEventEmitter" where
  "NewStdoutLogEventEmitter process_name group_name = StdLogEventEmitter ''stdout'' process_name group_name"

definition NewStderrLogEventEmitter :: "string \<Rightarrow> string \<Rightarrow> LogEventEmitter" where
  "NewStderrLogEventEmitter process_name group_name = StdLogEventEmitter ''stderr'' process_name group_name"

fun emitLogEvent :: "LogEventEmitter \<Rightarrow> string \<Rightarrow> world \<Rightarrow> world" where
  "emitLogEvent NullLogEventEmitter data w = w"
| "emitLogEvent (StdLogEventEmitter typ p g) data w =
     w\<lparr>ev := emit_new (if typ = ''stdout'' then CreateProcessLogStdoutEvent p g (pidFunc w p) data
                       else CreateProcessLogStderrEvent p g (pidFunc w p) data) (ev w)\<rparr>"

section \<open>FileLogger\<close>

text \<open>\<open>fl_file\<close>: the path of the open file and whether it is still open; \<open>None\<close> is a nil pointer.\<close>

record FileLogger =
  fl_name :: string
  maxSize :: int
  backups :: int
  curRotate :: int
  fileSize :: int
  fl_file :: "(string \<times> bool) option"
  fl_emitter :: LogEventEmitter

definition getLogFileName :: "FileLogger \<Rightarrow> int \<Rightarrow> string" where
  "getLogFileName l index = fl_name l @ ''.'' @ Itoa index"

definition GetCurrentLogFile :: "FileLogger \<Rightarrow> string" where
  "GetCurrentLogFile l = getLogFileName l (curRotate l)"

text \<open>A zero divisor panics.\<close>

definition GetPrevLogFile :: "FileLogger \<Rightarrow> string go" where
  "GetPrevLogFile l =
     (if backups l = 0 then Panic else Ret (getLogFileName l ((curRotate l - 1 + backups l) mod backups l)))"

definition nextLogFile :: "FileLogger \<Rightarrow> FileLogger" where
  "nextLogFile l =
     (let l1 = l\<lparr>curRotate := curRotate l + 1\<rparr>
      in if curRotate l1 \<ge> backups l1 then l1\<lparr>curRotate := 0\<rparr> else l1)"

definition openFile :: "bool \<Rightarrow> FileLogger \<Rightarrow> world \<Rightarrow> bool \<times> FileLogger \<times> world" where
  "openFile trunc l w =
     (let fileName = GetCurrentLogFile l;
          (ok, w') = (if trunc then os_Create fileName w else (os_exists w fileName, w))
      in (ok, l\<lparr>fl_file := (if ok then Some (fileName, True) else None)\<rparr>, w'))"

text \<open>One directory entry in the search for the newest log file.\<close>

definition latest1 :: "FileLogger \<Rightarrow> (int \<times> os_file) option \<Rightarrow> string \<times> os_file \<Rightarrow> (int \<times> os_file) option" where
  "latest1 l latest nf =
     (let baseName = path_file (fl_name l);
          (fname, info) = nf
      in if has_prefix fname (baseName @ ''.'') then
           (case Atoi (drop (length baseName + 1) fname) of
              Some n \<Rightarrow>
                if n \<ge> 0 \<and> n < backups l then
                  (case latest of
                     None \<Rightarrow> Some (n, info)
                   | Some (m, lf) \<Rightarrow> if f_mtime lf < f_mtime info then Some (n, info) else latest)
                else latest
            | None \<Rightarrow> latest)
         else latest)"

definition updateLatestLog :: "FileLogger \<Rightarrow> world \<Rightarrow> FileLogger \<times> world" where
  "updateLatestLog l w =
     (case ReadDir (fl_name l) w of
        None \<Rightarrow> (l\<lparr>curRotate := 0\<rparr>, w)
      | Some infos \<Rightarrow>
          (case foldl (latest1 l) None infos of
             None \<Rightarrow> snd (openFile True (nextLogFile (l\<lparr>curRotate := - 1, fileSize := 0\<rparr>)) w)
           | Some (n, f) \<Rightarrow>
               (let l1 = l\<lparr>curRotate := n, fileSize := int (length (f_content f))\<rparr>
                in if fileSize l1 \<ge> maxSize l1 then snd (openFile True (nextLogFile l1) w)
                   else snd (openFile False l1 w))))"

definition NewFileLogger :: "string \<Rightarrow> int \<Rightarrow> int \<Rightarrow> LogEventEmitter \<Rightarrow> world \<Rightarrow> FileLogger \<times> world" where
  "NewFileLogger name max_size nbackups em w =
     updateLatestLog \<lparr>fl_name = name, maxSize = max_size, backups = nbackups, curRotate = - 1, fileSize = 0,
       fl_file = None, fl_emitter = em\<rparr> w"

definition fl_ClearCurLogFile :: "FileLogger \<Rightarrow> world \<Rightarrow> log_error option \<times> FileLogger \<times> world" where
  "fl_ClearCurLogFile l w =
     (let (ok, l', w') = openFile True l w in (if ok then None else Some OsError, l', w'))"

text \<open>The loop of \<open>ClearAllLogFile\<close> over the file numbers, up to the first file it cannot remove.\<close>

fun remove_files :: "FileLogger \<Rightarrow> int list \<Rightarrow> world \<Rightarrow> bool \<times> world" where
  "remove_files l [] w = (True, w)"
| "remove_files l (i # is) w =
     (let (ok, w') = os_Remove (getLogFileName l i) w in if ok then remove_files l is w' else (False, w'))"

definition fl_ClearAllLogFile :: "FileLogger \<Rightarrow> world \<Rightarrow> log_error option \<times> FileLogger \<times> world" where
  "fl_ClearAllLogFile l w =
     (let (ok, w1) = remove_files l [0..min (backups l - 1) (curRotate l)] w
      in if \<not> ok then (Some (Fault FAILED ''remove''), l, w1)
         else
           (let (ok2, l2, w2) = openFile True (l\<lparr>curRotate := 0\<rparr>) w1
            in (if ok2 then None else Some (Fault FAILED ''create''), l2, w2)))"

text \<open>
  \<open>make([]byte, length)\<close> followed by \<open>f.ReadAt(b, offset)\<close>: a negative or too large length
  panics, reading beyond the end is an error.
\<close>

definition make_ReadAt :: "string \<Rightarrow> int \<Rightarrow> int \<Rightarrow> string option go" where
  "make_ReadAt text offset len =
     (if len < 0 \<or> len > 2 ^ 48 then Panic
      else if len = 0 then Ret (Some [])
      else if offset + len \<le> int (length text) then Ret (Some (take (nat len) (drop (nat offset) text)))
      else Ret None)"

definition fl_ReadLog :: "int \<Rightarrow> int \<Rightarrow> FileLogger \<Rightarrow> world \<Rightarrow> (log_error + string) go" where
  "fl_ReadLog offset len l w =
     (if offset < 0 \<and> len \<noteq> 0 then Ret (Inl (Fault BAD_ARGUMENTS ''BAD_ARGUMENTS''))
      else if offset \<ge> 0 \<and> len < 0 then Ret (Inl (Fault BAD_ARGUMENTS ''BAD_ARGUMENTS''))
      else if \<not> os_exists w (GetCurrentLogFile l) then Ret (Inl (Fault FAILED ''FAILED''))
      else
        (let text = file_text w (GetCurrentLogFile l);
             fileLen = int (length text);
             read = (\<lambda>offset len. bindg (make_ReadAt text offset len) (\<lambda>r. Ret (case r of
                None \<Rightarrow> Inl (Fault FAILED ''FAILED'') | Some b \<Rightarrow> Inr b)))
         in if offset < 0 then
              (let offset1 = fileLen + offset;
                   offset2 = (if offset1 < 0 then 0 else offset1)
               in read offset2 (fileLen - offset2))
            else if len = 0 then
              (if offset > fileLen then Ret (Inr []) else read offset (fileLen - offset))
            else if offset \<ge> fileLen then Ret (Inr [])
            else read offset (if wrap64 (offset + len) > fileLen then fileLen - offset else len)))"

text \<open>The result: the text, the next offset, whether the offset was beyond the end, the error.\<close>

definition fl_ReadTailLog :: "int \<Rightarrow> int \<Rightarrow> FileLogger \<Rightarrow> world \<Rightarrow> (string \<times> int \<times> bool \<times> log_error option) go" where
  "fl_ReadTailLog offset len l w =
     (if offset < 0 then Ret ([], offset, False, Some (Errorf ''offset should not be less than 0''))
      else if len < 0 then Ret ([], offset, False, Some (Errorf ''length should be not be less than 0''))
      else if \<not> os_exists w (GetCurrentLogFile l) then Ret ([], 0, False, Some OsError)
      else
        (let text = file_text w (GetCurrentLogFile l);
             fileLen = int (length text)
         in if offset \<ge> fileLen then Ret ([], fileLen, True, None)
            else
              bindg (make_ReadAt text offset (if wrap64 (offset + len) > fileLen then fileLen - offset else len))
                (\<lambda>r. case r of
                   None \<Rightarrow> Ret ([], offset, False, Some OsError)
                 | Some b \<Rightarrow> Ret (b, offset + int (length b), False, None))))"

definition fl_rotate :: "FileLogger \<Rightarrow> world \<Rightarrow> FileLogger \<times> world" where
  "fl_rotate l w = (if fileSize l \<ge> maxSize l then snd (openFile True (nextLogFile l) w) else (l, w))"

text \<open>\<open>Write\<close>: the number of bytes written and the error.\<close>

definition fl_Write :: "string \<Rightarrow> FileLogger \<Rightarrow> world \<Rightarrow> (int \<times> log_error option) \<times> FileLogger \<times> world" where
  "fl_Write p l w =
     (case fl_file l of
        Some (path, True) \<Rightarrow>
          if disk_full w then ((0, Some OsError), l, w)
          else
            (let n = int (length p);
                 w1 = emitLogEvent (fl_emitter l) p (os_append path p w);
                 l1 = l\<lparr>fileSize := fileSize l + n\<rparr>
             in if fileSize l1 \<ge> maxSize l1 then
                  (if os_exists w1 (GetCurrentLogFile l1) then
                     (let l2 = l1\<lparr>fileSize := int (length (file_text w1 (GetCurrentLogFile l1)))\<rparr>;
                          (l3, w3) = fl_rotate l2 w1
                      in ((n, None), l3, w3))
                   else ((n, Some OsError), l1, w1))
                else ((n, None), l1, w1))
      | _ \<Rightarrow> ((0, Some OsError), l, w))"

definition fl_Close :: "FileLogger \<Rightarrow> log_error option \<times> FileLogger" where
  "fl_Close l =
     (case fl_file l of
        None \<Rightarrow> (None, l)
      | Some (path, True) \<Rightarrow> (None, l\<lparr>fl_file := Some (path, False)\<rparr>)
      | Some (path, False) \<Rightarrow> (Some OsError, l))"

section \<open>The abstract log\<close>

text \<open>
  What a rotating log promises: its text is kept in at most \<open>k\<close> segments, newest first; a write
  goes to the newest one, and when that has reached \<open>mx\<close> bytes an empty one is started and
  the oldest is given up.
\<close>

definition seg_write :: "int \<Rightarrow> nat \<Rightarrow> string \<Rightarrow> string list \<Rightarrow> string list" where
  "seg_write mx k p segs =
     (let segs1 = (hd segs @ p) # tl segs
      in if int (length (hd segs @ p)) \<ge> mx then take k ([] # segs1) else segs1)"

definition kept :: "string list \<Rightarrow> string" where
  "kept segs = concat (rev segs)"

text \<open>Either nothing was given up yet, or all \<open>k\<close> segments are in use; all but the newest are full.\<close>

definition seg_inv :: "int \<Rightarrow> nat \<Rightarrow> string \<Rightarrow> string list \<Rightarrow> bool" where
  "seg_inv mx k s segs \<longleftrightarrow>
     segs \<noteq> [] \<and> length segs \<le> k \<and> suffix (kept segs) s \<and> (kept segs = s \<or> length segs = k) \<and>
     (\<forall>t\<in>set (tl segs). mx \<le> int (length t))"

lemma seg_inv_write:
  assumes "seg_inv mx k s segs"
  shows "seg_inv mx k (s @ p) (seg_write mx k p segs)"
proof -
  obtain t ts where segs: "segs = t # ts" using assms by (cases segs) (auto simp: seg_inv_def)
  let ?segs1 = "(t @ p) # ts"
  have kept1: "kept ?segs1 = kept segs @ p" by (simp add: kept_def segs)
  have inv1: "seg_inv mx k (s @ p) ?segs1"
    using assms kept1 by (auto simp: seg_inv_def segs)
  show ?thesis
  proof (cases "mx \<le> int (length (t @ p))")
    case False
    then show ?thesis using inv1 by (simp add: seg_write_def segs)
  next
    case True
    show ?thesis
    proof (cases "length ?segs1 < k")
      case more: True
      then have "seg_write mx k p segs = [] # ?segs1" using True by (simp add: seg_write_def segs)
      moreover have "kept ([] # ?segs1) = kept ?segs1" by (simp add: kept_def)
      ultimately show ?thesis using inv1 True more by (auto simp: seg_inv_def)
    next
      case False
      with inv1 have k: "k = Suc (length ts)" by (simp add: seg_inv_def)
      then have w: "seg_write mx k p segs = [] # butlast ?segs1"
        using True by (simp add: seg_write_def segs butlast_conv_take)
      have "?segs1 = butlast ?segs1 @ [last ?segs1]" by simp
      then have "kept ?segs1 = last ?segs1 @ kept ([] # butlast ?segs1)"
        unfolding kept_def by (metis concat.simps(1,2) concat_append append_Nil2 rev.simps(2) rev_append rev_singleton_conv append_Cons append_Nil)
      then have "suffix (kept ([] # butlast ?segs1)) (s @ p)"
        using inv1 by (metis seg_inv_def suffix_def suffix_order.trans)
      then show ?thesis unfolding w using inv1 k True
        by (auto simp: seg_inv_def dest: in_set_butlastD split: if_splits)
    qed
  qed
qed

lemma seg_inv_bytes:
  assumes "seg_inv mx k s segs" "0 \<le> mx"
  shows "kept segs = s \<or> (int k - 1) * mx \<le> int (length (kept segs))"
proof (cases "kept segs = s")
  case False
  then have k: "length segs = k" using assms by (simp add: seg_inv_def)
  obtain t ts where segs: "segs = t # ts" using assms by (cases segs) (auto simp: seg_inv_def)
  have len: "int (length us) * mx \<le> int (length (concat (rev us)))" if "\<forall>u\<in>set us. mx \<le> int (length u)" for us
    using that by (induction us) (auto simp: distrib_right)
  have "int (length ts) * mx \<le> int (length (concat (rev ts)))"
    by (rule len) (use assms(1) segs in \<open>simp add: seg_inv_def\<close>)
  moreover have "int k - 1 = int (length ts)" using k by (simp add: segs)
  ultimately show ?thesis by (simp add: segs kept_def)
qed simp

locale segmented_log =
  fixes rep :: "'s \<Rightarrow> string list \<Rightarrow> bool"
    and wr :: "string \<Rightarrow> 's \<Rightarrow> 's"
    and mx :: int
    and k :: nat
  assumes write_refines: "rep s segs \<Longrightarrow> rep (wr p s) (seg_write mx k p segs)"
begin

lemma writes_refine: "rep s segs \<Longrightarrow> rep (foldl (\<lambda>s p. wr p s) s ps) (foldl (\<lambda>segs p. seg_write mx k p segs) segs ps)"
  by (induction ps arbitrary: s segs) (auto intro: write_refines)

lemma writes_inv: "seg_inv mx k t segs \<Longrightarrow> seg_inv mx k (t @ concat ps) (foldl (\<lambda>segs p. seg_write mx k p segs) segs ps)"
proof (induction ps arbitrary: t segs)
  case (Cons p ps)
  show ?case using Cons.IH[OF seg_inv_write[OF Cons.prems]] by simp
qed simp

lemma writes_keep:
  assumes "rep s [[]]" "1 \<le> k" "0 \<le> mx"
  obtains segs where "rep (foldl (\<lambda>s p. wr p s) s ps) segs" "suffix (kept segs) (concat ps)"
    "kept segs = concat ps \<or> (int k - 1) * mx \<le> int (length (kept segs))"
proof
  let ?segs = "foldl (\<lambda>segs p. seg_write mx k p segs) [[]] ps"
  have "seg_inv mx k [] [[]]" using assms(2) by (simp add: seg_inv_def kept_def)
  from writes_inv[OF this] have inv: "seg_inv mx k (concat ps) ?segs" by simp
  show "rep (foldl (\<lambda>s p. wr p s) s ps) ?segs" using assms(1) by (rule writes_refine)
  show "suffix (kept ?segs) (concat ps)" using inv by (simp add: seg_inv_def)
  show "kept ?segs = concat ps \<or> (int k - 1) * mx \<le> int (length (kept ?segs))"
    using seg_inv_bytes[OF inv assms(3)] .
qed

end

section \<open>The ring of files implements it\<close>

definition ring_file :: "FileLogger \<Rightarrow> nat \<Rightarrow> string" where
  "ring_file l j = getLogFileName l ((curRotate l - int j) mod backups l)"

text \<open>
  The files behind a logger that works: the current file is open, none of the ring's paths is
  blocked, segment \<open>j\<close> is in the file \<open>j\<close> places before the current one, and \<open>fileSize\<close>, which the
  code does not reset on a rotation, is never below the size of the current file.
\<close>

definition ring_ok :: "FileLogger \<Rightarrow> world \<Rightarrow> bool" where
  "ring_ok l w \<longleftrightarrow>
     1 \<le> backups l \<and> 0 \<le> curRotate l \<and> curRotate l < backups l \<and>
     fl_file l = Some (GetCurrentLogFile l, True) \<and> map_of (files w) (GetCurrentLogFile l) \<noteq> None \<and>
     int (length (file_text w (GetCurrentLogFile l))) \<le> fileSize l \<and>
     (\<forall>i. 0 \<le> i \<and> i < backups l \<longrightarrow> \<not> blocked w (getLogFileName l i)) \<and> \<not> disk_full w"

definition ring_rep :: "FileLogger \<Rightarrow> world \<Rightarrow> string list \<Rightarrow> bool" where
  "ring_rep l w segs \<longleftrightarrow>
     ring_ok l w \<and> segs \<noteq> [] \<and> int (length segs) \<le> backups l \<and>
     (\<forall>j<length segs. file_text w (ring_file l j) = segs ! j)"

lemma Itoa_inj: "Itoa i = Itoa j \<Longrightarrow> i = j"
  by (metis option.inject parse_int_Itoa)

lemma getLogFileName_inj [simp]: "getLogFileName l i = getLogFileName l j \<longleftrightarrow> i = j"
  by (auto simp: getLogFileName_def dest: Itoa_inj)

lemma emitLogEvent_frame [simp]:
  "files (emitLogEvent em p w) = files w" "denied (emitLogEvent em p w) = denied w"
  "nodirs (emitLogEvent em p w) = nodirs w" "disk_full (emitLogEvent em p w) = disk_full w"
  "clock (emitLogEvent em p w) = clock w"
  by (cases em; simp)+

lemma blocked_frame [simp]:
  "blocked (emitLogEvent em p w) = blocked w" "blocked (w\<lparr>files := fs\<rparr>) = blocked w"
  by (simp_all add: blocked_def fun_eq_iff)

lemma os_append_frame [simp]:
  "blocked (os_append q b w) = blocked w" "disk_full (os_append q b w) = disk_full w" "clock (os_append q b w) = clock w"
  by (auto simp: os_append_def split: option.split)

lemma file_text_emit [simp]: "file_text (emitLogEvent em p w) q = file_text w q"
  by (simp add: file_text_def)

lemma file_text_append:
  "file_text (os_append q b w) r = (if r = q \<and> map_of (files w) q \<noteq> None then file_text w q @ b else file_text w r)"
  by (auto simp: os_append_def file_text_def split: option.split)

lemma files_append:
  "map_of (files (os_append q b w)) r = None \<longleftrightarrow> map_of (files w) r = None"
  by (auto simp: os_append_def split: option.split)

lemma ring_file_0: "ring_ok l w \<Longrightarrow> ring_file l 0 = GetCurrentLogFile l"
  by (simp add: ring_ok_def ring_file_def GetCurrentLogFile_def)

lemma ring_file_index: "ring_ok l w \<Longrightarrow> 0 < j \<Longrightarrow> int j < backups l \<Longrightarrow> (curRotate l - int j) mod backups l \<noteq> curRotate l"
proof
  assume ok: "ring_ok l w" and j: "0 < j" "int j < backups l" and eq: "(curRotate l - int j) mod backups l = curRotate l"
  have "curRotate l mod backups l = curRotate l" using ok by (simp add: ring_ok_def)
  with eq have "(curRotate l - int j) mod backups l = curRotate l mod backups l" by simp
  then have "backups l dvd curRotate l - int j - curRotate l" by (rule mod_eq_dvd_iff[THEN iffD1])
  then have "backups l dvd int j" by simp
  then show False using j zdvd_imp_le[of "backups l" "int j"] by simp
qed

lemma curRotate_next: "ring_ok l w \<Longrightarrow> curRotate (nextLogFile l) = (curRotate l + 1) mod backups l"
proof -
  assume ok: "ring_ok l w"
  show ?thesis
  proof (cases "curRotate l + 1 = backups l")
    case True
    then show ?thesis by (simp add: nextLogFile_def)
  next
    case False
    then show ?thesis using ok by (simp add: nextLogFile_def ring_ok_def)
  qed
qed

lemma nextLogFile_frame [simp]:
  "backups (nextLogFile l) = backups l" "maxSize (nextLogFile l) = maxSize l" "fl_name (nextLogFile l) = fl_name l"
  "fileSize (nextLogFile l) = fileSize l" "fl_emitter (nextLogFile l) = fl_emitter l"
  by (simp_all add: nextLogFile_def Let_def)

lemma getLogFileName_next [simp]: "getLogFileName (nextLogFile l) i = getLogFileName l i"
  by (simp add: getLogFileName_def)

lemma ring_file_next: "ring_ok l w \<Longrightarrow> ring_file (nextLogFile l) (Suc j) = ring_file l j"
  by (simp add: ring_file_def curRotate_next mod_diff_left_eq)

text \<open>Starting the next file: the new current file is empty, the others move one place back.\<close>

lemma ring_rotate:
  assumes rep: "ring_rep l w segs" and mx: "maxSize l \<le> fileSize l"
  shows "case fl_rotate l w of (l', w') \<Rightarrow> ring_rep l' w' (take (nat (backups l)) ([] # segs)) \<and>
    maxSize l' = maxSize l \<and> backups l' = backups l"
proof -
  have ok: "ring_ok l w" using rep by (simp add: ring_rep_def)
  let ?n = "nextLogFile l"
  let ?cur = "GetCurrentLogFile ?n"
  have idx: "0 \<le> curRotate ?n" "curRotate ?n < backups l"
    using ok by (simp_all add: curRotate_next[OF ok]) (simp_all add: ring_ok_def)
  have nb: "\<not> blocked w ?cur" using ok idx by (simp add: GetCurrentLogFile_def ring_ok_def)
  define w' where "w' = w\<lparr>files := AList.update ?cur \<lparr>f_content = [], f_mtime = clock w\<rparr> (files w)\<rparr>"
  define l' where "l' = ?n\<lparr>fl_file := Some (?cur, True)\<rparr>"
  have rot: "fl_rotate l w = (l', w')"
    using mx nb by (simp add: fl_rotate_def openFile_def os_Create_def l'_def w'_def Let_def)
  have names: "GetCurrentLogFile l' = ?cur" "getLogFileName l' i = getLogFileName l i" "ring_file l' j = ring_file ?n j" for i j
    by (simp_all add: l'_def GetCurrentLogFile_def getLogFileName_def ring_file_def)
  have ft: "file_text w' q = (if q = ?cur then [] else file_text w q)" for q
    by (simp add: file_text_def w'_def)
  have size: "0 \<le> fileSize l" using ok by (simp add: ring_ok_def)
  have ok': "ring_ok l' w'" using ok idx size names ft by (simp add: ring_ok_def l'_def w'_def)
  have "file_text w' (ring_file l' j) = take (nat (backups l)) ([] # segs) ! j"
    if j: "j < length (take (nat (backups l)) ([] # segs))" for j
  proof (cases j)
    case 0
    then show ?thesis using ring_file_0[OF ok'] names ft j by simp
  next
    case (Suc i)
    have "int j < backups l'" using j by (auto simp: l'_def)
    from ring_file_index[OF ok' _ this] Suc have "ring_file l' j \<noteq> GetCurrentLogFile l'"
      by (simp add: ring_file_def GetCurrentLogFile_def)
    then have "ring_file l' j \<noteq> ?cur" using names(1) by simp
    moreover have "ring_file l' j = ring_file l i" using names(3) ring_file_next[OF ok] Suc by simp
    moreover have "file_text w (ring_file l i) = segs ! i" using rep j Suc by (simp add: ring_rep_def)
    ultimately show ?thesis using ft j Suc by simp
  qed
  moreover have "backups l' = backups l" "1 \<le> backups l" using ok by (simp_all add: l'_def ring_ok_def)
  ultimately have "ring_rep l' w' (take (nat (backups l)) ([] # segs))"
    using ok' unfolding ring_rep_def by auto
  then show ?thesis by (simp add: rot) (simp add: l'_def)
qed

lemma ring_append:
  assumes rep: "ring_rep l w segs"
    and sz: "int (length (hd segs @ p)) \<le> fs"
  shows "ring_rep (l\<lparr>fileSize := fs\<rparr>) (emitLogEvent em p (os_append (GetCurrentLogFile l) p w)) ((hd segs @ p) # tl segs)"
proof -
  let ?w = "emitLogEvent em p (os_append (GetCurrentLogFile l) p w)" and ?l = "l\<lparr>fileSize := fs\<rparr>"
  have ok: "ring_ok l w" using rep by (simp add: ring_rep_def)
  have ex: "map_of (files w) (GetCurrentLogFile l) \<noteq> None" using ok by (simp add: ring_ok_def)
  have names: "GetCurrentLogFile ?l = GetCurrentLogFile l" "getLogFileName ?l i = getLogFileName l i" "ring_file ?l j = ring_file l j" for i j
    by (simp_all add: GetCurrentLogFile_def getLogFileName_def ring_file_def)
  have hd: "file_text w (GetCurrentLogFile l) = hd segs"
    unfolding ring_file_0[OF ok, symmetric] using rep by (simp add: ring_rep_def hd_conv_nth)
  have ok': "ring_ok ?l ?w"
    using ok sz hd ex unfolding ring_ok_def names by (auto simp: file_text_append files_append)
  have "file_text ?w (ring_file ?l j) = ((hd segs @ p) # tl segs) ! j" if j: "j < length segs" for j
  proof (cases j)
    case 0
    then show ?thesis using ring_file_0[OF ok] ex hd names by (simp add: file_text_append)
  next
    case (Suc i)
    have "int j < backups l" using j rep by (simp add: ring_rep_def)
    from ring_file_index[OF ok _ this] Suc have "ring_file l j \<noteq> GetCurrentLogFile l"
      by (simp add: ring_file_def GetCurrentLogFile_def)
    then show ?thesis using rep j Suc names by (simp add: file_text_append ring_rep_def nth_tl)
  qed
  then show ?thesis using ok' rep unfolding ring_rep_def by simp
qed

lemma fl_Write_step:
  assumes rep: "ring_rep l w segs"
  shows "case fl_Write p l w of (r, l', w') \<Rightarrow> r = (int (length p), None) \<and>
    ring_rep l' w' (seg_write (maxSize l) (nat (backups l)) p segs) \<and> maxSize l' = maxSize l \<and> backups l' = backups l"
proof -
  have ok: "ring_ok l w" using rep by (simp add: ring_rep_def)
  define w1 where "w1 = emitLogEvent (fl_emitter l) p (os_append (GetCurrentLogFile l) p w)"
  let ?s = "hd segs @ p"
  have fil: "fl_file l = Some (GetCurrentLogFile l, True)" and nf: "\<not> disk_full w" using ok by (simp_all add: ring_ok_def)
  have hd: "file_text w (GetCurrentLogFile l) = hd segs"
    unfolding ring_file_0[OF ok, symmetric] using rep by (simp add: ring_rep_def hd_conv_nth)
  have size: "int (length (hd segs)) \<le> fileSize l" using ok hd by (simp add: ring_ok_def)
  have app: "ring_rep (l\<lparr>fileSize := fs\<rparr>) w1 (?s # tl segs)" if "int (length ?s) \<le> fs" for fs
    unfolding w1_def using rep that by (rule ring_append)
  have cur: "GetCurrentLogFile (l\<lparr>fileSize := fs\<rparr>) = GetCurrentLogFile l" for fs
    by (simp add: GetCurrentLogFile_def getLogFileName_def)
  have ok1: "ring_ok (l\<lparr>fileSize := int (length ?s)\<rparr>) w1" using app[of "int (length ?s)"] by (simp add: ring_rep_def)
  have ex: "os_exists w1 (GetCurrentLogFile l)"
    using ok1 unfolding ring_ok_def cur by (auto simp: os_exists_def GetCurrentLogFile_def getLogFileName_def)
  have len: "file_text w1 (GetCurrentLogFile l) = ?s"
    unfolding cur[of "int (length ?s)", symmetric] ring_file_0[OF ok1, symmetric]
    using app[of "int (length ?s)"] by (simp add: ring_rep_def)
  show ?thesis
  proof (cases "maxSize l \<le> fileSize l + int (length p)")
    case False
    then have "fl_Write p l w = ((int (length p), None), l\<lparr>fileSize := fileSize l + int (length p)\<rparr>, w1)"
      using fil nf by (simp add: fl_Write_def Let_def w1_def)
    then show ?thesis using app[of "fileSize l + int (length p)"] size False by (simp add: seg_write_def)
  next
    case True
    let ?l2 = "l\<lparr>fileSize := int (length ?s)\<rparr>"
    have wr: "fl_Write p l w = ((int (length p), None), fl_rotate ?l2 w1)"
      using fil nf True ex len by (simp add: fl_Write_def Let_def w1_def cur split_beta)
    show ?thesis
    proof (cases "maxSize l \<le> int (length ?s)")
      case False
      then show ?thesis using wr app[of "int (length ?s)"] by (simp add: fl_rotate_def seg_write_def)
    next
      case full: True
      then show ?thesis
        using wr ring_rotate[OF app[of "int (length ?s)"]] by (simp add: seg_write_def split_beta)
    qed
  qed
qed

definition fl_rep :: "int \<Rightarrow> nat \<Rightarrow> FileLogger \<times> world \<Rightarrow> string list \<Rightarrow> bool" where
  "fl_rep mx k s segs \<longleftrightarrow> ring_rep (fst s) (snd s) segs \<and> maxSize (fst s) = mx \<and> backups (fst s) = int k"

definition fl_put :: "string \<Rightarrow> FileLogger \<times> world \<Rightarrow> FileLogger \<times> world" where
  "fl_put p s = snd (fl_Write p (fst s) (snd s))"

interpretation flog: segmented_log "fl_rep mx k" fl_put mx k for mx k
proof
  fix s segs p assume "fl_rep mx k s segs"
  then show "fl_rep mx k (fl_put p s) (seg_write mx k p segs)"
    using fl_Write_step[of "fst s" "snd s" segs p] by (auto simp: fl_rep_def fl_put_def split_beta)
qed

text \<open>
  C5. The rotating log implements the abstract log: a \<open>FileLogger\<close> whose ring of files holds the
  segments \<open>segs\<close> writes all bytes of \<open>p\<close> without error, and afterwards its ring holds exactly
  the segments of the abstract write: the current file grows by \<open>p\<close>, and when it has reached
  \<open>maxSize\<close> the next file of the ring is emptied and becomes the current one, without touching
  the other files.
\<close>

theorem fl_Write_refines:
  assumes "ring_rep l w segs"
  shows "\<exists>l' w'. fl_Write p l w = ((int (length p), None), l', w') \<and>
    ring_rep l' w' (seg_write (maxSize l) (nat (backups l)) p segs)"
  using fl_Write_step[OF assms, of p] by (cases "fl_Write p l w") auto

definition demo_world :: world where
  "demo_world = \<lparr>files = [], clock = 0, denied = [], nodirs = [], disk_full = False, std_out = [], std_err = [],
     std_broken = False, sys_out = [], sys_up = True, ev = NewEventListenerManager, pidFunc = (\<lambda>_. 42)\<rparr>"

text \<open>
  The number of a log file: the path is in the logger's directory and named as its files are. A directory
  without such a file is one in which the logger starts afresh; it may hold any other files.
\<close>

definition log_number :: "string \<Rightarrow> string \<Rightarrow> int option" where
  "log_number name p =
     (if path_dir p = path_dir name \<and> has_prefix (path_file p) (path_file name @ ''.'')
      then Atoi (drop (length (path_file name) + 1) (path_file p)) else None)"

definition no_log_files :: "string \<Rightarrow> int \<Rightarrow> world \<Rightarrow> bool" where
  "no_log_files name k w \<longleftrightarrow>
     list_all (\<lambda>(p, f). case log_number name p of None \<Rightarrow> True | Some n \<Rightarrow> n < 0 \<or> k \<le> n) (files w)"

lemma latest1_none:
  assumes "\<forall>nf\<in>set infos. latest1 l None nf = None"
  shows "foldl (latest1 l) None infos = None"
  using assms by (induction infos) simp_all

lemma scan_finds_none:
  assumes "no_log_files (fl_name l) (backups l) w" "ReadDir (fl_name l) w = Some infos"
  shows "foldl (latest1 l) None infos = None"
proof (rule latest1_none, rule ballI)
  fix nf assume "nf \<in> set infos"
  with assms(2) obtain p f where p: "(p, f) \<in> set (files w)" "path_dir p = path_dir (fl_name l)" "nf = (path_file p, f)"
    by (auto simp: ReadDir_def split: if_splits)
  from assms(1) p(1) have "case log_number (fl_name l) p of None \<Rightarrow> True | Some n \<Rightarrow> n < 0 \<or> backups l \<le> n"
    by (auto simp: no_log_files_def list_all_iff)
  with p(2,3) show "latest1 l None nf = None"
    by (auto simp: latest1_def log_number_def split: option.splits if_splits)
qed

lemma NewFileLogger_fresh:
  assumes "1 \<le> k" "no_log_files name k w" "\<not> disk_full w" "\<forall>i. 0 \<le> i \<and> i < k \<longrightarrow> \<not> blocked w (name @ ''.'' @ Itoa i)"
    "path_dir name \<notin> set (nodirs w)"
  shows "fl_rep mx (nat k) (NewFileLogger name mx k em w) [[]]"
proof -
  let ?l = "\<lparr>fl_name = name, maxSize = mx, backups = k, curRotate = - 1, fileSize = 0, fl_file = None, fl_emitter = em\<rparr>"
  obtain infos where infos: "ReadDir name w = Some infos" using assms(5) by (simp add: ReadDir_def)
  have "foldl (latest1 ?l) None infos = None"
    by (rule scan_finds_none[where w = w]) (use assms(2) infos in simp_all)
  moreover have "\<not> blocked w (name @ ''.'' @ Itoa 0)" using assms(1,4) by simp
  ultimately have "NewFileLogger name mx k em w =
      (\<lparr>fl_name = name, maxSize = mx, backups = k, curRotate = 0, fileSize = 0,
        fl_file = Some (name @ ''.'' @ Itoa 0, True), fl_emitter = em\<rparr>,
       w\<lparr>files := AList.update (name @ ''.'' @ Itoa 0) \<lparr>f_content = [], f_mtime = clock w\<rparr> (files w)\<rparr>)"
    using assms(1) infos by (simp add: NewFileLogger_def updateLatestLog_def openFile_def nextLogFile_def os_Create_def
        GetCurrentLogFile_def getLogFileName_def Let_def)
  then show ?thesis using assms(1,3,4)
    by (simp add: fl_rep_def ring_rep_def ring_ok_def GetCurrentLogFile_def getLogFileName_def ring_file_def file_text_def blocked_def)
qed

text \<open>
  C6. What a rotating log keeps: a logger created in an existing directory in which no file is named as one of
  its \<open>backups = k\<close> log files (any other files may be there), where these can be created and the
  disk is not full, after any sequence of writes, holds in its ring of files (oldest to newest) a suffix of
  everything that was written: all of it, or at least the last \<open>(k - 1) * maxSize\<close> bytes.
\<close>

theorem rotating_log_keeps_suffix:
  assumes "1 \<le> k" "0 \<le> mx"
    and "no_log_files name k w" "path_dir name \<notin> set (nodirs w)"
    and "\<forall>i. 0 \<le> i \<and> i < k \<longrightarrow> \<not> blocked w (name @ ''.'' @ Itoa i)" "\<not> disk_full w"
  shows "\<exists>l' w' segs. foldl (\<lambda>s p. fl_put p s) (NewFileLogger name mx k em w) ps = (l', w') \<and>
    (\<forall>j<length segs. file_text w' (ring_file l' j) = segs ! j) \<and> int (length segs) \<le> k \<and>
    suffix (concat (rev segs)) (concat ps) \<and>
    (concat (rev segs) = concat ps \<or> (k - 1) * mx \<le> int (length (concat (rev segs))))"
proof -
  have "fl_rep mx (nat k) (NewFileLogger name mx k em w) [[]]" using assms by (intro NewFileLogger_fresh)
  then obtain segs where segs: "fl_rep mx (nat k) (foldl (\<lambda>s p. fl_put p s) (NewFileLogger name mx k em w) ps) segs"
    "suffix (kept segs) (concat ps)" "kept segs = concat ps \<or> (int (nat k) - 1) * mx \<le> int (length (kept segs))"
    using flog.writes_keep[of mx "nat k" _ ps] assms(1,2) by (metis int_nat_eq nat_mono nat_numeral_as_int nat_one_as_int)
  obtain l' w' where e: "foldl (\<lambda>s p. fl_put p s) (NewFileLogger name mx k em w) ps = (l', w')" by (metis surj_pair)
  then have "ring_rep l' w' segs" "backups l' = k" using segs(1) assms(1) by (auto simp: fl_rep_def)
  then show ?thesis using e segs(2,3) assms(1)
    by (intro exI[of _ l'] exI[of _ w'] exI[of _ segs]) (auto simp: ring_rep_def kept_def)
qed

theorem fl_Write_refines_witness:
  "\<exists>l' w'. fl_Write ''hello'' (fst (NewFileLogger ''/var/log/x'' 3 2 NullLogEventEmitter demo_world))
      (snd (NewFileLogger ''/var/log/x'' 3 2 NullLogEventEmitter demo_world)) = ((5, None), l', w') \<and>
    ring_rep l' w' [[], ''hello'']"
proof -
  have "fl_rep 3 (nat 2) (NewFileLogger ''/var/log/x'' 3 2 NullLogEventEmitter demo_world) [[]]"
    by (rule NewFileLogger_fresh) (simp_all add: demo_world_def blocked_def no_log_files_def)
  then have "ring_rep (fst (NewFileLogger ''/var/log/x'' 3 2 NullLogEventEmitter demo_world))
      (snd (NewFileLogger ''/var/log/x'' 3 2 NullLogEventEmitter demo_world)) [[]]"
    "maxSize (fst (NewFileLogger ''/var/log/x'' 3 2 NullLogEventEmitter demo_world)) = 3"
    "backups (fst (NewFileLogger ''/var/log/x'' 3 2 NullLogEventEmitter demo_world)) = 2"
    by (simp_all add: fl_rep_def)
  with fl_Write_refines[OF this(1), of "''hello''"] show ?thesis
    by (simp add: seg_write_def numeral_2_eq_2)
qed

text \<open>A directory with other files: another log, a numbered file beyond the ring and one that has no number.\<close>

definition used_world :: world where
  "used_world = demo_world\<lparr>files := [(''/var/log/syslog'', \<lparr>f_content = ''s'', f_mtime = 9\<rparr>),
     (''/var/log/x.7'', \<lparr>f_content = ''old'', f_mtime = 8\<rparr>), (''/var/log/x.old'', \<lparr>f_content = ''o'', f_mtime = 7\<rparr>),
     (''/tmp/x.0'', \<lparr>f_content = ''t'', f_mtime = 6\<rparr>)]\<rparr>"

theorem rotating_log_keeps_suffix_witness:
  "\<exists>l' w' segs. foldl (\<lambda>s p. fl_put p s) (NewFileLogger ''/var/log/x'' 3 2 NullLogEventEmitter used_world)
      [''abc'', ''def'', ''g''] = (l', w') \<and>
    (\<forall>j<length segs. file_text w' (ring_file l' j) = segs ! j) \<and> suffix (concat (rev segs)) ''abcdefg''"
proof -
  have "no_log_files ''/var/log/x'' 2 used_world" "path_dir ''/var/log/x'' \<notin> set (nodirs used_world)" by code_simp+
  moreover have "\<not> blocked used_world p" "\<not> disk_full used_world" for p
    by (simp_all add: used_world_def demo_world_def blocked_def)
  ultimately show ?thesis
    using rotating_log_keeps_suffix[of 2 3 "''/var/log/x''" used_world NullLogEventEmitter "[''abc'', ''def'', ''g'']"] by auto
qed

section \<open>Reading and clearing\<close>

text \<open>What a read promises: a negative offset counts from the end, a length of 0 means to the end.\<close>

definition log_slice :: "int \<Rightarrow> int \<Rightarrow> string \<Rightarrow> string" where
  "log_slice offset len s =
     (if offset < 0 then drop (length s - nat (- offset)) s
      else if len = 0 then drop (nat offset) s
      else take (nat len) (drop (nat offset) s))"

lemma make_ReadAt_ok:
  "0 \<le> off \<Longrightarrow> 0 \<le> len \<Longrightarrow> off + len \<le> int (length s) \<Longrightarrow> int (length s) \<le> 2 ^ 48 \<Longrightarrow>
   make_ReadAt s off len = Ret (Some (take (nat len) (drop (nat off) s)))"
  by (auto simp: make_ReadAt_def)

text \<open>
  Reading the current log file: with an offset and a length that do not add up beyond int64
  (or a negative offset and length 0), \<open>ReadLog\<close> returns exactly the bytes asked for, cut at the
  end of the file: \<open>len\<close> bytes from \<open>offset\<close>, all from \<open>offset\<close> when \<open>len\<close> is 0, the last
  \<open>-offset\<close> bytes when \<open>offset\<close> is negative; every other combination is the fault
  \<open>BAD_ARGUMENTS\<close>.
\<close>

theorem ReadLog_slice:
  assumes "os_exists w (GetCurrentLogFile l)" "int (length (file_text w (GetCurrentLogFile l))) \<le> 2 ^ 48"
    and "in_int64 offset" "in_int64 (offset + len)"
  shows "fl_ReadLog offset len l w =
    (if offset < 0 \<and> len \<noteq> 0 \<or> 0 \<le> offset \<and> len < 0 then Ret (Inl (Fault BAD_ARGUMENTS ''BAD_ARGUMENTS''))
     else Ret (Inr (log_slice offset len (file_text w (GetCurrentLogFile l)))))"
proof -
  let ?t = "file_text w (GetCurrentLogFile l)"
  have wrap: "wrap64 (offset + len) = offset + len" using assms(4) by simp
  consider (bad) "offset < 0 \<and> len \<noteq> 0 \<or> 0 \<le> offset \<and> len < 0" | (neg) "offset < 0" "len = 0"
    | (zero) "0 \<le> offset" "len = 0" | (pos) "0 \<le> offset" "0 < len" by linarith
  then show ?thesis
  proof cases
    case bad
    then show ?thesis by (auto simp: fl_ReadLog_def)
  next
    case neg
    let ?o = "if int (length ?t) + offset < 0 then 0 else int (length ?t) + offset"
    have "make_ReadAt ?t ?o (int (length ?t) - ?o) = Ret (Some (take (nat (int (length ?t) - ?o)) (drop (nat ?o) ?t)))"
      using assms(2) neg by (intro make_ReadAt_ok) auto
    moreover have "nat ?o = length ?t - nat (- offset)" using neg by auto
    ultimately show ?thesis using assms(1) neg by (simp add: fl_ReadLog_def Let_def log_slice_def)
  next
    case zero
    then show ?thesis
      using assms(1,2) make_ReadAt_ok[of offset "int (length ?t) - offset" ?t]
      by (auto simp: fl_ReadLog_def Let_def log_slice_def)
  next
    case pos
    let ?n = "if int (length ?t) < offset + len then int (length ?t) - offset else len"
    have "make_ReadAt ?t offset ?n = Ret (Some (take (nat len) (drop (nat offset) ?t)))" if "offset < int (length ?t)"
    proof -
      have "make_ReadAt ?t offset ?n = Ret (Some (take (nat ?n) (drop (nat offset) ?t)))"
        using assms(2) pos that by (intro make_ReadAt_ok) auto
      moreover have "take (nat ?n) (drop (nat offset) ?t) = take (nat len) (drop (nat offset) ?t)"
        using pos that by auto
      ultimately show ?thesis by simp
    qed
    then show ?thesis using assms(1) pos by (auto simp: fl_ReadLog_def Let_def log_slice_def wrap)
  qed
qed

definition demo_log :: "FileLogger \<times> world" where
  "demo_log = fl_put ''hello'' (NewFileLogger ''/l'' 100 2 NullLogEventEmitter demo_world)"

lemma demo_log_text:
  "os_exists (snd demo_log) (GetCurrentLogFile (fst demo_log))"
  "file_text (snd demo_log) (GetCurrentLogFile (fst demo_log)) = ''hello''"
  by code_simp+

theorem ReadLog_slice_witness:
  "fl_ReadLog 1 3 (fst demo_log) (snd demo_log) = Ret (Inr ''ell'') \<and>
   fl_ReadLog (- 2) 0 (fst demo_log) (snd demo_log) = Ret (Inr ''lo'')"
proof
  show "fl_ReadLog 1 3 (fst demo_log) (snd demo_log) = Ret (Inr ''ell'')"
    by (subst ReadLog_slice) (simp_all add: demo_log_text in_int64_def log_slice_def numeral_3_eq_3)
  show "fl_ReadLog (- 2) 0 (fst demo_log) (snd demo_log) = Ret (Inr ''lo'')"
    by (subst ReadLog_slice) (simp_all add: demo_log_text in_int64_def log_slice_def)
qed

text \<open>
  An offset and a length whose sum leaves int64: for an offset inside the file and a length
  so large that \<open>offset+length\<close> wraps to a negative number, the check against the file length
  passes, and \<open>ReadLog\<close> (like \<open>ReadTailLog\<close>) panics in \<open>make\<close> instead of cutting the length; both
  numbers come from the caller of the RPC.
\<close>

theorem ReadLog_overflow_panics:
  assumes "os_exists w (GetCurrentLogFile l)" "int (length (file_text w (GetCurrentLogFile l))) \<le> 2 ^ 48"
    and "0 \<le> offset" "offset < int (length (file_text w (GetCurrentLogFile l)))" "len < 2 ^ 63" "2 ^ 63 \<le> offset + len"
  shows "fl_ReadLog offset len l w = Panic \<and> fl_ReadTailLog offset len l w = Panic"
proof -
  have "wrap64 (offset + len) < 0" using assms by (subst wrap64_overflow) auto
  then show ?thesis using assms by (simp add: fl_ReadLog_def fl_ReadTailLog_def Let_def make_ReadAt_def)
qed

theorem ReadLog_overflow_panics_witness:
  "fl_ReadLog 1 9223372036854775807 (fst demo_log) (snd demo_log) = Panic"
  using ReadLog_overflow_panics[of "snd demo_log" "fst demo_log" 1 9223372036854775807]
  by (simp add: demo_log_text)

lemma remove_files_other:
  "i \<notin> set is \<Longrightarrow> file_text (snd (remove_files l is w)) (getLogFileName l i) = file_text w (getLogFileName l i)"
proof (induction "is" arbitrary: w)
  case (Cons a "is")
  have "file_text (snd (os_Remove (getLogFileName l a) w)) (getLogFileName l i) = file_text w (getLogFileName l i)"
    using Cons.prems by (auto simp: os_Remove_def file_text_def)
  with Cons show ?case by (simp add: split_beta Let_def)
qed simp

text \<open>
  \<open>ClearAllLogFile\<close> does not clear all: it removes the files 0 to \<open>curRotate\<close> only, so once the
  ring has wrapped around, every log file with a number above the current one (an older part of
  the log) keeps its content.
\<close>

lemma ClearAllLogFile_leaves_older:
  assumes "0 \<le> curRotate l" "curRotate l < i"
  shows "file_text (snd (snd (fl_ClearAllLogFile l w))) (getLogFileName l i) = file_text w (getLogFileName l i)"
proof -
  let ?r = "remove_files l [0..min (backups l - 1) (curRotate l)] w"
  have rem: "file_text (snd ?r) (getLogFileName l i) = file_text w (getLogFileName l i)"
    using assms by (intro remove_files_other) simp
  have "getLogFileName (l\<lparr>curRotate := 0\<rparr>) 0 \<noteq> getLogFileName l i"
    using assms getLogFileName_inj[of l 0 i] by (simp add: getLogFileName_def)
  then show ?thesis using rem
    by (auto simp: fl_ClearAllLogFile_def openFile_def os_Create_def GetCurrentLogFile_def Let_def split_beta file_text_def)
qed

lemma ClearAllLogFile_leaves_older_witness:
  "let (l, w) = foldl (\<lambda>s p. fl_put p s) (NewFileLogger ''/l'' 3 2 NullLogEventEmitter demo_world) [''abc'', ''defg'']
   in fst (fl_ClearAllLogFile l w) = None \<and>
      file_text (snd (snd (fl_ClearAllLogFile l w))) (getLogFileName l 1) = ''defg''"
proof -
  obtain l w where lw: "foldl (\<lambda>s p. fl_put p s) (NewFileLogger ''/l'' 3 2 NullLogEventEmitter demo_world) [''abc'', ''defg''] = (l, w)"
    by (metis surj_pair)
  have "case foldl (\<lambda>s p. fl_put p s) (NewFileLogger ''/l'' 3 2 NullLogEventEmitter demo_world) [''abc'', ''defg''] of (l, w) \<Rightarrow>
      curRotate l = 0 \<and> file_text w (getLogFileName l 1) = ''defg'' \<and> fst (fl_ClearAllLogFile l w) = None" by code_simp
  then have "curRotate l = 0" "file_text w (getLogFileName l 1) = ''defg''" "fst (fl_ClearAllLogFile l w) = None"
    unfolding lw by simp_all
  with ClearAllLogFile_leaves_older[of l 1 w] lw show ?thesis by simp
qed

end
