(* ===== verification/Capture.thy ===== *)
theory Capture
  imports Events
begin

text \<open>
  \<open>ProcCommEventCapture\<close> of \<open>events.go\<close>: the events a process sends on its standard output
  between the markers \<open>PROC_COMMON_BEGIN_STR\<close> and \<open>PROC_COMMON_END_STR\<close>. Slices out of bounds
  panic. The lemmas show that the events in a chunk of output are captured exactly, and when
  the capture panics.
\<close>

definition PROC_COMMON_BEGIN_STR :: string where
  "PROC_COMMON_BEGIN_STR = ''<!--XSUPERVISOR:BEGIN-->''"

definition PROC_COMMON_END_STR :: string where
  "PROC_COMMON_END_STR = ''<!--XSUPERVISOR:END-->''"

record ProcCommEventCapture =
  captureMaxBytes :: int
  stdType :: string
  procName :: string
  groupName :: string
  pec_pid :: int
  eventBuffer :: string
  eventBeginPos :: int

definition NewProcCommEventCapture :: "int \<Rightarrow> string \<Rightarrow> string \<Rightarrow> string \<Rightarrow> ProcCommEventCapture" where
  "NewProcCommEventCapture maxBytes typ pname gname =
     \<lparr>captureMaxBytes = maxBytes, stdType = typ, procName = pname, groupName = gname, pec_pid = - 1,
      eventBuffer = [], eventBeginPos = - 1\<rparr>"

definition pec_SetPid :: "int \<Rightarrow> ProcCommEventCapture \<Rightarrow> ProcCommEventCapture" where
  "pec_SetPid pid pec = pec\<lparr>pec_pid := pid\<rparr>"

text \<open>\<open>strings.Index\<close> as Go returns it.\<close>

definition Index :: "string \<Rightarrow> string \<Rightarrow> int" where
  "Index s p = (case index_of s p of None \<Rightarrow> - 1 | Some i \<Rightarrow> int i)"

definition findBeginStr :: "ProcCommEventCapture \<Rightarrow> ProcCommEventCapture" where
  "findBeginStr pec =
     (if eventBeginPos pec = - 1 then
        (let pec1 = pec\<lparr>eventBeginPos := Index (eventBuffer pec) PROC_COMMON_BEGIN_STR\<rparr>
         in if eventBeginPos pec1 = - 1 then
              (let n = length (eventBuffer pec1)
               in if n > length PROC_COMMON_BEGIN_STR
                  then pec1\<lparr>eventBuffer := drop (n - length PROC_COMMON_BEGIN_STR) (eventBuffer pec1)\<rparr>
                  else pec1)
            else pec1)
      else pec)"

definition findEndStr :: "ProcCommEventCapture \<Rightarrow> int \<times> ProcCommEventCapture" where
  "findEndStr pec =
     (if eventBeginPos pec = - 1 then (- 1, pec)
      else
        (let end_pos = Index (eventBuffer pec) PROC_COMMON_END_STR
         in (end_pos,
             if end_pos = - 1 \<and> int (length (eventBuffer pec)) > captureMaxBytes pec
             then pec\<lparr>eventBeginPos := - 1, eventBuffer := []\<rparr> else pec)))"

definition captureEvent :: "ProcCommEventCapture \<Rightarrow> ev_sys \<Rightarrow> (event option \<times> ProcCommEventCapture \<times> ev_sys) go" where
  "captureEvent pec \<sigma> =
     (let pec1 = findBeginStr pec;
          (end_pos, pec2) = findEndStr pec1
      in if end_pos = - 1 then Ret (None, pec2, \<sigma>)
         else
           (let lo = eventBeginPos pec2 + int (length PROC_COMMON_BEGIN_STR)
            in if end_pos < lo then Panic
               else
                 (let data = slice (eventBuffer pec2) (nat lo) (nat end_pos);
                      pec3 = pec2\<lparr>eventBuffer := drop (nat end_pos + length PROC_COMMON_END_STR) (eventBuffer pec2),
                                 eventBeginPos := - 1\<rparr>;
                      (e, \<sigma>') = NewProcCommEvent (stdType pec) (procName pec) (groupName pec) (pec_pid pec) data \<sigma>
                  in Ret (Some e, pec3, \<sigma>'))))"

lemma Index_nonneg: "Index s p \<noteq> - 1 \<Longrightarrow> \<exists>i. index_of s p = Some i \<and> Index s p = int i"
  by (auto simp: Index_def split: option.splits)

lemma findBeginStr_buffer: "length (eventBuffer (findBeginStr pec)) \<le> length (eventBuffer pec)"
  by (simp add: findBeginStr_def Let_def)

lemma captureEvent_shorter:
  assumes "captureEvent pec \<sigma> = Ret (Some e, pec', \<sigma>')"
  shows "length (eventBuffer pec') < length (eventBuffer pec)"
proof -
  let ?p1 = "findBeginStr pec"
  obtain end_pos pec2 where fe: "findEndStr ?p1 = (end_pos, pec2)" by (cases "findEndStr ?p1")
  have ne: "end_pos \<noteq> - 1" and buf: "eventBuffer pec' = drop (nat end_pos + length PROC_COMMON_END_STR) (eventBuffer pec2)"
    using assms fe by (auto simp: captureEvent_def Let_def split: if_splits prod.splits)
  then have "end_pos = Index (eventBuffer ?p1) PROC_COMMON_END_STR" "pec2 = ?p1"
    using fe by (auto simp: findEndStr_def Let_def split: if_splits)
  then obtain i where "index_of (eventBuffer ?p1) PROC_COMMON_END_STR = Some i" "end_pos = int i"
    using ne Index_nonneg by metis
  then have "i + length PROC_COMMON_END_STR \<le> length (eventBuffer ?p1)"
    using index_of_Some by fastforce
  moreover have "length PROC_COMMON_END_STR > 0" by (simp add: PROC_COMMON_END_STR_def)
  ultimately show ?thesis
    using buf \<open>pec2 = ?p1\<close> \<open>end_pos = int i\<close> findBeginStr_buffer[of pec]
    by (simp del: length_greater_0_conv)
qed

text \<open>The inner loop of \<open>startCapture\<close>; every event it captures shortens the buffer.\<close>

function capture_loop :: "ProcCommEventCapture \<Rightarrow> ev_sys \<Rightarrow> (ProcCommEventCapture \<times> ev_sys) go" where
  "capture_loop pec \<sigma> =
     (case captureEvent pec \<sigma> of
        Ret (None, pec', \<sigma>') \<Rightarrow> Ret (pec', \<sigma>')
      | Ret (Some e, pec', \<sigma>') \<Rightarrow> capture_loop pec' (EmitEvent e \<sigma>')
      | Panic \<Rightarrow> Panic
      | Hang \<Rightarrow> Hang)"
  by pat_completeness auto
termination
  by (relation "measure (\<lambda>(pec, \<sigma>). length (eventBuffer pec))") (auto simp: captureEvent_shorter)

declare capture_loop.simps [simp del]

text \<open>What \<open>startCapture\<close> does with the bytes of one \<open>Read\<close>, and with a sequence of them.\<close>

definition capture_chunk :: "ProcCommEventCapture \<times> ev_sys \<Rightarrow> string \<Rightarrow> (ProcCommEventCapture \<times> ev_sys) go" where
  "capture_chunk st chunk =
     (case st of (pec, \<sigma>) \<Rightarrow> capture_loop (pec\<lparr>eventBuffer := eventBuffer pec @ chunk\<rparr>) \<sigma>)"

definition startCapture :: "ProcCommEventCapture \<times> ev_sys \<Rightarrow> string list \<Rightarrow> (ProcCommEventCapture \<times> ev_sys) go" where
  "startCapture st chunks = foldg capture_chunk st chunks"

section \<open>Capturing the events of a chunk\<close>

definition event_text :: "string \<times> string \<Rightarrow> string" where
  "event_text jd = fst jd @ PROC_COMMON_BEGIN_STR @ snd jd @ PROC_COMMON_END_STR"

lemma END_Cons: "\<exists>p. PROC_COMMON_END_STR = CHR ''<'' # p \<and> CHR ''<'' \<notin> set p"
  by (simp add: PROC_COMMON_END_STR_def)

lemma BEGIN_Cons: "\<exists>p. PROC_COMMON_BEGIN_STR = CHR ''<'' # p \<and> CHR ''<'' \<notin> set p"
  by (simp add: PROC_COMMON_BEGIN_STR_def)

lemma begin_found:
  assumes "CHR ''<'' \<notin> set j"
  shows "Index (j @ PROC_COMMON_BEGIN_STR @ t) PROC_COMMON_BEGIN_STR = int (length j)"
proof -
  obtain p where p: "PROC_COMMON_BEGIN_STR = CHR ''<'' # p" using BEGIN_Cons by blast
  show ?thesis unfolding Index_def p index_of_skip[OF assms] by simp
qed

lemma begin_absent: "CHR ''<'' \<notin> set j \<Longrightarrow> Index j PROC_COMMON_BEGIN_STR = - 1"
proof -
  assume j: "CHR ''<'' \<notin> set j"
  obtain p where p: "PROC_COMMON_BEGIN_STR = CHR ''<'' # p" using BEGIN_Cons by blast
  show ?thesis unfolding Index_def p index_of_absent[OF j] by simp
qed

lemma end_absent_before:
  assumes "CHR ''<'' \<notin> set j" "index_of d PROC_COMMON_END_STR = None"
  shows "index_of (j @ PROC_COMMON_BEGIN_STR @ d) PROC_COMMON_END_STR = None"
proof -
  obtain p where p: "PROC_COMMON_END_STR = CHR ''<'' # p" using END_Cons by blast
  obtain b where b: "PROC_COMMON_BEGIN_STR = CHR ''<'' # b" "CHR ''<'' \<notin> set b" using BEGIN_Cons by blast
  have "\<not> has_prefix (PROC_COMMON_BEGIN_STR @ d) PROC_COMMON_END_STR"
    by (simp add: has_prefix_def PROC_COMMON_BEGIN_STR_def PROC_COMMON_END_STR_def)
  moreover have "index_of (b @ d) PROC_COMMON_END_STR = None"
    unfolding p index_of_skip_map[OF b(2)] assms(2)[unfolded p] by simp
  ultimately have "index_of (PROC_COMMON_BEGIN_STR @ d) PROC_COMMON_END_STR = None" unfolding b(1) by simp
  then show ?thesis unfolding p index_of_skip_map[OF assms(1)] by simp
qed

lemma end_found:
  assumes "CHR ''<'' \<notin> set j" "index_of d PROC_COMMON_END_STR = None"
  shows "Index (j @ PROC_COMMON_BEGIN_STR @ d @ PROC_COMMON_END_STR @ t) PROC_COMMON_END_STR =
    int (length j + length PROC_COMMON_BEGIN_STR + length d)"
proof -
  obtain p where p: "PROC_COMMON_END_STR = CHR ''<'' # p" "CHR ''<'' \<notin> set p" using END_Cons by blast
  from index_of_append_pattern[OF p(2) end_absent_before[OF assms, unfolded p(1)], of t, folded p(1)]
  show ?thesis by (simp add: Index_def)
qed

lemma captureEvent_hit:
  assumes "findEndStr (findBeginStr pec) = (int e, pec2)"
    and "eventBeginPos pec2 + int (length PROC_COMMON_BEGIN_STR) = int lo" "lo \<le> e"
  shows "captureEvent pec \<sigma> =
    (let (ev, \<sigma>') = NewProcCommEvent (stdType pec) (procName pec) (groupName pec) (pec_pid pec)
         (slice (eventBuffer pec2) lo e) \<sigma>
     in Ret (Some ev, pec2\<lparr>eventBuffer := drop (e + length PROC_COMMON_END_STR) (eventBuffer pec2),
       eventBeginPos := - 1\<rparr>, \<sigma>'))"
  using assms(3) by (simp add: captureEvent_def assms(1,2) Let_def split_beta)

lemma captureEvent_one:
  assumes "eventBeginPos pec = - 1" "eventBuffer pec = event_text (j, d) @ t"
    and "CHR ''<'' \<notin> set j" "index_of d PROC_COMMON_END_STR = None"
  shows "captureEvent pec \<sigma> =
    (let (e, \<sigma>') = NewProcCommEvent (stdType pec) (procName pec) (groupName pec) (pec_pid pec) d \<sigma>
     in Ret (Some e, pec\<lparr>eventBuffer := t\<rparr>, \<sigma>'))"
proof -
  let ?n = "length j + length PROC_COMMON_BEGIN_STR"
  have buf: "eventBuffer pec = j @ PROC_COMMON_BEGIN_STR @ d @ PROC_COMMON_END_STR @ t"
    using assms(2) by (simp add: event_text_def)
  have fb: "findBeginStr pec = pec\<lparr>eventBeginPos := int (length j)\<rparr>"
    using assms(1) begin_found[OF assms(3)] buf by (simp add: findBeginStr_def)
  have fe: "findEndStr (findBeginStr pec) = (int (?n + length d), pec\<lparr>eventBeginPos := int (length j)\<rparr>)"
    unfolding fb findEndStr_def using end_found[OF assms(3,4), of t] buf by (simp add: Let_def)
  have sl: "slice (eventBuffer pec) ?n (?n + length d) = d"
    using slice_mid[of "j @ PROC_COMMON_BEGIN_STR" d "PROC_COMMON_END_STR @ t"] by (simp add: buf)
  have dr: "drop (?n + length d + length PROC_COMMON_END_STR) (eventBuffer pec) = t" by (simp add: buf)
  have "captureEvent pec \<sigma> = (let (e, \<sigma>') = NewProcCommEvent (stdType pec) (procName pec) (groupName pec) (pec_pid pec)
      (slice (eventBuffer pec) ?n (?n + length d)) \<sigma>
     in Ret (Some e, pec\<lparr>eventBeginPos := int (length j),
       eventBuffer := drop (?n + length d + length PROC_COMMON_END_STR) (eventBuffer pec), eventBeginPos := - 1\<rparr>, \<sigma>'))"
    using captureEvent_hit[OF fe, of ?n \<sigma>] by simp
  then show ?thesis unfolding sl dr using assms(1) by (simp add: split_beta)
qed

lemma captureEvent_none:
  assumes "eventBeginPos pec = - 1" "CHR ''<'' \<notin> set (eventBuffer pec)"
  shows "captureEvent pec \<sigma> =
    Ret (None, pec\<lparr>eventBuffer := drop (length (eventBuffer pec) - length PROC_COMMON_BEGIN_STR) (eventBuffer pec)\<rparr>, \<sigma>)"
  using assms begin_absent[OF assms(2)]
  by (simp add: captureEvent_def findBeginStr_def findEndStr_def Let_def)

definition capture_all :: "ProcCommEventCapture \<Rightarrow> string list \<Rightarrow> ev_sys \<Rightarrow> ev_sys" where
  "capture_all pec ds \<sigma> =
     foldl (\<lambda>\<sigma> d. emit_new (NewProcCommEvent (stdType pec) (procName pec) (groupName pec) (pec_pid pec) d) \<sigma>) \<sigma> ds"

lemma capture_loop_blocks:
  "eventBeginPos pec = - 1 \<Longrightarrow> eventBuffer pec = concat (List.map event_text jds) @ t \<Longrightarrow>
   \<forall>(j, d)\<in>set jds. CHR ''<'' \<notin> set j \<and> index_of d PROC_COMMON_END_STR = None \<Longrightarrow> CHR ''<'' \<notin> set t \<Longrightarrow>
   capture_loop pec \<sigma> =
     Ret (pec\<lparr>eventBuffer := drop (length t - length PROC_COMMON_BEGIN_STR) t\<rparr>, capture_all pec (List.map snd jds) \<sigma>)"
proof (induction jds arbitrary: pec \<sigma>)
  case Nil
  then show ?case by (subst capture_loop.simps) (simp add: captureEvent_none capture_all_def)
next
  case (Cons jd jds)
  obtain j d where jd: "jd = (j, d)" by (cases jd)
  let ?t = "concat (List.map event_text jds) @ t"
  obtain e \<sigma>' where e: "NewProcCommEvent (stdType pec) (procName pec) (groupName pec) (pec_pid pec) d \<sigma> = (e, \<sigma>')"
    by (metis surj_pair)
  have cap: "captureEvent pec \<sigma> = Ret (Some e, pec\<lparr>eventBuffer := ?t\<rparr>, \<sigma>')"
    using captureEvent_one[of pec j d ?t \<sigma>] Cons.prems jd e by simp
  have "capture_loop pec \<sigma> = capture_loop (pec\<lparr>eventBuffer := ?t\<rparr>) (EmitEvent e \<sigma>')"
    by (subst capture_loop.simps) (simp add: cap)
  also have "\<dots> = Ret (pec\<lparr>eventBuffer := drop (length t - length PROC_COMMON_BEGIN_STR) t\<rparr>,
      capture_all pec (List.map snd jds) (EmitEvent e \<sigma>'))"
    using Cons.IH[of "pec\<lparr>eventBuffer := ?t\<rparr>" "EmitEvent e \<sigma>'"] Cons.prems by (simp add: capture_all_def)
  finally show ?case by (simp add: capture_all_def jd emit_new_def e)
qed

text \<open>
  C15. Captured process events: when a process writes a chunk made of any texts between the BEGIN
  and the END marker (a text may contain anything but the END marker), with output in between
  that has no \<open><\<close>, then \<open>startCapture\<close> emits one communication event for each of them, in
  order, with exactly that text as its data, and keeps at most the last 24 bytes of the rest,
  which is enough for a BEGIN marker that is not complete yet.
\<close>

theorem capture_chunk_exact:
  assumes "eventBeginPos pec = - 1" "CHR ''<'' \<notin> set (eventBuffer pec)"
    and "\<forall>(j, d)\<in>set jds. CHR ''<'' \<notin> set j \<and> index_of d PROC_COMMON_END_STR = None" "CHR ''<'' \<notin> set t"
  shows "capture_chunk (pec, \<sigma>) (concat (List.map event_text jds) @ t) =
    Ret (pec\<lparr>eventBuffer := (let s = (if jds = [] then eventBuffer pec @ t else t)
            in drop (length s - length PROC_COMMON_BEGIN_STR) s)\<rparr>,
         capture_all pec (List.map snd jds) \<sigma>)"
proof (cases jds)
  case Nil
  with assms capture_loop_blocks[of "pec\<lparr>eventBuffer := eventBuffer pec @ t\<rparr>" "[]" "eventBuffer pec @ t" \<sigma>]
  show ?thesis by (simp add: capture_chunk_def capture_all_def)
next
  case (Cons jd jds')
  let ?pec = "pec\<lparr>eventBuffer := eventBuffer pec @ concat (List.map event_text jds) @ t\<rparr>"
  have "eventBuffer ?pec = concat (List.map event_text ((eventBuffer pec @ fst jd, snd jd) # jds')) @ t"
    by (simp add: Cons event_text_def)
  moreover have "\<forall>(j, d)\<in>set ((eventBuffer pec @ fst jd, snd jd) # jds'). CHR ''<'' \<notin> set j \<and> index_of d PROC_COMMON_END_STR = None"
    using assms(2,3) Cons by auto
  ultimately have "capture_loop ?pec \<sigma> =
      Ret (?pec\<lparr>eventBuffer := drop (length t - length PROC_COMMON_BEGIN_STR) t\<rparr>,
        capture_all ?pec (List.map snd ((eventBuffer pec @ fst jd, snd jd) # jds')) \<sigma>)"
    using assms(1,4) by (intro capture_loop_blocks) simp_all
  then show ?thesis by (simp add: Cons capture_chunk_def capture_all_def)
qed

definition demo_pec :: ProcCommEventCapture where
  "demo_pec = NewProcCommEventCapture 100 ''PROCESS_COMMUNICATION_STDOUT'' ''p'' ''g''"

theorem capture_chunk_exact_witness:
  "capture_chunk (demo_pec, demo_sys)
     (''hi'' @ PROC_COMMON_BEGIN_STR @ ''<b>1</b>'' @ PROC_COMMON_END_STR @ ''rest'') =
   Ret (demo_pec\<lparr>eventBuffer := ''rest''\<rparr>, capture_all demo_pec [''<b>1</b>''] demo_sys)"
proof -
  have "index_of ''<b>1</b>'' PROC_COMMON_END_STR = None"
    by (simp add: PROC_COMMON_END_STR_def has_prefix_def)
  then show ?thesis
    using capture_chunk_exact[of demo_pec "[(''hi'', ''<b>1</b>'')]" "''rest''" demo_sys]
    by (simp add: demo_pec_def NewProcCommEventCapture_def event_text_def PROC_COMMON_BEGIN_STR_def PROC_COMMON_END_STR_def)
qed

text \<open>
  An END marker before the BEGIN marker: the search for the END marker starts at the
  beginning of the buffer, not after the BEGIN marker, so when the buffer holds an END marker
  that stands before the first BEGIN marker, \<open>captureEvent\<close> takes a slice whose bounds are
  reversed and panics.
\<close>

lemma capture_end_before_begin_panics:
  assumes "eventBeginPos pec = - 1"
    and "index_of (eventBuffer pec) PROC_COMMON_BEGIN_STR = Some b"
    and "index_of (eventBuffer pec) PROC_COMMON_END_STR = Some e" "e < b"
  shows "captureEvent pec \<sigma> = Panic"
  using assms by (simp add: captureEvent_def findBeginStr_def findEndStr_def Index_def Let_def)

lemma capture_end_before_begin_panics_witness:
  "captureEvent (demo_pec\<lparr>eventBuffer := PROC_COMMON_END_STR @ PROC_COMMON_BEGIN_STR\<rparr>) demo_sys = Panic"
  by (rule capture_end_before_begin_panics[of _ 22 0])
    (simp_all add: demo_pec_def NewProcCommEventCapture_def PROC_COMMON_BEGIN_STR_def PROC_COMMON_END_STR_def has_prefix_def)

end
