(* ===== verification/Loggers.thy ===== *)
theory Loggers
  imports LogFile Capture
begin

text \<open>
  The other loggers of \<open>subprocess/logger/log.go\<close> and \<open>log_unix.go\<close> (null, standard streams,
  syslog, event capture, composite), the choice of a logger by its configured name
  (\<open>NewLogger\<close>, \<open>createLogger\<close>) and the syslog address syntax. A \<open>Logger\<close> interface value is a
  \<open>logger\<close>; its methods are functions on it.
\<close>

section \<open>Syslog addresses\<close>

text \<open>\<open>None\<close> is an error.\<close>

definition parseSysLogConfig :: "string \<Rightarrow> (string \<times> string \<times> int) option" where
  "parseSysLogConfig config =
     (case split_char (CHR '':'') config of
        [f0] \<Rightarrow> Some (''udp'', f0, 514)
      | [f0, f1] \<Rightarrow>
          (if f0 = ''tcp'' then Some (''tcp'', f1, 6514)
           else if f0 = ''udp'' then Some (''udp'', f1, 514)
           else (case Atoi f1 of None \<Rightarrow> None | Some port \<Rightarrow> Some (''udp'', f0, port)))
      | [f0, f1, f2] \<Rightarrow> (case Atoi f2 of None \<Rightarrow> None | Some port \<Rightarrow> Some (f0, f1, port))
      | _ \<Rightarrow> None)"

section \<open>Loggers\<close>

text \<open>
  A connection to a syslog daemon, or the background writer that connects when it first has
  something to write (its network and address, and whether its channel is closed).
\<close>

datatype sys_writer = SysDirect | SysBackend string string bool

datatype logger =
    FileL FileLogger
  | NullL LogEventEmitter
  | StdL bool LogEventEmitter
  | SysL "sys_writer option" LogEventEmitter
  | CaptureL logger ProcCommEventCapture
  | CompositeL "logger list"

definition NewSysLogger :: "LogEventEmitter \<Rightarrow> world \<Rightarrow> logger" where
  "NewSysLogger em w = SysL (if sys_up w then Some SysDirect else None) em"

definition NewRemoteSysLogger :: "string \<Rightarrow> LogEventEmitter \<Rightarrow> world \<Rightarrow> logger" where
  "NewRemoteSysLogger config em w =
     (if config = [] then NewSysLogger em w
      else (case parseSysLogConfig config of
              None \<Rightarrow> NewSysLogger em w
            | Some (protocol, host, port) \<Rightarrow>
                SysL (Some (if sys_up w then SysDirect else SysBackend protocol (host @ '':'' @ Itoa port) False)) em))"

definition sys_Write :: "string \<Rightarrow> sys_writer option \<Rightarrow> world \<Rightarrow> ((int \<times> log_error option) \<times> world) go" where
  "sys_Write p sw w =
     (let w1 = (if sys_up w then w\<lparr>sys_out := sys_out w @ [p]\<rparr> else w)
      in case sw of
           None \<Rightarrow> Ret ((0, Some (Errorf ''not connect to syslog server'')), w)
         | Some SysDirect \<Rightarrow> Ret (if sys_up w then (int (length p), None) else (0, Some OsError), w1)
         | Some (SysBackend net raddr closed) \<Rightarrow> if closed then Panic else Ret ((int (length p), None), w1))"

definition std_Write :: "bool \<Rightarrow> string \<Rightarrow> world \<Rightarrow> (int \<times> log_error option) \<times> world" where
  "std_Write is_err p w =
     (if std_broken w then ((0, Some OsError), w)
      else ((int (length p), None),
        if is_err then w\<lparr>std_err := std_err w @ [p]\<rparr> else w\<lparr>std_out := std_out w @ [p]\<rparr>))"

text \<open>The pipe to the event capture hands over at most the reader's 10240 bytes at a time.\<close>

function pipe_chunks :: "string \<Rightarrow> string list" where
  "pipe_chunks s = (if length s \<le> 10240 then [s] else take 10240 s # pipe_chunks (drop 10240 s))"
  by pat_completeness auto
termination
  by (relation "measure length") auto

declare pipe_chunks.simps [simp del]

fun lg_Write :: "string \<Rightarrow> logger \<Rightarrow> world \<Rightarrow> ((int \<times> log_error option) \<times> logger \<times> world) go"
  and lg_Writes :: "string \<Rightarrow> logger list \<Rightarrow> world \<Rightarrow> ((int \<times> log_error option) \<times> logger list \<times> world) go" where
  "lg_Write p (FileL l) w = (let (r, l', w') = fl_Write p l w in Ret (r, FileL l', w'))"
| "lg_Write p (NullL em) w = Ret ((int (length p), None), NullL em, emitLogEvent em p w)"
| "lg_Write p (StdL is_err em) w =
     (let (r, w1) = std_Write is_err p w
      in Ret (r, StdL is_err em, if snd r \<noteq> None then emitLogEvent em p w1 else w1))"
| "lg_Write p (SysL sw em) w =
     bindg (sys_Write p sw (emitLogEvent em p w)) (\<lambda>(r, w'). Ret (r, SysL sw em, w'))"
| "lg_Write p (CaptureL lg pec) w =
     bindg (startCapture (pec, ev w) (pipe_chunks p)) (\<lambda>(pec', ev').
       bindg (lg_Write p lg (w\<lparr>ev := ev'\<rparr>)) (\<lambda>(r, lg', w'). Ret (r, CaptureL lg' pec', w')))"
| "lg_Write p (CompositeL lgs) w = bindg (lg_Writes p lgs w) (\<lambda>(r, lgs', w'). Ret (r, CompositeL lgs', w'))"
| "lg_Writes p [] w = Ret ((0, None), [], w)"
| "lg_Writes p (lg # lgs) w =
     bindg (lg_Write p lg w) (\<lambda>(r, lg', w1).
       bindg (lg_Writes p lgs w1) (\<lambda>(r', lgs', w2). Ret (r, lg' # lgs', w2)))"

fun lg_Close :: "logger \<Rightarrow> (log_error option \<times> logger) go"
  and lg_Closes :: "logger list \<Rightarrow> (log_error option \<times> logger list) go" where
  "lg_Close (FileL l) = (let (r, l') = fl_Close l in Ret (r, FileL l'))"
| "lg_Close (NullL em) = Ret (None, NullL em)"
| "lg_Close (StdL is_err em) = Ret (None, StdL is_err em)"
| "lg_Close (SysL None em) = Ret (Some (Errorf ''not connect to syslog server''), SysL None em)"
| "lg_Close (SysL (Some SysDirect) em) = Ret (None, SysL (Some SysDirect) em)"
| "lg_Close (SysL (Some (SysBackend net raddr closed)) em) =
     (if closed then Panic else Ret (None, SysL (Some (SysBackend net raddr True)) em))"
| "lg_Close (CaptureL lg pec) = bindg (lg_Close lg) (\<lambda>(r, lg'). Ret (r, CaptureL lg' pec))"
| "lg_Close (CompositeL lgs) = bindg (lg_Closes lgs) (\<lambda>(r, lgs'). Ret (r, CompositeL lgs'))"
| "lg_Closes [] = Ret (None, [])"
| "lg_Closes (lg # lgs) =
     bindg (lg_Close lg) (\<lambda>(r, lg'). bindg (lg_Closes lgs) (\<lambda>(r', lgs'). Ret (r, lg' # lgs')))"

fun lg_SetPid :: "int \<Rightarrow> logger \<Rightarrow> logger" where
  "lg_SetPid pid (CaptureL lg pec) = CaptureL lg (pec_SetPid pid pec)"
| "lg_SetPid pid (CompositeL lgs) = CompositeL (List.map (lg_SetPid pid) lgs)"
| "lg_SetPid pid lg = lg"

fun lg_ReadLog :: "int \<Rightarrow> int \<Rightarrow> logger \<Rightarrow> world \<Rightarrow> (log_error + string) go" where
  "lg_ReadLog offset len (FileL l) w = fl_ReadLog offset len l w"
| "lg_ReadLog offset len (CaptureL lg pec) w = lg_ReadLog offset len lg w"
| "lg_ReadLog offset len (CompositeL []) w = Panic"
| "lg_ReadLog offset len (CompositeL (lg # lgs)) w = lg_ReadLog offset len lg w"
| "lg_ReadLog offset len _ w = Ret (Inl (Fault NO_FILE ''NO_FILE''))"

fun lg_ReadTailLog :: "int \<Rightarrow> int \<Rightarrow> logger \<Rightarrow> world \<Rightarrow> (string \<times> int \<times> bool \<times> log_error option) go" where
  "lg_ReadTailLog offset len (FileL l) w = fl_ReadTailLog offset len l w"
| "lg_ReadTailLog offset len (CaptureL lg pec) w = lg_ReadTailLog offset len lg w"
| "lg_ReadTailLog offset len (CompositeL []) w = Panic"
| "lg_ReadTailLog offset len (CompositeL (lg # lgs)) w = lg_ReadTailLog offset len lg w"
| "lg_ReadTailLog offset len _ w = Ret ([], 0, False, Some (Fault NO_FILE ''NO_FILE''))"

fun lg_ClearCurLogFile :: "logger \<Rightarrow> world \<Rightarrow> (log_error option \<times> logger \<times> world) go" where
  "lg_ClearCurLogFile (FileL l) w = (let (r, l', w') = fl_ClearCurLogFile l w in Ret (r, FileL l', w'))"
| "lg_ClearCurLogFile (CaptureL lg pec) w =
     bindg (lg_ClearCurLogFile lg w) (\<lambda>(r, lg', w'). Ret (r, CaptureL lg' pec, w'))"
| "lg_ClearCurLogFile (CompositeL []) w = Panic"
| "lg_ClearCurLogFile (CompositeL (lg # lgs)) w =
     bindg (lg_ClearCurLogFile lg w) (\<lambda>(r, lg', w'). Ret (r, CompositeL (lg' # lgs), w'))"
| "lg_ClearCurLogFile lg w = Ret (Some (Errorf ''No log''), lg, w)"

fun lg_ClearAllLogFile :: "logger \<Rightarrow> world \<Rightarrow> (log_error option \<times> logger \<times> world) go" where
  "lg_ClearAllLogFile (FileL l) w = (let (r, l', w') = fl_ClearAllLogFile l w in Ret (r, FileL l', w'))"
| "lg_ClearAllLogFile (CaptureL lg pec) w =
     bindg (lg_ClearAllLogFile lg w) (\<lambda>(r, lg', w'). Ret (r, CaptureL lg' pec, w'))"
| "lg_ClearAllLogFile (CompositeL []) w = Panic"
| "lg_ClearAllLogFile (CompositeL (lg # lgs)) w =
     bindg (lg_ClearAllLogFile lg w) (\<lambda>(r, lg', w'). Ret (r, CompositeL (lg' # lgs), w'))"
| "lg_ClearAllLogFile lg w = Ret (Some (Fault NO_FILE ''NO_FILE''), lg, w)"

section \<open>Choosing a logger\<close>

definition splitLogFile :: "string \<Rightarrow> string list" where
  "splitLogFile logFile = List.map TrimSpace (split_char (CHR '','') logFile)"

text \<open>\<open>fields[1]\<close> panics when a name that starts with \<open>syslog\<close> has no \<open>@\<close>.\<close>

definition createLogger :: "string \<Rightarrow> int \<Rightarrow> int \<Rightarrow> LogEventEmitter \<Rightarrow> world \<Rightarrow> (logger \<times> world) go" where
  "createLogger logFile maxBytes nbackups em w =
     (let rest = (if length logFile > 0 then (let (l, w') = NewFileLogger logFile maxBytes nbackups em w in Ret (FileL l, w'))
                  else Ret (NullL em, w))
      in if logFile = ''/dev/stdout'' then Ret (StdL False em, w)
         else if logFile = ''/dev/stderr'' then Ret (StdL True em, w)
         else if logFile = ''/dev/null'' then Ret (NullL em, w)
         else if logFile = ''syslog'' then Ret (NewSysLogger em w, w)
         else if has_prefix logFile ''syslog'' then
           (case split_char (CHR ''@'') logFile of
              f0 # f1 # fs \<Rightarrow>
                if fs = [] \<and> TrimSpace f0 = ''syslog'' then Ret (NewRemoteSysLogger (TrimSpace f1) em w, w) else rest
            | _ \<Rightarrow> Panic)
         else rest)"

fun create_rest :: "string list \<Rightarrow> int \<Rightarrow> int \<Rightarrow> world \<Rightarrow> (logger list \<times> world) go" where
  "create_rest [] maxBytes nbackups w = Ret ([], w)"
| "create_rest (f # fs) maxBytes nbackups w =
     bindg (createLogger f maxBytes nbackups NullLogEventEmitter w) (\<lambda>(lg, w1).
       bindg (create_rest fs maxBytes nbackups w1) (\<lambda>(lgs, w2). Ret (lg # lgs, w2)))"

definition NewLogger :: "string \<Rightarrow> int \<Rightarrow> int \<Rightarrow> LogEventEmitter \<Rightarrow> world \<Rightarrow> (logger \<times> world) go" where
  "NewLogger logFile maxBytes nbackups em w =
     (case splitLogFile logFile of
        [] \<Rightarrow> Panic
      | f # fs \<Rightarrow>
          bindg (createLogger f maxBytes nbackups em w) (\<lambda>(lg, w1).
            bindg (create_rest fs maxBytes nbackups w1) (\<lambda>(lgs, w2).
              Ret (if lgs = [] then lg else CompositeL (lg # lgs), w2))))"

section \<open>Properties\<close>

lemma parseSysLogConfig_full:
  "CHR '':'' \<notin> set proto \<Longrightarrow> CHR '':'' \<notin> set host \<Longrightarrow> in_int64 port \<Longrightarrow>
   parseSysLogConfig (proto @ '':'' @ host @ '':'' @ Itoa port) = Some (proto, host, port)"
proof -
  assume a: "CHR '':'' \<notin> set proto" "CHR '':'' \<notin> set host" "in_int64 port"
  have "CHR '':'' \<notin> set (Itoa port)"
  proof
    assume "CHR '':'' \<in> set (Itoa port)"
    from Itoa_chars[OF this] obtain d where "d < 10" "CHR '':'' = digit_char d" by auto
    then show False using digit_char_not(4)[of d] by simp
  qed
  with a show ?thesis by (simp add: parseSysLogConfig_def split_char_append split_char_single)
qed

lemma parseSysLogConfig_host:
  "CHR '':'' \<notin> set host \<Longrightarrow> parseSysLogConfig host = Some (''udp'', host, 514)"
  "CHR '':'' \<notin> set host \<Longrightarrow> parseSysLogConfig (''tcp:'' @ host) = Some (''tcp'', host, 6514)"
  "CHR '':'' \<notin> set host \<Longrightarrow> parseSysLogConfig (''udp:'' @ host) = Some (''udp'', host, 514)"
  using split_char_append[of "CHR '':''" "''tcp''" host] split_char_append[of "CHR '':''" "''udp''" host]
  by (simp_all add: parseSysLogConfig_def split_char_single)

text \<open>The panic of \<open>createLogger\<close> on a log file such as \<open>syslog.txt\<close>.\<close>

lemma createLogger_syslog_panics:
  "r \<noteq> [] \<Longrightarrow> CHR ''@'' \<notin> set r \<Longrightarrow> createLogger (''syslog'' @ r) mb nb em w = Panic"
  using split_char_single[of "CHR ''@''" "''syslog'' @ r"]
  by (simp add: createLogger_def has_prefix_def Let_def)

text \<open>\<open>StdLogger.Write\<close> tells the event listeners about the text only when writing it failed.\<close>

lemma StdL_silent: "\<not> std_broken w \<Longrightarrow> \<exists>lg w'. lg_Write p (StdL e em) w = Ret ((int (length p), None), lg, w') \<and> ev w' = ev w"
  by (simp add: std_Write_def Let_def)

lemma StdL_failure_emits: "std_broken w \<Longrightarrow> lg_Write p (StdL e em) w = Ret ((0, Some OsError), StdL e em, emitLogEvent em p w)"
  by (simp add: std_Write_def Let_def)

text \<open>The result of a composite logger is its first logger's, whatever the others do.\<close>

lemma lg_Writes_first:
  "lg_Write p (CompositeL (lg # lgs)) w = Ret (r, lg', w') \<Longrightarrow> \<exists>lg1 w1. lg_Write p lg w = Ret (r, lg1, w1)"
  by (auto simp: bindg_eq_Ret)

lemma pipe_chunks_concat: "concat (pipe_chunks s) = s"
proof (induction s rule: pipe_chunks.induct)
  case (1 s)
  then show ?case by (subst pipe_chunks.simps) simp
qed

text \<open>
  Reading back through the logger chosen by its name: for a log file name that is a plain
  path (no comma, no white space at its ends, none of the special names, not starting with
  \<open>syslog\<close>), \<open>NewLogger\<close> creates a file logger, and after a \<open>Write\<close> that does not fill the first
  file of a fresh log, \<open>ReadLog(0, 0)\<close> through the logger returns exactly the bytes written.
\<close>

theorem NewLogger_write_read:
  assumes name: "TrimSpace name = name" "CHR '','' \<notin> set name" "name \<noteq> []"
      "name \<notin> {''/dev/stdout'', ''/dev/stderr'', ''/dev/null''}" "\<not> has_prefix name ''syslog''"
    and w: "1 \<le> k" "no_log_files name k w" "\<not> disk_full w" "\<forall>i. 0 \<le> i \<and> i < k \<longrightarrow> \<not> blocked w (name @ ''.'' @ Itoa i)" "path_dir name \<notin> set (nodirs w)"
    and p: "int (length p) < mx" "int (length p) \<le> 2 ^ 48"
  shows "\<exists>lg w1 lg' w2. NewLogger name mx k em w = Ret (lg, w1) \<and>
    lg_Write p lg w1 = Ret ((int (length p), None), lg', w2) \<and> lg_ReadLog 0 0 lg' w2 = Ret (Inr p)"
proof -
  obtain l w1 where nl: "NewFileLogger name mx k em w = (l, w1)" by (metis surj_pair)
  have "splitLogFile name = [name]" using name(1,2) by (simp add: splitLogFile_def split_char_single)
  moreover have "name \<noteq> ''syslog''" using name(5) by (auto simp: has_prefix_def)
  ultimately have new: "NewLogger name mx k em w = Ret (FileL l, w1)"
    using name nl by (simp add: NewLogger_def createLogger_def Let_def)
  have rep: "ring_rep l w1 [[]]" "maxSize l = mx" "backups l = k"
    using NewFileLogger_fresh[OF w, of mx em] nl w(1) by (simp_all add: fl_rep_def)
  obtain l' w2 where wr: "fl_Write p l w1 = ((int (length p), None), l', w2)" and rep2: "ring_rep l' w2 [p]"
    using fl_Write_step[OF rep(1), of p] rep(2) p(1) by (auto simp: seg_write_def split: prod.splits)
  have ok: "ring_ok l' w2" using rep2 by (simp add: ring_rep_def)
  have t: "file_text w2 (GetCurrentLogFile l') = p"
    unfolding ring_file_0[OF ok, symmetric] using rep2 by (simp add: ring_rep_def)
  have ex: "os_exists w2 (GetCurrentLogFile l')"
    using ok by (auto simp: ring_ok_def os_exists_def GetCurrentLogFile_def)
  have "fl_ReadLog 0 0 l' w2 = Ret (Inr p)"
    using ex t p(2) make_ReadAt_ok[of 0 "int (length p)" p] by (simp add: fl_ReadLog_def Let_def)
  with new wr show ?thesis by simp
qed

theorem NewLogger_write_read_witness:
  "\<exists>lg w1 lg' w2. NewLogger ''/var/log/app'' 100 3 NullLogEventEmitter demo_world = Ret (lg, w1) \<and>
    lg_Write ''hello'' lg w1 = Ret ((5, None), lg', w2) \<and> lg_ReadLog 0 0 lg' w2 = Ret (Inr ''hello'')"
proof -
  have "TrimSpace ''/var/log/app'' = ''/var/log/app''" by code_simp
  then show ?thesis
    using NewLogger_write_read[of "''/var/log/app''" 3 demo_world "''hello''" 100 NullLogEventEmitter]
    by (simp add: demo_world_def blocked_def has_prefix_def no_log_files_def)
qed

end
