(* ===== verification/ProcGroup.thy ===== *)
theory ProcGroup
  imports GoPrelude
begin

text \<open>
  \<open>subprocess/util/util.go\<close> and \<open>subprocess/config/process_group.go\<close>: the map from programs to
  their groups, and the difference of two such maps that a reload reports. The interface the
  configuration relies on (what a lookup returns after \<open>Add\<close>, \<open>Remove\<close> and the
  defaulting \<open>GetGroup\<close>) is the locale \<open>group_table\<close>, interpreted on these definitions.
\<close>

section \<open>util.go\<close>

fun InArray :: "'a \<Rightarrow> 'a list \<Rightarrow> bool" where
  "InArray elem [] = False"
| "InArray elem (e # arr) = (if e = elem then True else InArray elem arr)"

fun HasAllElements :: "'a list \<Rightarrow> 'a list \<Rightarrow> bool" where
  "HasAllElements arr1 [] = True"
| "HasAllElements arr1 (e2 # arr2) = (if \<not> InArray e2 arr1 then False else HasAllElements arr1 arr2)"

text \<open>The inner loop of \<open>Sub\<close> has no \<open>break\<close>: it scans all of \<open>arr_2\<close>.\<close>

fun util_exist :: "string \<Rightarrow> bool \<Rightarrow> string list \<Rightarrow> bool" where
  "util_exist s exist [] = exist"
| "util_exist s exist (s2 # arr_2) = util_exist s (if s = s2 then True else exist) arr_2"

fun util_Sub :: "string list \<Rightarrow> string list \<Rightarrow> string list" where
  "util_Sub [] arr_2 = []"
| "util_Sub (s # arr_1) arr_2 =
     (if \<not> util_exist s False arr_2 then s # util_Sub arr_1 arr_2 else util_Sub arr_1 arr_2)"

fun all_exist :: "string list \<Rightarrow> string list \<Rightarrow> bool" where
  "all_exist [] arr_2 = True"
| "all_exist (s # arr_1) arr_2 = (if \<not> InArray s arr_2 then False else all_exist arr_1 arr_2)"

definition IsSameStringArray :: "string list \<Rightarrow> string list \<Rightarrow> bool" where
  "IsSameStringArray arr_1 arr_2 =
     (if length arr_1 \<noteq> length arr_2 then False else all_exist arr_1 arr_2)"

section \<open>process_group.go\<close>

type_synonym ProcessGroup = "(string, string) gomap"

definition NewProcessGroup :: ProcessGroup where
  "NewProcessGroup = []"

definition pg_Clone :: "ProcessGroup \<Rightarrow> ProcessGroup" where
  "pg_Clone pg = foldl (\<lambda>new_pg (k, v). AList.update k v new_pg) NewProcessGroup pg"

definition pg_Add :: "ProcessGroup \<Rightarrow> string \<Rightarrow> string \<Rightarrow> ProcessGroup" where
  "pg_Add pg grp procName = AList.update procName grp pg"

definition pg_Remove :: "ProcessGroup \<Rightarrow> string \<Rightarrow> ProcessGroup" where
  "pg_Remove pg procName = AList.delete procName pg"

definition GetAllGroup :: "ProcessGroup \<Rightarrow> string list" where
  "GetAllGroup pg = map fst (foldl (\<lambda>groups (procName, grp). AList.update grp True groups) [] pg)"

definition pg_GetAllProcess :: "ProcessGroup \<Rightarrow> string \<Rightarrow> string list" where
  "pg_GetAllProcess pg grp = map fst (filter (\<lambda>(procName, groupName). grp = groupName) pg)"

definition InGroup :: "ProcessGroup \<Rightarrow> string \<Rightarrow> string \<Rightarrow> bool" where
  "InGroup pg procName grp =
     (case map_of pg procName of None \<Rightarrow> False | Some groupName \<Rightarrow> grp = groupName)"

definition pg_ForEachProcess :: "('s \<Rightarrow> string \<Rightarrow> string \<Rightarrow> 's) \<Rightarrow> 's \<Rightarrow> ProcessGroup \<Rightarrow> 's" where
  "pg_ForEachProcess procFunc s pg = foldl (\<lambda>s (procName, groupName). procFunc s groupName procName) s pg"

definition GetGroup :: "ProcessGroup \<Rightarrow> string \<Rightarrow> string \<Rightarrow> string \<times> ProcessGroup" where
  "GetGroup pg procName defGroup =
     (case map_of pg procName of
        Some grp \<Rightarrow> (grp, pg)
      | None \<Rightarrow> (defGroup, AList.update procName defGroup pg))"

definition pg_String :: "ProcessGroup \<Rightarrow> string" where
  "pg_String pg = foldl (\<lambda>buf grp. buf @ grp @ '':'' @ join_with '','' (pg_GetAllProcess pg grp) @ '';'')
     [] (GetAllGroup pg)"

definition pg_Sub :: "ProcessGroup \<Rightarrow> ProcessGroup \<Rightarrow> string list \<times> string list \<times> string list" where
  "pg_Sub pg other =
     (let thisGroup = GetAllGroup pg;
          otherGroup = GetAllGroup other;
          added = util_Sub thisGroup otherGroup;
          removed = util_Sub otherGroup thisGroup;
          changed = foldl (\<lambda>changed grp.
             let proc_1 = pg_GetAllProcess pg grp;
                 proc_2 = pg_GetAllProcess other grp
             in if length proc_2 > 0 \<and> \<not> IsSameStringArray proc_1 proc_2 then changed @ [grp]
                else changed) [] thisGroup
      in (added, changed, removed))"

section \<open>The abstract view: which programs a group has\<close>

definition pg_wf :: "ProcessGroup \<Rightarrow> bool" where
  "pg_wf pg \<longleftrightarrow> distinct (map fst pg)"

definition members :: "ProcessGroup \<Rightarrow> string \<Rightarrow> string set" where
  "members pg g = {p. map_of pg p = Some g}"

definition group_names :: "ProcessGroup \<Rightarrow> string set" where
  "group_names pg = ran (map_of pg)"

section \<open>Lemmas\<close>

lemma InArray_iff [simp]: "InArray e arr \<longleftrightarrow> e \<in> set arr"
  by (induction arr) auto

lemma HasAllElements_iff: "HasAllElements arr1 arr2 \<longleftrightarrow> set arr2 \<subseteq> set arr1"
  by (induction arr2) auto

lemma util_exist_iff [simp]: "util_exist s b arr \<longleftrightarrow> b \<or> s \<in> set arr"
  by (induction arr arbitrary: b) auto

lemma util_Sub_filter: "util_Sub arr_1 arr_2 = filter (\<lambda>s. s \<notin> set arr_2) arr_1"
  by (induction arr_1) auto

lemma all_exist_iff [simp]: "all_exist arr_1 arr_2 \<longleftrightarrow> set arr_1 \<subseteq> set arr_2"
  by (induction arr_1) auto

text \<open>On lists without duplicates the length test makes the one-way inclusion an equality.\<close>

lemma IsSameStringArray_distinct:
  assumes "distinct arr_1" and "distinct arr_2"
  shows "IsSameStringArray arr_1 arr_2 \<longleftrightarrow> set arr_1 = set arr_2"
proof -
  have "card (set arr_1) = length arr_1" "card (set arr_2) = length arr_2"
    using assms by (simp_all add: distinct_card)
  then show ?thesis
    using card_subset_eq[of "set arr_2" "set arr_1"] by (auto simp: IsSameStringArray_def)
qed

lemma foldl_update_keys:
  "set (map fst (foldl (\<lambda>m (k, v). AList.update (f k v) (h k v) m) m0 xs)) =
   set (map fst m0) \<union> (\<lambda>(k, v). f k v) ` set xs"
proof (induction xs arbitrary: m0)
  case (Cons x xs)
  then show ?case by (cases x) (auto simp: keys_update simp del: set_map)
qed simp

lemma ran_map_of_distinct: "distinct (map fst m) \<Longrightarrow> ran (map_of m) = snd ` set m"
  by (simp add: ran_distinct)

lemma set_GetAllGroup: "pg_wf pg \<Longrightarrow> set (GetAllGroup pg) = group_names pg"
  using foldl_update_keys[of "\<lambda>k v. v" "\<lambda>k v. True" "[]" pg]
  by (force simp: GetAllGroup_def group_names_def pg_wf_def ran_map_of_distinct simp del: set_map)

lemma set_GetAllProcess: "pg_wf pg \<Longrightarrow> set (pg_GetAllProcess pg g) = members pg g"
  by (force simp: pg_GetAllProcess_def members_def pg_wf_def)

lemma distinct_GetAllProcess: "pg_wf pg \<Longrightarrow> distinct (pg_GetAllProcess pg g)"
  unfolding pg_GetAllProcess_def pg_wf_def by (rule distinct_map_filter)

lemma members_nonempty: "members pg g \<noteq> {} \<longleftrightarrow> g \<in> group_names pg"
  by (auto simp: members_def group_names_def ran_def)

lemma foldl_collect: "foldl (\<lambda>acc x. if P x then acc @ [x] else acc) acc xs = acc @ filter P xs"
  by (induction xs arbitrary: acc) auto

lemma map_of_foldl_update:
  "map_of (foldl (\<lambda>m (k, v). AList.update k v m) m0 xs) = (map_of m0)(map fst xs [\<mapsto>] map snd xs)"
  by (induction xs arbitrary: m0) (auto simp: case_prod_beta)

lemma pg_wf_ops [simp]:
  "pg_wf NewProcessGroup"
  "pg_wf pg \<Longrightarrow> pg_wf (pg_Add pg g p)"
  "pg_wf pg \<Longrightarrow> pg_wf (pg_Remove pg p)"
  "pg_wf pg \<Longrightarrow> pg_wf (snd (GetGroup pg p d))"
  by (auto simp: pg_wf_def NewProcessGroup_def pg_Add_def pg_Remove_def GetGroup_def
      intro: distinct_update distinct_delete split: option.split)

lemma map_of_foldl_update_distinct:
  "distinct (map fst xs) \<Longrightarrow>
   map_of (foldl (\<lambda>m (k, v). AList.update k v m) m0 xs) = map_of m0 ++ map_of xs"
proof (induction xs arbitrary: m0)
  case (Cons x xs)
  obtain k v where x: "x = (k, v)" by (cases x)
  with Cons.prems have "map_of xs k = None" by (simp add: map_of_eq_None_iff)
  with Cons x show ?case
    by (auto simp: fun_eq_iff map_add_def split: option.split)
qed simp

lemma lookup_Clone: "pg_wf pg \<Longrightarrow> map_of (pg_Clone pg) = map_of pg"
  by (simp add: pg_Clone_def pg_wf_def map_of_foldl_update_distinct NewProcessGroup_def)

lemma pg_wf_Clone: "pg_wf (pg_Clone pg)"
proof -
  have "distinct (map fst m0) \<Longrightarrow> distinct (map fst (foldl (\<lambda>m (k, v). AList.update k v m) m0 pg))" for m0
    by (induction pg arbitrary: m0) (auto simp: distinct_update)
  then show ?thesis by (simp add: pg_wf_def pg_Clone_def NewProcessGroup_def)
qed

section \<open>The group table as an interface\<close>

locale group_table =
  fixes lookup :: "'g \<Rightarrow> string \<Rightarrow> string option"
    and add :: "'g \<Rightarrow> string \<Rightarrow> string \<Rightarrow> 'g"
    and remove :: "'g \<Rightarrow> string \<Rightarrow> 'g"
    and get :: "'g \<Rightarrow> string \<Rightarrow> string \<Rightarrow> string \<times> 'g"
  assumes lookup_add: "lookup (add g grp p) q = (if q = p then Some grp else lookup g q)"
    and lookup_remove: "lookup (remove g p) q = (if q = p then None else lookup g q)"
    and get_known: "lookup g p = Some grp \<Longrightarrow> get g p d = (grp, g)"
    and get_unknown: "lookup g p = None \<Longrightarrow> get g p d = (d, add g d p)"
begin

lemma get_result: "fst (get g p d) = (case lookup g p of None \<Rightarrow> d | Some grp \<Rightarrow> grp)"
  by (cases "lookup g p") (simp_all add: get_known get_unknown)

lemma lookup_get:
  "lookup (snd (get g p d)) q = (if q = p then Some (fst (get g p d)) else lookup g q)"
  by (cases "lookup g p") (auto simp: get_known get_unknown lookup_add)

text \<open>Asking again, with whatever default, gives the same group and changes nothing.\<close>

lemma get_again: "get (snd (get g p d)) p d' = get g p d"
  by (cases "lookup g p") (simp_all add: get_known get_unknown lookup_add)

text \<open>The defaulting lookup never moves a program that already has a group.\<close>

lemma get_keeps: "lookup g q = Some grp \<Longrightarrow> lookup (snd (get g p d)) q = Some grp"
  by (auto simp: lookup_get get_known)

lemma add_then_get: "get (add g grp p) p d = (grp, add g grp p)"
  by (simp add: get_known lookup_add)

end

interpretation pg: group_table "map_of :: ProcessGroup \<Rightarrow> string \<Rightarrow> string option" pg_Add pg_Remove GetGroup
  by unfold_locales (auto simp: pg_Add_def pg_Remove_def GetGroup_def)

section \<open>Claims\<close>

lemma changed_groups:
  assumes "pg_wf pg" and "pg_wf other"
  shows "set (filter (\<lambda>g. 0 < length (pg_GetAllProcess other g) \<and>
           \<not> IsSameStringArray (pg_GetAllProcess pg g) (pg_GetAllProcess other g)) (GetAllGroup pg)) =
         {g \<in> group_names pg \<inter> group_names other. members pg g \<noteq> members other g}"
proof -
  have "0 < length (pg_GetAllProcess other g) \<longleftrightarrow> g \<in> group_names other" for g
    using set_GetAllProcess[OF assms(2), of g] members_nonempty[of other g]
    by (metis length_greater_0_conv set_empty2)
  then show ?thesis
    by (auto simp: set_GetAllGroup[OF assms(1)] set_GetAllProcess[OF assms(1)] set_GetAllProcess[OF assms(2)]
        IsSameStringArray_distinct[OF distinct_GetAllProcess[OF assms(1)] distinct_GetAllProcess[OF assms(2)]])
qed

text \<open>
  The three lists a reload reports: \<open>added\<close> are the groups of the new map that the old one
  did not have, \<open>removed\<close> those only the old one had, and \<open>changed\<close> exactly the common
  groups whose sets of programs differ.
\<close>

theorem pg_Sub_groups:
  assumes "pg_wf pg" and "pg_wf other" and "pg_Sub pg other = (added, changed, removed)"
  shows "set added = group_names pg - group_names other \<and>
    set removed = group_names other - group_names pg \<and>
    set changed = {g \<in> group_names pg \<inter> group_names other. members pg g \<noteq> members other g}"
proof -
  let ?P = "\<lambda>g. 0 < length (pg_GetAllProcess other g) \<and>
    \<not> IsSameStringArray (pg_GetAllProcess pg g) (pg_GetAllProcess other g)"
  have "changed = filter ?P (GetAllGroup pg)"
    using assms(3) foldl_collect[of ?P "[]" "GetAllGroup pg"] by (simp add: pg_Sub_def Let_def)
  moreover have "added = util_Sub (GetAllGroup pg) (GetAllGroup other)"
    and "removed = util_Sub (GetAllGroup other) (GetAllGroup pg)"
    using assms(3) by (simp_all add: pg_Sub_def Let_def)
  ultimately show ?thesis
    using changed_groups[OF assms(1,2)]
    by (auto simp: util_Sub_filter set_GetAllGroup[OF assms(1)] set_GetAllGroup[OF assms(2)])
qed

theorem pg_Sub_groups_witness:
  "pg_Sub [(''a'', ''g1''), (''b'', ''g1''), (''c'', ''g3'')] [(''a'', ''g1''), (''d'', ''g2'')] =
     ([''g3''], [''g1''], [''g2'']) \<and>
   ''g1'' \<in> group_names [(''a'', ''g1''), (''d'', ''g2'')]"
proof -
  let ?n = "[(''a'', ''g1''), (''b'', ''g1''), (''c'', ''g3'')]"
  let ?o = "[(''a'', ''g1''), (''d'', ''g2'')]"
  have w: "pg_wf ?n" "pg_wf ?o" by (simp_all add: pg_wf_def)
  have e: "pg_Sub ?n ?o = ([''g3''], [''g1''], [''g2''])" by code_simp
  show ?thesis using pg_Sub_groups[OF w e] e by auto
qed

end
