(* ===== verification/ProcSort.thy ===== *)
theory ProcSort
  imports ConfigEntries
begin

text \<open>
  \<open>subprocess/config/process_sort.go\<close>: the start order of the programs. Programs that take part
  in a \<open>depends_on\<close> relation come first, every one after those it depends on; the others
  follow by priority. Configuration entries are pointers of an arbitrary type \<open>'a\<close>, read
  through \<open>get\<close>. The order in which the \<open>k\<close>-th \<open>range\<close> over a map visits the keys is
  \<open>\<rho> k\<close>, any permutation; \<open>sort.Sort\<close>, which is not stable, is \<open>srt\<close>, any function that
  returns a sorted permutation. The lemmas show that the dependency loop ends exactly when
  the relation has no cycle, and what the resulting order guarantees.
\<close>

type_synonym graph = "(string, string list) gomap"
type_synonym passes = "nat \<Rightarrow> string list \<Rightarrow> string list"

definition priority_of :: "ConfigEntry \<Rightarrow> int" where
  "priority_of c = GetInt c ''priority'' 999"

definition prio_Less :: "ConfigEntry \<Rightarrow> ConfigEntry \<Rightarrow> bool" where
  "prio_Less a b \<longleftrightarrow> GetInt a ''priority'' 999 < GetInt b ''priority'' 999"

definition add_depend :: "string \<Rightarrow> graph \<Rightarrow> string \<Rightarrow> graph" where
  "add_depend prog_name g raw =
     (let d = TrimSpace raw
      in if d \<noteq> [] then
           (let g' = (if map_of g prog_name = None then AList.update prog_name [] g else g)
            in AList.update prog_name ((case map_of g' prog_name of None \<Rightarrow> [] | Some ds \<Rightarrow> ds) @ [d]) g')
         else g)"

definition initDepends :: "os_env \<Rightarrow> ('a \<Rightarrow> ConfigEntry) \<Rightarrow> 'a list \<Rightarrow> graph go" where
  "initDepends os get program_configs =
     foldg (\<lambda>g p. let config = get p
        in if IsProgram config \<and> HasParameter config ''depends_on'' then
             bindg (GetString os config ''depends_on'' []) (\<lambda>depends_on.
               Ret (foldl (add_depend (GetProgramName config)) g (split_char (CHR '','') depends_on)))
           else Ret g) [] program_configs"

definition getDependsOnInfo :: "graph \<Rightarrow> (string, string) gomap" where
  "getDependsOnInfo g = foldl (\<lambda>m (k, v). foldl (\<lambda>m t. AList.update t t m) (AList.update k k m) v) [] g"

definition initProgramWithoutDepends :: "('a \<Rightarrow> ConfigEntry) \<Rightarrow> graph \<Rightarrow> 'a list \<Rightarrow> 'a list" where
  "initProgramWithoutDepends get g program_configs =
     (let depends_on_programs = getDependsOnInfo g
      in filter (\<lambda>p. IsProgram (get p) \<and> map_of depends_on_programs (GetProgramName (get p)) = None)
           program_configs)"

definition inFinishedPrograms :: "graph \<Rightarrow> string \<Rightarrow> (string, string) gomap \<Rightarrow> bool" where
  "inFinishedPrograms g program_name finished_programs =
     (case map_of g program_name of
        None \<Rightarrow> True
      | Some depends_on \<Rightarrow> list_all (\<lambda>d. map_of finished_programs d \<noteq> None) depends_on)"

type_synonym sort_state = "(string, string) gomap \<times> string list"

definition finish :: "sort_state \<Rightarrow> string \<Rightarrow> sort_state" where
  "finish st prog_name = (AList.update prog_name prog_name (fst st), snd st @ [prog_name])"

definition sort_first :: "graph \<Rightarrow> string list \<Rightarrow> sort_state" where
  "sort_first g names = foldl (\<lambda>st prog_name. if map_of g prog_name = None then finish st prog_name else st) ([], []) names"

text \<open>The body of \<open>for len(finished_programs) < len(progs_with_depends_info)\<close>: one pass over the graph.\<close>

definition sort_pass :: "graph \<Rightarrow> string list \<Rightarrow> sort_state \<Rightarrow> sort_state" where
  "sort_pass g names st = foldl (\<lambda>st prog_name.
      if map_of (fst st) prog_name = None \<and> inFinishedPrograms g prog_name (fst st)
      then finish st prog_name else st) st names"

partial_function (option) sort_loop :: "passes \<Rightarrow> graph \<Rightarrow> nat \<Rightarrow> nat \<Rightarrow> sort_state \<Rightarrow> string list option" where
  "sort_loop \<rho> g n k st =
     (if length (fst st) < n then sort_loop \<rho> g n (Suc k) (sort_pass g (\<rho> k (map fst g)) st)
      else Some (snd st))"

declare sort_loop.simps [code]

definition sortDepends :: "passes \<Rightarrow> graph \<Rightarrow> string list go" where
  "sortDepends \<rho> g =
     (let info = getDependsOnInfo g
      in case sort_loop \<rho> g (length info) 1 (sort_first g (\<rho> 0 (map fst info))) of
           None \<Rightarrow> Hang
         | Some r \<Rightarrow> Ret r)"

definition SortProgram ::
  "os_env \<Rightarrow> ('a \<Rightarrow> ConfigEntry) \<Rightarrow> passes \<Rightarrow> ('a list \<Rightarrow> 'a list) \<Rightarrow> 'a list \<Rightarrow> 'a list go" where
  "SortProgram os get \<rho> srt program_configs =
     bindg (initDepends os get program_configs) (\<lambda>g.
     bindg (sortDepends \<rho> g) (\<lambda>order.
       Ret (concat (map (\<lambda>prog. filter (\<lambda>p. IsProgram (get p) \<and> GetProgramName (get p) = prog) program_configs) order)
            @ srt (initProgramWithoutDepends get g program_configs))))"

section \<open>The dependency relation\<close>

definition deps :: "graph \<Rightarrow> string \<Rightarrow> string list" where
  "deps g p = (case map_of g p of None \<Rightarrow> [] | Some ds \<Rightarrow> ds)"

definition depends :: "graph \<Rightarrow> (string \<times> string) set" where
  "depends g = {(d, p). d \<in> set (deps g p)}"

definition involved :: "graph \<Rightarrow> string set" where
  "involved g = fst ` set g \<union> (\<Union>(k, v)\<in>set g. set v)"

definition is_range :: "passes \<Rightarrow> bool" where
  "is_range \<rho> \<longleftrightarrow> (\<forall>k xs. mset (\<rho> k xs) = mset xs)"

definition sorts_by :: "('a \<Rightarrow> int) \<Rightarrow> ('a list \<Rightarrow> 'a list) \<Rightarrow> bool" where
  "sorts_by key srt \<longleftrightarrow> (\<forall>xs. mset (srt xs) = mset xs \<and> sorted (map key (srt xs)))"

text \<open>Every element comes after all it depends on.\<close>

definition after_deps :: "graph \<Rightarrow> string list \<Rightarrow> bool" where
  "after_deps g ord \<longleftrightarrow> (\<forall>i<length ord. set (deps g (ord ! i)) \<subseteq> set (take i ord))"

section \<open>Lemmas on the passes\<close>

lemma is_range_set: "is_range \<rho> \<Longrightarrow> set (\<rho> k xs) = set xs"
  by (metis is_range_def set_mset_mset)

lemma is_range_distinct: "is_range \<rho> \<Longrightarrow> distinct (\<rho> k xs) = distinct xs"
  by (metis is_range_def mset_eq_imp_distinct_iff)

lemma distinct_fold_update: "distinct (map fst m) \<Longrightarrow> distinct (map fst (foldl (\<lambda>m t. AList.update t t m) m ts))"
  by (induction ts arbitrary: m) (auto simp: distinct_update)

lemma keys_fold_update: "fst ` set (foldl (\<lambda>m t. AList.update t t m) m ts) = fst ` set m \<union> set ts"
  by (induction ts arbitrary: m) (auto simp: dom_update)

lemma info_keys: "fst ` set (getDependsOnInfo g) = involved g"
  and info_distinct: "distinct (map fst (getDependsOnInfo g))"
proof -
  let ?f = "\<lambda>m (k, v). foldl (\<lambda>m t. AList.update t t m) (AList.update k k m) v"
  have "fst ` set (foldl ?f m g) = fst ` set m \<union> involved g" for m :: "(string, string) gomap"
  proof (induction g arbitrary: m)
    case (Cons kv g)
    obtain k v where "kv = (k, v)" by (cases kv)
    with Cons.IH show ?case by (simp add: involved_def keys_fold_update dom_update) blast
  qed (simp add: involved_def)
  from this[of "[]"] show "fst ` set (getDependsOnInfo g) = involved g"
    by (simp add: getDependsOnInfo_def)
  have "distinct (map fst m) \<Longrightarrow> distinct (map fst (foldl ?f m g))" for m :: "(string, string) gomap"
    by (induction g arbitrary: m) (auto simp: distinct_fold_update distinct_update)
  from this[of "[]"] show "distinct (map fst (getDependsOnInfo g))"
    by (simp add: getDependsOnInfo_def)
qed

lemma inFinished_iff: "inFinishedPrograms g p fin \<longleftrightarrow> set (deps g p) \<subseteq> dom (map_of fin)"
  by (auto simp: inFinishedPrograms_def deps_def list_all_iff split: option.split)

lemma deps_involved: "set (deps g p) \<subseteq> involved g"
proof (cases "map_of g p")
  case (Some ds)
  then have "(p, ds) \<in> set g" by (rule map_of_SomeD)
  with Some show ?thesis by (auto simp: deps_def involved_def)
qed (simp add: deps_def)

text \<open>The invariant of the loop.\<close>

definition sort_inv :: "graph \<Rightarrow> sort_state \<Rightarrow> bool" where
  "sort_inv g st \<longleftrightarrow> map fst (fst st) = snd st \<and> distinct (snd st) \<and> set (snd st) \<subseteq> involved g \<and>
     after_deps g (snd st) \<and> (\<forall>p\<in>involved g. map_of g p = None \<longrightarrow> p \<in> set (snd st))"

lemma sort_inv_length: "sort_inv g st \<Longrightarrow> length (fst st) = length (snd st)"
  by (metis length_map sort_inv_def)

lemma dom_fst: "map fst m = ks \<Longrightarrow> dom (map_of m) = set ks"
  by (metis dom_map_of_conv_image_fst set_map)

lemma after_deps_snoc: "after_deps g (ord @ [p]) \<longleftrightarrow> after_deps g ord \<and> set (deps g p) \<subseteq> set ord"
  by (auto simp: after_deps_def nth_append less_Suc_eq)

lemma finish_inv:
  assumes "sort_inv g st" and "p \<in> involved g" and "map_of (fst st) p = None" and "inFinishedPrograms g p (fst st)"
  shows "sort_inv g (finish st p)"
proof -
  have d: "dom (map_of (fst st)) = set (snd st)"
    using assms(1) by (simp add: sort_inv_def dom_fst)
  then have "p \<notin> set (snd st)" using assms(3) by auto
  moreover have "set (deps g p) \<subseteq> set (snd st)" using assms(4) d by (simp add: inFinished_iff)
  ultimately show ?thesis
    using assms(1,2) by (auto simp: sort_inv_def finish_def update_fresh after_deps_snoc)
qed

text \<open>A pass keeps the invariant, never loses a finished program, and finishes every program
  whose dependencies were finished before it.\<close>

lemma sort_pass_inv:
  assumes "sort_inv g st" and "set names \<subseteq> involved g"
  shows "sort_inv g (sort_pass g names st) \<and> set (snd st) \<subseteq> set (snd (sort_pass g names st)) \<and>
    {p \<in> set names. set (deps g p) \<subseteq> set (snd st)} \<subseteq> set (snd (sort_pass g names st))"
  using assms
proof (induction names arbitrary: st)
  case (Cons p names)
  define st1 where "st1 = (if map_of (fst st) p = None \<and> inFinishedPrograms g p (fst st) then finish st p else st)"
  have inv1: "sort_inv g st1" using Cons.prems finish_inv[of g st p] by (auto simp: st1_def)
  have grow: "set (snd st) \<subseteq> set (snd st1)" by (auto simp: st1_def finish_def)
  have d: "dom (map_of (fst st)) = set (snd st)"
    using Cons.prems(1) by (simp add: sort_inv_def dom_fst)
  have ready: "set (deps g p) \<subseteq> set (snd st) \<Longrightarrow> p \<in> set (snd st1)"
    using d by (auto simp: st1_def finish_def inFinished_iff)
  have "sort_pass g (p # names) st = sort_pass g names st1" by (simp add: sort_pass_def st1_def)
  moreover have "{q \<in> set names. set (deps g q) \<subseteq> set (snd st)} \<subseteq> {q \<in> set names. set (deps g q) \<subseteq> set (snd st1)}"
    using grow by blast
  ultimately show ?case using Cons.IH[OF inv1] Cons.prems(2) grow ready by auto
qed (simp add: sort_pass_def)

lemma sort_first_inv:
  assumes "set names = involved g" and "distinct names"
  shows "sort_inv g (sort_first g names)"
proof -
  have "sort_first g names = (map (\<lambda>p. (p, p)) ns, ns)" if "distinct names" and "ns = filter (\<lambda>p. map_of g p = None) names" for ns
    using that unfolding sort_first_def
  proof (induction names arbitrary: ns rule: rev_induct)
    case (snoc p names)
    then show ?case by (auto simp: finish_def update_fresh image_iff)
  qed simp
  note eq = this[OF assms(2) refl]
  have "after_deps g (filter (\<lambda>p. map_of g p = None) names)"
    unfolding after_deps_def
  proof (intro allI impI)
    fix i assume "i < length (filter (\<lambda>p. map_of g p = None) names)"
    then have "map_of g (filter (\<lambda>p. map_of g p = None) names ! i) = None"
      using nth_mem by fastforce
    then show "set (deps g (filter (\<lambda>p. map_of g p = None) names ! i)) \<subseteq> set (take i (filter (\<lambda>p. map_of g p = None) names))"
      by (simp add: deps_def)
  qed
  with eq show ?thesis using assms by (auto simp: sort_inv_def comp_def)
qed

lemma involved_finite: "finite (involved g)"
  by (auto simp: involved_def)

lemma sort_inv_card: "sort_inv g st \<Longrightarrow> length (fst st) = card (set (snd st))"
  by (metis distinct_card sort_inv_def sort_inv_length)

lemma info_length: "length (getDependsOnInfo g) = card (involved g)"
  by (metis distinct_card info_distinct info_keys length_map set_map)

text \<open>Progress: while something is unfinished, an acyclic relation has a program that is ready.\<close>

lemma ready_exists:
  assumes "acyclic (depends g)" and "sort_inv g st" and "set (snd st) \<noteq> involved g"
  shows "\<exists>p \<in> fst ` set g. p \<notin> set (snd st) \<and> set (deps g p) \<subseteq> set (snd st)"
proof -
  let ?U = "involved g - set (snd st)"
  have "finite (depends g \<inter> ?U \<times> ?U)" by (simp add: involved_finite)
  moreover have "acyclic (depends g \<inter> ?U \<times> ?U)"
    using assms(1) by (rule acyclic_subset) auto
  ultimately have wf: "wf (depends g \<inter> ?U \<times> ?U)" by (rule finite_acyclic_wf)
  have "?U \<noteq> {}" using assms(2,3) by (auto simp: sort_inv_def)
  then obtain p where p: "p \<in> ?U" "\<And>d. (d, p) \<in> depends g \<inter> ?U \<times> ?U \<Longrightarrow> d \<notin> ?U"
    using wfE_min[OF wf] by (metis ex_in_conv)
  then have "set (deps g p) \<subseteq> set (snd st)"
    using deps_involved[of g p] by (auto simp: depends_def)
  moreover have "map_of g p \<noteq> None" using p(1) assms(2) by (auto simp: sort_inv_def)
  then have "p \<in> fst ` set g" by (simp add: map_of_eq_None_iff)
  ultimately show ?thesis using p(1) by blast
qed

lemma keys_involved: "fst ` set g \<subseteq> involved g"
  by (auto simp: involved_def)

text \<open>Total correctness of the loop on an acyclic relation.\<close>

lemma sort_loop_returns:
  assumes "acyclic (depends g)" and "is_range \<rho>" and "sort_inv g st"
  shows "\<exists>ord. sort_loop \<rho> g (card (involved g)) k st = Some ord \<and> set ord = involved g \<and>
    distinct ord \<and> after_deps g ord"
  using assms(3)
proof (induction "card (involved g) - length (fst st)" arbitrary: st k rule: less_induct)
  case less
  have sub: "set (snd st) \<subseteq> involved g" using less.prems by (simp add: sort_inv_def)
  show ?case
  proof (cases "length (fst st) < card (involved g)")
    case True
    then have ne: "set (snd st) \<noteq> involved g" using sort_inv_card[OF less.prems] by auto
    define st' where "st' = sort_pass g (\<rho> k (map fst g)) st"
    have names: "set (\<rho> k (map fst g)) = fst ` set g" using is_range_set[OF assms(2)] by simp
    have inv: "sort_inv g st'" and grow: "set (snd st) \<subseteq> set (snd st')"
      and ready: "{p \<in> fst ` set g. set (deps g p) \<subseteq> set (snd st)} \<subseteq> set (snd st')"
      using sort_pass_inv[OF less.prems, of "\<rho> k (map fst g)"] names keys_involved by (auto simp: st'_def)
    obtain p where "p \<notin> set (snd st)" "p \<in> set (snd st')"
      using ready_exists[OF assms(1) less.prems ne] ready by blast
    with grow have "set (snd st) \<subset> set (snd st')" by blast
    then have "length (fst st) < length (fst st')"
      using sort_inv_card[OF inv] sort_inv_card[OF less.prems] by (metis List.finite_set psubset_card_mono)
    with True have "card (involved g) - length (fst st') < card (involved g) - length (fst st)" by simp
    from less.hyps[OF this inv, of "Suc k"] True show ?thesis
      by (subst sort_loop.simps) (simp add: st'_def)
  next
    case False
    then have "set (snd st) = involved g"
      using sort_inv_card[OF less.prems] sub card_subset_eq[OF involved_finite sub] card_mono[OF involved_finite sub] by simp
    with False less.prems show ?thesis
      by (subst sort_loop.simps) (simp add: sort_inv_def)
  qed
qed

text \<open>On a cyclic relation no program of the cycle ever finishes.\<close>

lemma after_deps_trancl:
  assumes "after_deps g ord" and "(d, p) \<in> (depends g)\<^sup>+" and "i < length ord" and "ord ! i = p"
  shows "\<exists>j<i. ord ! j = d"
  using assms(2-4)
proof (induction arbitrary: i rule: trancl_induct)
  case (base p)
  then have "d \<in> set (take i ord)" using assms(1) by (auto simp: after_deps_def depends_def)
  with base show ?case by (auto simp: in_set_conv_nth)
next
  case (step q p)
  then have "q \<in> set (take i ord)" using assms(1) by (auto simp: after_deps_def depends_def)
  with step.prems obtain j where "j < i" "ord ! j = q" by (auto simp: in_set_conv_nth)
  with step.IH[of j] step.prems show ?case by (auto intro: less_trans)
qed

lemma cycle_unfinished:
  assumes "(x, x) \<in> (depends g)\<^sup>+" and "sort_inv g st"
  shows "length (fst st) < card (involved g)"
proof -
  have dist: "distinct (snd st)" and ad: "after_deps g (snd st)" and sub: "set (snd st) \<subseteq> involved g"
    using assms(2) by (auto simp: sort_inv_def)
  have "x \<notin> set (snd st)"
  proof
    assume "x \<in> set (snd st)"
    then obtain i where i: "i < length (snd st)" "snd st ! i = x" by (auto simp: in_set_conv_nth)
    from after_deps_trancl[OF ad assms(1) this] obtain j where "j < i" "snd st ! j = x" by blast
    with i dist show False by (simp add: nth_eq_iff_index_eq flip: i(2))
  qed
  moreover obtain d where "(x, d) \<in> depends g" using assms(1) by (meson tranclD)
  then have "x \<in> involved g" using deps_involved by (auto simp: depends_def)
  ultimately have "set (snd st) \<subset> involved g" using sub by blast
  then show ?thesis
    using sort_inv_card[OF assms(2)] psubset_card_mono[OF involved_finite] by metis
qed

lemma sort_loop_cycle:
  assumes cyc: "(x, x) \<in> (depends g)\<^sup>+" and rg: "is_range \<rho>" and inv: "sort_inv g st"
  shows "sort_loop \<rho> g (card (involved g)) k st = None"
proof (rule ccontr)
  assume "sort_loop \<rho> g (card (involved g)) k st \<noteq> None"
  then obtain r where ret: "sort_loop \<rho> g (card (involved g)) k st = Some r" by blast
  have "\<not> (\<rho> = \<rho> \<and> g = g \<and> card (involved g) = card (involved g) \<and> sort_inv g st)"
  proof (rule sort_loop.raw_induct[where P = "\<lambda>\<rho>' g' n k st r. \<not> (\<rho>' = \<rho> \<and> g' = g \<and> n = card (involved g) \<and> sort_inv g st)", OF _ ret])
    fix loop \<rho>' g' n k st r
    assume IH: "\<And>\<rho>' g' n k st r. loop \<rho>' g' n k st = Some r \<Longrightarrow>
        \<not> (\<rho>' = \<rho> \<and> g' = g \<and> n = card (involved g) \<and> sort_inv g st)"
      and eq: "(if length (fst st) < n then loop \<rho>' g' n (Suc k) (sort_pass g' (\<rho>' k (map fst g')) st)
        else Some (snd st)) = Some r"
    show "\<not> (\<rho>' = \<rho> \<and> g' = g \<and> n = card (involved g) \<and> sort_inv g st)"
    proof
      assume a: "\<rho>' = \<rho> \<and> g' = g \<and> n = card (involved g) \<and> sort_inv g st"
      then have "loop \<rho> g n (Suc k) (sort_pass g (\<rho> k (map fst g)) st) = Some r"
        using eq cycle_unfinished[OF cyc] by (auto split: if_splits)
      moreover have "sort_inv g (sort_pass g (\<rho> k (map fst g)) st)"
        using sort_pass_inv[of g st "\<rho> k (map fst g)"] a is_range_set[OF rg] keys_involved by auto
      ultimately show False using IH a by blast
    qed
  qed
  with inv show False by simp
qed

lemma sort_start_inv: "is_range \<rho> \<Longrightarrow> sort_inv g (sort_first g (\<rho> 0 (map fst (getDependsOnInfo g))))"
  by (rule sort_first_inv) (simp_all add: is_range_set is_range_distinct info_keys info_distinct)

lemma sortDepends_returns:
  assumes "is_range \<rho>" and "acyclic (depends g)"
  shows "\<exists>ord. sortDepends \<rho> g = Ret ord \<and> set ord = involved g \<and> distinct ord \<and> after_deps g ord"
  using sort_loop_returns[OF assms(2,1) sort_start_inv[OF assms(1), of g], of 1]
  by (auto simp: sortDepends_def Let_def info_length)

lemma mset_concat_filter:
  "distinct ord \<Longrightarrow> mset (concat (map (\<lambda>n. filter (\<lambda>p. P p \<and> nm p = n) cs) ord)) = mset (filter (\<lambda>p. P p \<and> nm p \<in> set ord) cs)"
proof (induction ord)
  case (Cons n ord)
  have "mset (filter (\<lambda>p. P p \<and> nm p \<in> set (n # ord)) cs) =
    mset (filter (\<lambda>p. P p \<and> nm p = n) cs) + mset (filter (\<lambda>p. P p \<and> nm p \<in> set ord) cs)"
    using Cons.prems by (induction cs) auto
  with Cons show ?case by simp
qed simp

lemma mset_filter_split: "mset (filter (\<lambda>p. P p \<and> Q p) cs) + mset (filter (\<lambda>p. P p \<and> \<not> Q p) cs) = mset (filter P cs)"
  by (induction cs) auto

lemma nth_concat_block:
  "i < length (concat xss) \<Longrightarrow>
   \<exists>j<length xss. concat xss ! i \<in> set (xss ! j) \<and> length (concat (take j xss)) \<le> i"
proof (induction xss arbitrary: i)
  case (Cons xs xss)
  show ?case
  proof (cases "i < length xs")
    case True
    then show ?thesis by (intro exI[of _ 0]) (simp add: nth_append)
  next
    case False
    with Cons.prems have "i - length xs < length (concat xss)" by simp
    from Cons.IH[OF this] obtain j where "j < length xss" "concat xss ! (i - length xs) \<in> set (xss ! j)"
      "length (concat (take j xss)) \<le> i - length xs" by blast
    with False show ?thesis by (intro exI[of _ "Suc j"]) (simp add: nth_append)
  qed
qed simp

lemma take_concat_blocks:
  "length (concat (take j xss)) \<le> i \<Longrightarrow> set (concat (take j xss)) \<subseteq> set (take i (concat xss @ ys))"
  by (metis append.assoc append_take_drop_id concat_append order_refl set_append set_take_subset_set_take
      subset_trans sup_ge1 take_all take_append)

lemma not_involved_deps: "p \<notin> involved g \<Longrightarrow> deps g p = []"
proof (cases "map_of g p")
  case (Some ds)
  then have "p \<in> fst ` set g" by (force dest: map_of_SomeD)
  then show "p \<notin> involved g \<Longrightarrow> deps g p = []" using keys_involved[of g] by blast
qed (simp add: deps_def)

lemma sort_blocks_order:
  assumes "after_deps g ord" and "i < length (concat (map F ord))"
    and "\<And>n x. x \<in> set (F n) \<Longrightarrow> nm x = n" and "nm q \<in> set (deps g (nm (concat (map F ord) ! i)))"
    and "q \<in> set (F (nm q))"
  shows "q \<in> set (take i (concat (map F ord) @ ys))"
proof -
  obtain j where j: "j < length ord" "concat (map F ord) ! i \<in> set (F (ord ! j))"
    "length (concat (take j (map F ord))) \<le> i"
    using nth_concat_block[OF assms(2)] by auto
  then have "nm q \<in> set (take j ord)"
    using assms(1,3,4) by (auto simp: after_deps_def)
  then have "q \<in> set (concat (take j (map F ord)))"
    using assms(5) by (auto simp: take_map)
  then show ?thesis using take_concat_blocks[OF j(3)] by blast
qed

section \<open>Claims\<close>

text \<open>
  C8. When the \<open>depends_on\<close> relation has no cycle, the dependency loop ends whatever order
  the map is visited in, and lists every program named by the relation exactly once, each
  after all the programs it depends on.
\<close>

theorem sortDepends_topological:
  assumes "is_range \<rho>" and "acyclic (depends g)"
  shows "\<exists>ord. sortDepends \<rho> g = Ret ord \<and> set ord = involved g \<and> distinct ord \<and> after_deps g ord"
  using assms by (rule sortDepends_returns)

lemma is_range_id: "is_range (\<lambda>k xs. xs)" and is_range_rev: "is_range (\<lambda>k xs. rev xs)"
  by (simp_all add: is_range_def)

lemma acyclic_ranked: "\<forall>(d, p)\<in>depends g. rank d < (rank p :: nat) \<Longrightarrow> acyclic (depends g)"
  by (rule wf_acyclic, rule wf_subset[OF wf_measure[of rank]]) auto

theorem sortDepends_topological_witness:
  "\<exists>ord. sortDepends (\<lambda>k xs. rev xs) [(''web'', [''db'', ''mq'']), (''db'', [''disk''])] = Ret ord \<and>
     set ord = {''web'', ''db'', ''mq'', ''disk''} \<and> distinct ord \<and>
     after_deps [(''web'', [''db'', ''mq'']), (''db'', [''disk''])] ord"
proof -
  let ?g = "[(''web'', [''db'', ''mq'']), (''db'', [''disk''])]"
  have "acyclic (depends ?g)"
    by (rule acyclic_ranked[of _ "\<lambda>p. if p = ''web'' then 2 else if p = ''db'' then 1 else 0"])
      (auto simp: depends_def deps_def split: if_splits)
  moreover have "involved ?g = {''web'', ''db'', ''mq'', ''disk''}" by (auto simp: involved_def)
  ultimately show ?thesis using sortDepends_topological[OF is_range_rev, of ?g] by metis
qed

lemma sortDepends_hangs:
  assumes "is_range \<rho>" and "\<not> acyclic (depends g)"
  shows "sortDepends \<rho> g = Hang"
proof -
  obtain x where "(x, x) \<in> (depends g)\<^sup>+" using assms(2) by (auto simp: acyclic_def)
  from sort_loop_cycle[OF this assms(1) sort_start_inv[OF assms(1), of g]] show ?thesis
    by (simp add: sortDepends_def Let_def info_length)
qed

text \<open>
  When the relation has a cycle the loop never ends, whatever order the map is visited in:
  loading such a configuration does not return.
\<close>

theorem sortDepends_cycle_hangs:
  assumes "is_range \<rho>" and "\<not> acyclic (depends g)"
  shows "sortDepends \<rho> g = Hang"
  using assms by (rule sortDepends_hangs)

theorem sortDepends_cycle_hangs_witness:
  "sortDepends (\<lambda>k xs. xs) [(''a'', [''b'']), (''b'', [''a''])] = Hang"
proof -
  let ?g = "[(''a'', [''b'']), (''b'', [''a''])]"
  have "(''b'', ''a'') \<in> depends ?g" "(''a'', ''b'') \<in> depends ?g" by (auto simp: depends_def deps_def)
  then have "(''a'', ''a'') \<in> (depends ?g)\<^sup>+" by (meson r_into_trancl' trancl_into_trancl)
  then have "\<not> acyclic (depends ?g)" by (auto simp: acyclic_def)
  with is_range_id show ?thesis by (rule sortDepends_cycle_hangs)
qed

text \<open>Whatever it is called with, a result of \<open>SortProgram\<close> is a permutation of the programs.\<close>

definition is_perm :: "('a list \<Rightarrow> 'a list) \<Rightarrow> bool" where
  "is_perm srt \<longleftrightarrow> (\<forall>xs. mset (srt xs) = mset xs)"

lemma sorts_by_perm: "sorts_by key srt \<Longrightarrow> is_perm srt"
  by (simp add: sorts_by_def is_perm_def)

lemma SortProgram_perm:
  assumes "is_range \<rho>" "is_perm srt" and run: "SortProgram os get \<rho> srt cs = Ret r"
  shows "mset r = mset (filter (\<lambda>p. IsProgram (get p)) cs)"
proof -
  obtain g ord where g: "sortDepends \<rho> g = Ret ord"
    and r: "r = concat (map (\<lambda>n. filter (\<lambda>p. IsProgram (get p) \<and> GetProgramName (get p) = n) cs) ord) @ srt (initProgramWithoutDepends get g cs)"
    using run by (auto simp: SortProgram_def bindg_eq_Ret)
  have "acyclic (depends g)" using sortDepends_hangs[OF assms(1), of g] g by auto
  then have ord: "set ord = involved g" "distinct ord" using sortDepends_returns[OF assms(1), of g] g by auto
  have "initProgramWithoutDepends get g cs = filter (\<lambda>p. IsProgram (get p) \<and> GetProgramName (get p) \<notin> involved g) cs"
    by (simp add: initProgramWithoutDepends_def Let_def map_of_eq_None_iff info_keys)
  moreover have "mset (srt xs) = mset xs" for xs using assms(2) by (simp add: is_perm_def)
  ultimately show ?thesis unfolding r
    using mset_concat_filter[OF ord(2), of "\<lambda>p. IsProgram (get p)" "\<lambda>p. GetProgramName (get p)" cs] ord(1)
      mset_filter_split[of "\<lambda>p. IsProgram (get p)" "\<lambda>p. GetProgramName (get p) \<in> involved g" cs] by simp
qed

lemma SortProgram_spec:
  assumes "is_range \<rho>" and "sorts_by (priority_of \<circ> get) srt"
    and "initDepends os get cs = Ret g" and "acyclic (depends g)"
  shows "\<exists>front rear. SortProgram os get \<rho> srt cs = Ret (front @ rear) \<and>
    mset (front @ rear) = mset (filter (\<lambda>p. IsProgram (get p)) cs) \<and>
    sorted (map (priority_of \<circ> get) rear) \<and>
    (\<forall>p\<in>set rear. GetProgramName (get p) \<notin> involved g) \<and>
    (\<forall>i<length (front @ rear). \<forall>q\<in>set cs. IsProgram (get q) \<and>
       GetProgramName (get q) \<in> set (deps g (GetProgramName (get ((front @ rear) ! i)))) \<longrightarrow>
       q \<in> set (take i (front @ rear)))"
proof -
  obtain ord where ord: "sortDepends \<rho> g = Ret ord" "set ord = involved g" "distinct ord" "after_deps g ord"
    using sortDepends_returns[OF assms(1,4)] by blast
  define nm where "nm = (\<lambda>p. GetProgramName (get p))"
  define F where "F = (\<lambda>n. filter (\<lambda>p. IsProgram (get p) \<and> nm p = n) cs)"
  define W where "W = initProgramWithoutDepends get g cs"
  have W: "W = filter (\<lambda>p. IsProgram (get p) \<and> nm p \<notin> involved g) cs"
    by (simp add: W_def initProgramWithoutDepends_def nm_def Let_def map_of_eq_None_iff info_keys)
  have srt: "mset (srt W) = mset W" "sorted (map (priority_of \<circ> get) (srt W))"
    using assms(2) by (auto simp: sorts_by_def)
  let ?r = "concat (map F ord) @ srt W"
  have rear_out: "\<forall>p\<in>set (srt W). nm p \<notin> involved g"
    using W mset_eq_setD[OF srt(1)] by auto
  have "mset ?r = mset (filter (\<lambda>p. IsProgram (get p)) cs)"
    using mset_concat_filter[OF ord(3), of "\<lambda>p. IsProgram (get p)" nm cs] srt(1) ord(2) W
      mset_filter_split[of "\<lambda>p. IsProgram (get p)" "\<lambda>p. nm p \<in> involved g" cs] by (simp add: F_def)
  moreover have "q \<in> set (take i ?r)"
    if "i < length ?r" "q \<in> set cs" "IsProgram (get q)" "nm q \<in> set (deps g (nm (?r ! i)))" for i q
  proof (cases "i < length (concat (map F ord))")
    case True
    then show ?thesis
      using sort_blocks_order[OF ord(4) True, of nm q "srt W"] that by (auto simp: F_def nth_append)
  next
    case False
    then have "nm (?r ! i) \<notin> involved g" using that(1) rear_out by (auto simp: nth_append)
    with not_involved_deps that(4) show ?thesis by fastforce
  qed
  moreover have "SortProgram os get \<rho> srt cs = Ret ?r"
    using assms(3) ord(1) by (simp add: SortProgram_def F_def nm_def W_def)
  ultimately show ?thesis using srt(2) rear_out
    by (intro exI[of _ "concat (map F ord)"] exI[of _ "srt W"]) (simp add: nm_def)
qed

text \<open>
  With an acyclic relation \<open>SortProgram\<close> returns every program exactly once; no program
  comes before a configured program it depends on; and the programs outside the relation
  form the tail, in order of priority.
\<close>

theorem SortProgram_order:
  assumes "is_range \<rho>" and "sorts_by (priority_of \<circ> get) srt"
    and "initDepends os get cs = Ret g" and "acyclic (depends g)"
  shows "\<exists>front rear. SortProgram os get \<rho> srt cs = Ret (front @ rear) \<and>
    mset (front @ rear) = mset (filter (\<lambda>p. IsProgram (get p)) cs) \<and>
    sorted (map (priority_of \<circ> get) rear) \<and>
    (\<forall>p\<in>set rear. GetProgramName (get p) \<notin> involved g) \<and>
    (\<forall>i<length (front @ rear). \<forall>q\<in>set cs. IsProgram (get q) \<and>
       GetProgramName (get q) \<in> set (deps g (GetProgramName (get ((front @ rear) ! i)))) \<longrightarrow>
       q \<in> set (take i (front @ rear)))"
  using assms by (rule SortProgram_spec)

definition demo_prog :: "string \<Rightarrow> (string \<times> string) list \<Rightarrow> ConfigEntry" where
  "demo_prog n kvs = \<lparr>ConfigDir = ''.'', ce_Group = n, ce_Name = ''program:'' @ n, keyValues = kvs\<rparr>"

theorem SortProgram_order_witness:
  "\<exists>front rear. SortProgram demo_os id (\<lambda>k xs. xs) (sort_key (priority_of \<circ> id))
     [demo_prog ''a'' [(''depends_on'', ''b'')], demo_prog ''b'' []] = Ret (front @ rear) \<and>
   mset (front @ rear) = {#demo_prog ''a'' [(''depends_on'', ''b'')], demo_prog ''b'' []#}"
proof -
  let ?cs = "[demo_prog ''a'' [(''depends_on'', ''b'')], demo_prog ''b'' []]"
  have g: "initDepends demo_os id ?cs = Ret [(''a'', [''b''])]" by code_simp
  have "acyclic (depends [(''a'', [''b''])])"
    by (rule acyclic_ranked[of _ "\<lambda>p. if p = ''a'' then 1 else 0"]) (auto simp: depends_def deps_def split: if_splits)
  moreover have "sorts_by (priority_of \<circ> id) (sort_key (priority_of \<circ> id))"
    by (simp add: sorts_by_def)
  moreover have "filter (\<lambda>p. IsProgram (id p)) ?cs = ?cs" by code_simp
  ultimately show ?thesis
    using SortProgram_order[OF is_range_id, of id "sort_key (priority_of \<circ> id)" demo_os ?cs, OF _ g]
    by (metis (no_types, lifting) mset.simps)
qed

end
