(* ===== verification/ConfigStore.thy ===== *)
theory ConfigStore
  imports ProcGroup ProcSort
begin

text \<open>
  \<open>Config\<close> of \<open>subprocess/config/config.go\<close>: the table of entries, its loading from the sections
  of the ini text, and the queries of the supervisor. Entries are shared by pointer with the
  processes (a reload updates the entry a process holds), so they live in a heap: an entry's
  address is its index in \<open>cf_heap\<close>, which only grows. The package \<open>go-ini\<close> is not part of
  the repository: its sections are a type \<open>'sec\<close> read through the record \<open>ini_api\<close>. A query
  that sorts takes a \<open>sorter\<close>, the order of its map ranges and its \<open>sort.Sort\<close>. The lemmas
  show that loading keeps the table well formed (one entry per key, no sharing between keys,
  the name of an entry determined by its key) and that removal deletes just the program named.
\<close>

record 'sec ini_api =
  ini_sections :: "string \<Rightarrow> 'sec list"
  sec_name :: "'sec \<Rightarrow> string"
  sec_keys :: "'sec \<Rightarrow> (string \<times> string) list"
  sec_GetInt :: "'sec \<Rightarrow> string \<Rightarrow> int option"
  sec_GetValue :: "'sec \<Rightarrow> string \<Rightarrow> string option"
  sec_GetValueWithDefault :: "'sec \<Rightarrow> string \<Rightarrow> string \<Rightarrow> string"
  sec_Add :: "'sec \<Rightarrow> string \<Rightarrow> string \<Rightarrow> 'sec"

record sorter =
  so_passes :: passes
  so_sort :: "nat list \<Rightarrow> nat list"

record Config =
  configstr :: string
  cf_heap :: "ConfigEntry list"
  cf_entries :: "(string, nat) gomap"
  ProgramGroup :: ProcessGroup

definition NewConfig :: "string \<Rightarrow> Config" where
  "NewConfig s = \<lparr>configstr = s, cf_heap = [], cf_entries = [], ProgramGroup = NewProcessGroup\<rparr>"

definition cf_at :: "Config \<Rightarrow> nat \<Rightarrow> ConfigEntry" where
  "cf_at c a = cf_heap c ! a"

definition cf_modify :: "Config \<Rightarrow> nat \<Rightarrow> (ConfigEntry \<Rightarrow> ConfigEntry) \<Rightarrow> Config" where
  "cf_modify c a f = c\<lparr>cf_heap := (cf_heap c)[a := f (cf_heap c ! a)]\<rparr>"

section \<open>Loading\<close>

definition createEntry :: "Config \<Rightarrow> string \<Rightarrow> string \<Rightarrow> nat \<times> Config" where
  "createEntry c name configDir =
     (case map_of (cf_entries c) name of
        Some a \<Rightarrow> (a, c)
      | None \<Rightarrow> (length (cf_heap c),
          c\<lparr>cf_heap := cf_heap c @ [NewConfigEntry configDir],
            cf_entries := AList.update name (length (cf_heap c)) (cf_entries c)\<rparr>))"

definition GetConfigFileDir :: string where
  "GetConfigFileDir = ''.''"

definition ce_parse :: "'sec ini_api \<Rightarrow> 'sec \<Rightarrow> ConfigEntry \<Rightarrow> ConfigEntry" where
  "ce_parse api sct e = e\<lparr>ce_Name := sec_name api sct,
     keyValues := foldl (\<lambda>m (k, v). AList.update k v m) (keyValues e) (sec_keys api sct)\<rparr>"

definition parseGroup1 :: "'sec ini_api \<Rightarrow> Config \<Rightarrow> 'sec \<Rightarrow> Config" where
  "parseGroup1 api c sct =
     (if has_prefix (sec_name api sct) ''group:'' then
        (let (a, c1) = createEntry c (sec_name api sct) GetConfigFileDir;
             c2 = cf_modify c1 a (ce_parse api sct);
             groupName = GetGroupName (cf_at c2 a);
             programs = ce_GetPrograms (cf_at c2 a)
         in c2\<lparr>ProgramGroup := foldl (\<lambda>pg program. pg_Add pg groupName program) (ProgramGroup c2) programs\<rparr>)
      else c)"

definition parseGroup :: "'sec ini_api \<Rightarrow> Config \<Rightarrow> 'sec list \<Rightarrow> Config" where
  "parseGroup api c sections = foldl (parseGroup1 api) c sections"

definition isProgramOrEventListener :: "'sec ini_api \<Rightarrow> 'sec \<Rightarrow> bool \<times> string" where
  "isProgramOrEventListener api sct =
     (let is_program = has_prefix (sec_name api sct) ''program:'';
          is_event_listener = has_prefix (sec_name api sct) ''eventlistener:'';
          pfx = (if is_program then ''program:'' else if is_event_listener then ''eventlistener:'' else [])
      in (is_program \<or> is_event_listener, pfx))"

type_synonym 'sec prog_state = "'sec \<times> Config \<times> string list"

text \<open>The end of the loop body, once both templates have been evaluated.\<close>

definition storeProc :: "'sec ini_api \<Rightarrow> string \<Rightarrow> string \<Rightarrow> string \<Rightarrow> 'sec prog_state \<Rightarrow> int \<Rightarrow> 'sec prog_state" where
  "storeProc api pfx programName procName st i =
     (let (sct, c, loaded) = st;
          sct1 = sec_Add api sct ''process_name'' procName;
          sct2 = sec_Add api sct1 ''numprocs_start'' (Itoa (i - 1));
          sct3 = sec_Add api sct2 ''process_num'' (Itoa i);
          (a, c1) = createEntry c procName GetConfigFileDir;
          c2 = cf_modify c1 a (ce_parse api sct3);
          c3 = cf_modify c2 a (\<lambda>e. e\<lparr>ce_Name := pfx @ procName\<rparr>);
          (grp, pg) = GetGroup (ProgramGroup c3) programName programName;
          c4 = (cf_modify c3 a (setGroup grp))\<lparr>ProgramGroup := pg\<rparr>
      in (sct3, c4, loaded @ [procName]))"

text \<open>The body of \<open>for i := 1; i <= numProcs; i++\<close>; \<open>continue\<close> leaves the rest of it out.\<close>

definition parseProc :: "os_env \<Rightarrow> 'sec ini_api \<Rightarrow> string \<Rightarrow> string \<Rightarrow> string \<Rightarrow> 'sec prog_state \<Rightarrow> int \<Rightarrow> 'sec prog_state go" where
  "parseProc os api pfx programName originalProcName st i =
     (let (sct, c, loaded) = st;
          (grp, pg) = GetGroup (ProgramGroup c) programName programName;
          c1 = c\<lparr>ProgramGroup := pg\<rparr>
      in bindg (NewStringExpression os [''program_name'', programName, ''process_num'', Itoa i,
                  ''group_name'', grp, ''here'', GetConfigFileDir]) (\<lambda>envs.
         bindg (Eval (fmt_other os) envs (sec_GetValueWithDefault api sct ''command'' [])) (\<lambda>rc.
           case rc of
             Inl err \<Rightarrow> Ret (sct, c1, loaded)
           | Inr cmd \<Rightarrow>
               (let sct1 = sec_Add api sct ''command'' cmd
                in bindg (Eval (fmt_other os) envs originalProcName) (\<lambda>rp.
                     case rp of
                       Inl err \<Rightarrow> Ret (sct1, c1, loaded)
                     | Inr procName \<Rightarrow> Ret (storeProc api pfx programName procName (sct1, c1, loaded) i))))))"

definition parseProgram1 :: "os_env \<Rightarrow> 'sec ini_api \<Rightarrow> Config \<times> string list \<Rightarrow> 'sec \<Rightarrow> (Config \<times> string list) go" where
  "parseProgram1 os api cl sct =
     (let (program_or_event_listener, pfx) = isProgramOrEventListener api sct
      in if program_or_event_listener then
           (let numProcs = (case sec_GetInt api sct ''numprocs'' of Some n \<Rightarrow> n | None \<Rightarrow> 1);
                programName = drop (length pfx) (sec_name api sct);
                originalProcName = (case sec_GetValue api sct ''process_name'' of
                   Some procName \<Rightarrow> procName | None \<Rightarrow> programName)
            in bindg (foldg (parseProc os api pfx programName originalProcName) (sct, fst cl, snd cl) [1..numProcs])
                 (\<lambda>(sct', c', loaded'). Ret (c', loaded')))
         else Ret cl)"

definition parseProgram :: "os_env \<Rightarrow> 'sec ini_api \<Rightarrow> Config \<Rightarrow> 'sec list \<Rightarrow> (Config \<times> string list) go" where
  "parseProgram os api c sections = foldg (parseProgram1 os api) (c, []) sections"

definition parseOther1 :: "'sec ini_api \<Rightarrow> Config \<Rightarrow> 'sec \<Rightarrow> Config" where
  "parseOther1 api c sct =
     (if \<not> has_prefix (sec_name api sct) ''group:'' \<and> \<not> has_prefix (sec_name api sct) ''program:'' \<and>
         \<not> has_prefix (sec_name api sct) ''eventlistener:'' then
        (let (a, c1) = createEntry c (sec_name api sct) GetConfigFileDir;
             c2 = c1\<lparr>cf_entries := AList.update (sec_name api sct) a (cf_entries c1)\<rparr>
         in cf_modify c2 a (ce_parse api sct))
      else c)"

definition cf_parse :: "os_env \<Rightarrow> 'sec ini_api \<Rightarrow> Config \<Rightarrow> 'sec list \<Rightarrow> (Config \<times> string list) go" where
  "cf_parse os api c sections =
     bindg (parseProgram os api (parseGroup api c sections) sections) (\<lambda>(c1, loaded_programs).
       Ret (foldl (parseOther1 api) c1 sections, loaded_programs))"

definition Load :: "os_env \<Rightarrow> 'sec ini_api \<Rightarrow> Config \<Rightarrow> (Config \<times> string list) go" where
  "Load os api c = cf_parse os api (c\<lparr>ProgramGroup := NewProcessGroup\<rparr>) (ini_sections api (configstr c))"

section \<open>Queries\<close>

definition GetEntries :: "Config \<Rightarrow> (ConfigEntry \<Rightarrow> bool) \<Rightarrow> nat list" where
  "GetEntries c filterFunc = filter (\<lambda>a. filterFunc (cf_at c a)) (map snd (cf_entries c))"

definition GetGroups :: "Config \<Rightarrow> nat list" where
  "GetGroups c = GetEntries c IsGroup"

definition cf_GetPrograms :: "os_env \<Rightarrow> sorter \<Rightarrow> Config \<Rightarrow> nat list go" where
  "cf_GetPrograms os so c = SortProgram os (cf_at c) (so_passes so) (so_sort so) (GetEntries c IsProgram)"

definition GetEventListeners :: "Config \<Rightarrow> nat list" where
  "GetEventListeners c = GetEntries c IsEventListener"

definition GetProgramNames :: "os_env \<Rightarrow> sorter \<Rightarrow> sorter \<Rightarrow> Config \<Rightarrow> string list go" where
  "GetProgramNames os so1 so2 c =
     bindg (cf_GetPrograms os so1 c) (\<lambda>programs.
     bindg (SortProgram os (cf_at c) (so_passes so2) (so_sort so2) programs) (\<lambda>programs.
       Ret (map (\<lambda>a. GetProgramName (cf_at c a)) programs)))"

definition GetProgram :: "Config \<Rightarrow> string \<Rightarrow> nat option" where
  "GetProgram c name = find (\<lambda>a. IsProgram (cf_at c a) \<and> GetProgramName (cf_at c a) = name) (map snd (cf_entries c))"

definition GetUnixHttpServer :: "Config \<Rightarrow> nat option" where
  "GetUnixHttpServer c = map_of (cf_entries c) ''unix_http_server''"

definition GetSupervisord :: "Config \<Rightarrow> nat option" where
  "GetSupervisord c = map_of (cf_entries c) ''supervisord''"

definition GetInetHttpServer :: "Config \<Rightarrow> nat option" where
  "GetInetHttpServer c = map_of (cf_entries c) ''inet_http_server''"

definition GetSupervisorctl :: "Config \<Rightarrow> nat option" where
  "GetSupervisorctl c = map_of (cf_entries c) ''supervisorctl''"

definition RemoveProgram :: "Config \<Rightarrow> string \<Rightarrow> Config" where
  "RemoveProgram c programName =
     c\<lparr>cf_entries := AList.delete programName (cf_entries c),
       ProgramGroup := pg_Remove (ProgramGroup c) programName\<rparr>"

definition toRegexp :: "string \<Rightarrow> string" where
  "toRegexp pattern = join_with [CHR 0x5C, CHR ''.'']
     (map (\<lambda>t. concat (map (\<lambda>ch. if ch = CHR ''*'' then ''.*'' else if ch = CHR ''?'' then ''.'' else [ch]) t))
       (split_char (CHR ''.'') pattern))"

section \<open>Well-formed tables\<close>

text \<open>The name an entry may carry under a key.\<close>

definition named_by :: "string \<Rightarrow> string \<Rightarrow> bool" where
  "named_by k n \<longleftrightarrow> n = ''program:'' @ k \<or> n = ''eventlistener:'' @ k \<or>
     (n = k \<and> \<not> has_prefix k ''program:'' \<and> \<not> has_prefix k ''eventlistener:'')"

definition cf_wf :: "Config \<Rightarrow> bool" where
  "cf_wf c \<longleftrightarrow> distinct (map fst (cf_entries c)) \<and> distinct (map snd (cf_entries c)) \<and>
     (\<forall>(k, a)\<in>set (cf_entries c). a < length (cf_heap c) \<and> named_by k (ce_Name (cf_heap c ! a))) \<and>
     pg_wf (ProgramGroup c)"

section \<open>Lemmas\<close>

lemma named_by_program: "named_by k n \<Longrightarrow> has_prefix n ''program:'' \<longleftrightarrow> n = ''program:'' @ k"
  by (auto simp: named_by_def has_prefix_def)

lemma named_by_key_inj: "IsProgram e \<Longrightarrow> named_by k (ce_Name e) \<Longrightarrow> GetProgramName e = k"
  using named_by_program[of k "ce_Name e"] by (auto simp: IsProgram_def GetProgramName_def)

lemma cf_modify_simps [simp]:
  "cf_entries (cf_modify c a f) = cf_entries c"
  "ProgramGroup (cf_modify c a f) = ProgramGroup c"
  "configstr (cf_modify c a f) = configstr c"
  "length (cf_heap (cf_modify c a f)) = length (cf_heap c)"
  by (simp_all add: cf_modify_def)

lemma cf_modify_twice: "a < length (cf_heap c) \<Longrightarrow> cf_modify (cf_modify c a f) a g = cf_modify c a (\<lambda>e. g (f e))"
  by (simp add: cf_modify_def)

lemma cf_at_modify: "a < length (cf_heap c) \<Longrightarrow> cf_at (cf_modify c a f) b = (if a = b then f (cf_at c a) else cf_at c b)"
  by (auto simp: cf_modify_def cf_at_def nth_list_update)

text \<open>What all steps of loading keep: the keys present before keep their entry's address.\<close>

definition cf_extends :: "Config \<Rightarrow> Config \<Rightarrow> bool" where
  "cf_extends c c' \<longleftrightarrow> map_of (cf_entries c) \<subseteq>\<^sub>m map_of (cf_entries c') \<and> length (cf_heap c) \<le> length (cf_heap c')"

lemma cf_extends_refl [simp]: "cf_extends c c"
  by (simp add: cf_extends_def)

lemma cf_extends_trans [trans]: "cf_extends c c' \<Longrightarrow> cf_extends c' c'' \<Longrightarrow> cf_extends c c''"
  by (auto simp: cf_extends_def intro: map_le_trans)

lemma cf_extends_key: "cf_extends c c' \<Longrightarrow> map_of (cf_entries c) k = Some a \<Longrightarrow> map_of (cf_entries c') k = Some a"
  by (auto simp: cf_extends_def map_le_def dom_def)

lemma createEntry_group [simp]: "ProgramGroup (snd (createEntry c k d)) = ProgramGroup c"
  by (auto simp: createEntry_def split: option.split)

text \<open>Creating (or finding) the entry of a key and giving it a name that fits the key.\<close>

lemma put_entry:
  assumes wf: "cf_wf c" and cr: "createEntry c k d = (a, c1)" and nm: "\<And>e. named_by k (ce_Name (f e))"
  shows "cf_wf (cf_modify c1 a f) \<and> cf_extends c (cf_modify c1 a f) \<and>
    map_of (cf_entries (cf_modify c1 a f)) k = Some a \<and> a < length (cf_heap c1) \<and> ProgramGroup c1 = ProgramGroup c"
proof (cases "map_of (cf_entries c) k")
  case None
  have k: "k \<notin> fst ` set (cf_entries c)" using None by (simp add: map_of_eq_None_iff)
  have eq: "a = length (cf_heap c)" "cf_heap c1 = cf_heap c @ [NewConfigEntry d]"
    "cf_entries c1 = cf_entries c @ [(k, a)]" "ProgramGroup c1 = ProgramGroup c"
    using cr None k by (auto simp: createEntry_def update_fresh)
  have old: "\<forall>(k', a')\<in>set (cf_entries c). a' < length (cf_heap c) \<and> named_by k' (ce_Name (cf_heap c ! a'))"
    using wf by (simp add: cf_wf_def)
  have "cf_wf (cf_modify c1 a f)"
    using wf k nm old by (fastforce simp: cf_wf_def cf_modify_def eq nth_append)
  moreover have "cf_extends c (cf_modify c1 a f)"
    using None by (auto simp: cf_extends_def map_le_def eq map_add_def split: option.split)
  ultimately show ?thesis using None eq by (simp add: map_add_def)
next
  case (Some b)
  then have eq: "a = b" "c1 = c" using cr by (auto simp: createEntry_def)
  have mem: "(k, a) \<in> set (cf_entries c)" using Some eq by (simp add: map_of_SomeD)
  have "a < length (cf_heap c)" using wf mem by (auto simp: cf_wf_def)
  moreover have "k' = k" if "(k', a) \<in> set (cf_entries c)" for k'
    using wf distinct_snd_unique[OF _ that mem] by (simp add: cf_wf_def)
  ultimately have "cf_wf (cf_modify c a f)"
    using wf nm by (auto simp: cf_wf_def cf_modify_def nth_list_update)
  then show ?thesis
    using Some eq \<open>a < length (cf_heap c)\<close> by (simp add: cf_extends_def)
qed

lemma named_by_plain:
  "\<not> has_prefix n ''program:'' \<Longrightarrow> \<not> has_prefix n ''eventlistener:'' \<Longrightarrow> named_by n (ce_Name (ce_parse api sct e)) \<longleftrightarrow> sec_name api sct = n \<or>
     sec_name api sct = ''program:'' @ n \<or> sec_name api sct = ''eventlistener:'' @ n"
  by (auto simp: named_by_def ce_parse_def)

lemma pg_wf_foldl_Add: "pg_wf pg \<Longrightarrow> pg_wf (foldl (\<lambda>pg p. pg_Add pg g p) pg ps)"
  by (induction ps arbitrary: pg) auto

lemma cf_wf_group_only: "cf_wf c \<Longrightarrow> pg_wf pg \<Longrightarrow> cf_wf (c\<lparr>ProgramGroup := pg\<rparr>)"
  by (simp add: cf_wf_def)

lemma cf_extends_group_only [simp]: "cf_extends c (c'\<lparr>ProgramGroup := pg\<rparr>) = cf_extends c c'"
  "cf_extends (c\<lparr>ProgramGroup := pg\<rparr>) c' = cf_extends c c'"
  by (simp_all add: cf_extends_def)

lemma parseGroup1_wf: "cf_wf c \<Longrightarrow> cf_wf (parseGroup1 api c sct) \<and> cf_extends c (parseGroup1 api c sct)"
proof (cases "has_prefix (sec_name api sct) ''group:''")
  case True
  assume wf: "cf_wf c"
  obtain a c1 where cr: "createEntry c (sec_name api sct) GetConfigFileDir = (a, c1)" by fastforce
  have "\<not> has_prefix (sec_name api sct) ''program:''" "\<not> has_prefix (sec_name api sct) ''eventlistener:''"
    using True by (auto simp: has_prefix_iff)
  then have "named_by (sec_name api sct) (ce_Name (ce_parse api sct e))" for e
    by (simp add: named_by_plain)
  from put_entry[where f = "ce_parse api sct", OF wf cr this] True cr show ?thesis
    by (auto simp: parseGroup1_def Let_def cf_wf_def intro!: pg_wf_foldl_Add)
qed (simp add: parseGroup1_def)

lemma parseOther1_wf: "cf_wf c \<Longrightarrow> cf_wf (parseOther1 api c sct) \<and> cf_extends c (parseOther1 api c sct)"
proof (cases "has_prefix (sec_name api sct) ''group:'' \<or> has_prefix (sec_name api sct) ''program:'' \<or>
    has_prefix (sec_name api sct) ''eventlistener:''")
  case False
  assume wf: "cf_wf c"
  obtain a c1 where cr: "createEntry c (sec_name api sct) GetConfigFileDir = (a, c1)" by fastforce
  have "named_by (sec_name api sct) (ce_Name (ce_parse api sct e))" for e
    using False by (simp add: named_by_plain)
  note p = put_entry[where f = "ce_parse api sct", OF wf cr this]
  have "AList.update (sec_name api sct) a (cf_entries c1) = cf_entries c1"
    using p by (simp add: update_same)
  with p False cr show ?thesis by (simp add: parseOther1_def)
qed (auto simp: parseOther1_def)

lemma foldl_wf:
  assumes "\<And>c x. cf_wf c \<Longrightarrow> cf_wf (f c x) \<and> cf_extends c (f c x)" and "cf_wf c"
  shows "cf_wf (foldl f c xs) \<and> cf_extends c (foldl f c xs)"
  using assms(2)
proof (induction xs arbitrary: c)
  case (Cons x xs)
  with assms(1)[OF Cons.prems, of x] show ?case by (auto intro: cf_extends_trans)
qed simp

lemma named_by_prefixed: "pfx = ''program:'' \<or> pfx = ''eventlistener:'' \<Longrightarrow> named_by k (pfx @ k)"
  by (auto simp: named_by_def)

lemma GetGroup_wf: "pg_wf pg \<Longrightarrow> GetGroup pg p d = (g, pg') \<Longrightarrow> pg_wf pg'"
  using pg_wf_ops(4)[of pg p d] by simp

lemma storeProc_wf:
  assumes wf: "cf_wf c" and pfx: "pfx = ''program:'' \<or> pfx = ''eventlistener:''"
    and run: "storeProc api pfx pn n (sct, c, loaded) i = (sct', c', loaded')"
  shows "cf_wf c' \<and> cf_extends c c' \<and> loaded' = loaded @ [n] \<and> (\<exists>a. map_of (cf_entries c') n = Some a)"
proof -
  obtain a c1 where cr: "createEntry c n GetConfigFileDir = (a, c1)" by fastforce
  obtain g pg where gg: "GetGroup (ProgramGroup c1) pn pn = (g, pg)" by fastforce
  let ?f = "\<lambda>e. setGroup g (ce_parse api (sec_Add api (sec_Add api (sec_Add api sct ''process_name'' n)
    ''numprocs_start'' (Itoa (i - 1))) ''process_num'' (Itoa i)) e\<lparr>ce_Name := pfx @ n\<rparr>)"
  have "named_by n (ce_Name (?f e))" for e
    using named_by_prefixed[OF pfx] by (simp add: setGroup_def)
  note p = put_entry[where f = ?f, OF wf cr this]
  have eq: "c' = (cf_modify c1 a ?f)\<lparr>ProgramGroup := pg\<rparr>" and l: "loaded' = loaded @ [n]"
    using run cr gg p by (auto simp: storeProc_def Let_def cf_modify_twice)
  have "pg_wf pg" using gg p wf GetGroup_wf by (auto simp: cf_wf_def)
  then show ?thesis using p eq l by (simp add: cf_wf_group_only)
qed

lemma parseProc_cases:
  assumes "parseProc os api pfx pn opn (sct, c, loaded) i = Ret st"
  obtains (bad_command) envs err where
      "Eval (fmt_other os) envs (sec_GetValueWithDefault api sct ''command'' []) = Ret (Inl err)"
      "st = (sct, c\<lparr>ProgramGroup := snd (GetGroup (ProgramGroup c) pn pn)\<rparr>, loaded)"
  | (bad_name) envs cmd where
      "Eval (fmt_other os) envs (sec_GetValueWithDefault api sct ''command'' []) = Ret (Inr cmd)"
      "st = (sec_Add api sct ''command'' cmd, c\<lparr>ProgramGroup := snd (GetGroup (ProgramGroup c) pn pn)\<rparr>, loaded)"
  | (store) envs cmd n where
      "Eval (fmt_other os) envs (sec_GetValueWithDefault api sct ''command'' []) = Ret (Inr cmd)"
      "st = storeProc api pfx pn n
        (sec_Add api sct ''command'' cmd, c\<lparr>ProgramGroup := snd (GetGroup (ProgramGroup c) pn pn)\<rparr>, loaded) i"
proof -
  note unf = assms[unfolded parseProc_def Let_def split_beta prod.sel]
  obtain envs where e: "NewStringExpression os [''program_name'', pn, ''process_num'', Itoa i,
      ''group_name'', fst (GetGroup (ProgramGroup c) pn pn), ''here'', GetConfigFileDir] = Ret envs"
    using unf by (auto simp: bindg_eq_Ret)
  then obtain rc where rc: "Eval (fmt_other os) envs (sec_GetValueWithDefault api sct ''command'' []) = Ret rc"
    using unf by (auto simp: bindg_eq_Ret)
  show thesis
  proof (cases rc)
    case (Inl err)
    with unf e rc bad_command show thesis by auto
  next
    case (Inr cmd)
    with unf e rc obtain rp where "Eval (fmt_other os) envs opn = Ret rp"
      by (auto simp: bindg_eq_Ret)
    with unf e rc Inr bad_name store show thesis by (cases rp) auto
  qed
qed

text \<open>One process of a program section: the table stays well formed, and a name reported as
  loaded has an entry.\<close>

lemma parseProc_wf:
  assumes wf: "cf_wf c" and pfx: "pfx = ''program:'' \<or> pfx = ''eventlistener:''"
    and run: "parseProc os api pfx pn opn (sct, c, loaded) i = Ret (sct', c', loaded')"
  shows "cf_wf c' \<and> cf_extends c c' \<and> (loaded' = loaded \<or>
    (\<exists>n a. loaded' = loaded @ [n] \<and> map_of (cf_entries c') n = Some a))"
proof -
  let ?c1 = "c\<lparr>ProgramGroup := snd (GetGroup (ProgramGroup c) pn pn)\<rparr>"
  have wf1: "cf_wf ?c1" using wf by (simp add: cf_wf_def)
  from run show ?thesis
  proof (cases rule: parseProc_cases)
    case bad_command
    with wf1 show ?thesis by simp
  next
    case bad_name
    with wf1 show ?thesis by simp
  next
    case (store envs cmd n)
    from storeProc_wf[OF wf1 pfx store(2)[symmetric]] show ?thesis by auto
  qed
qed

definition load_inv :: "Config \<Rightarrow> Config \<times> string list \<Rightarrow> bool" where
  "load_inv c0 cl \<longleftrightarrow> cf_wf (fst cl) \<and> cf_extends c0 (fst cl) \<and> set (snd cl) \<subseteq> dom (map_of (cf_entries (fst cl)))"

lemma load_inv_step:
  assumes "load_inv c0 (c, l)" and "cf_wf c'" and "cf_extends c c'"
    and "l' = l \<or> (\<exists>n a. l' = l @ [n] \<and> map_of (cf_entries c') n = Some a)"
  shows "load_inv c0 (c', l')"
proof -
  have "dom (map_of (cf_entries c)) \<subseteq> dom (map_of (cf_entries c'))"
    using assms(3) by (auto simp: dom_def dest: cf_extends_key)
  moreover have "set l' \<subseteq> set l \<union> dom (map_of (cf_entries c'))" using assms(4) by auto
  ultimately have "set l' \<subseteq> dom (map_of (cf_entries c'))"
    using assms(1) by (auto simp: load_inv_def dest!: subsetD)
  with assms(1-3) show ?thesis
    by (auto simp: load_inv_def intro: cf_extends_trans)
qed

lemma parseProgram1_inv:
  assumes "load_inv c0 cl" and "parseProgram1 os api cl sct = Ret cl'"
  shows "load_inv c0 cl'"
proof -
  obtain b pfx where bp: "isProgramOrEventListener api sct = (b, pfx)" by fastforce
  show ?thesis
  proof (cases b)
    case True
    with bp have pfx: "pfx = ''program:'' \<or> pfx = ''eventlistener:''"
      by (auto simp: isProgramOrEventListener_def Let_def split: if_splits)
    obtain pn opn n st where run: "foldg (parseProc os api pfx pn opn) (sct, fst cl, snd cl) [1..n] = Ret st"
      and cl': "cl' = snd st"
      using assms(2) True bp by (auto simp: parseProgram1_def Let_def bindg_eq_Ret)
    have "load_inv c0 (snd st)"
    proof (rule foldg_inv[OF run])
      show "load_inv c0 (snd (sct, fst cl, snd cl))" using assms(1) by simp
    next
      fix s x s' assume a: "load_inv c0 (snd s)" "parseProc os api pfx pn opn s x = Ret s'"
      obtain sc c l sc' c' l' where "s = (sc, c, l)" "s' = (sc', c', l')" by (cases s; cases s') auto
      with a parseProc_wf[OF _ pfx, of c os api pn opn sc l x sc' c' l'] load_inv_step[of c0 c l c' l']
      show "load_inv c0 (snd s')" by (auto simp: load_inv_def)
    qed
    with cl' show ?thesis by simp
  next
    case False
    with assms bp show ?thesis by (simp add: parseProgram1_def)
  qed
qed

lemma Load_inv:
  assumes "cf_wf c" and "Load os api c = Ret (c', loaded)"
  shows "load_inv c (c', loaded)"
proof -
  let ?secs = "ini_sections api (configstr c)"
  let ?c0 = "c\<lparr>ProgramGroup := NewProcessGroup\<rparr>"
  have "cf_wf ?c0" using assms(1) by (simp add: cf_wf_group_only)
  then have g: "cf_wf (parseGroup api ?c0 ?secs) \<and> cf_extends ?c0 (parseGroup api ?c0 ?secs)"
    unfolding parseGroup_def by (intro foldl_wf parseGroup1_wf)
  obtain c1 where p: "parseProgram os api (parseGroup api ?c0 ?secs) ?secs = Ret (c1, loaded)"
    and c': "c' = foldl (parseOther1 api) c1 ?secs"
    using assms(2) by (auto simp: Load_def cf_parse_def bindg_eq_Ret)
  have "load_inv c (parseGroup api ?c0 ?secs, [])" using g by (simp add: load_inv_def)
  with p[unfolded parseProgram_def] have "load_inv c (c1, loaded)"
    by (rule foldg_inv) (rule parseProgram1_inv)
  moreover from this have "cf_wf c' \<and> cf_extends c1 c'"
    unfolding c' by (intro foldl_wf parseOther1_wf) (simp_all add: load_inv_def)
  ultimately show ?thesis by (auto intro: load_inv_step)
qed

lemma cf_wf_entry:
  assumes "cf_wf c" and "(k, a) \<in> set (cf_entries c)" and "IsProgram (cf_at c a)"
  shows "GetProgramName (cf_at c a) = k"
  using assms named_by_key_inj[of "cf_at c a" k] by (auto simp: cf_wf_def cf_at_def)

text \<open>In a well-formed table the scan of \<open>GetProgram\<close> finds what a lookup of the name finds.\<close>

lemma GetProgram_lookup:
  assumes "cf_wf c"
  shows "GetProgram c n = (case map_of (cf_entries c) n of
     None \<Rightarrow> None | Some a \<Rightarrow> if IsProgram (cf_at c a) then Some a else None)"
proof -
  have "find (\<lambda>a. IsProgram (cf_at c a) \<and> GetProgramName (cf_at c a) = n) (map snd m) =
    (case map_of m n of None \<Rightarrow> None | Some a \<Rightarrow> if IsProgram (cf_at c a) then Some a else None)"
    if "distinct (map fst m)" "set m \<subseteq> set (cf_entries c)" for m
    using that
  proof (induction m)
    case (Cons ka m)
    obtain k a where ka: "ka = (k, a)" by (cases ka)
    with Cons.prems have "IsProgram (cf_at c a) \<Longrightarrow> GetProgramName (cf_at c a) = k"
      using cf_wf_entry[OF assms, of k a] by simp
    moreover have "n = k \<Longrightarrow> map_of m n = None"
      using Cons.prems ka by (auto simp: map_of_eq_None_iff)
    ultimately show ?case using Cons ka by auto
  qed simp
  from this[of "cf_entries c"] assms show ?thesis by (simp add: GetProgram_def cf_wf_def)
qed

lemma RemoveProgram_wf: "cf_wf c \<Longrightarrow> cf_wf (RemoveProgram c n)"
proof -
  assume wf: "cf_wf c"
  have "distinct (map snd (AList.delete n m))" if "distinct (map snd m)" for m :: "(string, nat) gomap"
    using that by (induction m) (auto simp: AList.delete_eq)
  with wf show ?thesis
    by (auto simp: cf_wf_def RemoveProgram_def AList.delete_eq distinct_map_filter)
qed

section \<open>Claims\<close>

text \<open>
  C10. Loading a configuration, from any well-formed table (the initial empty one or the one a
  reload starts from), gives a well-formed table; every name it reports as loaded has an
  entry; and every key that had an entry before keeps the same one, so a process that holds
  a pointer to its entry sees the reloaded settings.
\<close>

theorem Load_well_formed:
  assumes "cf_wf c" and "Load os api c = Ret (c', loaded)"
  shows "cf_wf c' \<and> (\<forall>n\<in>set loaded. \<exists>a. map_of (cf_entries c') n = Some a) \<and>
    (\<forall>k a. map_of (cf_entries c) k = Some a \<longrightarrow> map_of (cf_entries c') k = Some a)"
  using Load_inv[OF assms] by (auto simp: load_inv_def intro: cf_extends_key)

text \<open>A concrete section type for the witnesses: a name and its keys in order.\<close>

definition demo_ini :: "(string \<times> (string \<times> string) list) list \<Rightarrow> (string \<times> (string \<times> string) list) ini_api" where
  "demo_ini secs = \<lparr>ini_sections = (\<lambda>_. secs), sec_name = fst, sec_keys = snd,
     sec_GetInt = (\<lambda>s k. case map_of (snd s) k of None \<Rightarrow> None | Some v \<Rightarrow> Atoi v),
     sec_GetValue = (\<lambda>s k. map_of (snd s) k),
     sec_GetValueWithDefault = (\<lambda>s k d. case map_of (snd s) k of None \<Rightarrow> d | Some v \<Rightarrow> v),
     sec_Add = (\<lambda>s k v. (fst s, AList.update k v (snd s)))\<rparr>"

definition demo_secs :: "(string \<times> (string \<times> string) list) list" where
  "demo_secs = [(''group:g'', [(''programs'', ''web'')]),
     (''program:web'', [(''command'', ''run %(process_num)d''), (''numprocs'', ''2''), (''process_name'', ''w%(process_num)d'')])]"

lemma NewConfig_wf [simp]: "cf_wf (NewConfig s)"
  by (simp add: cf_wf_def NewConfig_def)

theorem Load_well_formed_witness:
  "\<exists>c' loaded. Load demo_os (demo_ini demo_secs) (NewConfig []) = Ret (c', loaded) \<and> cf_wf c' \<and>
     loaded = [''w1'', ''w2''] \<and> (\<exists>a. map_of (cf_entries c') ''w2'' = Some a)"
proof -
  have "is_Ret (Load demo_os (demo_ini demo_secs) (NewConfig [])) \<and>
    (case Load demo_os (demo_ini demo_secs) (NewConfig []) of Ret r \<Rightarrow> snd r = [''w1'', ''w2''] | _ \<Rightarrow> False)"
    by code_simp
  then obtain c' where r: "Load demo_os (demo_ini demo_secs) (NewConfig []) = Ret (c', [''w1'', ''w2''])"
    by (cases "Load demo_os (demo_ini demo_secs) (NewConfig [])") auto
  from Load_well_formed[OF NewConfig_wf r] r show ?thesis by auto
qed

text \<open>
  \<open>RemoveProgram\<close> removes the named program and no other: a later \<open>GetProgram\<close> does not
  find it, every other program is found as before, and the table stays well formed.
\<close>

theorem RemoveProgram_exact:
  assumes "cf_wf c"
  shows "cf_wf (RemoveProgram c n) \<and>
    GetProgram (RemoveProgram c n) m = (if m = n then None else GetProgram c m) \<and>
    map_of (ProgramGroup (RemoveProgram c n)) m = (if m = n then None else map_of (ProgramGroup c) m)"
proof -
  have "cf_at (RemoveProgram c n) = cf_at c" by (simp add: RemoveProgram_def cf_at_def fun_eq_iff)
  moreover have "map_of (cf_entries (RemoveProgram c n)) m = (if m = n then None else map_of (cf_entries c) m)"
    by (simp add: RemoveProgram_def)
  ultimately have "GetProgram (RemoveProgram c n) m = (if m = n then None else GetProgram c m)"
    by (simp add: GetProgram_lookup[OF assms] GetProgram_lookup[OF RemoveProgram_wf[OF assms]] split: option.split)
  then show ?thesis
    using RemoveProgram_wf[OF assms] by (simp add: RemoveProgram_def pg.lookup_remove)
qed

theorem RemoveProgram_exact_witness:
  "GetProgram (RemoveProgram ((NewConfig [])\<lparr>cf_heap := [demo_prog ''a'' [], demo_prog ''b'' []],
      cf_entries := [(''a'', 0), (''b'', 1)]\<rparr>) ''a'') ''b'' = Some 1"
proof -
  let ?c = "(NewConfig [])\<lparr>cf_heap := [demo_prog ''a'' [], demo_prog ''b'' []], cf_entries := [(''a'', 0), (''b'', 1)]\<rparr>"
  have "cf_wf ?c" by code_simp
  moreover have "GetProgram ?c ''b'' = Some 1" by code_simp
  ultimately show ?thesis using RemoveProgram_exact[of ?c "''a''" "''b''"] by simp
qed

lemma command_after_store:
  assumes "\<And>s k v k' d. sec_GetValueWithDefault api (sec_Add api s k v) k' d =
      (if k' = k then v else sec_GetValueWithDefault api s k' d)"
  shows "sec_GetValueWithDefault api (fst (storeProc api pfx pn n (sct, c, l) i)) ''command'' d =
    sec_GetValueWithDefault api sct ''command'' d"
  by (simp add: storeProc_def Let_def split_beta assms)

lemma command_kept:
  assumes add: "\<And>s k v k' d. sec_GetValueWithDefault api (sec_Add api s k v) k' d =
      (if k' = k then v else sec_GetValueWithDefault api s k' d)"
    and first: "sec_GetValueWithDefault api sct ''command'' [] = cmd" "index_of cmd ''%('' = None"
    and run: "foldg (parseProc os api pfx pn opn) (sct, c, l) is = Ret st"
  shows "sec_GetValueWithDefault api (fst st) ''command'' [] = cmd"
proof (rule foldg_inv[OF run])
  show "sec_GetValueWithDefault api (fst (sct, c, l)) ''command'' [] = cmd" using first by simp
next
  fix s i s' assume cmd: "sec_GetValueWithDefault api (fst s) ''command'' [] = cmd" and r: "parseProc os api pfx pn opn s i = Ret s'"
  obtain sc c l where s: "s = (sc, c, l)" by (cases s)
  have ev: "Eval (fmt_other os) envs (sec_GetValueWithDefault api sc ''command'' []) = Ret (Inr cmd)" for envs
    using Eval_plain[OF first(2)] cmd s by simp
  from r[unfolded s] show "sec_GetValueWithDefault api (fst s') ''command'' [] = cmd"
  proof (cases rule: parseProc_cases)
    case bad_command
    then show ?thesis by (simp add: ev)
  next
    case bad_name
    then show ?thesis by (simp add: ev add)
  next
    case store
    then show ?thesis by (simp add: ev command_after_store[OF add] add)
  qed
qed

lemma command_stored:
  assumes add: "\<And>s k v k' d. sec_GetValueWithDefault api (sec_Add api s k v) k' d =
      (if k' = k then v else sec_GetValueWithDefault api s k' d)"
    and env: "NewStringExpression os [''program_name'', pn, ''process_num'', Itoa i, ''group_name'',
       fst (GetGroup (ProgramGroup c) pn pn), ''here'', GetConfigFileDir] = Ret envs"
    and cmd: "Eval (fmt_other os) envs (sec_GetValueWithDefault api sct ''command'' []) = Ret (Inr cmd)"
    and run: "parseProc os api pfx pn opn (sct, c, l) i = Ret st"
  shows "sec_GetValueWithDefault api (fst st) ''command'' [] = cmd"
proof -
  note unf = run[unfolded parseProc_def Let_def split_beta prod.sel env bindg.simps cmd sum.case]
  then obtain rp where rp: "Eval (fmt_other os) envs opn = Ret rp" by (auto simp: bindg_eq_Ret)
  show ?thesis using unf[unfolded rp] by (cases rp) (auto simp: command_after_store[OF add] add)
qed

text \<open>
  With \<open>numprocs > 1\<close> the command template is evaluated once only: the iteration for
  process \<open>i\<close> stores the evaluated command back into the section (\<open>section.Add("command", cmd)\<close>),
  so whatever iterations follow, the section's command, from which their entries are filled, is
  still the command evaluated with the \<open>process_num\<close> of process \<open>i\<close>. The hypothesis on \<open>Add\<close> is
  that it sets the key it is given and leaves the others.
\<close>

theorem later_processes_reuse_command:
  assumes add: "\<And>s k v k' d. sec_GetValueWithDefault api (sec_Add api s k v) k' d =
      (if k' = k then v else sec_GetValueWithDefault api s k' d)"
    and env: "NewStringExpression os [''program_name'', pn, ''process_num'', Itoa i, ''group_name'',
       fst (GetGroup (ProgramGroup c) pn pn), ''here'', GetConfigFileDir] = Ret envs"
    and cmd: "Eval (fmt_other os) envs (sec_GetValueWithDefault api sct ''command'' []) = Ret (Inr cmd)"
    and run: "foldg (parseProc os api pfx pn opn) (sct, c, l) (i # is) = Ret st"
  shows "sec_GetValueWithDefault api (fst st) ''command'' [] = cmd"
proof -
  from run obtain s1 where s1: "parseProc os api pfx pn opn (sct, c, l) i = Ret s1"
    "foldg (parseProc os api pfx pn opn) s1 is = Ret st" by (auto simp: bindg_eq_Ret)
  obtain sct1 c1 l1 where e: "s1 = (sct1, c1, l1)" by (cases s1)
  have "sec_GetValueWithDefault api sct1 ''command'' [] = cmd"
    using command_stored[OF add env cmd s1(1)] e by simp
  with command_kept[OF add] Eval_result_plain[OF cmd] s1(2) e show ?thesis by blast
qed

theorem later_processes_reuse_command_witness:
  "\<exists>st. foldg (parseProc demo_os (demo_ini []) ''program:'' ''web'' ''w%(process_num)d'')
     ((''program:web'', [(''command'', ''run %(process_num)d'')]), NewConfig [], []) [1, 2, 3] = Ret st \<and>
   snd (snd st) = [''w1'', ''w2'', ''w3''] \<and>
   sec_GetValueWithDefault (demo_ini []) (fst st) ''command'' [] = ''run 1''"
proof -
  let ?c = "NewConfig []" and ?sct = "(''program:web'', [(''command'', ''run %(process_num)d'')])"
  let ?p = "foldg (parseProc demo_os (demo_ini []) ''program:'' ''web'' ''w%(process_num)d'') (?sct, ?c, []) [1, 2, 3]"
  let ?e = "NewStringExpression demo_os [''program_name'', ''web'', ''process_num'', Itoa 1, ''group_name'',
       fst (GetGroup (ProgramGroup ?c) ''web'' ''web''), ''here'', GetConfigFileDir]"
  have "(case ?p of Ret st \<Rightarrow> snd (snd st) = [''w1'', ''w2'', ''w3''] | _ \<Rightarrow> False)" by code_simp
  then obtain st where st: "?p = Ret st" "snd (snd st) = [''w1'', ''w2'', ''w3'']" by (auto split: go.splits)
  have "(case ?e of Ret envs \<Rightarrow> Eval (fmt_other demo_os) envs
      (sec_GetValueWithDefault (demo_ini []) ?sct ''command'' []) = Ret (Inr ''run 1'') | _ \<Rightarrow> False)" by code_simp
  then obtain envs where e: "?e = Ret envs"
    "Eval (fmt_other demo_os) envs (sec_GetValueWithDefault (demo_ini []) ?sct ''command'' []) = Ret (Inr ''run 1'')"
    by (auto split: go.splits)
  have "sec_GetValueWithDefault (demo_ini []) (fst st) ''command'' [] = ''run 1''"
    by (rule later_processes_reuse_command[OF _ e st(1)]) (simp add: demo_ini_def)
  with st show ?thesis by blast
qed

end
