(* ===== verification/ProcConfig.thy ===== *)
theory ProcConfig
  imports Loggers ConfigStore
begin

text \<open>
  The parts of \<open>subprocess/process/process.go\<close> that read a program's configuration: the process
  record and its accessors, the decision to restart, the exec command with user, environment,
  directory and loggers (\<open>createProgramCommand\<close>), and \<open>subprocess/signals/signal.go\<close>.
  The life cycle of a process is the subject of the theory \<open>ProcessRun\<close>.
\<close>

section \<open>Process states\<close>

datatype ProcessState = STOPPED | STARTING | RUNNING | BACKOFF | STOPPING | EXITED | FATAL | UNKNOWN

fun state_code :: "ProcessState \<Rightarrow> int" where
  "state_code STOPPED = 0"
| "state_code STARTING = 10"
| "state_code RUNNING = 20"
| "state_code BACKOFF = 30"
| "state_code STOPPING = 40"
| "state_code EXITED = 100"
| "state_code FATAL = 200"
| "state_code UNKNOWN = 1000"

fun state_String :: "ProcessState \<Rightarrow> string" where
  "state_String STOPPED = ''STOPPED''"
| "state_String STARTING = ''STARTING''"
| "state_String RUNNING = ''RUNNING''"
| "state_String BACKOFF = ''BACKOFF''"
| "state_String STOPPING = ''STOPPING''"
| "state_String EXITED = ''EXITED''"
| "state_String FATAL = ''FATAL''"
| "state_String UNKNOWN = ''UNKNOWN''"

section \<open>The process record\<close>

text \<open>
  \<open>exec.Cmd\<close>: the arguments, the credentials, environment and directory, the process
  identifier once it is started (\<open>cmd.Process\<close>), the exit status once it was waited for
  (\<open>cmd.ProcessState\<close>).
\<close>

record Cmd =
  c_args :: "string list"
  c_cred :: "(nat \<times> nat) option"
  c_env :: "string list"
  c_dir :: string
  c_pid :: "int option"
  c_exit :: "int option"

text \<open>
  The standard error logger may share the standard output logger: \<open>ErrSame\<close> is the same object,
  \<open>ErrCapture\<close> an event capture on top of the same object.
\<close>

datatype err_log = ErrNone | ErrSame | ErrOwn logger | ErrCapture ProcCommEventCapture

datatype monitor = ProgMonitor string | DirMonitor string string

record Process =
  supervisor_id :: string
  config :: ConfigEntry
  cmd :: "Cmd option"
  startTime :: int
  stopTime :: int
  state :: ProcessState
  inStart :: bool
  stopByUser :: bool
  retryTimes :: int
  stdin :: bool
  StdoutLog :: "logger option"
  StderrLog :: err_log
  monitors :: "monitor list"

definition NewProcess :: "string \<Rightarrow> ConfigEntry \<Rightarrow> Process" where
  "NewProcess sid c =
     \<lparr>supervisor_id = sid, config = c, cmd = None, startTime = 0, stopTime = 0, state = STOPPED, inStart = False,
      stopByUser = False, retryTimes = 0, stdin = False, StdoutLog = None, StderrLog = ErrNone, monitors = []\<rparr>"

section \<open>Accessors\<close>

definition p_GetName :: "Process \<Rightarrow> string" where
  "p_GetName p =
     (if IsProgram (config p) then GetProgramName (config p)
      else if IsEventListener (config p) then GetEventListenerName (config p) else [])"

definition p_GetGroup :: "Process \<Rightarrow> string" where
  "p_GetGroup p = ce_Group (config p)"

text \<open>\<open>p.cmd.Process.Pid\<close> is a nil dereference before the command was started.\<close>

definition cmd_pid :: "Process \<Rightarrow> int go" where
  "cmd_pid p = (case cmd p of None \<Rightarrow> Panic | Some c \<Rightarrow> (case c_pid c of None \<Rightarrow> Panic | Some pid \<Rightarrow> Ret pid))"

definition pad2 :: "int \<Rightarrow> string" where
  "pad2 n = (if n < 10 then ''0'' @ Itoa n else Itoa n)"

text \<open>\<open>time_String\<close> is \<open>time.Time.String\<close>; the clock is in seconds and not before the start time.\<close>

definition GetDescription :: "(int \<Rightarrow> string) \<Rightarrow> int \<Rightarrow> Process \<Rightarrow> string go" where
  "GetDescription time_String now p =
     (if state p = RUNNING then
        (let seconds = now - startTime p;
             minutes = seconds div 60;
             hours = minutes div 60;
             days = hours div 24
         in bindg (cmd_pid p) (\<lambda>pid.
              Ret (''pid '' @ Itoa pid @ '', uptime '' @
                   (if days > 0 then Itoa days @ '' days, '' else []) @
                   Itoa (hours mod 24) @ '':'' @ pad2 (minutes mod 60) @ '':'' @ pad2 (seconds mod 60))))
      else if state p \<noteq> STOPPED then Ret (time_String (stopTime p))
      else Ret [])"

definition GetExitstatus :: "Process \<Rightarrow> int go" where
  "GetExitstatus p =
     (if state p = EXITED \<or> state p = BACKOFF then
        (case cmd p of None \<Rightarrow> Panic | Some c \<Rightarrow> Ret (case c_exit c of None \<Rightarrow> 0 | Some s \<Rightarrow> s))
      else Ret 0)"

definition GetPid :: "Process \<Rightarrow> int go" where
  "GetPid p = (if state p \<in> {STOPPED, FATAL, UNKNOWN, EXITED, BACKOFF} then Ret 0 else cmd_pid p)"

definition GetStopTime :: "Process \<Rightarrow> int" where
  "GetStopTime p = (if state p \<in> {STARTING, RUNNING, STOPPING} then 0 else stopTime p)"

definition expand_logfile :: "os_env \<Rightarrow> user_db \<Rightarrow> Process \<Rightarrow> string \<Rightarrow> string go" where
  "expand_logfile os db p key =
     bindg (GetStringExpression os (config p) key ''/dev/null'') (\<lambda>file_name.
       Ret (case Path_expand db file_name of None \<Rightarrow> file_name | Some expand_file \<Rightarrow> expand_file))"

definition GetStdoutLogfile :: "os_env \<Rightarrow> user_db \<Rightarrow> Process \<Rightarrow> string go" where
  "GetStdoutLogfile os db p = expand_logfile os db p ''stdout_logfile''"

definition GetStderrLogfile :: "os_env \<Rightarrow> user_db \<Rightarrow> Process \<Rightarrow> string go" where
  "GetStderrLogfile os db p = expand_logfile os db p ''stderr_logfile''"

definition getStartSeconds :: "Process \<Rightarrow> int" where
  "getStartSeconds p = GetInt (config p) ''startsecs'' 1"

definition getRestartPause :: "Process \<Rightarrow> int" where
  "getRestartPause p = GetInt (config p) ''restartpause'' 0"

definition getStartRetries :: "Process \<Rightarrow> int" where
  "getStartRetries p = wrap32 (GetInt (config p) ''startretries'' 3)"

definition isAutoStart :: "os_env \<Rightarrow> Process \<Rightarrow> bool go" where
  "isAutoStart os p = bindg (GetString os (config p) ''autostart'' ''true'') (\<lambda>s. Ret (s = ''true''))"

definition GetPriority :: "Process \<Rightarrow> int" where
  "GetPriority p = GetInt (config p) ''priority'' 999"

definition getNumberProcs :: "Process \<Rightarrow> int" where
  "getNumberProcs p = GetInt (config p) ''numprocs'' 1"

section \<open>Exit codes and automatic restart\<close>

definition getExitCode :: "Process \<Rightarrow> int option go" where
  "getExitCode p = (case cmd p of None \<Rightarrow> Panic | Some c \<Rightarrow> Ret (c_exit c))"

definition getExitCodes :: "os_env \<Rightarrow> Process \<Rightarrow> int list go" where
  "getExitCodes os p =
     bindg (GetString os (config p) ''exitcodes'' ''0,2'') (\<lambda>s. Ret (List.map_filter Atoi (split_char (CHR '','') s)))"

definition inExitCodes :: "os_env \<Rightarrow> Process \<Rightarrow> int \<Rightarrow> bool go" where
  "inExitCodes os p exitCode = bindg (getExitCodes os p) (\<lambda>codes. Ret (exitCode \<in> set codes))"

definition isAutoRestart :: "os_env \<Rightarrow> Process \<Rightarrow> bool go" where
  "isAutoRestart os p =
     bindg (GetString os (config p) ''autorestart'' ''unexpected'') (\<lambda>autoRestart.
       if autoRestart = ''false'' then Ret False
       else if autoRestart = ''true'' then Ret True
       else (case cmd p of
               None \<Rightarrow> Ret False
             | Some c \<Rightarrow>
                 (case c_exit c of
                    None \<Rightarrow> Ret False
                  | Some exitCode \<Rightarrow> bindg (inExitCodes os p exitCode) (\<lambda>b. Ret (\<not> b)))))"

text \<open>
  \<open>Signal(0)\<close> succeeds on a living process; a process that was waited for (its exit status is
  known) is finished for the \<open>os\<close> package, and signalling it is an error.
\<close>

definition signal_ok :: "Cmd \<Rightarrow> bool" where
  "signal_ok c \<longleftrightarrow> c_pid c \<noteq> None \<and> c_exit c = None"

definition isRunning :: "Process \<Rightarrow> bool" where
  "isRunning p = (case cmd p of None \<Rightarrow> False | Some c \<Rightarrow> c_exit c \<noteq> None \<and> signal_ok c)"

section \<open>signal.go\<close>

definition ToSignal :: "string \<Rightarrow> int" where
  "ToSignal signalName =
     (if signalName = ''HUP'' then 1 else if signalName = ''INT'' then 2 else if signalName = ''QUIT'' then 3
      else if signalName = ''KILL'' then 9 else if signalName = ''USR1'' then 10 else if signalName = ''USR2'' then 12
      else 15)"

text \<open>\<open>syscall.Kill(pid, sig)\<close>: the target and the signal it is called with.\<close>

definition Kill :: "int \<Rightarrow> int \<Rightarrow> bool \<Rightarrow> int \<times> int" where
  "Kill pid sig sigChildren = (if sigChildren then - pid else pid, sig)"

text \<open>\<open>None\<close> is the error "process is not started".\<close>

definition sendSignal :: "Process \<Rightarrow> int \<Rightarrow> bool \<Rightarrow> (int \<times> int) option" where
  "sendSignal p sig sigChildren =
     (case cmd p of
        None \<Rightarrow> None
      | Some c \<Rightarrow> (case c_pid c of None \<Rightarrow> None | Some pid \<Rightarrow> Some (Kill pid sig sigChildren)))"

section \<open>The exec command\<close>

text \<open>
  What the operating system answers: the environment, the users' home directories, the numeric
  identifiers of users (\<open>Uid\<close> and \<open>Gid\<close>) and groups as the \<open>os/user\<close> package returns them, and
  what a listener program will write to its standard output.
\<close>

record penv =
  pe_os :: os_env
  pe_users :: user_db
  pe_uid :: "string \<Rightarrow> (string \<times> string) option"
  pe_gid :: "string \<Rightarrow> string option"
  pe_input :: string

definition ParseUint32 :: "string \<Rightarrow> nat option" where
  "ParseUint32 s = (case parse_nat s of None \<Rightarrow> None | Some n \<Rightarrow> if n < 2 ^ 32 then Some n else None)"

text \<open>\<open>None\<close> is an error; \<open>Some None\<close> leaves the credentials alone.\<close>

definition setUser :: "penv \<Rightarrow> ConfigEntry \<Rightarrow> (nat \<times> nat) option option go" where
  "setUser pe c =
     bindg (GetString (pe_os pe) c ''user'' []) (\<lambda>spec.
       if spec = [] then Ret (Some None)
       else
         (let userName = takeWhile (\<lambda>ch. ch \<noteq> CHR '':'') spec;
              groupName = drop (length userName + 1) spec
          in Ret (case pe_uid pe userName of
               None \<Rightarrow> None
             | Some (us, gs) \<Rightarrow>
                 (case ParseUint32 us of
                    None \<Rightarrow> None
                  | Some uid \<Rightarrow>
                      if groupName = [] then map_option (\<lambda>gid. Some (uid, gid)) (ParseUint32 gs)
                      else (case pe_gid pe groupName of
                              None \<Rightarrow> None
                            | Some g \<Rightarrow> map_option (\<lambda>gid. Some (uid, gid)) (ParseUint32 g))))))"

definition setProgramRestartChangeMonitor :: "penv \<Rightarrow> string \<Rightarrow> Process \<Rightarrow> Process go" where
  "setProgramRestartChangeMonitor pe programPath p =
     (let p1 = (if GetBool (config p) ''restart_when_binary_changed'' False
                then p\<lparr>monitors := monitors p @ [ProgMonitor programPath]\<rparr> else p)
      in bindg (GetString (pe_os pe) (config p) ''restart_directory_monitor'' []) (\<lambda>dir_monitor.
         bindg (GetString (pe_os pe) (config p) ''restart_file_pattern'' ''*'') (\<lambda>file_pattern.
           Ret (if dir_monitor \<noteq> [] then p1\<lparr>monitors := monitors p1 @ [DirMonitor dir_monitor file_pattern]\<rparr>
                else p1))))"

definition upd_cmd :: "(Cmd \<Rightarrow> Cmd) \<Rightarrow> Process \<Rightarrow> Process" where
  "upd_cmd f p = p\<lparr>cmd := map_option f (cmd p)\<rparr>"

definition setEnv :: "penv \<Rightarrow> Process \<Rightarrow> Process go" where
  "setEnv pe p =
     bindg (GetEnv (pe_os pe) (config p) ''environment'') (\<lambda>env.
       Ret (upd_cmd (\<lambda>c. c\<lparr>c_env := (if length env \<noteq> 0 then os_environ (pe_os pe) @ env else os_environ (pe_os pe))\<rparr>) p))"

definition setDir :: "penv \<Rightarrow> Process \<Rightarrow> Process go" where
  "setDir pe p =
     bindg (GetStringExpression (pe_os pe) (config p) ''directory'' []) (\<lambda>dir.
       Ret (if dir \<noteq> [] then upd_cmd (\<lambda>c. c\<lparr>c_dir := dir\<rparr>) p else p))"

definition createStdoutLogEventEmitter :: "Process \<Rightarrow> LogEventEmitter" where
  "createStdoutLogEventEmitter p =
     (if GetBytes (config p) ''stdout_capture_maxbytes'' 0 \<le> 0 \<and> GetBool (config p) ''stdout_events_enabled'' False
      then NewStdoutLogEventEmitter (GetProgramName (config p)) (GetGroupName (config p))
      else NullLogEventEmitter)"

definition createStderrLogEventEmitter :: "Process \<Rightarrow> LogEventEmitter" where
  "createStderrLogEventEmitter p =
     (if GetBytes (config p) ''stderr_capture_maxbytes'' 0 \<le> 0 \<and> GetBool (config p) ''stderr_events_enabled'' False
      then NewStdoutLogEventEmitter (GetProgramName (config p)) (GetGroupName (config p))
      else NullLogEventEmitter)"

definition setStdoutLog :: "penv \<Rightarrow> Process \<Rightarrow> world \<Rightarrow> (Process \<times> world) go" where
  "setStdoutLog pe p w =
     bindg (GetStdoutLogfile (pe_os pe) (pe_users pe) p) (\<lambda>f.
     bindg (NewLogger f (GetBytes (config p) ''stdout_logfile_maxbytes'' (50 * 1024 * 1024))
              (GetInt (config p) ''stdout_logfile_backups'' 10) (createStdoutLogEventEmitter p) w) (\<lambda>(lg, w1).
       let capture_bytes = GetBytes (config p) ''stdout_capture_maxbytes'' 0;
           lg1 = (if capture_bytes > 0
             then CaptureL lg (NewProcCommEventCapture capture_bytes ''PROCESS_COMMUNICATION_STDOUT'' (p_GetName p) (p_GetGroup p))
             else lg)
       in Ret (p\<lparr>StdoutLog := Some lg1\<rparr>, w1)))"

definition setStderrLog :: "penv \<Rightarrow> Process \<Rightarrow> world \<Rightarrow> (Process \<times> world) go" where
  "setStderrLog pe p w =
     bindg (if GetBool (config p) ''redirect_stderr'' False then Ret (ErrSame, w)
            else
              bindg (GetStderrLogfile (pe_os pe) (pe_users pe) p) (\<lambda>f.
              bindg (NewLogger f (GetBytes (config p) ''stderr_logfile_maxbytes'' (50 * 1024 * 1024))
                (GetInt (config p) ''stderr_logfile_backups'' 10) (createStderrLogEventEmitter p) w) (\<lambda>(lg, w1).
                Ret (ErrOwn lg, w1)))) (\<lambda>(el, w1).
       let capture_bytes = GetBytes (config p) ''stderr_capture_maxbytes'' 0;
           el1 = (if capture_bytes > 0
             then ErrCapture (NewProcCommEventCapture capture_bytes ''PROCESS_COMMUNICATION_STDERR'' (p_GetName p) (p_GetGroup p))
             else el)
       in Ret (p\<lparr>StderrLog := el1\<rparr>, w1))"

definition p_registerEventListener :: "penv \<Rightarrow> string \<Rightarrow> string list \<Rightarrow> Process \<Rightarrow> world \<Rightarrow> world" where
  "p_registerEventListener pe name evs p w =
     (let (a, \<sigma>) = NewEventListener name (supervisor_id p) (pe_input pe) (GetInt (config p) ''buffer_size'' 100) (ev w)
      in w\<lparr>ev := registerEventListener name evs a \<sigma>\<rparr>)"

definition setLog :: "penv \<Rightarrow> Process \<Rightarrow> world \<Rightarrow> (Process \<times> world) go" where
  "setLog pe p w =
     (if IsProgram (config p) then
        bindg (setStdoutLog pe p w) (\<lambda>(p1, w1). setStderrLog pe p1 w1)
      else if IsEventListener (config p) then
        bindg (GetString (pe_os pe) (config p) ''events'' []) (\<lambda>s.
          Ret (p, p_registerEventListener pe (GetEventListenerName (config p))
                    (List.map TrimSpace (split_char (CHR '','') s)) p w))
      else Ret (p, w))"

text \<open>
  The result tells whether the command was created. The pipe to the program's standard input
  is not available (\<open>stdin = nil\<close>) for an event listener, whose input is its event pipe.
\<close>

definition createProgramCommand :: "penv \<Rightarrow> Process \<Rightarrow> world \<Rightarrow> (bool \<times> Process \<times> world) go" where
  "createProgramCommand pe p w =
     bindg (GetStringExpression (pe_os pe) (config p) ''command'' []) (\<lambda>line.
     bindg (parseCommand line) (\<lambda>r.
       case r of
         None \<Rightarrow> Ret (False, p, w)
       | Some args \<Rightarrow>
           (let p1 = p\<lparr>cmd := Some \<lparr>c_args = args, c_cred = None, c_env = [], c_dir = [], c_pid = None, c_exit = None\<rparr>\<rparr>
            in bindg (setUser pe (config p)) (\<lambda>u.
                 case u of
                   None \<Rightarrow> Ret (False, p1, w)
                 | Some cred \<Rightarrow>
                     bindg (setProgramRestartChangeMonitor pe (hd args) (upd_cmd (\<lambda>c. c\<lparr>c_cred := cred\<rparr>) p1)) (\<lambda>p2.
                     bindg (setEnv pe p2) (\<lambda>p3.
                     bindg (setDir pe p3) (\<lambda>p4.
                     bindg (setLog pe p4 w) (\<lambda>(p5, w5).
                       Ret (True, p5\<lparr>stdin := \<not> IsEventListener (config p)\<rparr>, w5)))))))))"

end
