(* ===== verification/ProcessRun.thy ===== *)
theory ProcessRun
  imports ProcConfig
begin

text \<open>
  The life cycle of a process (\<open>Start\<close>, \<open>run\<close>, \<open>monitorProgramIsRunning\<close>, \<open>waitForExit\<close>,
  \<open>changeStateTo\<close> and \<open>Stop\<close> of \<open>subprocess/process/process.go\<close>) as a transition system.

  The goroutine of \<open>Start\<close>, the monitor goroutine of each attempt and the goroutines of \<open>Stop\<close>
  interleave with calls of \<open>Start\<close> and \<open>Stop\<close>. A step is a piece of code between two points at
  which another goroutine can interfere: \<open>p.lock\<close> is held from \<open>run\<close>'s entry up to its
  releases, so the program counters \<open>Head\<close>, \<open>Attempt\<close>, \<open>Create\<close>, \<open>Spawn\<close> and \<open>Check\<close> are inside the
  lock. The operating system's part (whether \<open>cmd.Start\<close> succeeds, when the program exits and
  with which status, when a timer expires) is chosen by the action.
\<close>

section \<open>State changes\<close>

text \<open>Who listens is told before the state is changed; every event carries the old state.\<close>

definition state_event :: "penv \<Rightarrow> ProcessState \<Rightarrow> Process \<Rightarrow> (ev_sys \<Rightarrow> event \<times> ev_sys) go" where
  "state_event pe st p =
     (let n = GetProgramName (config p); g = GetGroupName (config p); from = state_String (state p)
      in case st of
           STARTING \<Rightarrow> Ret (CreateProcessStartingEvent n g from (retryTimes p))
         | RUNNING \<Rightarrow> bindg (cmd_pid p) (\<lambda>pid. Ret (CreateProcessRunningEvent n g from pid))
         | BACKOFF \<Rightarrow> Ret (CreateProcessBackoffEvent n g from (retryTimes p))
         | STOPPING \<Rightarrow> bindg (cmd_pid p) (\<lambda>pid. Ret (CreateProcessStoppingEvent n g from pid))
         | EXITED \<Rightarrow>
             bindg (getExitCode p) (\<lambda>code.
             bindg (case code of None \<Rightarrow> Ret False | Some c \<Rightarrow> inExitCodes (pe_os pe) p c) (\<lambda>ok.
             bindg (cmd_pid p) (\<lambda>pid. Ret (CreateProcessExitedEvent n g from (if ok then 1 else 0) pid))))
         | FATAL \<Rightarrow> Ret (CreateProcessFatalEvent n g from)
         | STOPPED \<Rightarrow> bindg (cmd_pid p) (\<lambda>pid. Ret (CreateProcessStoppedEvent n g from pid))
         | UNKNOWN \<Rightarrow> Ret (CreateProcessUnknownEvent n g from))"

definition changeStateTo :: "penv \<Rightarrow> ProcessState \<Rightarrow> Process \<Rightarrow> world \<Rightarrow> (Process \<times> world) go" where
  "changeStateTo pe st p w =
     (if IsProgram (config p) then
        bindg (state_event pe st p) (\<lambda>mk. Ret (p\<lparr>state := st\<rparr>, w\<lparr>ev := emit_new mk (ev w)\<rparr>))
      else Ret (p\<lparr>state := st\<rparr>, w))"

section \<open>The goroutines\<close>

datatype pc = Idle | AtRun | Head | Pausing | Attempt | Create | Spawn | Waiting | Join | Check | Returned | Leaving

text \<open>
  The monitor of the current attempt: not started (\<open>startsecs <= 0\<close>), in its loop, past its
  loop but not yet in the lock (\<open>monitorExited\<close> is 1), done.
\<close>

datatype mon = MNone | MLoop | MPost | MDone

datatype killer = KSend "string list" | KWait "string list"

text \<open>
  \<open>start_id\<close> numbers the effective \<open>Start\<close> calls, \<open>fresh\<close> tells that the current one has not
  entered \<open>run\<close> yet; \<open>waiting\<close>: the \<open>Start(true)\<close> calls that wait for \<open>finishCb\<close>; \<open>late_cb\<close>: the
  calls for which a goroutine that outlives its attempt still has to call it; \<open>spawned\<close> counts
  the programs started; \<open>kills\<close> are the \<open>syscall.Kill\<close> calls.
\<close>

record psys =
  proc :: Process
  wld :: world
  at :: pc
  monst :: mon
  start_id :: nat
  fresh :: bool
  waiting :: "nat list"
  late_cb :: "nat list"
  killers :: "killer list"
  spawned :: nat
  kills :: "(int \<times> int) list"

definition lock_held :: "psys \<Rightarrow> bool" where
  "lock_held s \<longleftrightarrow> at s \<in> {Head, Attempt, Create, Spawn, Check}"

definition program_exited :: "psys \<Rightarrow> bool" where
  "program_exited s \<longleftrightarrow> at s \<noteq> Waiting"

definition active :: "ProcessState \<Rightarrow> bool" where
  "active st \<longleftrightarrow> st \<in> {STARTING, RUNNING, STOPPING}"

text \<open>\<open>finishCb\<close> releases the waiting caller; calling it again in the same run has no effect (\<open>sync.Once\<close>).\<close>

definition finishCb :: "nat \<Rightarrow> psys \<Rightarrow> psys" where
  "finishCb i s = s\<lparr>waiting := removeAll i (waiting s)\<rparr>"

definition upd_state :: "penv \<Rightarrow> ProcessState \<Rightarrow> psys \<Rightarrow> psys go" where
  "upd_state pe st s = bindg (changeStateTo pe st (proc s) (wld s)) (\<lambda>(p, w). Ret (s\<lparr>proc := p, wld := w\<rparr>))"

definition failToStartProgram :: "penv \<Rightarrow> psys \<Rightarrow> psys go" where
  "failToStartProgram pe s = bindg (upd_state pe FATAL s) (\<lambda>s'. Ret ((finishCb (start_id s') s')\<lparr>at := Returned\<rparr>))"

datatype act =
    CallStart bool | CallStop
  | RunEnter | RunHead | PauseOver | DoAttempt | DoCreate | DoSpawn "int option"
  | ProgramExit int | RunJoin | RunCheck | AfterRun | Leave
  | MonitorLoopEnd bool | MonitorEnd | LateCb nat
  | KillerStep nat bool

text \<open>\<open>Start\<close>, up to the creation of its goroutine.\<close>

definition p_Start :: "bool \<Rightarrow> psys \<Rightarrow> psys" where
  "p_Start wait s =
     (if inStart (proc s) then s
      else s\<lparr>proc := (proc s)\<lparr>inStart := True, stopByUser := False\<rparr>, at := AtRun, start_id := Suc (start_id s),
             fresh := True, waiting := (if wait then Suc (start_id s) # waiting s else waiting s)\<rparr>)"

text \<open>\<open>Stop\<close>, up to the creation of its goroutine.\<close>

definition p_Stop :: "penv \<Rightarrow> psys \<Rightarrow> psys go" where
  "p_Stop pe s =
     bindg (GetString (pe_os pe) (config (proc s)) ''stopsignal'' []) (\<lambda>v.
       Ret (s\<lparr>proc := (proc s)\<lparr>stopByUser := True\<rparr>, killers := killers s @ [KSend (Fields v)]\<rparr>))"

definition stopasgroup :: "Process \<Rightarrow> bool" where
  "stopasgroup p = GetBool (config p) ''stopasgroup'' False"

definition killasgroup :: "Process \<Rightarrow> bool" where
  "killasgroup p = GetBool (config p) ''killasgroup'' (stopasgroup p)"

definition send :: "int \<Rightarrow> bool \<Rightarrow> psys \<Rightarrow> psys" where
  "send sig grp s = s\<lparr>kills := kills s @ (case sendSignal (proc s) sig grp of None \<Rightarrow> [] | Some k \<Rightarrow> [k])\<rparr>"

definition drop_nth :: "nat \<Rightarrow> 'a list \<Rightarrow> 'a list" where
  "drop_nth i xs = take i xs @ drop (Suc i) xs"

text \<open>
  A step of the \<open>i\<close>-th goroutine of \<open>Stop\<close>. \<open>expired\<close>: the \<open>stopwaitsecs\<close> of a signal are over. It ends
  when it sees the process in a state that is not active, or after the last signal, \<open>SIGKILL\<close>.
\<close>

definition killer_step :: "nat \<Rightarrow> bool \<Rightarrow> psys \<Rightarrow> psys option" where
  "killer_step i expired s =
     (if i < length (killers s) then
        (case killers s ! i of
           KSend (sg # sgs) \<Rightarrow>
             if lock_held s then None
             else Some ((send (ToSignal sg) (stopasgroup (proc s)) s)\<lparr>killers := (killers s)[i := KWait sgs]\<rparr>)
         | KSend [] \<Rightarrow>
             if lock_held s then None
             else Some ((send 9 (killasgroup (proc s)) s)\<lparr>killers := drop_nth i (killers s)\<rparr>)
         | KWait sgs \<Rightarrow>
             if expired then Some (s\<lparr>killers := (killers s)[i := KSend sgs]\<rparr>)
             else if active (state (proc s)) then None
             else Some (s\<lparr>killers := drop_nth i (killers s)\<rparr>))
      else None)"

section \<open>run\<close>

definition run_enter :: "psys \<Rightarrow> psys" where
  "run_enter s =
     (let s1 = s\<lparr>fresh := False\<rparr>
      in if isRunning (proc s) then (finishCb (start_id s) s1)\<lparr>at := Returned\<rparr>
         else s1\<lparr>proc := (proc s)\<lparr>startTime := clock (wld s), retryTimes := 0\<rparr>, at := Head\<rparr>)"

text \<open>
  The start of a round. The pause and the start seconds are read from the configuration in every round; the source
  reads them once before the loop, which differs only when a reload changes the entry during the run.
\<close>

definition run_head :: "psys \<Rightarrow> psys" where
  "run_head s =
     (if stopByUser (proc s) then s\<lparr>at := Returned\<rparr>
      else if getRestartPause (proc s) > 0 \<and> retryTimes (proc s) \<noteq> 0 then s\<lparr>at := Pausing\<rparr>
      else s\<lparr>at := Attempt\<rparr>)"

definition run_attempt :: "penv \<Rightarrow> psys \<Rightarrow> psys go" where
  "run_attempt pe s =
     bindg (upd_state pe STARTING s) (\<lambda>s1.
       Ret (s1\<lparr>proc := (proc s1)\<lparr>retryTimes := retryTimes (proc s1) + 1\<rparr>, at := Create\<rparr>))"

definition run_create :: "penv \<Rightarrow> psys \<Rightarrow> psys go" where
  "run_create pe s =
     bindg (createProgramCommand pe (proc s) (wld s)) (\<lambda>(ok, p, w).
       let s1 = s\<lparr>proc := p, wld := w\<rparr>
       in if ok then Ret (s1\<lparr>at := Spawn\<rparr>) else failToStartProgram pe s1)"

definition err_SetPid :: "int \<Rightarrow> Process \<Rightarrow> Process" where
  "err_SetPid pid p =
     (case StderrLog p of
        ErrOwn lg \<Rightarrow> p\<lparr>StderrLog := ErrOwn (lg_SetPid pid lg)\<rparr>
      | ErrCapture pec \<Rightarrow> p\<lparr>StderrLog := ErrCapture (pec_SetPid pid pec)\<rparr>
      | _ \<Rightarrow> p)"

definition set_log_pids :: "int \<Rightarrow> Process \<Rightarrow> Process" where
  "set_log_pids pid p = err_SetPid pid (p\<lparr>StdoutLog := map_option (lg_SetPid pid) (StdoutLog p)\<rparr>)"

text \<open>\<open>cmd.Start()\<close>: \<open>None\<close> is an error, \<open>Some pid\<close> the new process.\<close>

definition run_spawn :: "penv \<Rightarrow> int option \<Rightarrow> psys \<Rightarrow> psys go" where
  "run_spawn pe outcome s =
     (case outcome of
        None \<Rightarrow>
          if retryTimes (proc s) \<ge> getStartRetries (proc s) then failToStartProgram pe s
          else bindg (upd_state pe BACKOFF s) (\<lambda>s1. Ret (s1\<lparr>at := Head\<rparr>))
      | Some pid \<Rightarrow>
          (let s1 = s\<lparr>proc := set_log_pids pid (upd_cmd (\<lambda>c. c\<lparr>c_pid := Some pid\<rparr>) (proc s)),
                     spawned := Suc (spawned s), at := Waiting\<rparr>
           in if getStartSeconds (proc s) \<le> 0
              then bindg (upd_state pe RUNNING s1) (\<lambda>s2. Ret (s2\<lparr>monst := MNone, late_cb := start_id s # late_cb s2\<rparr>))
              else Ret (s1\<lparr>monst := MLoop\<rparr>)))"

text \<open>
  \<open>cmd.Wait()\<close> returns with the exit status; \<open>programExited\<close> becomes 1. When \<open>Wait\<close> itself fails before there is a
  \<open>ProcessState\<close>, \<open>GetExitstatus\<close> gives 0 as for the status 0.
\<close>

definition waitForExit :: "int \<Rightarrow> psys \<Rightarrow> psys" where
  "waitForExit status s =
     s\<lparr>proc := (upd_cmd (\<lambda>c. c\<lparr>c_exit := Some status\<rparr>) (proc s))\<lparr>stopTime := clock (wld s)\<rparr>, at := Join\<rparr>"

definition run_join :: "penv \<Rightarrow> psys \<Rightarrow> psys go" where
  "run_join pe s =
     (let s0 = s\<lparr>late_cb := (if monst s = MPost then start_id s # late_cb s else late_cb s)\<rparr>
      in if state (proc s) = RUNNING then bindg (upd_state pe EXITED s0) (\<lambda>s1. Ret (s1\<lparr>at := Returned\<rparr>))
         else bindg (upd_state pe BACKOFF s0) (\<lambda>s1. Ret (s1\<lparr>at := Check\<rparr>)))"

definition run_check :: "penv \<Rightarrow> psys \<Rightarrow> psys go" where
  "run_check pe s =
     (if retryTimes (proc s) \<ge> getStartRetries (proc s) then failToStartProgram pe s
      else Ret (s\<lparr>at := Head\<rparr>))"

text \<open>
  \<open>monitorProgramIsRunning\<close> once it has the lock, and the callback after it in the same step: the callback only wakes
  the caller of \<open>Start\<close>, which reads nothing of the process after it.
\<close>

definition monitor_end :: "penv \<Rightarrow> psys \<Rightarrow> psys go" where
  "monitor_end pe s =
     (let s0 = s\<lparr>monst := MDone\<rparr>
      in if \<not> program_exited s \<and> state (proc s) = STARTING
         then bindg (upd_state pe RUNNING s0) (\<lambda>s1. Ret (finishCb (start_id s) s1))
         else Ret (finishCb (start_id s) s0))"

text \<open>After \<open>run\<close> returned: stop, or run again.\<close>

definition after_run :: "penv \<Rightarrow> psys \<Rightarrow> psys go" where
  "after_run pe s =
     (if stopByUser (proc s) then Ret (s\<lparr>at := Leaving\<rparr>)
      else bindg (isAutoRestart (pe_os pe) (proc s)) (\<lambda>again. Ret (s\<lparr>at := (if again then AtRun else Leaving)\<rparr>)))"

section \<open>The transition system\<close>

text \<open>
  \<open>None\<close>: the action is not possible in this state. \<open>RunEnter\<close> waits when a \<open>Start(true)\<close> caller was not
  released by the run before: the goroutine then locks \<open>runCond.L\<close> a second time.
\<close>

definition guarded :: "bool \<Rightarrow> 'a \<Rightarrow> 'a option" where
  "guarded b x = (if b then Some x else None)"

fun do_act :: "penv \<Rightarrow> act \<Rightarrow> psys \<Rightarrow> psys go option" where
  "do_act pe (CallStart wait) s = guarded (\<not> lock_held s) (Ret (p_Start wait s))"
| "do_act pe CallStop s = guarded (\<not> lock_held s) (p_Stop pe s)"
| "do_act pe RunEnter s = guarded (at s = AtRun \<and> (fresh s \<or> start_id s \<notin> set (waiting s))) (Ret (run_enter s))"
| "do_act pe RunHead s = guarded (at s = Head) (Ret (run_head s))"
| "do_act pe PauseOver s = guarded (at s = Pausing) (Ret (s\<lparr>at := Attempt\<rparr>))"
| "do_act pe DoAttempt s = guarded (at s = Attempt) (run_attempt pe s)"
| "do_act pe DoCreate s = guarded (at s = Create) (run_create pe s)"
| "do_act pe (DoSpawn outcome) s = guarded (at s = Spawn) (run_spawn pe outcome s)"
| "do_act pe (ProgramExit status) s = guarded (at s = Waiting) (Ret (waitForExit status s))"
| "do_act pe RunJoin s = guarded (at s = Join \<and> monst s \<in> {MPost, MDone}) (run_join pe s)"
| "do_act pe RunCheck s = guarded (at s = Check) (run_check pe s)"
| "do_act pe AfterRun s = guarded (at s = Returned) (after_run pe s)"
| "do_act pe Leave s = guarded (at s = Leaving) (Ret (s\<lparr>proc := (proc s)\<lparr>inStart := False\<rparr>, at := Idle\<rparr>))"
| "do_act pe (MonitorLoopEnd expired) s =
     guarded (monst s = MLoop \<and> (expired \<or> program_exited s)) (Ret (s\<lparr>monst := MPost\<rparr>))"
| "do_act pe MonitorEnd s = guarded (monst s = MPost \<and> at s \<in> {Waiting, Join}) (monitor_end pe s)"
| "do_act pe (LateCb i) s = guarded (i \<in> set (late_cb s)) (Ret (finishCb i (s\<lparr>late_cb := remove1 i (late_cb s)\<rparr>)))"
| "do_act pe (KillerStep i expired) s = map_option Ret (killer_step i expired s)"

inductive proc_step :: "penv \<Rightarrow> psys \<Rightarrow> psys \<Rightarrow> bool" for pe where
  act: "do_act pe a s = Some (Ret s') \<Longrightarrow> proc_step pe s s'"

definition proc_initial :: "psys \<Rightarrow> bool" where
  "proc_initial s \<longleftrightarrow>
     (\<exists>sid c. proc s = NewProcess sid c) \<and> at s = Idle \<and> monst s = MDone \<and> start_id s = 0 \<and> late_cb s = [] \<and>
     waiting s = [] \<and> killers s = [] \<and> spawned s = 0 \<and> kills s = []"

interpretation prc: transition_system proc_initial "proc_step pe" for pe .

section \<open>Frames\<close>

lemma upd_state_Ret:
  "upd_state pe st s = Ret s' \<Longrightarrow> \<exists>w'. s' = s\<lparr>proc := (proc s)\<lparr>state := st\<rparr>, wld := w'\<rparr>"
proof (cases "IsProgram (config (proc s))")
  case False
  assume "upd_state pe st s = Ret s'"
  with False have "s' = s\<lparr>proc := (proc s)\<lparr>state := st\<rparr>, wld := wld s\<rparr>"
    by (auto simp: upd_state_def changeStateTo_def)
  then show ?thesis ..
qed (auto simp: upd_state_def changeStateTo_def bindg_eq_Ret)

lemma failToStartProgram_Ret:
  "failToStartProgram pe s = Ret s' \<Longrightarrow>
   \<exists>w'. s' = s\<lparr>proc := (proc s)\<lparr>state := FATAL\<rparr>, wld := w', waiting := removeAll (start_id s) (waiting s), at := Returned\<rparr>"
  by (auto simp: failToStartProgram_def bindg_eq_Ret finishCb_def dest!: upd_state_Ret)

text \<open>What building the command leaves alone.\<close>

definition same_control :: "Process \<Rightarrow> Process \<Rightarrow> bool" where
  "same_control p q \<longleftrightarrow>
     config q = config p \<and> state q = state p \<and> inStart q = inStart p \<and> stopByUser q = stopByUser p \<and>
     retryTimes q = retryTimes p \<and> startTime q = startTime p \<and> stopTime q = stopTime p"

definition unstarted :: "Process \<Rightarrow> bool" where
  "unstarted p \<longleftrightarrow> (\<exists>c. cmd p = Some c \<and> c_pid c = None \<and> c_exit c = None)"

lemma same_control_trans: "same_control p q \<Longrightarrow> same_control q r \<Longrightarrow> same_control p r"
  by (simp add: same_control_def)

lemma same_control_upd [simp]:
  "same_control p p" "same_control p (p\<lparr>monitors := ms\<rparr>)" "same_control p (p\<lparr>cmd := c\<rparr>)" "same_control p (upd_cmd f p)"
  "same_control p (q\<lparr>StdoutLog := lg\<rparr>) = same_control p q" "same_control p (q\<lparr>StderrLog := el\<rparr>) = same_control p q"
  "same_control p (q\<lparr>monitors := ms\<rparr>) = same_control p q" "same_control p (q\<lparr>stdin := b\<rparr>) = same_control p q"
  by (simp_all add: same_control_def upd_cmd_def)

lemma setProgramRestartChangeMonitor_frame:
  assumes "setProgramRestartChangeMonitor pe path p = Ret q"
  shows "same_control p q \<and> cmd q = cmd p"
proof -
  define p1 where "p1 = (if GetBool (config p) ''restart_when_binary_changed'' False
     then p\<lparr>monitors := monitors p @ [ProgMonitor path]\<rparr> else p)"
  have p1: "same_control p p1" "cmd p1 = cmd p" by (simp_all add: p1_def)
  from assms have "q = p1 \<or> (\<exists>ms. q = p1\<lparr>monitors := ms\<rparr>)"
    unfolding setProgramRestartChangeMonitor_def p1_def[symmetric] Let_def bindg_eq_Ret by (auto split: if_splits)
  then show ?thesis using p1 by auto
qed

lemma unstarted_upd:
  "unstarted (upd_cmd (\<lambda>c. c\<lparr>c_env := e\<rparr>) p) = unstarted p" "unstarted (upd_cmd (\<lambda>c. c\<lparr>c_dir := d\<rparr>) p) = unstarted p"
  by (auto simp: unstarted_def upd_cmd_def)

lemma setEnv_frame: "setEnv pe p = Ret q \<Longrightarrow> same_control p q \<and> (unstarted p \<longrightarrow> unstarted q)"
  by (auto simp: setEnv_def bindg_eq_Ret unstarted_upd)

lemma setDir_frame: "setDir pe p = Ret q \<Longrightarrow> same_control p q \<and> (unstarted p \<longrightarrow> unstarted q)"
  by (auto simp: setDir_def bindg_eq_Ret unstarted_upd)

lemma setStdoutLog_frame: "setStdoutLog pe p w = Ret (q, w') \<Longrightarrow> \<exists>lg. q = p\<lparr>StdoutLog := Some lg\<rparr>"
  unfolding setStdoutLog_def bindg_eq_Ret Let_def by (auto simp: bindg_eq_Ret)

lemma setStderrLog_frame: "setStderrLog pe p w = Ret (q, w') \<Longrightarrow> \<exists>el. q = p\<lparr>StderrLog := el\<rparr>"
  unfolding setStderrLog_def bindg_eq_Ret[where f = "\<lambda>(el, w1). _ el w1"] Let_def by (auto simp: bindg_eq_Ret)

lemma setLog_frame: "setLog pe p w = Ret (q, w') \<Longrightarrow> same_control p q \<and> cmd q = cmd p"
  by (auto simp: setLog_def bindg_eq_Ret split: if_splits dest!: setStdoutLog_frame setStderrLog_frame)

lemma createProgramCommand_frame:
  assumes "createProgramCommand pe p w = Ret (ok, q, w')"
  shows "same_control p q" "ok \<Longrightarrow> unstarted q" "\<not> ok \<Longrightarrow> cmd q = cmd p \<or> unstarted q"
proof -
  have "same_control p q \<and> (ok \<longrightarrow> unstarted q) \<and> (\<not> ok \<longrightarrow> cmd q = cmd p \<or> unstarted q)"
  proof -
    from assms obtain line r where r: "parseCommand line = Ret r"
      and rest: "(case r of None \<Rightarrow> Ret (False, p, w) | Some args \<Rightarrow>
        (let p1 = p\<lparr>cmd := Some \<lparr>c_args = args, c_cred = None, c_env = [], c_dir = [], c_pid = None, c_exit = None\<rparr>\<rparr>
         in bindg (setUser pe (config p)) (\<lambda>u. case u of None \<Rightarrow> Ret (False, p1, w)
          | Some cred \<Rightarrow> bindg (setProgramRestartChangeMonitor pe (hd args) (upd_cmd (\<lambda>c. c\<lparr>c_cred := cred\<rparr>) p1)) (\<lambda>p2.
             bindg (setEnv pe p2) (\<lambda>p3. bindg (setDir pe p3) (\<lambda>p4. bindg (setLog pe p4 w) (\<lambda>(p5, w5).
               Ret (True, p5\<lparr>stdin := \<not> IsEventListener (config p)\<rparr>, w5)))))))) = Ret (ok, q, w')"
      by (auto simp: createProgramCommand_def bindg_eq_Ret)
    show ?thesis
    proof (cases r)
      case None
      with rest show ?thesis by (auto simp: same_control_def)
    next
      case (Some args)
      let ?p1 = "p\<lparr>cmd := Some \<lparr>c_args = args, c_cred = None, c_env = [], c_dir = [], c_pid = None, c_exit = None\<rparr>\<rparr>"
      obtain u where u: "setUser pe (config p) = Ret u" using rest Some by (auto simp: bindg_eq_Ret Let_def)
      show ?thesis
      proof (cases u)
        case None
        with rest Some u show ?thesis by (auto simp: same_control_def unstarted_def)
      next
        case cred: (Some cred)
        let ?p2 = "upd_cmd (\<lambda>c. c\<lparr>c_cred := cred\<rparr>) ?p1"
        have base: "same_control p ?p2" "unstarted ?p2" by (simp_all add: upd_cmd_def same_control_def unstarted_def)
        obtain p2 p3 p4 p5 where st: "setProgramRestartChangeMonitor pe (hd args) ?p2 = Ret p2" "setEnv pe p2 = Ret p3"
          "setDir pe p3 = Ret p4" "setLog pe p4 w = Ret (p5, w')" and ok: "ok" "q = p5\<lparr>stdin := \<not> IsEventListener (config p)\<rparr>"
          using rest Some u cred by (auto simp: bindg_eq_Ret Let_def)
        have f: "same_control ?p2 p2" "cmd p2 = cmd ?p2" "same_control p2 p3" "unstarted p2 \<longrightarrow> unstarted p3"
          "same_control p3 p4" "unstarted p3 \<longrightarrow> unstarted p4" "same_control p4 p5" "cmd p5 = cmd p4"
          using setProgramRestartChangeMonitor_frame[OF st(1)] setEnv_frame[OF st(2)] setDir_frame[OF st(3)] setLog_frame[OF st(4)]
          by simp_all
        have "unstarted p2" using base(2) f(2) by (simp add: unstarted_def)
        then have "unstarted p4" using f(4,6) by blast
        then have "unstarted q" using f(8) ok(2) by (simp add: unstarted_def)
        moreover have "same_control p p5" using base(1) f(1,3,5,7) by (meson same_control_trans)
        ultimately show ?thesis using ok by (simp add: same_control_def)
      qed
    qed
  qed
  then show "same_control p q" "ok \<Longrightarrow> unstarted q" "\<not> ok \<Longrightarrow> cmd q = cmd p \<or> unstarted q" by auto
qed

lemma set_log_pids_frame [simp]:
  "state (set_log_pids i p) = state p" "config (set_log_pids i p) = config p" "cmd (set_log_pids i p) = cmd p"
  "inStart (set_log_pids i p) = inStart p" "stopByUser (set_log_pids i p) = stopByUser p" "retryTimes (set_log_pids i p) = retryTimes p"
  by (auto simp: set_log_pids_def err_SetPid_def split: err_log.splits)

section \<open>The invariant\<close>

definition max_attempts :: "Process \<Rightarrow> int" where
  "max_attempts p = max 1 (getStartRetries p)"

fun state_ok :: "pc \<Rightarrow> ProcessState \<Rightarrow> bool" where
  "state_ok Waiting st \<longleftrightarrow> st = STARTING \<or> st = RUNNING"
| "state_ok Join st \<longleftrightarrow> st = STARTING \<or> st = RUNNING"
| "state_ok Create st \<longleftrightarrow> st = STARTING"
| "state_ok Spawn st \<longleftrightarrow> st = STARTING"
| "state_ok Check st \<longleftrightarrow> st = BACKOFF"
| "state_ok _ st \<longleftrightarrow> st = STOPPED \<or> st = BACKOFF \<or> st = EXITED \<or> st = FATAL"

definition has_pid :: "Process \<Rightarrow> bool" where
  "has_pid p \<longleftrightarrow> is_Ret (cmd_pid p)"

fun cmd_ok :: "pc \<Rightarrow> Process \<Rightarrow> bool" where
  "cmd_ok Waiting p = has_pid p"
| "cmd_ok Join p = has_pid p"
| "cmd_ok Spawn p = (cmd p \<noteq> None)"
| "cmd_ok _ p = (state p = EXITED \<or> state p = BACKOFF \<longrightarrow> cmd p \<noteq> None)"

fun tries_ok :: "pc \<Rightarrow> int \<Rightarrow> int \<Rightarrow> bool" where
  "tries_ok Head n m \<longleftrightarrow> 0 \<le> n \<and> n < m"
| "tries_ok Pausing n m \<longleftrightarrow> 0 \<le> n \<and> n < m"
| "tries_ok Attempt n m \<longleftrightarrow> 0 \<le> n \<and> n < m"
| "tries_ok _ n m \<longleftrightarrow> 0 \<le> n \<and> n \<le> m"

text \<open>\<open>tr\<close>: with the bound on the attempts, which a reload that lowers \<open>startretries\<close> may break.\<close>

definition pinv :: "bool \<Rightarrow> psys \<Rightarrow> bool" where
  "pinv tr s \<longleftrightarrow>
     (inStart (proc s) \<longleftrightarrow> at s \<noteq> Idle) \<and> state_ok (at s) (state (proc s)) \<and> cmd_ok (at s) (proc s) \<and>
     (tr \<longrightarrow> tries_ok (at s) (retryTimes (proc s)) (max_attempts (proc s)))"

lemma pinv_initial: "proc_initial s \<Longrightarrow> pinv tr s"
  by (auto simp: proc_initial_def pinv_def NewProcess_def max_attempts_def)

lemma max_attempts_config: "config q = config p \<Longrightarrow> max_attempts q = max_attempts p"
  by (simp add: max_attempts_def getStartRetries_def)

lemma has_pid_cmd: "cmd q = cmd p \<Longrightarrow> has_pid q = has_pid p"
  by (simp add: has_pid_def cmd_pid_def)

lemma has_pid_Some: "has_pid p \<Longrightarrow> cmd p \<noteq> None"
  by (auto simp: has_pid_def cmd_pid_def split: option.splits)

lemma max_attempts_upd [simp]:
  "max_attempts (p\<lparr>state := x1\<rparr>) = max_attempts p" "max_attempts (p\<lparr>retryTimes := x2\<rparr>) = max_attempts p"
  "max_attempts (p\<lparr>inStart := x3\<rparr>) = max_attempts p" "max_attempts (p\<lparr>stopByUser := x4\<rparr>) = max_attempts p"
  "max_attempts (p\<lparr>startTime := x5\<rparr>) = max_attempts p" "max_attempts (p\<lparr>stopTime := x6\<rparr>) = max_attempts p"
  "max_attempts (p\<lparr>cmd := x7\<rparr>) = max_attempts p"
  by (rule max_attempts_config, simp)+

lemma has_pid_upd [simp]:
  "has_pid (p\<lparr>state := x1\<rparr>) = has_pid p" "has_pid (p\<lparr>retryTimes := x2\<rparr>) = has_pid p"
  "has_pid (p\<lparr>inStart := x3\<rparr>) = has_pid p" "has_pid (p\<lparr>stopByUser := x4\<rparr>) = has_pid p"
  "has_pid (p\<lparr>startTime := x5\<rparr>) = has_pid p" "has_pid (p\<lparr>stopTime := x6\<rparr>) = has_pid p"
  by (rule has_pid_cmd, simp)+

lemma max_attempts_pos [simp]: "0 < max_attempts p" "1 \<le> max_attempts p"
  by (simp_all add: max_attempts_def)

lemma guarded_eq_Some [simp]: "guarded b x = Some y \<longleftrightarrow> b \<and> x = y"
  by (simp add: guarded_def)

text \<open>
  \<open>isRunning\<close> is never true: it asks for an exit status, which only a process that was waited for
  has, and that one cannot be signalled any more.
\<close>

lemma isRunning_False [simp]: "isRunning p = False"
  by (auto simp: isRunning_def signal_ok_def split: option.splits)

section \<open>Every action keeps the invariant\<close>

lemma pinv_control:
  assumes "pinv tr s" "at s' = at s" "config (proc s') = config (proc s)" "state (proc s') = state (proc s)" "cmd (proc s') = cmd (proc s)"
    and "inStart (proc s') = inStart (proc s)" "retryTimes (proc s') = retryTimes (proc s)"
  shows "pinv tr s'"
proof -
  have "cmd_ok (at s) (proc s') = cmd_ok (at s) (proc s)"
    using assms(4,5) has_pid_cmd[OF assms(5)] by (cases "at s") simp_all
  with assms max_attempts_config[OF assms(3)] show ?thesis by (simp add: pinv_def)
qed

lemma pinv_start: "pinv tr s \<Longrightarrow> pinv tr (p_Start b s)"
proof (cases "inStart (proc s)")
  case False
  assume inv: "pinv tr s"
  with False have "at s = Idle" by (simp add: pinv_def)
  with inv False show ?thesis by (simp add: pinv_def p_Start_def)
qed (simp add: p_Start_def)

lemma pinv_stop: "pinv tr s \<Longrightarrow> p_Stop pe s = Ret s' \<Longrightarrow> pinv tr s'"
  by (rule pinv_control, assumption) (auto simp: p_Stop_def bindg_eq_Ret)

lemma killer_step_frame:
  "killer_step i b s = Some s' \<Longrightarrow> \<exists>ks vs. s' = s\<lparr>kills := ks, killers := vs\<rparr>"
proof -
  assume k: "killer_step i b s = Some s'"
  have drop: "\<exists>ks vs. s\<lparr>killers := xs\<rparr> = s\<lparr>kills := ks, killers := vs\<rparr>" for xs
    by (rule exI[of _ "kills s"]) auto
  from k show ?thesis
    by (auto simp: killer_step_def send_def drop split: if_splits killer.splits list.splits)
qed

lemma pinv_killer: "pinv tr s \<Longrightarrow> killer_step i b s = Some s' \<Longrightarrow> pinv tr s'"
  by (drule killer_step_frame) (elim exE, rule pinv_control, assumption, simp_all)

lemma pinv_enter: "pinv tr s \<Longrightarrow> at s = AtRun \<Longrightarrow> pinv tr (run_enter s)"
  by (simp add: pinv_def run_enter_def)

lemma pinv_head: "pinv tr s \<Longrightarrow> at s = Head \<Longrightarrow> pinv tr (run_head s)"
  by (cases tr) (auto simp: pinv_def run_head_def)

lemma pinv_attempt: "pinv tr s \<Longrightarrow> at s = Attempt \<Longrightarrow> run_attempt pe s = Ret s' \<Longrightarrow> pinv tr s'"
  by (clarsimp simp: run_attempt_def bindg_eq_Ret dest!: upd_state_Ret) (cases tr, simp_all add: pinv_def)

lemma pinv_fail:
  "failToStartProgram pe s = Ret s' \<Longrightarrow> inStart (proc s) \<Longrightarrow>
   (tr \<longrightarrow> tries_ok Idle (retryTimes (proc s)) (max_attempts (proc s))) \<Longrightarrow>
   pinv tr s'"
  by (clarsimp simp: pinv_def dest!: failToStartProgram_Ret)

lemma pinv_create:
  assumes inv: "pinv tr s" and at: "at s = Create" and run: "run_create pe s = Ret s'"
  shows "pinv tr s'"
proof -
  from run obtain ok p w where c: "createProgramCommand pe (proc s) (wld s) = Ret (ok, p, w)"
    and r: "(if ok then Ret (s\<lparr>proc := p, wld := w, at := Spawn\<rparr>) else failToStartProgram pe (s\<lparr>proc := p, wld := w\<rparr>)) = Ret s'"
    by (auto simp: run_create_def bindg_eq_Ret Let_def)
  have sc: "config p = config (proc s)" "state p = state (proc s)" "inStart p = inStart (proc s)" "retryTimes p = retryTimes (proc s)"
    using createProgramCommand_frame(1)[OF c] by (simp_all add: same_control_def)
  note m = max_attempts_config[OF sc(1)]
  show ?thesis
  proof (cases ok)
    case True
    with r have s': "s' = s\<lparr>proc := p, wld := w, at := Spawn\<rparr>" by simp
    have "cmd p \<noteq> None" using createProgramCommand_frame(2)[OF c True] by (auto simp: unstarted_def)
    then show ?thesis using inv at sc m s' by (simp add: pinv_def)
  next
    case False
    with r have "failToStartProgram pe (s\<lparr>proc := p, wld := w\<rparr>) = Ret s'" by simp
    then show ?thesis by (rule pinv_fail) (use inv at sc m in \<open>simp_all add: pinv_def\<close>)
  qed
qed

lemma pinv_spawn:
  assumes inv: "pinv tr s" and at: "at s = Spawn" and run: "run_spawn pe out s = Ret s'"
  shows "pinv tr s'"
proof (cases out)
  case None
  show ?thesis
  proof (cases "retryTimes (proc s) \<ge> getStartRetries (proc s)")
    case True
    with run None have "failToStartProgram pe s = Ret s'" by (simp add: run_spawn_def)
    then show ?thesis by (rule pinv_fail) (use inv at in \<open>simp_all add: pinv_def\<close>)
  next
    case False
    with run None obtain w where "s' = s\<lparr>proc := (proc s)\<lparr>state := BACKOFF\<rparr>, wld := w, at := Head\<rparr>"
      by (clarsimp simp: run_spawn_def bindg_eq_Ret dest!: upd_state_Ret)
    moreover have "retryTimes (proc s) < max_attempts (proc s)" using False by (simp add: max_attempts_def)
    ultimately show ?thesis using inv at by (simp add: pinv_def)
  qed
next
  case (Some pid)
  let ?p = "set_log_pids pid (upd_cmd (\<lambda>c. c\<lparr>c_pid := Some pid\<rparr>) (proc s))"
  have pid: "has_pid ?p" using inv at by (auto simp: pinv_def has_pid_def cmd_pid_def upd_cmd_def)
  have q: "max_attempts ?p = max_attempts (proc s)" by (rule max_attempts_config) (simp add: upd_cmd_def)
  have c: "state ?p = state (proc s)" "inStart ?p = inStart (proc s)" "retryTimes ?p = retryTimes (proc s)"
    by (simp_all add: upd_cmd_def)
  show ?thesis
  proof (cases "getStartSeconds (proc s) \<le> 0")
    case True
    with run Some obtain w cb where "s' = s\<lparr>spawned := Suc (spawned s), at := Waiting, proc := ?p\<lparr>state := RUNNING\<rparr>,
        wld := w, monst := MNone, late_cb := cb\<rparr>"
      by (clarsimp simp: run_spawn_def bindg_eq_Ret Let_def dest!: upd_state_Ret)
    then show ?thesis using inv at pid q c by (simp add: pinv_def)
  next
    case False
    then show ?thesis using run Some inv at pid q c by (auto simp: run_spawn_def pinv_def Let_def)
  qed
qed

lemma pinv_exit: "pinv tr s \<Longrightarrow> at s = Waiting \<Longrightarrow> pinv tr (waitForExit c s)"
proof -
  assume "pinv tr s" "at s = Waiting"
  moreover have "has_pid (upd_cmd (\<lambda>x. x\<lparr>c_exit := Some c\<rparr>) p) = has_pid p" for p
    by (auto simp: has_pid_def cmd_pid_def upd_cmd_def split: option.splits)
  ultimately show ?thesis by (simp add: pinv_def waitForExit_def) (simp add: upd_cmd_def)
qed

lemma run_join_Ret:
  assumes "run_join pe s = Ret s'"
  obtains (exited) cb w where "state (proc s) = RUNNING"
      "s' = s\<lparr>late_cb := cb, proc := (proc s)\<lparr>state := EXITED\<rparr>, wld := w, at := Returned\<rparr>"
  | (backoff) cb w where "state (proc s) \<noteq> RUNNING"
      "s' = s\<lparr>late_cb := cb, proc := (proc s)\<lparr>state := BACKOFF\<rparr>, wld := w, at := Check\<rparr>"
proof -
  define s0 where "s0 = s\<lparr>late_cb := (if monst s = MPost then start_id s # late_cb s else late_cb s)\<rparr>"
  have run: "(if state (proc s) = RUNNING then bindg (upd_state pe EXITED s0) (\<lambda>s1. Ret (s1\<lparr>at := Returned\<rparr>))
      else bindg (upd_state pe BACKOFF s0) (\<lambda>s1. Ret (s1\<lparr>at := Check\<rparr>))) = Ret s'"
    using assms unfolding run_join_def s0_def Let_def .
  show thesis
  proof (cases "state (proc s) = RUNNING")
    case True
    with run obtain w where "s' = s0\<lparr>proc := (proc s0)\<lparr>state := EXITED\<rparr>, wld := w, at := Returned\<rparr>"
      by (auto simp: bindg_eq_Ret dest!: upd_state_Ret)
    with True show ?thesis by (intro exited[where cb = "late_cb s0" and w = w]) (simp_all add: s0_def)
  next
    case False
    with run obtain w where "s' = s0\<lparr>proc := (proc s0)\<lparr>state := BACKOFF\<rparr>, wld := w, at := Check\<rparr>"
      by (auto simp: bindg_eq_Ret dest!: upd_state_Ret)
    with False show ?thesis by (intro backoff[where cb = "late_cb s0" and w = w]) (simp_all add: s0_def)
  qed
qed

lemma monitor_end_Ret:
  assumes "monitor_end pe s = Ret s'"
  obtains (running) w where "at s = Waiting" "state (proc s) = STARTING"
      "s' = s\<lparr>monst := MDone, proc := (proc s)\<lparr>state := RUNNING\<rparr>, wld := w, waiting := removeAll (start_id s) (waiting s)\<rparr>"
  | (nothing) "s' = s\<lparr>monst := MDone, waiting := removeAll (start_id s) (waiting s)\<rparr>"
proof (cases "at s = Waiting \<and> state (proc s) = STARTING")
  case True
  with assms show ?thesis
    by (auto simp: monitor_end_def program_exited_def bindg_eq_Ret finishCb_def dest!: upd_state_Ret intro: running)
next
  case False
  with assms have "s' = s\<lparr>monst := MDone, waiting := removeAll (start_id s) (waiting s)\<rparr>"
    by (auto simp: monitor_end_def program_exited_def finishCb_def)
  then show ?thesis by (rule nothing)
qed

lemma pinv_join:
  assumes inv: "pinv tr s" and at: "at s = Join" and run: "run_join pe s = Ret s'"
  shows "pinv tr s'"
proof -
  have c: "cmd (proc s) \<noteq> None" using inv at by (simp add: pinv_def has_pid_Some)
  from run show ?thesis by (cases rule: run_join_Ret) (use inv at c in \<open>simp_all add: pinv_def\<close>)
qed

lemma pinv_check: "pinv tr s \<Longrightarrow> at s = Check \<Longrightarrow> run_check pe s = Ret s' \<Longrightarrow> pinv tr s'"
proof (cases "retryTimes (proc s) \<ge> getStartRetries (proc s)")
  case True
  assume a: "pinv tr s" "at s = Check" "run_check pe s = Ret s'"
  with True have "failToStartProgram pe s = Ret s'" by (simp add: run_check_def)
  then show ?thesis by (rule pinv_fail) (use a in \<open>simp_all add: pinv_def\<close>)
next
  case False
  assume "pinv tr s" "at s = Check" "run_check pe s = Ret s'"
  with False show ?thesis by (auto simp: run_check_def pinv_def max_attempts_def)
qed

lemma pinv_after: "pinv tr s \<Longrightarrow> at s = Returned \<Longrightarrow> after_run pe s = Ret s' \<Longrightarrow> pinv tr s'"
  by (auto simp: after_run_def bindg_eq_Ret pinv_def split: if_splits)

lemma pinv_monitor_end:
  assumes inv: "pinv tr s" and at: "at s = Waiting \<or> at s = Join" and run: "monitor_end pe s = Ret s'"
  shows "pinv tr s'"
  using run by (cases rule: monitor_end_Ret) (use inv at in \<open>auto simp: pinv_def\<close>)

lemmas pinv_ops = pinv_start pinv_stop pinv_killer pinv_enter pinv_head pinv_attempt pinv_create pinv_spawn
  pinv_exit pinv_join pinv_check pinv_after pinv_monitor_end

lemma pinv_act: "pinv tr s \<Longrightarrow> do_act pe a s = Some (Ret s') \<Longrightarrow> pinv tr s'"
proof (cases a)
  case Leave
  assume "pinv tr s" "do_act pe a s = Some (Ret s')"
  with Leave show ?thesis by (auto simp: pinv_def)
next
  case PauseOver
  assume "pinv tr s" "do_act pe a s = Some (Ret s')"
  with PauseOver show ?thesis by (auto simp: pinv_def)
next
  case (MonitorLoopEnd b)
  assume "pinv tr s" "do_act pe a s = Some (Ret s')"
  with MonitorLoopEnd show ?thesis by (auto elim!: pinv_control)
next
  case (LateCb i)
  assume "pinv tr s" "do_act pe a s = Some (Ret s')"
  with LateCb show ?thesis by (auto simp: finishCb_def elim!: pinv_control)
qed (auto intro: pinv_ops)

lemma reachable_pinv: "prc.reachable pe s \<Longrightarrow> pinv tr s"
  by (erule prc.reachable_invariant) (auto simp: pinv_initial elim!: proc_step.cases intro: pinv_act)

section \<open>Runs\<close>

fun exec :: "penv \<Rightarrow> act list \<Rightarrow> psys \<Rightarrow> psys option" where
  "exec pe [] s = Some s"
| "exec pe (a # as) s = (case do_act pe a s of Some (Ret s') \<Rightarrow> exec pe as s' | _ \<Rightarrow> None)"

lemma exec_Cons_Some:
  "exec pe (a # as) s = Some t \<longleftrightarrow> (\<exists>s'. do_act pe a s = Some (Ret s') \<and> exec pe as s' = Some t)"
  by (auto split: option.splits go.splits)

lemma exec_reachable: "prc.reachable pe s \<Longrightarrow> exec pe as s = Some t \<Longrightarrow> prc.reachable pe t"
proof (induction "as" arbitrary: s)
  case (Cons a "as")
  from Cons.prems(2) obtain s' where s': "do_act pe a s = Some (Ret s')" "exec pe as s' = Some t"
    by (auto simp only: exec_Cons_Some)
  from prc.move[OF Cons.prems(1) act[OF s'(1)]] s'(2) show ?case by (rule Cons.IH)
qed simp

text \<open>A property that every action of a set keeps holds after every run of such actions.\<close>

lemma exec_invariant:
  assumes "exec pe as s = Some t" "I s"
    and "\<And>a s s'. a \<in> set as \<Longrightarrow> I s \<Longrightarrow> do_act pe a s = Some (Ret s') \<Longrightarrow> I s'"
  shows "I t"
  using assms
proof (induction "as" arbitrary: s)
  case (Cons a "as")
  from Cons.prems(1) obtain s' where s': "do_act pe a s = Some (Ret s')" "exec pe as s' = Some t"
    by (auto simp only: exec_Cons_Some)
  have "I s'" using Cons.prems(3)[of a s s'] Cons.prems(2) s'(1) by simp
  with s'(2) show ?case using Cons.prems(3) by (intro Cons.IH) auto
qed simp

section \<open>Properties\<close>

lemma accessors_return:
  assumes inv: "pinv tr s" and free: "\<not> lock_held s"
  shows "is_Ret (GetPid (proc s))" "is_Ret (GetExitstatus (proc s))" "is_Ret (GetDescription ts now (proc s))"
proof -
  have "at s \<in> {Idle, AtRun, Pausing, Waiting, Join, Returned, Leaving}"
    using free by (cases "at s") (simp_all add: lock_held_def)
  then have st: "state (proc s) \<in> {STOPPED, BACKOFF, EXITED, FATAL} \<or> has_pid (proc s) \<and> state (proc s) \<in> {STARTING, RUNNING}"
    and cm: "state (proc s) = EXITED \<or> state (proc s) = BACKOFF \<Longrightarrow> cmd (proc s) \<noteq> None"
    using inv has_pid_Some by (auto simp: pinv_def)
  show "is_Ret (GetPid (proc s))" using st by (auto simp: GetPid_def has_pid_def)
  show "is_Ret (GetExitstatus (proc s))" using cm by (auto simp: GetExitstatus_def split: option.split)
  show "is_Ret (GetDescription ts now (proc s))"
    using st by (auto simp: GetDescription_def has_pid_def is_Ret_iff Let_def bindg_eq_Ret)
qed

text \<open>
  C3. The accessors never dereference nil: in every reachable state, for every interleaving of
  \<open>Start\<close>, \<open>Stop\<close>, the run goroutine, its monitors and the stop goroutines, as long as \<open>p.lock\<close> is
  free (the accessors take it), \<open>GetPid\<close>, \<open>GetExitstatus\<close> and \<open>GetDescription\<close> return; and the
  number of attempts counted in \<open>retryTimes\<close> never exceeds \<open>max(1, startretries)\<close>.
\<close>

theorem process_accessors_safe:
  assumes "prc.reachable pe s" "\<not> lock_held s"
  shows "is_Ret (GetPid (proc s)) \<and> is_Ret (GetExitstatus (proc s)) \<and> is_Ret (GetDescription ts now (proc s)) \<and>
    0 \<le> retryTimes (proc s) \<and> retryTimes (proc s) \<le> max 1 (getStartRetries (proc s))"
proof -
  have inv: "pinv True s" using assms(1) by (rule reachable_pinv)
  have "0 \<le> retryTimes (proc s) \<and> retryTimes (proc s) \<le> max 1 (getStartRetries (proc s))"
    using inv by (cases "at s") (simp_all add: pinv_def max_attempts_def)
  with accessors_return[OF inv assms(2)] show ?thesis by blast
qed

definition allowed :: "(ProcessState \<times> ProcessState) set" where
  "allowed = {(STOPPED, STARTING), (BACKOFF, STARTING), (EXITED, STARTING), (FATAL, STARTING), (STARTING, RUNNING),
     (STARTING, BACKOFF), (STARTING, FATAL), (BACKOFF, FATAL), (RUNNING, EXITED)}"

definition moves :: "psys \<Rightarrow> psys \<Rightarrow> bool" where
  "moves s s' \<longleftrightarrow> state (proc s') = state (proc s) \<or> (state (proc s), state (proc s')) \<in> allowed"

lemma moves_create: "state (proc s) = STARTING \<Longrightarrow> run_create pe s = Ret s' \<Longrightarrow> moves s s'"
proof -
  assume st: "state (proc s) = STARTING" and run: "run_create pe s = Ret s'"
  from run obtain ok p w where c: "createProgramCommand pe (proc s) (wld s) = Ret (ok, p, w)"
    and r: "(if ok then Ret (s\<lparr>proc := p, wld := w, at := Spawn\<rparr>) else failToStartProgram pe (s\<lparr>proc := p, wld := w\<rparr>)) = Ret s'"
    by (auto simp: run_create_def bindg_eq_Ret Let_def)
  have "state p = state (proc s)" using createProgramCommand_frame(1)[OF c] by (simp add: same_control_def)
  with r st show ?thesis
    by (cases ok) (auto simp: moves_def allowed_def dest!: failToStartProgram_Ret)
qed

lemma moves_spawn: "state (proc s) = STARTING \<Longrightarrow> run_spawn pe out s = Ret s' \<Longrightarrow> moves s s'"
proof (cases out)
  case None
  assume "state (proc s) = STARTING" "run_spawn pe out s = Ret s'"
  with None show ?thesis
    by (auto simp: run_spawn_def bindg_eq_Ret moves_def allowed_def split: if_splits dest!: upd_state_Ret failToStartProgram_Ret)
next
  case (Some pid)
  assume "state (proc s) = STARTING" "run_spawn pe out s = Ret s'"
  with Some show ?thesis
    by (auto simp: run_spawn_def bindg_eq_Ret Let_def moves_def allowed_def upd_cmd_def split: if_splits dest!: upd_state_Ret)
qed

lemma moves_same: "state (proc s') = state (proc s) \<Longrightarrow> moves s s'"
  by (simp add: moves_def)

lemma moves_act:
  assumes inv: "pinv tr s" and a: "do_act pe a s = Some (Ret s')"
  shows "moves s s'"
proof (cases a)
  case DoAttempt
  with a inv have at: "at s = Attempt" by simp
  obtain w where "s' = s\<lparr>wld := w, proc := (proc s)\<lparr>state := STARTING, retryTimes := retryTimes (proc s) + 1\<rparr>, at := Create\<rparr>"
    using a DoAttempt by (clarsimp simp: run_attempt_def bindg_eq_Ret dest!: upd_state_Ret)
  then show ?thesis using inv at by (auto simp: pinv_def moves_def allowed_def)
next
  case DoCreate
  with a inv show ?thesis by (auto simp: pinv_def intro: moves_create)
next
  case (DoSpawn out)
  with a inv show ?thesis by (auto simp: pinv_def intro: moves_spawn)
next
  case RunJoin
  with a have at: "at s = Join" and run: "run_join pe s = Ret s'" by auto
  have "state (proc s) = STARTING \<or> state (proc s) = RUNNING" using inv at by (simp add: pinv_def)
  from run this show ?thesis by (cases rule: run_join_Ret) (auto simp: moves_def allowed_def)
next
  case RunCheck
  with a inv show ?thesis
    by (auto simp: pinv_def run_check_def moves_def allowed_def split: if_splits dest!: failToStartProgram_Ret)
next
  case MonitorEnd
  with a have run: "monitor_end pe s = Ret s'" by simp
  then show ?thesis by (cases rule: monitor_end_Ret) (auto simp: moves_def allowed_def)
next
  case (KillerStep i b)
  with a show ?thesis by (auto simp: moves_def dest!: killer_step_frame)
next
  case CallStop
  with a show ?thesis by (auto simp: p_Stop_def bindg_eq_Ret moves_def)
next
  case AfterRun
  with a show ?thesis by (auto simp: after_run_def bindg_eq_Ret moves_def split: if_splits)
qed (use a in \<open>auto intro!: moves_same simp: p_Start_def run_enter_def run_head_def waitForExit_def upd_cmd_def finishCb_def\<close>)

text \<open>
  C4. The life cycle of a process: from every reachable state, every step either leaves the
  process state alone or makes one of the nine moves of \<open>allowed\<close>: to STARTING from STOPPED,
  BACKOFF, EXITED or FATAL; from STARTING to RUNNING, BACKOFF or FATAL; from BACKOFF to FATAL;
  from RUNNING to EXITED. The states STOPPING, STOPPED and UNKNOWN are never entered, not even
  when the process is stopped by the user.
\<close>

theorem process_life_cycle:
  assumes "prc.reachable pe s" "proc_step pe s s'"
  shows "(state (proc s') = state (proc s) \<or> (state (proc s), state (proc s')) \<in> allowed) \<and>
    state (proc s') \<notin> {STOPPING, UNKNOWN} \<and> (state (proc s') = STOPPED \<longrightarrow> state (proc s) = STOPPED)"
proof -
  have inv: "pinv True s" using assms(1) by (rule reachable_pinv)
  from assms(2) obtain a where a: "do_act pe a s = Some (Ret s')" by (auto elim: proc_step.cases)
  have m: "moves s s'" using inv a by (rule moves_act)
  have "pinv True s'" using inv a by (rule pinv_act)
  then have "state_ok (at s') (state (proc s'))" by (simp add: pinv_def)
  then have "state (proc s') \<notin> {STOPPING, UNKNOWN}" by (cases "at s'") auto
  then show ?thesis using m by (auto simp: moves_def allowed_def)
qed

section \<open>Stopping\<close>

text \<open>Stopped, and not in the part of \<open>run\<close> that starts a program without looking at \<open>stopByUser\<close> again.\<close>

definition quiet :: "psys \<Rightarrow> bool" where
  "quiet s \<longleftrightarrow> stopByUser (proc s) \<and> at s \<notin> {Pausing, Attempt, Create, Spawn}"

lemma quiet_act:
  assumes q: "quiet s" and a: "do_act pe a s = Some (Ret s')" and ns: "\<forall>b. a \<noteq> CallStart b"
  shows "quiet s' \<and> spawned s' = spawned s"
proof (cases a)
  case RunJoin
  with a have "run_join pe s = Ret s'" by simp
  then show ?thesis by (cases rule: run_join_Ret) (use q in \<open>simp_all add: quiet_def\<close>)
next
  case RunCheck
  with a q show ?thesis
    by (auto simp: run_check_def quiet_def split: if_splits dest!: failToStartProgram_Ret)
next
  case MonitorEnd
  with a have "monitor_end pe s = Ret s'" by simp
  then show ?thesis by (cases rule: monitor_end_Ret) (use q in \<open>simp_all add: quiet_def\<close>)
next
  case (KillerStep i b)
  with a q show ?thesis by (auto simp: quiet_def dest!: killer_step_frame)
next
  case CallStop
  with a q show ?thesis by (auto simp: quiet_def p_Stop_def bindg_eq_Ret)
next
  case AfterRun
  with a q show ?thesis by (auto simp: quiet_def after_run_def)
qed (use a q ns in \<open>auto simp: quiet_def run_enter_def run_head_def waitForExit_def upd_cmd_def finishCb_def\<close>)

text \<open>
  C17. A stopped program is not started again: once \<open>Stop\<close> was called while the run goroutine is
  anywhere but in the restart pause or in the middle of an attempt, no interleaving of the
  goroutines starts the program again, however it exits and whatever \<open>autorestart\<close> says, until
  the next \<open>Start\<close> call.
\<close>

theorem stopped_stays_stopped:
  assumes "stopByUser (proc s)" "at s \<notin> {Pausing, Attempt, Create, Spawn}"
    and "exec pe as s = Some t" "\<forall>b. CallStart b \<notin> set as"
  shows "spawned t = spawned s \<and> stopByUser (proc t)"
proof -
  have "quiet t \<and> spawned t = spawned s"
  proof (rule exec_invariant[OF assms(3), where I = "\<lambda>u. quiet u \<and> spawned u = spawned s"])
    show "quiet s \<and> spawned s = spawned s" using assms(1,2) by (simp add: quiet_def)
  next
    fix a u u' assume "a \<in> set as" "quiet u \<and> spawned u = spawned s" "do_act pe a u = Some (Ret u')"
    then show "quiet u' \<and> spawned u' = spawned s" using quiet_act[of u pe a u'] assms(4) by auto
  qed
  then show ?thesis by (simp add: quiet_def)
qed

text \<open>
  Stopping during the restart pause does not stop: when the run goroutine sleeps in its
  restart pause, a \<open>Stop\<close> call has no influence on what comes next, because \<open>stopByUser\<close> is not
  looked at again after the pause: the goroutine goes through the attempt and, when the command
  can be created and started, the program runs although it was stopped by the user.
\<close>

theorem stop_in_pause_still_starts:
  assumes "at s = Pausing"
    and "exec pe [CallStop, PauseOver, DoAttempt, DoCreate, DoSpawn (Some pid)] s = Some t" "at t = Waiting"
  shows "spawned t = Suc (spawned s) \<and> stopByUser (proc t) \<and> has_pid (proc t)"
proof -
  obtain s1 s2 s3 s4 where
    x: "p_Stop pe s = Ret s1" "do_act pe PauseOver s1 = Some (Ret s2)" "do_act pe DoAttempt s2 = Some (Ret s3)"
      "do_act pe DoCreate s3 = Some (Ret s4)" "do_act pe (DoSpawn (Some pid)) s4 = Some (Ret t)"
    using assms(2) by (auto simp only: exec_Cons_Some exec.simps(1) do_act.simps guarded_eq_Some option.inject)
  have 1: "stopByUser (proc s1)" "spawned s1 = spawned s" using x(1) by (auto simp: p_Stop_def bindg_eq_Ret)
  have 2: "stopByUser (proc s2)" "spawned s2 = spawned s" using x(2) 1 by auto
  have 3: "stopByUser (proc s3)" "spawned s3 = spawned s"
    using x(3) 2 by (auto simp: run_attempt_def bindg_eq_Ret dest!: upd_state_Ret)
  have at4: "at s4 = Spawn" using x(5) by simp
  from x(4) obtain ok p w where c: "createProgramCommand pe (proc s3) (wld s3) = Ret (ok, p, w)"
    and r: "(if ok then Ret (s3\<lparr>proc := p, wld := w, at := Spawn\<rparr>) else failToStartProgram pe (s3\<lparr>proc := p, wld := w\<rparr>)) = Ret s4"
    by (auto simp: run_create_def bindg_eq_Ret Let_def)
  have ok: "ok" using r at4 by (cases ok) (auto dest!: failToStartProgram_Ret)
  have 4: "stopByUser (proc s4)" "spawned s4 = spawned s" "cmd (proc s4) \<noteq> None"
    using r ok 3 createProgramCommand_frame[OF c] by (auto simp: same_control_def unstarted_def)
  let ?p = "set_log_pids pid (upd_cmd (\<lambda>c. c\<lparr>c_pid := Some pid\<rparr>) (proc s4))"
  have "has_pid ?p" "stopByUser ?p" using 4 by (auto simp: has_pid_def cmd_pid_def upd_cmd_def)
  with x(5) 4(2) show ?thesis
    by (auto simp: run_spawn_def bindg_eq_Ret Let_def split: if_splits dest!: upd_state_Ret)
qed

lemma stuck_act:
  assumes "at s = Join" "monst s = MNone" "inStart (proc s)" "do_act pe a s = Some (Ret s')"
  shows "at s' = Join \<and> monst s' = MNone \<and> inStart (proc s') \<and> state (proc s') = state (proc s) \<and> spawned s' = spawned s"
  using assms
  by (cases a) (auto simp: p_Start_def p_Stop_def bindg_eq_Ret finishCb_def dest!: killer_step_frame)

text \<open>
  With \<open>startsecs=0\<close> the supervisor never sees the program exit: the run goroutine then waits
  for a monitor goroutine that was not started. From such a state (the program has exited, no
  monitor) no interleaving of actions ever moves the process on: it stays RUNNING with the
  dead program's identifier, is not restarted, and \<open>Start\<close> is ignored.
\<close>

theorem startsecs_zero_stuck:
  assumes "at s = Join" "monst s = MNone" "inStart (proc s)" "exec pe as s = Some t"
  shows "at t = Join \<and> state (proc t) = state (proc s) \<and> spawned t = spawned s"
proof -
  have "at t = Join \<and> monst t = MNone \<and> inStart (proc t) \<and> state (proc t) = state (proc s) \<and> spawned t = spawned s"
  proof (rule exec_invariant[OF assms(4), where I = "\<lambda>u. at u = Join \<and> monst u = MNone \<and> inStart (proc u) \<and>
        state (proc u) = state (proc s) \<and> spawned u = spawned s"], goal_cases)
    case 1
    then show ?case using assms(1-3) by simp
  next
    case (2 a u u')
    then show ?case using stuck_act[of u pe a u'] by simp
  qed
  then show ?thesis by simp
qed

section \<open>Programs that cannot be started\<close>

text \<open>The run goroutine on its own, when every \<open>cmd.Start()\<close> fails.\<close>

fun next_act :: "pc \<Rightarrow> act option" where
  "next_act AtRun = Some RunEnter"
| "next_act Head = Some RunHead"
| "next_act Attempt = Some DoAttempt"
| "next_act Create = Some DoCreate"
| "next_act Spawn = Some (DoSpawn None)"
| "next_act _ = None"

fun drive :: "penv \<Rightarrow> nat \<Rightarrow> psys \<Rightarrow> psys go" where
  "drive pe 0 s = Ret s"
| "drive pe (Suc n) s =
     (case next_act (at s) of
        None \<Rightarrow> Ret s
      | Some a \<Rightarrow> (case do_act pe a s of None \<Rightarrow> Ret s | Some r \<Rightarrow> bindg r (drive pe n)))"

definition gave_up :: "psys \<Rightarrow> psys \<Rightarrow> bool" where
  "gave_up s t \<longleftrightarrow> at t = Returned \<and> state (proc t) = FATAL \<and> spawned t = spawned s \<and>
     start_id t = start_id s \<and> start_id t \<notin> set (waiting t)"

lemma upd_state_total:
  "st \<in> {STARTING, BACKOFF, FATAL} \<Longrightarrow> \<exists>w'. upd_state pe st s = Ret (s\<lparr>proc := (proc s)\<lparr>state := st\<rparr>, wld := w'\<rparr>)"
proof -
  assume "st \<in> {STARTING, BACKOFF, FATAL}"
  then have "is_Ret (upd_state pe st s)"
    by (auto simp: upd_state_def changeStateTo_def state_event_def Let_def)
  then show ?thesis using upd_state_Ret[of pe st s] by (auto simp: is_Ret_iff)
qed

lemma fail_total: "\<exists>w'. failToStartProgram pe s =
    Ret (s\<lparr>proc := (proc s)\<lparr>state := FATAL\<rparr>, wld := w', waiting := removeAll (start_id s) (waiting s), at := Returned\<rparr>)"
  using upd_state_total[of FATAL pe s] by (auto simp: failToStartProgram_def finishCb_def)

lemma drive_done: "next_act (at s) = None \<Longrightarrow> drive pe n s = Ret s"
  by (cases n) simp_all

lemma drive_step:
  "next_act (at s) = Some a \<Longrightarrow> do_act pe a s = Some (Ret s') \<Longrightarrow> drive pe (Suc n) s = drive pe n s'"
  by simp

declare drive.simps [simp del]

lemma gave_up_fail:
  assumes "failToStartProgram pe s = r" "spawned s = spawned s0" "start_id s = start_id s0"
  shows "\<exists>t. r = Ret t \<and> gave_up s0 t \<and> retryTimes (proc t) = retryTimes (proc s)"
  using fail_total[of pe s] assms by (auto simp: gave_up_def)

text \<open>Creating the command may fail, but neither panics nor hangs.\<close>

definition no_panic :: "penv \<Rightarrow> ConfigEntry \<Rightarrow> bool" where
  "no_panic pe c \<longleftrightarrow> (\<forall>p w. config p = c \<longrightarrow> is_Ret (createProgramCommand pe p w))"

text \<open>Creating the command never fails.\<close>

definition creates :: "penv \<Rightarrow> ConfigEntry \<Rightarrow> bool" where
  "creates pe c \<longleftrightarrow> (\<forall>p w. config p = c \<longrightarrow> (\<exists>p' w'. createProgramCommand pe p w = Ret (True, p', w')))"

text \<open>
  One attempt, counted in \<open>retryTimes\<close>: it gives up, and then the tries are used up or the command could not be
  created, or it comes back to the head of the loop with tries left.
\<close>

lemma drive_attempt:
  assumes at: "at s = Head" and run: "\<not> stopByUser (proc s)" "getRestartPause (proc s) \<le> 0"
    and ok: "no_panic pe (config (proc s))"
  shows "(\<exists>t. gave_up s t \<and> retryTimes (proc t) = retryTimes (proc s) + 1 \<and>
      (creates pe (config (proc s)) \<longrightarrow> getStartRetries (proc s) \<le> retryTimes (proc t)) \<and> (\<forall>n. drive pe (n + 4) s = Ret t)) \<or>
    (\<exists>s'. (\<forall>n. drive pe (n + 4) s = drive pe n s') \<and> at s' = Head \<and> config (proc s') = config (proc s) \<and>
      \<not> stopByUser (proc s') \<and> retryTimes (proc s') = retryTimes (proc s) + 1 \<and>
      retryTimes (proc s') < getStartRetries (proc s) \<and> spawned s' = spawned s \<and> start_id s' = start_id s)"
proof -
  let ?s1 = "s\<lparr>at := Attempt\<rparr>"
  have h: "do_act pe RunHead s = Some (Ret ?s1)" using at run by (simp add: run_head_def guarded_def)
  obtain w1 where w1: "upd_state pe STARTING ?s1 = Ret (?s1\<lparr>proc := (proc s)\<lparr>state := STARTING\<rparr>, wld := w1\<rparr>)"
    using upd_state_total[of STARTING pe ?s1] by auto
  define s2 where "s2 = s\<lparr>wld := w1, proc := (proc s)\<lparr>state := STARTING, retryTimes := retryTimes (proc s) + 1\<rparr>, at := Create\<rparr>"
  have a: "do_act pe DoAttempt ?s1 = Some (Ret s2)" using w1 by (simp add: run_attempt_def guarded_def s2_def)
  have s2_config: "config (proc s2) = config (proc s)" by (simp add: s2_def)
  obtain ok1 p w where c: "createProgramCommand pe (proc s2) (wld s2) = Ret (ok1, p, w)"
    using ok unfolding no_panic_def is_Ret_iff by (metis (no_types) prod_cases3 s2_config)
  have sc: "config p = config (proc s)" "stopByUser p = stopByUser (proc s)" "retryTimes p = retryTimes (proc s) + 1"
    using createProgramCommand_frame(1)[OF c] by (simp_all add: same_control_def s2_def)
  let ?s3 = "s2\<lparr>proc := p, wld := w\<rparr>"
  have d2: "drive pe (n + 4) s = drive pe (n + 2) s2" for n
    using drive_step[OF _ h, of "n + 3"] drive_step[OF _ a, of "n + 2"] at by (simp add: eval_nat_numeral del: do_act.simps)
  show ?thesis
  proof (cases ok1)
    case False
    then have "do_act pe DoCreate s2 = Some (failToStartProgram pe ?s3)" using c by (simp add: run_create_def guarded_def s2_def)
    moreover obtain t where t: "failToStartProgram pe ?s3 = Ret t" "gave_up s t" "retryTimes (proc t) = retryTimes p"
      using gave_up_fail[OF refl, of ?s3 s pe] by (auto simp: s2_def)
    ultimately have "drive pe (n + 2) s2 = drive pe (n + 1) t" for n
      using drive_step[of s2 DoCreate pe t "n + 1"] by (simp add: s2_def eval_nat_numeral del: do_act.simps)
    moreover have "drive pe m t = Ret t" for m using t(2) by (intro drive_done) (simp add: gave_up_def)
    ultimately have "\<forall>n. drive pe (n + 4) s = Ret t" using d2 by simp
    moreover have "\<not> creates pe (config (proc s))"
      using c False s2_config by (auto simp: creates_def intro!: exI[of _ "proc s2"] exI[of _ "wld s2"])
    ultimately show ?thesis using t(2,3) sc(3) by auto
  next
    case True
    let ?s4 = "?s3\<lparr>at := Spawn\<rparr>"
    have cr: "do_act pe DoCreate s2 = Some (Ret ?s4)" using c True by (simp add: run_create_def guarded_def s2_def)
    have d3: "drive pe (n + 2) s2 = drive pe (n + 1) ?s4" for n
      using drive_step[OF _ cr, of "n + 1"] by (simp add: s2_def eval_nat_numeral del: do_act.simps)
    show ?thesis
    proof (cases "retryTimes p \<ge> getStartRetries p")
      case give: True
      then have "do_act pe (DoSpawn None) ?s4 = Some (failToStartProgram pe ?s4)" by (simp add: run_spawn_def guarded_def)
      moreover obtain t where t: "failToStartProgram pe ?s4 = Ret t" "gave_up s t" "retryTimes (proc t) = retryTimes p"
        using gave_up_fail[OF refl, of ?s4 s pe] by (auto simp: s2_def)
      ultimately have "drive pe (n + 1) ?s4 = drive pe n t" for n
        using drive_step[of ?s4 "DoSpawn None" pe t n] by (simp del: do_act.simps)
      moreover have "drive pe m t = Ret t" for m using t(2) by (intro drive_done) (simp add: gave_up_def)
      ultimately have "\<forall>n. drive pe (n + 4) s = Ret t" using d2 d3 by simp
      moreover have "getStartRetries p = getStartRetries (proc s)" using sc(1) by (simp add: getStartRetries_def)
      ultimately show ?thesis using t(2,3) sc(3) give by auto
    next
      case False
      obtain w5 where w5: "upd_state pe BACKOFF ?s4 = Ret (?s4\<lparr>proc := p\<lparr>state := BACKOFF\<rparr>, wld := w5\<rparr>)"
        using upd_state_total[of BACKOFF pe ?s4] by auto
      let ?s5 = "?s4\<lparr>proc := p\<lparr>state := BACKOFF\<rparr>, wld := w5, at := Head\<rparr>"
      have sp: "do_act pe (DoSpawn None) ?s4 = Some (Ret ?s5)" using False w5 by (simp add: run_spawn_def guarded_def)
      have d4: "drive pe (n + 1) ?s4 = drive pe n ?s5" for n
        using drive_step[OF _ sp, of n] by (simp del: do_act.simps)
      have "getStartRetries p = getStartRetries (proc s)" using sc(1) by (simp add: getStartRetries_def)
      then have "(\<forall>n. drive pe (n + 4) s = drive pe n ?s5) \<and> at ?s5 = Head \<and> config (proc ?s5) = config (proc s) \<and>
          \<not> stopByUser (proc ?s5) \<and> retryTimes (proc ?s5) = retryTimes (proc s) + 1 \<and>
          retryTimes (proc ?s5) < getStartRetries (proc s) \<and> spawned ?s5 = spawned s \<and> start_id ?s5 = start_id s"
        using d2 d3 d4 sc False run by (simp add: s2_def)
      then show ?thesis by blast
    qed
  qed
qed

lemma drive_from_head:
  assumes "at s = Head" "\<not> stopByUser (proc s)" "getRestartPause (proc s) \<le> 0"
    and "no_panic pe (config (proc s))"
    and "getStartRetries (proc s) - retryTimes (proc s) \<le> int (Suc k)"
  shows "\<exists>t. drive pe (4 * Suc k) s = Ret t \<and> gave_up s t \<and> retryTimes (proc s) < retryTimes (proc t) \<and>
    retryTimes (proc t) \<le> max (retryTimes (proc s) + 1) (getStartRetries (proc s)) \<and>
    (creates pe (config (proc s)) \<longrightarrow> getStartRetries (proc s) \<le> retryTimes (proc t))"
  using assms
proof (induction k arbitrary: s)
  case 0
  consider t :: psys where "gave_up s t" "retryTimes (proc t) = retryTimes (proc s) + 1"
      "creates pe (config (proc s)) \<longrightarrow> getStartRetries (proc s) \<le> retryTimes (proc t)" "\<forall>n. drive pe (n + 4) s = Ret t"
    | s' :: psys where "retryTimes (proc s') = retryTimes (proc s) + 1" "retryTimes (proc s') < getStartRetries (proc s)"
    using drive_attempt[OF 0(1-4)] by blast
  then show ?case
  proof cases
    case 1
    then have "drive pe (4 * Suc 0) s = Ret t" using spec[OF 1(4), of 0] by simp
    with 1(1-3) show ?thesis by (intro exI[of _ t]) simp
  next
    case 2
    with 0(5) show ?thesis by simp
  qed
next
  case (Suc k)
  consider t :: psys where "gave_up s t" "retryTimes (proc t) = retryTimes (proc s) + 1"
      "creates pe (config (proc s)) \<longrightarrow> getStartRetries (proc s) \<le> retryTimes (proc t)" "\<forall>n. drive pe (n + 4) s = Ret t"
    | s' :: psys where "\<forall>n. drive pe (n + 4) s = drive pe n s'" "at s' = Head" "config (proc s') = config (proc s)"
      "\<not> stopByUser (proc s')" "retryTimes (proc s') = retryTimes (proc s) + 1" "spawned s' = spawned s" "start_id s' = start_id s"
      "retryTimes (proc s') < getStartRetries (proc s)"
    using drive_attempt[OF Suc(2-5)] by blast
  then show ?case
  proof cases
    case 1
    have "drive pe (4 * Suc (Suc k)) s = Ret t" using spec[OF 1(4), of "4 * Suc k"] by (simp add: algebra_simps)
    with 1(1-3) show ?thesis by (intro exI[of _ t]) simp
  next
    case 2
    have eq: "getStartRetries (proc s') = getStartRetries (proc s)" "getRestartPause (proc s') = getRestartPause (proc s)"
      using 2(3) by (simp_all add: getStartRetries_def getRestartPause_def)
    obtain t where t: "drive pe (4 * Suc k) s' = Ret t" "gave_up s' t" "retryTimes (proc s') < retryTimes (proc t)"
      "retryTimes (proc t) \<le> max (retryTimes (proc s') + 1) (getStartRetries (proc s))"
      "creates pe (config (proc s)) \<longrightarrow> getStartRetries (proc s) \<le> retryTimes (proc t)"
      using Suc(1)[of s'] 2(2-5) eq Suc(4-6) by auto
    moreover have "drive pe (4 * Suc (Suc k)) s = drive pe (4 * Suc k) s'"
      using spec[OF 2(1), of "4 * Suc k"] by (simp add: algebra_simps)
    moreover have "gave_up s t" using t(2) 2(6,7) by (auto simp: gave_up_def)
    ultimately show ?thesis using 2(5,8) by (intro exI[of _ t]) simp
  qed
qed


text \<open>
  C14. A program that cannot be started ends FATAL: when \<open>cmd.Start()\<close> fails at every attempt, no
  \<open>Stop\<close> comes, there is no restart pause and creating the command does not panic, the run goroutine of a
  fresh \<open>Start\<close> makes at least one and at most \<open>max(1, startretries)\<close> attempts (four steps each, counted
  in \<open>retryTimes\<close>), and exactly that many when the command can always be created. Then \<open>run\<close> returns with
  the process FATAL, no program was started and a caller blocked in \<open>Start(true)\<close> has been released.
\<close>

theorem spawn_failures_end_fatal:
  assumes "at s = AtRun" "fresh s" "\<not> stopByUser (proc s)" "getRestartPause (proc s) \<le> 0"
    and "no_panic pe (config (proc s))"
  shows "\<exists>t. drive pe (Suc (4 * nat (max 1 (getStartRetries (proc s))))) s = Ret t \<and> gave_up s t \<and>
    1 \<le> retryTimes (proc t) \<and> retryTimes (proc t) \<le> max 1 (getStartRetries (proc s)) \<and>
    (creates pe (config (proc s)) \<longrightarrow> retryTimes (proc t) = max 1 (getStartRetries (proc s)))"
proof -
  let ?s1 = "s\<lparr>fresh := False, proc := (proc s)\<lparr>startTime := clock (wld s), retryTimes := 0\<rparr>, at := Head\<rparr>"
  have "do_act pe RunEnter s = Some (Ret ?s1)"
    using assms(1,2) by (simp add: run_enter_def guarded_def isRunning_False Let_def)
  then have e: "drive pe (Suc n) s = drive pe n ?s1" for n
    using assms(1) by (intro drive_step[where a = RunEnter]) simp_all
  have eq: "getStartRetries (proc ?s1) = getStartRetries (proc s)" "getRestartPause (proc ?s1) = getRestartPause (proc s)"
    by (simp_all add: getStartRetries_def getRestartPause_def)
  obtain k where k: "nat (max 1 (getStartRetries (proc s))) = Suc k" by (cases "nat (max 1 (getStartRetries (proc s)))") auto
  have "\<exists>t. drive pe (4 * Suc k) ?s1 = Ret t \<and> gave_up ?s1 t \<and> retryTimes (proc ?s1) < retryTimes (proc t) \<and>
    retryTimes (proc t) \<le> max (retryTimes (proc ?s1) + 1) (getStartRetries (proc ?s1)) \<and>
    (creates pe (config (proc ?s1)) \<longrightarrow> getStartRetries (proc ?s1) \<le> retryTimes (proc t))"
    by (rule drive_from_head) (use assms(3-5) eq k in simp_all)
  then obtain t where "drive pe (4 * Suc k) ?s1 = Ret t" "gave_up s t" "0 < retryTimes (proc t)"
    "retryTimes (proc t) \<le> max 1 (getStartRetries (proc s))"
    "creates pe (config (proc s)) \<longrightarrow> getStartRetries (proc s) \<le> retryTimes (proc t)"
    using eq by (auto simp: gave_up_def)
  then show ?thesis unfolding e k by (intro exI[of _ t]) auto
qed

section \<open>Witnesses\<close>

definition demo_penv :: penv where
  "demo_penv = \<lparr>pe_os = demo_os, pe_users = \<lparr>current_home = None, lookup_home = (\<lambda>_. None), path_join = concat\<rparr>, pe_uid = (\<lambda>_. None), pe_gid = (\<lambda>_. None), pe_input = []\<rparr>"

definition demo_prog_entry :: "(string \<times> string) list \<Rightarrow> ConfigEntry" where
  "demo_prog_entry kvs = \<lparr>ConfigDir = ''.'', ce_Group = ''web'', ce_Name = ''program:web'', keyValues = (''command'', ''ls'') # kvs\<rparr>"

definition demo_psys :: "(string \<times> string) list \<Rightarrow> psys" where
  "demo_psys kvs = \<lparr>proc = NewProcess ''s'' (demo_prog_entry kvs), wld = demo_world, at = Idle, monst = MDone,
     start_id = 0, fresh = False, waiting = [], late_cb = [], killers = [], spawned = 0, kills = []\<rparr>"

lemma demo_psys_reachable: "prc.reachable demo_penv (demo_psys kvs)"
  by (rule prc.start) (auto simp: proc_initial_def demo_psys_def)

text \<open>An outcome of \<open>exec\<close>, as an executable test.\<close>

definition reaches :: "penv \<Rightarrow> act list \<Rightarrow> psys \<Rightarrow> (psys \<Rightarrow> bool) \<Rightarrow> bool" where
  "reaches pe as s P = (case exec pe as s of None \<Rightarrow> False | Some t \<Rightarrow> P t)"

lemma reachesE: "reaches pe as s P \<Longrightarrow> (\<And>t. exec pe as s = Some t \<Longrightarrow> P t \<Longrightarrow> thesis) \<Longrightarrow> thesis"
  by (auto simp: reaches_def split: option.splits)

definition start_acts :: "act list" where
  "start_acts = [CallStart True, RunEnter, RunHead, DoAttempt, DoCreate, DoSpawn (Some 7)]"

theorem process_accessors_safe_witness:
  "\<exists>t. exec demo_penv (start_acts @ [MonitorLoopEnd True, MonitorEnd]) (demo_psys []) = Some t \<and>
     state (proc t) = RUNNING \<and> is_Ret (GetPid (proc t)) \<and> retryTimes (proc t) \<le> 3"
proof -
  have "reaches demo_penv (start_acts @ [MonitorLoopEnd True, MonitorEnd]) (demo_psys [])
      (\<lambda>t. state (proc t) = RUNNING \<and> \<not> lock_held t \<and> getStartRetries (proc t) = 3)"
    by code_simp
  then obtain t where t: "exec demo_penv (start_acts @ [MonitorLoopEnd True, MonitorEnd]) (demo_psys []) = Some t"
    "state (proc t) = RUNNING" "\<not> lock_held t" "getStartRetries (proc t) = 3" by (auto elim: reachesE)
  have "prc.reachable demo_penv t" using demo_psys_reachable t(1) by (rule exec_reachable)
  from process_accessors_safe[OF this t(3)] t show ?thesis by auto
qed

theorem process_life_cycle_witness:
  "\<exists>s t. exec demo_penv (start_acts @ [MonitorLoopEnd True]) (demo_psys []) = Some s \<and>
     do_act demo_penv MonitorEnd s = Some (Ret t) \<and> (state (proc s), state (proc t)) \<in> allowed"
proof -
  have "reaches demo_penv (start_acts @ [MonitorLoopEnd True]) (demo_psys [])
      (\<lambda>s. state (proc s) = STARTING \<and> (case do_act demo_penv MonitorEnd s of Some (Ret t) \<Rightarrow> state (proc t) = RUNNING | _ \<Rightarrow> False))"
    by code_simp
  then obtain s where s: "exec demo_penv (start_acts @ [MonitorLoopEnd True]) (demo_psys []) = Some s"
    and a: "case do_act demo_penv MonitorEnd s of Some (Ret t) \<Rightarrow> state (proc t) = RUNNING | _ \<Rightarrow> False"
    "state (proc s) = STARTING" by (auto elim: reachesE)
  from a obtain t where t: "do_act demo_penv MonitorEnd s = Some (Ret t)" "state (proc t) = RUNNING"
    by (auto split: option.splits go.splits)
  have "prc.reachable demo_penv s" using demo_psys_reachable s by (rule exec_reachable)
  from process_life_cycle[OF this proc_step.act[OF t(1)]] a(2) t s show ?thesis by auto
qed

theorem stopped_stays_stopped_witness:
  "\<exists>s t. exec demo_penv (start_acts @ [MonitorLoopEnd True, MonitorEnd, CallStop]) (demo_psys []) = Some s \<and>
     exec demo_penv [KillerStep 0 False, ProgramExit 9, RunJoin, AfterRun, Leave] s = Some t \<and> spawned t = 1"
proof -
  have "reaches demo_penv (start_acts @ [MonitorLoopEnd True, MonitorEnd, CallStop]) (demo_psys [])
      (\<lambda>s. stopByUser (proc s) \<and> at s = Waiting \<and> spawned s = 1 \<and>
         reaches demo_penv [KillerStep 0 False, ProgramExit 9, RunJoin, AfterRun, Leave] s (\<lambda>t. True))"
    by code_simp
  then obtain s t where s: "exec demo_penv (start_acts @ [MonitorLoopEnd True, MonitorEnd, CallStop]) (demo_psys []) = Some s"
    "stopByUser (proc s)" "at s = Waiting" "spawned s = 1"
    "exec demo_penv [KillerStep 0 False, ProgramExit 9, RunJoin, AfterRun, Leave] s = Some t" by (auto elim!: reachesE)
  from stopped_stays_stopped[OF s(2) _ s(5)] s show ?thesis by auto
qed

theorem stop_in_pause_still_starts_witness:
  "\<exists>s t. exec demo_penv [CallStart False, RunEnter, RunHead, DoAttempt, DoCreate, DoSpawn None, RunHead]
        (demo_psys [(''restartpause'', ''5'')]) = Some s \<and>
     exec demo_penv [CallStop, PauseOver, DoAttempt, DoCreate, DoSpawn (Some 8)] s = Some t \<and>
     stopByUser (proc t) \<and> has_pid (proc t)"
proof -
  let ?as = "[CallStart False, RunEnter, RunHead, DoAttempt, DoCreate, DoSpawn None, RunHead]"
  let ?bs = "[CallStop, PauseOver, DoAttempt, DoCreate, DoSpawn (Some 8)]"
  have "reaches demo_penv ?as (demo_psys [(''restartpause'', ''5'')])
      (\<lambda>s. at s = Pausing \<and> reaches demo_penv ?bs s (\<lambda>t. at t = Waiting))"
    by code_simp
  then obtain s t where s: "exec demo_penv ?as (demo_psys [(''restartpause'', ''5'')]) = Some s" "at s = Pausing"
    "exec demo_penv ?bs s = Some t" "at t = Waiting" by (auto elim!: reachesE)
  from stop_in_pause_still_starts[OF s(2-4)] s(1,3) show ?thesis by blast
qed

theorem startsecs_zero_stuck_witness:
  "\<exists>s t. exec demo_penv (start_acts @ [ProgramExit 1]) (demo_psys [(''startsecs'', ''0'')]) = Some s \<and>
     exec demo_penv [CallStop, KillerStep 0 False, CallStart False] s = Some t \<and>
     at t = Join \<and> state (proc t) = RUNNING \<and> spawned t = 1"
proof -
  let ?bs = "[CallStop, KillerStep 0 False, CallStart False]"
  have "reaches demo_penv (start_acts @ [ProgramExit 1]) (demo_psys [(''startsecs'', ''0'')])
      (\<lambda>s. at s = Join \<and> monst s = MNone \<and> inStart (proc s) \<and> state (proc s) = RUNNING \<and> spawned s = 1 \<and>
         reaches demo_penv ?bs s (\<lambda>t. True))"
    by code_simp
  then obtain s t where s: "exec demo_penv (start_acts @ [ProgramExit 1]) (demo_psys [(''startsecs'', ''0'')]) = Some s"
    "at s = Join" "monst s = MNone" "inStart (proc s)" "state (proc s) = RUNNING" "spawned s = 1"
    "exec demo_penv ?bs s = Some t" by (auto elim!: reachesE)
  from startsecs_zero_stuck[OF s(2-4,7)] s show ?thesis by auto
qed


lemma demo_keys:
  assumes "k \<noteq> ''command''"
  shows "GetString os (demo_prog_entry []) k d = Ret d" "GetStringExpression os (demo_prog_entry []) k d = Ret []"
    "GetEnv os (demo_prog_entry []) k = Ret []" "GetBytes (demo_prog_entry []) k i = i"
    "GetInt (demo_prog_entry []) k i = i" "GetBool (demo_prog_entry []) k b = b"
  using assms
  by (simp_all add: demo_prog_entry_def GetString_def GetStringExpression_def GetEnv_def GetBytes_def GetInt_def GetBool_def)

lemma NewLogger_empty: "NewLogger [] mb nb em w = Ret (NullL em, w)"
  by (simp add: NewLogger_def splitLogFile_def createLogger_def has_prefix_def TrimSpace_def)

lemma demo_expand_empty: "Path_expand (pe_users demo_penv) [] = Some []"
  by code_simp

lemma demo_setLog:
  assumes "config p = demo_prog_entry []"
  shows "is_Ret (setLog demo_penv p w)"
proof -
  have out: "setStdoutLog demo_penv p w = Ret (p\<lparr>StdoutLog := Some (NullL (createStdoutLogEventEmitter p))\<rparr>, w)"
    using assms by (simp add: setStdoutLog_def GetStdoutLogfile_def expand_logfile_def demo_keys demo_expand_empty NewLogger_empty)
  have err: "config q = demo_prog_entry [] \<Longrightarrow> is_Ret (setStderrLog demo_penv q w)" for q
    by (simp add: setStderrLog_def GetStderrLogfile_def expand_logfile_def demo_keys demo_expand_empty NewLogger_empty)
  have "IsProgram (config p)" unfolding assms by code_simp
  then show ?thesis using out err assms by (simp add: setLog_def)
qed

lemma creates_no_panic: "creates pe c \<Longrightarrow> no_panic pe c"
  unfolding creates_def no_panic_def by (metis is_Ret_iff)

lemma demo_creates: "creates demo_penv (demo_prog_entry [])"
  unfolding creates_def
proof (intro allI impI)
  fix p :: Process and w assume p: "config p = demo_prog_entry []"
  have "(case GetStringExpression demo_os (demo_prog_entry []) ''command'' [] of Ret l \<Rightarrow> parseCommand l = Ret (Some [''ls'']) | _ \<Rightarrow> False)"
    by code_simp
  then obtain l where l: "GetStringExpression demo_os (demo_prog_entry []) ''command'' [] = Ret l" "parseCommand l = Ret (Some [''ls''])"
    by (auto split: go.splits)
  have [simp]: "pe_os demo_penv = demo_os" by (simp add: demo_penv_def)
  have prep: "setUser demo_penv (demo_prog_entry []) = Ret (Some None)"
    "\<And>q. config q = demo_prog_entry [] \<Longrightarrow> setProgramRestartChangeMonitor demo_penv a q = Ret q"
    "\<And>q. config q = demo_prog_entry [] \<Longrightarrow> setEnv demo_penv q = Ret (upd_cmd (\<lambda>c. c\<lparr>c_env := os_environ demo_os\<rparr>) q)"
    "\<And>q. config q = demo_prog_entry [] \<Longrightarrow> setDir demo_penv q = Ret q" for a
    by (simp_all add: setUser_def setProgramRestartChangeMonitor_def setEnv_def setDir_def demo_keys)
  have [simp]: "config (upd_cmd f q) = config q" for f q by (simp add: upd_cmd_def)
  have rest: "config q = demo_prog_entry [] \<Longrightarrow> \<exists>p' w'. bindg (setLog demo_penv q w) (\<lambda>(p5, w5). Ret (True, p5\<lparr>stdin := b\<rparr>, w5)) = Ret (True, p', w')" for q b
    using demo_setLog[of q w] by (auto simp: is_Ret_iff)
  show "\<exists>p' w'. createProgramCommand demo_penv p w = Ret (True, p', w')"
    using p l by (simp add: createProgramCommand_def prep rest Let_def)
qed

theorem spawn_failures_end_fatal_witness:
  "\<exists>t. drive demo_penv 13 ((demo_psys [])\<lparr>at := AtRun, fresh := True, start_id := 1, waiting := [1]\<rparr>) = Ret t \<and>
     state (proc t) = FATAL \<and> at t = Returned \<and> 1 \<notin> set (waiting t) \<and> retryTimes (proc t) = 3"
proof -
  let ?s = "(demo_psys [])\<lparr>at := AtRun, fresh := True, start_id := 1, waiting := [1]\<rparr>"
  have "getStartRetries (proc ?s) = 3" "getRestartPause (proc ?s) \<le> 0" "\<not> stopByUser (proc ?s)" by code_simp+
  moreover have "creates demo_penv (config (proc ?s))" using demo_creates by (simp add: demo_psys_def NewProcess_def)
  moreover note creates_no_panic[OF this]
  ultimately show ?thesis using spawn_failures_end_fatal[of ?s demo_penv] by (auto simp: gave_up_def)
qed

end
