(* ===== verification/ProcManager.thy ===== *)
theory ProcManager
  imports ProcessRun
begin

text \<open>
  \<open>subprocess/process/process_manager.go\<close>: the tables of processes and event listeners, the
  lookup by name, group or wildcard, and the iteration over all programs in the order of their
  dependencies, one after the other or in parallel.

  A \<open>Process\<close> and the \<open>ConfigEntry\<close> it was created with are shared by pointer: processes live in
  the heap \<open>sh_heap\<close> (an address is an index, the heap only grows) and hold the address of their
  entry in the configuration \<open>sh_conf\<close>, so that a reload changes what a process reads. Files,
  log daemon and event system are the one \<open>sh_world\<close> of all processes. The goroutines of the
  processes interleave with the calls of the manager: a call of \<open>Start\<close>, \<open>Stop\<close> or \<open>Signal\<close> is a
  small machine (\<open>call_step\<close>) that blocks on the process's lock or on its end, and a schedule
  says which goroutine moves next.
\<close>

section \<open>The tables\<close>

record mproc =
  mp_cfg :: nat
  mp_sys :: psys

record ProcessManager =
  procs :: "(string, nat) gomap"
  pm_listeners :: "(string, nat) gomap"
  sh_heap :: "mproc list"
  sh_conf :: Config
  sh_world :: world

definition NewProcessManager :: "Config \<Rightarrow> world \<Rightarrow> ProcessManager" where
  "NewProcessManager cf w = \<lparr>procs = [], pm_listeners = [], sh_heap = [], sh_conf = cf, sh_world = w\<rparr>"

definition cfg_of :: "ProcessManager \<Rightarrow> nat \<Rightarrow> nat" where
  "cfg_of pm a = mp_cfg (sh_heap pm ! a)"

definition entry_of :: "ProcessManager \<Rightarrow> nat \<Rightarrow> ConfigEntry" where
  "entry_of pm a = cf_at (sh_conf pm) (cfg_of pm a)"

text \<open>The process at an address with the configuration and the world it sees.\<close>

definition proc_view :: "ProcessManager \<Rightarrow> nat \<Rightarrow> psys" where
  "proc_view pm a =
     (let s = mp_sys (sh_heap pm ! a)
      in s\<lparr>proc := (proc s)\<lparr>config := entry_of pm a\<rparr>, wld := sh_world pm\<rparr>)"

definition proc_put :: "ProcessManager \<Rightarrow> nat \<Rightarrow> psys \<Rightarrow> ProcessManager" where
  "proc_put pm a s =
     pm\<lparr>sh_heap := (sh_heap pm)[a := (sh_heap pm ! a)\<lparr>mp_sys := s\<rparr>], sh_world := wld s\<rparr>"

definition new_psys :: "string \<Rightarrow> ConfigEntry \<Rightarrow> world \<Rightarrow> psys" where
  "new_psys sid c w = \<lparr>proc = NewProcess sid c, wld = w, at = Idle, monst = MDone, start_id = 0, fresh = False,
     waiting = [], late_cb = [], killers = [], spawned = 0, kills = []\<rparr>"

definition alloc :: "string \<Rightarrow> nat \<Rightarrow> ProcessManager \<Rightarrow> nat \<times> ProcessManager" where
  "alloc sid cfg pm =
     (length (sh_heap pm),
      pm\<lparr>sh_heap := sh_heap pm @ [\<lparr>mp_cfg = cfg, mp_sys = new_psys sid (cf_at (sh_conf pm) cfg) (sh_world pm)\<rparr>]\<rparr>)"

definition createProgram :: "string \<Rightarrow> nat \<Rightarrow> ProcessManager \<Rightarrow> nat \<times> ProcessManager" where
  "createProgram sid cfg pm =
     (let procName = GetProgramName (cf_at (sh_conf pm) cfg)
      in case map_of (procs pm) procName of
           Some a \<Rightarrow> (a, pm)
         | None \<Rightarrow> (let (a, pm1) = alloc sid cfg pm in (a, pm1\<lparr>procs := AList.update procName a (procs pm1)\<rparr>)))"

definition createEventListener :: "string \<Rightarrow> nat \<Rightarrow> ProcessManager \<Rightarrow> nat \<times> ProcessManager" where
  "createEventListener sid cfg pm =
     (let eventListenerName = GetEventListenerName (cf_at (sh_conf pm) cfg)
      in case map_of (pm_listeners pm) eventListenerName of
           Some a \<Rightarrow> (a, pm)
         | None \<Rightarrow> (let (a, pm1) = alloc sid cfg pm
                    in (a, pm1\<lparr>pm_listeners := AList.update eventListenerName a (pm_listeners pm1)\<rparr>)))"

definition CreateProcess :: "string \<Rightarrow> nat \<Rightarrow> ProcessManager \<Rightarrow> nat option \<times> ProcessManager" where
  "CreateProcess sid cfg pm =
     (if IsProgram (cf_at (sh_conf pm) cfg) then apfst Some (createProgram sid cfg pm)
      else if IsEventListener (cf_at (sh_conf pm) cfg) then apfst Some (createEventListener sid cfg pm)
      else (None, pm))"

definition pm_put :: "string \<Rightarrow> nat \<Rightarrow> ProcessManager \<Rightarrow> ProcessManager" where
  "pm_put name a pm = pm\<lparr>procs := AList.update name a (procs pm)\<rparr>"

definition pm_Remove :: "string \<Rightarrow> ProcessManager \<Rightarrow> nat option \<times> ProcessManager" where
  "pm_Remove name pm = (map_of (procs pm) name, pm\<lparr>procs := AList.delete name (procs pm)\<rparr>)"

definition pm_Clear :: "ProcessManager \<Rightarrow> ProcessManager" where
  "pm_Clear pm = pm\<lparr>procs := []\<rparr>"

section \<open>All processes, in order\<close>

text \<open>The program entries are sorted; a process is found again by the pointer to its entry.\<close>

definition sortProcess :: "os_env \<Rightarrow> sorter \<Rightarrow> ProcessManager \<Rightarrow> nat list \<Rightarrow> nat list go" where
  "sortProcess os so pm ps =
     (let prog_configs = map (cfg_of pm) (filter (\<lambda>a. IsProgram (entry_of pm a)) ps)
      in bindg (SortProgram os (cf_at (sh_conf pm)) (so_passes so) (so_sort so) prog_configs) (\<lambda>cs.
           Ret (concat (map (\<lambda>c. filter (\<lambda>a. cfg_of pm a = c) ps) cs))))"

definition getAllProcess :: "os_env \<Rightarrow> sorter \<Rightarrow> ProcessManager \<Rightarrow> nat list go" where
  "getAllProcess os so pm = sortProcess os so pm (map snd (procs pm))"

definition name_of :: "ProcessManager \<Rightarrow> nat \<Rightarrow> string" where
  "name_of pm a = p_GetName (proc (proc_view pm a))"

definition group_of :: "ProcessManager \<Rightarrow> nat \<Rightarrow> string" where
  "group_of pm a = p_GetGroup (proc (proc_view pm a))"

definition FindMatch :: "os_env \<Rightarrow> sorter \<Rightarrow> string \<Rightarrow> ProcessManager \<Rightarrow> nat list go" where
  "FindMatch os so name pm =
     (if CHR '':'' \<in> set name then
        (let groupName = takeWhile (\<lambda>c. c \<noteq> CHR '':'') name;
             programName = drop (length groupName + 1) name
         in bindg (getAllProcess os so pm) (\<lambda>ps.
              Ret (filter (\<lambda>a. group_of pm a = groupName \<and> (programName = ''*'' \<or> programName = name_of pm a)) ps)))
      else Ret (case map_of (procs pm) name of None \<Rightarrow> [] | Some a \<Rightarrow> [a]))"

definition pm_Find :: "os_env \<Rightarrow> sorter \<Rightarrow> string \<Rightarrow> ProcessManager \<Rightarrow> nat option go" where
  "pm_Find os so name pm =
     bindg (FindMatch os so name pm) (\<lambda>ps.
       Ret (case ps of
              [a] \<Rightarrow> if name_of pm a = name \<or> name = group_of pm a @ '':'' @ name_of pm a then Some a else None
            | _ \<Rightarrow> None))"

section \<open>Calls on processes\<close>

text \<open>An action of a process's own goroutines.\<close>

definition on_proc :: "penv \<Rightarrow> nat \<Rightarrow> act \<Rightarrow> ProcessManager \<Rightarrow> ProcessManager go option" where
  "on_proc pe a x pm =
     (case do_act pe x (proc_view pm a) of
        None \<Rightarrow> None
      | Some r \<Rightarrow> Some (bindg r (\<lambda>s. Ret (proc_put pm a s))))"

datatype pcall = CStart bool | CAwaitStart nat | CStop bool | CAwaitStop | CSignal int bool | CDone

text \<open>
  A goroutine inside \<open>Start(wait)\<close>, \<open>Stop(wait)\<close> or \<open>Signal\<close>. \<open>None\<close>: it is blocked, by \<open>p.lock\<close>, by
  \<open>runCond.Wait\<close> or in the polling loop of \<open>Stop\<close>. \<open>CDone\<close>: nothing (more) to do for this process.
\<close>

definition call_step :: "penv \<Rightarrow> nat \<Rightarrow> pcall \<Rightarrow> ProcessManager \<Rightarrow> (pcall \<times> ProcessManager) go option" where
  "call_step pe a c pm =
     (let s = proc_view pm a
      in case c of
           CStart wait \<Rightarrow>
             if lock_held s then None
             else Some (Ret (if wait \<and> \<not> inStart (proc s) then CAwaitStart (start_id (p_Start wait s)) else CDone,
                             proc_put pm a (p_Start wait s)))
         | CAwaitStart i \<Rightarrow> if i \<in> set (waiting s) then None else Some (Ret (CDone, pm))
         | CStop wait \<Rightarrow>
             if lock_held s then None
             else Some (bindg (p_Stop pe s) (\<lambda>s'. Ret (if wait then CAwaitStop else CDone, proc_put pm a s')))
         | CAwaitStop \<Rightarrow> if lock_held s \<or> active (state (proc s)) then None else Some (Ret (CDone, pm))
         | CSignal sig children \<Rightarrow>
             if lock_held s then None else Some (Ret (CDone, proc_put pm a (send sig children s)))
         | CDone \<Rightarrow> Some (Ret (CDone, pm)))"

text \<open>
  Calls on several processes, in parallel (one goroutine each) or one after the other; a call
  that has returned is \<open>finished\<close>, and \<open>seen\<close> is its process at that moment.
\<close>

record batch =
  par :: bool
  todo :: "(nat \<times> pcall) list"
  finished :: "nat list"
  seen :: "psys list"

datatype sched = Env nat act | Call nat

definition batch_call :: "penv \<Rightarrow> nat \<Rightarrow> batch \<times> ProcessManager \<Rightarrow> (batch \<times> ProcessManager) go" where
  "batch_call pe k bp =
     (let (b, pm) = bp
      in if k < length (todo b) \<and> (par b \<or> k = 0) then
           (let (a, c) = todo b ! k
            in case call_step pe a c pm of
                 None \<Rightarrow> Ret (b, pm)
               | Some r \<Rightarrow> bindg r (\<lambda>(c', pm').
                   Ret (if c' = CDone then b\<lparr>todo := drop_nth k (todo b), finished := finished b @ [a], seen := seen b @ [proc_view pm' a]\<rparr>
                        else b\<lparr>todo := (todo b)[k := (a, c')]\<rparr>, pm')))
         else Ret (b, pm))"

definition batch_move :: "penv \<Rightarrow> batch \<times> ProcessManager \<Rightarrow> sched \<Rightarrow> (batch \<times> ProcessManager) go" where
  "batch_move pe bp mv =
     (case mv of
        Env a x \<Rightarrow>
          if a < length (sh_heap (snd bp)) then
            (case on_proc pe a x (snd bp) of None \<Rightarrow> Ret bp | Some r \<Rightarrow> bindg r (\<lambda>pm'. Ret (fst bp, pm')))
          else Ret bp
      | Call k \<Rightarrow> batch_call pe k bp)"

definition run_batch :: "penv \<Rightarrow> bool \<Rightarrow> (nat \<times> pcall) list \<Rightarrow> sched list \<Rightarrow> ProcessManager \<Rightarrow> (batch \<times> ProcessManager) go" where
  "run_batch pe p calls sch pm = foldg (batch_move pe) (\<lparr>par = p, todo = calls, finished = [], seen = []\<rparr>, pm) sch"

section \<open>Iterations of the manager\<close>

definition StartAutoStartPrograms :: "penv \<Rightarrow> sorter \<Rightarrow> sched list \<Rightarrow> ProcessManager \<Rightarrow> (batch \<times> ProcessManager) go" where
  "StartAutoStartPrograms pe so sch pm =
     bindg (getAllProcess (pe_os pe) so pm) (\<lambda>ps.
     bindg (mapg (\<lambda>a. isAutoStart (pe_os pe) (proc (proc_view pm a))) ps) (\<lambda>autos.
       run_batch pe False (map (\<lambda>(a, b). (a, CStart False)) (filter snd (zip ps autos))) sch pm))"

definition AsyncForEachProcess ::
  "penv \<Rightarrow> sorter \<Rightarrow> (ProcessManager \<Rightarrow> nat \<Rightarrow> pcall) \<Rightarrow> sched list \<Rightarrow> ProcessManager \<Rightarrow> (batch \<times> ProcessManager) go" where
  "AsyncForEachProcess pe so procFunc sch pm =
     bindg (getAllProcess (pe_os pe) so pm) (\<lambda>ps. run_batch pe True (map (\<lambda>a. (a, procFunc pm a)) ps) sch pm)"

definition pm_StopAllProcesses :: "penv \<Rightarrow> sorter \<Rightarrow> sched list \<Rightarrow> ProcessManager \<Rightarrow> (batch \<times> ProcessManager) go" where
  "pm_StopAllProcesses pe so sch pm = AsyncForEachProcess pe so (\<lambda>_ _. CStop True) sch pm"


section \<open>The tables as maps\<close>

interpretation cft: name_deletion "\<lambda>c. map_of (cf_entries c)" "\<lambda>k c. RemoveProgram c k"
  by unfold_locales (simp add: RemoveProgram_def delete_conv')

interpretation pmt: name_table "\<lambda>pm. map_of (procs pm)" "\<lambda>k pm. snd (pm_Remove k pm)" pm_put
  by unfold_locales (simp_all add: pm_Remove_def pm_put_def delete_conv' update_conv')

lemma createProgram_lookup:
  "map_of (procs (snd (createProgram sid cfg pm))) =
     (let n = GetProgramName (cf_at (sh_conf pm) cfg)
      in case map_of (procs pm) n of Some a \<Rightarrow> map_of (procs pm) | None \<Rightarrow> (map_of (procs pm))(n \<mapsto> length (sh_heap pm)))"
  by (auto simp: createProgram_def alloc_def Let_def update_conv' split: option.splits)

text \<open>
  A well-formed manager: one process per name, at a valid address, holding the very entry that
  the configuration has under that name; event listeners at valid addresses.
\<close>

definition pm_wf :: "ProcessManager \<Rightarrow> bool" where
  "pm_wf pm \<longleftrightarrow> cf_wf (sh_conf pm) \<and> distinct (map fst (procs pm)) \<and>
     (\<forall>(k, a)\<in>set (procs pm). a < length (sh_heap pm) \<and> map_of (cf_entries (sh_conf pm)) k = Some (cfg_of pm a)) \<and>
     (\<forall>a\<in>snd ` set (pm_listeners pm). a < length (sh_heap pm))"

lemma cf_wf_key:
  assumes "cf_wf c" "map_of (cf_entries c) k = Some a"
  shows "a < length (cf_heap c)" "named_by k (ce_Name (cf_at c a))"
  using assms by (auto simp: cf_wf_def cf_at_def dest!: map_of_SomeD)

lemma cf_wf_inj: "cf_wf c \<Longrightarrow> map_of (cf_entries c) k = Some a \<Longrightarrow> map_of (cf_entries c) k' = Some a \<Longrightarrow> k = k'"
  by (force simp: cf_wf_def distinct_map inj_on_def dest!: map_of_SomeD)

lemma pm_wf_entry:
  assumes "pm_wf pm" "(k, a) \<in> set (procs pm)"
  shows "named_by k (ce_Name (entry_of pm a))" "a < length (sh_heap pm)" "map_of (cf_entries (sh_conf pm)) k = Some (cfg_of pm a)"
  using assms cf_wf_key(2)[of "sh_conf pm" k "cfg_of pm a"] by (auto simp: pm_wf_def entry_of_def)

lemma pm_wf_cfg_inj:
  assumes wf: "pm_wf pm"
  shows "inj_on (cfg_of pm) (snd ` set (procs pm))" "distinct (map snd (procs pm))"
proof -
  have key: "k = k'" if "(k, a) \<in> set (procs pm)" "(k', a') \<in> set (procs pm)" "cfg_of pm a = cfg_of pm a'" for k k' a a'
    using pm_wf_entry(3)[OF wf] that cf_wf_inj[of "sh_conf pm" k _ k'] wf by (metis pm_wf_def)
  have d: "distinct (map fst (procs pm))" using wf by (simp add: pm_wf_def)
  show "inj_on (cfg_of pm) (snd ` set (procs pm))"
    using key d by (auto intro!: inj_onI) (metis eq_key_imp_eq_value)
  show "distinct (map snd (procs pm))"
    using d key by (auto simp: distinct_map intro!: inj_onI)
qed

section \<open>The order of the iteration\<close>

lemma concat_filter_image:
  assumes "inj_on f (set xs)" "distinct xs" "set ys \<subseteq> f ` set xs"
  shows "concat (map (\<lambda>y. filter (\<lambda>x. f x = y) xs) ys) = map (the_inv_into (set xs) f) ys"
proof -
  have "filter (\<lambda>x. f x = f a) xs = [a]" if "a \<in> set xs" for a
  proof -
    have "filter (\<lambda>x. f x = f a) xs = filter (\<lambda>x. x = a) xs"
      by (rule filter_cong) (use assms(1) that in \<open>auto dest: inj_onD\<close>)
    also have "\<dots> = [a]" using assms(2) that by (induction xs) (auto simp: filter_empty_conv)
    finally show ?thesis .
  qed
  then have "filter (\<lambda>x. f x = y) xs = [the_inv_into (set xs) f y]" if "y \<in> set ys" for y
    using assms that by (auto simp: the_inv_into_f_f subset_iff)
  then have "map (\<lambda>y. filter (\<lambda>x. f x = y) xs) ys = map (\<lambda>y. [the_inv_into (set xs) f y]) ys" by simp
  then show ?thesis by (metis concat_map_singleton)
qed

lemma sortProcess_spec:
  assumes inj: "inj_on (cfg_of pm) (set ps)" and dist: "distinct ps"
    and so: "is_range (so_passes so)" "sorts_by (priority_of \<circ> cf_at (sh_conf pm)) (so_sort so)"
    and g: "initDepends os (cf_at (sh_conf pm)) (map (cfg_of pm) (filter (\<lambda>a. IsProgram (entry_of pm a)) ps)) = Ret g"
      "acyclic (depends g)"
  shows "\<exists>qs. sortProcess os so pm ps = Ret qs \<and> mset qs = mset (filter (\<lambda>a. IsProgram (entry_of pm a)) ps) \<and>
    (\<forall>i<length qs. \<forall>q\<in>set ps. IsProgram (entry_of pm q) \<and>
       GetProgramName (entry_of pm q) \<in> set (deps g (GetProgramName (entry_of pm (qs ! i)))) \<longrightarrow> q \<in> set (take i qs))"
proof -
  let ?P = "\<lambda>a. IsProgram (entry_of pm a)"
  define cs where "cs = map (cfg_of pm) (filter ?P ps)"
  define h where "h = the_inv_into (set ps) (cfg_of pm)"
  obtain fr rr where s: "SortProgram os (cf_at (sh_conf pm)) (so_passes so) (so_sort so) cs = Ret (fr @ rr)"
    "mset (fr @ rr) = mset (filter (\<lambda>p. IsProgram (cf_at (sh_conf pm) p)) cs)"
    and ord: "\<forall>i<length (fr @ rr). \<forall>q\<in>set cs. IsProgram (cf_at (sh_conf pm) q) \<and>
       GetProgramName (cf_at (sh_conf pm) q) \<in> set (deps g (GetProgramName (cf_at (sh_conf pm) ((fr @ rr) ! i)))) \<longrightarrow>
       q \<in> set (take i (fr @ rr))"
    using SortProgram_spec[OF so(1) so(2) g(1)[folded cs_def] g(2)] by blast
  define r where "r = fr @ rr"
  have all: "filter (\<lambda>p. IsProgram (cf_at (sh_conf pm) p)) cs = cs"
    by (auto simp: cs_def entry_of_def filter_id_conv)
  have mr: "mset r = mset cs" using s(2) all by (simp add: r_def)
  have rset: "set r = cfg_of pm ` set (filter ?P ps)" using mset_eq_setD[OF mr] by (simp add: cs_def)
  have res: "sortProcess os so pm ps = Ret (map h r)"
    using s(1) concat_filter_image[OF inj dist, of r] rset
    by (simp add: sortProcess_def Let_def cs_def[symmetric] r_def[symmetric] h_def) blast
  have hinv: "h (cfg_of pm a) = a" if "a \<in> set ps" for a using inj that by (simp add: h_def the_inv_into_f_f)
  have "mset (map h r) = image_mset h (mset cs)" using mr by (simp add: mset_map)
  also have "\<dots> = mset (map (\<lambda>a. h (cfg_of pm a)) (filter ?P ps))" by (simp add: cs_def mset_map image_mset.compositionality o_def)
  also have "map (\<lambda>a. h (cfg_of pm a)) (filter ?P ps) = filter ?P ps" by (rule map_idI) (simp add: hinv)
  finally have m: "mset (map h r) = mset (filter ?P ps)" .
  have "q \<in> set (take i (map h r))" if i: "i < length (map h r)" and q: "q \<in> set ps" "?P q"
      "GetProgramName (entry_of pm q) \<in> set (deps g (GetProgramName (entry_of pm (map h r ! i))))" for i q
  proof -
    have "r ! i \<in> set r" using i by simp
    then obtain a where a: "a \<in> set ps" "r ! i = cfg_of pm a" using rset by auto
    have "cfg_of pm q \<in> set cs" using q by (simp add: cs_def)
    then have "cfg_of pm q \<in> set (take i r)"
      using ord i q(2,3) a hinv[OF a(1)] by (simp add: r_def[symmetric] entry_of_def)
    then have "h (cfg_of pm q) \<in> set (take i (map h r))" by (auto simp: take_map)
    then show ?thesis using hinv[OF q(1)] by simp
  qed
  then show ?thesis using res m by blast
qed


section \<open>Calls keep the processes sound\<close>

definition all_pinv :: "ProcessManager \<Rightarrow> bool" where
  "all_pinv pm \<longleftrightarrow> (\<forall>m\<in>set (sh_heap pm). pinv False (mp_sys m))"

lemma has_pid_config [simp]: "has_pid (p\<lparr>config := c\<rparr>) = has_pid p"
  by (simp add: has_pid_def cmd_pid_def)

lemma cmd_ok_config [simp]: "cmd_ok x (p\<lparr>config := c\<rparr>) = cmd_ok x p"
  by (cases x) simp_all

lemma pinv_proc_view: "pinv False (proc_view pm a) \<longleftrightarrow> pinv False (mp_sys (sh_heap pm ! a))"
  by (simp add: proc_view_def pinv_def Let_def)

lemma proc_view_at [simp]: "lock_held (proc_view pm a) = lock_held (mp_sys (sh_heap pm ! a))"
  "at (proc_view pm a) = at (mp_sys (sh_heap pm ! a))" "waiting (proc_view pm a) = waiting (mp_sys (sh_heap pm ! a))"
  "state (proc (proc_view pm a)) = state (proc (mp_sys (sh_heap pm ! a)))"
  "inStart (proc (proc_view pm a)) = inStart (proc (mp_sys (sh_heap pm ! a)))"
  by (simp_all add: proc_view_def lock_held_def Let_def)

lemma all_pinv_view: "all_pinv pm \<Longrightarrow> a < length (sh_heap pm) \<Longrightarrow> pinv False (proc_view pm a)"
  by (simp add: all_pinv_def pinv_proc_view)

lemma all_pinv_put: "all_pinv pm \<Longrightarrow> pinv False s \<Longrightarrow> all_pinv (proc_put pm a s)"
  unfolding all_pinv_def proc_put_def by (auto dest!: set_update_subset_insert[THEN subsetD])

lemma proc_put_frame [simp]:
  "procs (proc_put pm a s) = procs pm" "pm_listeners (proc_put pm a s) = pm_listeners pm"
  "sh_conf (proc_put pm a s) = sh_conf pm" "length (sh_heap (proc_put pm a s)) = length (sh_heap pm)"
  "sh_world (proc_put pm a s) = wld s"
  by (simp_all add: proc_put_def)

lemma cfg_of_put [simp]: "cfg_of (proc_put pm a s) b = cfg_of pm b"
  by (cases "a = b"; cases "b < length (sh_heap pm)") (simp_all add: cfg_of_def proc_put_def list_update_beyond)

lemma pm_wf_put [simp]: "pm_wf (proc_put pm a s) = pm_wf pm"
  by (simp add: pm_wf_def)

lemma send_pinv: "pinv tr s \<Longrightarrow> pinv tr (send sig grp s)"
  by (rule pinv_control, assumption) (simp_all add: send_def)

text \<open>What the calls and the goroutines of the processes leave alone.\<close>

definition same_tables :: "ProcessManager \<Rightarrow> ProcessManager \<Rightarrow> bool" where
  "same_tables pm pm' \<longleftrightarrow> procs pm' = procs pm \<and> pm_listeners pm' = pm_listeners pm \<and> sh_conf pm' = sh_conf pm \<and>
     length (sh_heap pm') = length (sh_heap pm) \<and> cfg_of pm' = cfg_of pm"

lemma same_tables_refl [simp]: "same_tables pm pm"
  by (simp add: same_tables_def)

lemma same_tables_put [simp]: "same_tables pm (proc_put pm a s)"
  by (simp add: same_tables_def fun_eq_iff)

lemma same_tables_trans: "same_tables pm pm' \<Longrightarrow> same_tables pm' pm'' \<Longrightarrow> same_tables pm pm''"
  by (simp add: same_tables_def)

lemma same_tables_wf: "same_tables pm pm' \<Longrightarrow> pm_wf pm' = pm_wf pm"
  by (simp add: same_tables_def pm_wf_def)

lemma same_tables_entry: "same_tables pm pm' \<Longrightarrow> entry_of pm' = entry_of pm"
  by (simp add: same_tables_def entry_of_def fun_eq_iff)

lemma on_proc_frame:
  assumes "on_proc pe a x pm = Some (Ret pm')" "a < length (sh_heap pm)"
  shows "same_tables pm pm'" "all_pinv pm \<Longrightarrow> all_pinv pm'"
proof -
  obtain s where s: "do_act pe x (proc_view pm a) = Some (Ret s)" "pm' = proc_put pm a s"
    using assms(1) by (auto simp: on_proc_def bindg_eq_Ret split: option.splits)
  then show "same_tables pm pm'" by simp
  show "all_pinv pm'" if "all_pinv pm"
    using s pinv_act[OF all_pinv_view[OF that assms(2)] s(1)] that by (simp add: all_pinv_put)
qed

lemma call_step_frame:
  assumes "call_step pe a c pm = Some (Ret (c', pm'))" "a < length (sh_heap pm)"
  shows "same_tables pm pm'" "all_pinv pm \<Longrightarrow> all_pinv pm'"
proof -
  have "pm' = pm \<or> (\<exists>s. pm' = proc_put pm a s \<and> (all_pinv pm \<longrightarrow> pinv False s))"
  proof (cases c)
    case (CStart w)
    with assms show ?thesis
      by (auto simp: call_step_def Let_def split: if_splits intro!: exI[of _ "p_Start w (proc_view pm a)"] pinv_start all_pinv_view)
  next
    case (CStop w)
    with assms obtain s where "p_Stop pe (proc_view pm a) = Ret s" "pm' = proc_put pm a s"
      by (auto simp: call_step_def Let_def bindg_eq_Ret split: if_splits)
    then show ?thesis using pinv_stop all_pinv_view[OF _ assms(2)] by blast
  next
    case (CSignal sig ch)
    with assms show ?thesis
      by (auto simp: call_step_def Let_def split: if_splits intro!: exI[of _ "send sig ch (proc_view pm a)"] send_pinv all_pinv_view)
  qed (use assms in \<open>auto simp: call_step_def Let_def split: if_splits\<close>)
  then show "same_tables pm pm'" "all_pinv pm \<Longrightarrow> all_pinv pm'" by (auto intro: all_pinv_put)
qed

text \<open>A batch: every call is either still to be made or finished, and each is finished once.\<close>

definition batch_procs :: "batch \<Rightarrow> nat multiset" where
  "batch_procs b = mset (map fst (todo b)) + mset (finished b)"

definition batch_ok :: "nat multiset \<Rightarrow> ProcessManager \<Rightarrow> batch \<times> ProcessManager \<Rightarrow> bool" where
  "batch_ok A pm0 bp \<longleftrightarrow> batch_procs (fst bp) = A \<and> same_tables pm0 (snd bp) \<and> (all_pinv pm0 \<longrightarrow> all_pinv (snd bp)) \<and>
     (\<forall>a\<in>set (map fst (todo (fst bp))). a < length (sh_heap pm0))"

lemma mset_drop_nth: "k < length xs \<Longrightarrow> add_mset (xs ! k) (mset (drop_nth k xs)) = mset xs"
  unfolding drop_nth_def by (subst (3) id_take_nth_drop) simp_all

lemma batch_call_ok:
  assumes ok: "batch_ok A pm0 (b, pm)" and r: "batch_call pe k (b, pm) = Ret bp'"
  shows "batch_ok A pm0 bp'"
proof (cases "k < length (todo b) \<and> (par b \<or> k = 0)")
  case True
  obtain a c where ac: "todo b ! k = (a, c)" by fastforce
  show ?thesis
  proof (cases "call_step pe a c pm")
    case None
    with True ac r ok show ?thesis by (simp add: batch_call_def)
  next
    case (Some x)
    with True ac r obtain c' pm' where x: "call_step pe a c pm = Some (Ret (c', pm'))"
      and bp': "bp' = (if c' = CDone then b\<lparr>todo := drop_nth k (todo b), finished := finished b @ [a], seen := seen b @ [proc_view pm' a]\<rparr>
                       else b\<lparr>todo := (todo b)[k := (a, c')]\<rparr>, pm')"
      by (auto simp: batch_call_def bindg_eq_Ret)
    have mem: "(a, c) \<in> set (todo b)" using True ac nth_mem by metis
    then have len: "a < length (sh_heap pm)" using ok by (force simp: batch_ok_def same_tables_def)
    have d: "mset (map fst (todo b)) = add_mset a (mset (map fst (drop_nth k (todo b))))"
      using mset_drop_nth[of k "todo b"] True ac by (metis fst_conv image_mset_add_mset mset_map)
    have u: "map fst ((todo b)[k := (a, c')]) = map fst (todo b)"
      using True ac by (metis fst_conv list_update_id map_update nth_map)
    have sub: "set (map fst (drop_nth k (todo b))) \<subseteq> set (map fst (todo b))"
      using d by (metis set_mset_add_mset_insert set_mset_mset subset_insertI)
    from call_step_frame[OF x len] ok bp' d u sub show ?thesis
      by (auto simp: batch_ok_def batch_procs_def simp del: set_map mset_map intro: same_tables_trans)
  qed
qed (use r ok in \<open>auto simp: batch_call_def split: if_splits\<close>)

lemma batch_move_ok:
  assumes ok: "batch_ok A pm0 bp" and r: "batch_move pe bp mv = Ret bp'"
  shows "batch_ok A pm0 bp'"
proof (cases mv)
  case (Env a x)
  show ?thesis
  proof (cases "a < length (sh_heap (snd bp)) \<and> on_proc pe a x (snd bp) \<noteq> None")
    case True
    with r Env obtain pm' where "on_proc pe a x (snd bp) = Some (Ret pm')" "bp' = (fst bp, pm')"
      by (auto simp: batch_move_def bindg_eq_Ret)
    with on_proc_frame[of pe a x "snd bp" pm'] True ok show ?thesis
      by (auto simp: batch_ok_def intro: same_tables_trans)
  qed (use r Env ok in \<open>auto simp: batch_move_def split: if_splits\<close>)
next
  case (Call k)
  with r ok show ?thesis by (cases bp) (auto simp: batch_move_def intro: batch_call_ok)
qed

lemma run_batch_ok:
  assumes "run_batch pe p calls sch pm = Ret (b, pm')" "\<forall>a\<in>set (map fst calls). a < length (sh_heap pm)"
  shows "batch_ok (mset (map fst calls)) pm (b, pm')"
proof (rule foldg_inv[OF assms(1)[unfolded run_batch_def]])
  show "batch_ok (mset (map fst calls)) pm (\<lparr>par = p, todo = calls, finished = [], seen = []\<rparr>, pm)"
    using assms(2) by (simp add: batch_ok_def batch_procs_def)
qed (rule batch_move_ok)


section \<open>Properties\<close>

text \<open>The manager's dependency relation is acyclic, and ranges and sorts do what Go promises.\<close>

definition prog_cfgs :: "ProcessManager \<Rightarrow> nat list" where
  "prog_cfgs pm = map (cfg_of pm) (filter (\<lambda>a. IsProgram (entry_of pm a)) (map snd (procs pm)))"

definition orderly :: "os_env \<Rightarrow> sorter \<Rightarrow> ProcessManager \<Rightarrow> graph \<Rightarrow> bool" where
  "orderly os so pm g \<longleftrightarrow> pm_wf pm \<and> is_range (so_passes so) \<and> sorts_by (priority_of \<circ> cf_at (sh_conf pm)) (so_sort so) \<and>
     initDepends os (cf_at (sh_conf pm)) (prog_cfgs pm) = Ret g \<and> acyclic (depends g)"

lemma getAllProcess_spec:
  assumes "orderly os so pm g"
  shows "\<exists>ps. getAllProcess os so pm = Ret ps \<and> distinct ps \<and>
    set ps = {a \<in> snd ` set (procs pm). IsProgram (entry_of pm a)} \<and>
    (\<forall>i<length ps. \<forall>q\<in>snd ` set (procs pm). IsProgram (entry_of pm q) \<and>
       GetProgramName (entry_of pm q) \<in> set (deps g (GetProgramName (entry_of pm (ps ! i)))) \<longrightarrow> q \<in> set (take i ps))"
proof -
  have wf: "pm_wf pm" and r: "is_range (so_passes so)" "sorts_by (priority_of \<circ> cf_at (sh_conf pm)) (so_sort so)"
    and g: "initDepends os (cf_at (sh_conf pm)) (prog_cfgs pm) = Ret g" "acyclic (depends g)"
    using assms by (simp_all add: orderly_def)
  have inj: "inj_on (cfg_of pm) (set (map snd (procs pm)))" and d: "distinct (map snd (procs pm))"
    using pm_wf_cfg_inj[OF wf] by simp_all
  obtain qs where q: "sortProcess os so pm (map snd (procs pm)) = Ret qs"
    "mset qs = mset (filter (\<lambda>a. IsProgram (entry_of pm a)) (map snd (procs pm)))"
    "\<forall>i<length qs. \<forall>q\<in>set (map snd (procs pm)). IsProgram (entry_of pm q) \<and>
       GetProgramName (entry_of pm q) \<in> set (deps g (GetProgramName (entry_of pm (qs ! i)))) \<longrightarrow> q \<in> set (take i qs)"
    using sortProcess_spec[OF inj d r g(1)[unfolded prog_cfgs_def] g(2)] by blast
  have "distinct qs" using q(2) d by (metis distinct_filter mset_eq_imp_distinct_iff)
  moreover have "set qs = {a \<in> snd ` set (procs pm). IsProgram (entry_of pm a)}"
    using mset_eq_setD[OF q(2)] by auto
  ultimately show ?thesis using q(1,3) by (intro exI[of _ qs]) (simp add: getAllProcess_def)
qed

text \<open>
  C9. Every iteration of the manager (start, stop, list, signal all programs) visits each managed
  program exactly once and never before a managed program it depends on: in a well-formed
  manager with an acyclic \<open>depends_on\<close> relation \<open>getAllProcess\<close> returns, without repetition, the
  processes whose entry is a program, in such an order.
\<close>

theorem getAllProcess_order:
  assumes "orderly os so pm g"
  shows "\<exists>ps. getAllProcess os so pm = Ret ps \<and> distinct ps \<and>
    set ps = {a \<in> snd ` set (procs pm). IsProgram (entry_of pm a)} \<and>
    (\<forall>i<length ps. \<forall>q\<in>snd ` set (procs pm). IsProgram (entry_of pm q) \<and>
       GetProgramName (entry_of pm q) \<in> set (deps g (GetProgramName (entry_of pm (ps ! i)))) \<longrightarrow> q \<in> set (take i ps))"
  using assms by (rule getAllProcess_spec)

lemma name_of_program:
  "named_by k (ce_Name (entry_of pm a)) \<Longrightarrow> IsProgram (entry_of pm a) \<Longrightarrow> name_of pm a = k"
  using named_by_key_inj[of "entry_of pm a" k] by (simp add: name_of_def proc_view_def p_GetName_def Let_def)

lemma group_of_entry: "group_of pm a = ce_Group (entry_of pm a)"
  by (simp add: group_of_def proc_view_def p_GetGroup_def Let_def)

text \<open>
  Lookup by full name and by group: in a well-formed manager, for a managed program \<open>k\<close> of the
  group \<open>g\<close> (a name without a colon) \<open>Find("g:k")\<close> returns that process and no other, and
  \<open>FindMatch("g:*")\<close> returns, in starting order and without repetition, exactly the programs of
  the group.
\<close>

theorem Find_in_group:
  assumes ord: "orderly os so pm g" and a: "(k, a) \<in> set (procs pm)" "IsProgram (entry_of pm a)"
    and grp: "CHR '':'' \<notin> set (group_of pm a)" and k: "k \<noteq> ''*''"
  shows "pm_Find os so (group_of pm a @ '':'' @ k) pm = Ret (Some a) \<and>
    (\<exists>ps. FindMatch os so (group_of pm a @ '':*'') pm = Ret ps \<and> distinct ps \<and>
      set ps = {b \<in> snd ` set (procs pm). IsProgram (entry_of pm b) \<and> group_of pm b = group_of pm a})"
proof -
  obtain ps where ps: "getAllProcess os so pm = Ret ps" "distinct ps"
    "set ps = {a \<in> snd ` set (procs pm). IsProgram (entry_of pm a)}"
    using getAllProcess_spec[OF ord] by blast
  have wf: "pm_wf pm" using ord by (simp add: orderly_def)
  have nm: "name_of pm b = k'" if "(k', b) \<in> set (procs pm)" "IsProgram (entry_of pm b)" for k' b
    using pm_wf_entry(1)[OF wf that(1)] that(2) by (rule name_of_program)
  have take: "takeWhile (\<lambda>c. c \<noteq> CHR '':'') (group_of pm a @ '':'' @ x) = group_of pm a" for x
    using grp by (subst takeWhile_append2) auto
  have only: "b = a" if "b \<in> set ps" "name_of pm b = k" for b
  proof -
    have b: "b \<in> snd ` set (procs pm)" "IsProgram (entry_of pm b)" using that(1) unfolding ps(3) by simp_all
    obtain k' where k': "(k', b) \<in> set (procs pm)" using b(1) by force
    with nm[OF k' b(2)] that(2) have "(k, b) \<in> set (procs pm)" by simp
    then show "b = a" using a(1) wf by (auto simp: pm_wf_def dest: eq_key_imp_eq_value)
  qed
  have mem: "a \<in> set ps" using a ps(3) by force
  have "filter (\<lambda>b. group_of pm b = group_of pm a \<and> (k = ''*'' \<or> k = name_of pm b)) ps = filter (\<lambda>b. b = a) ps"
    by (rule filter_cong) (use only nm[OF a] k in auto)
  also have "\<dots> = [a]" using ps(2) mem by (induction ps) (auto simp: filter_empty_conv)
  finally have "FindMatch os so (group_of pm a @ '':'' @ k) pm = Ret [a]"
    using take[of k] ps(1) by (simp add: FindMatch_def Let_def)
  then have "pm_Find os so (group_of pm a @ '':'' @ k) pm = Ret (Some a)"
    using nm[OF a] by (simp add: pm_Find_def)
  moreover have "FindMatch os so (group_of pm a @ '':*'') pm = Ret (filter (\<lambda>b. group_of pm b = group_of pm a) ps)"
    using take[of "''*''"] ps(1) by (simp add: FindMatch_def Let_def)
  ultimately show ?thesis using ps(2,3) by auto
qed

lemma start_seq:
  assumes "distinct as" "\<forall>a\<in>set as. a < length (sh_heap pm) \<and> \<not> lock_held (mp_sys (sh_heap pm ! a))"
  shows "\<exists>sn'. foldg (batch_move pe) (\<lparr>par = False, todo = map (\<lambda>a. (a, CStart False)) as, finished = fs, seen = sn\<rparr>, pm)
      (replicate (length as) (Call 0)) =
    Ret (\<lparr>par = False, todo = [], finished = fs @ as, seen = sn'\<rparr>, foldl (\<lambda>pm a. proc_put pm a (p_Start False (proc_view pm a))) pm as)"
  using assms
proof (induction "as" arbitrary: pm fs sn)
  case (Cons a "as")
  let ?pm = "proc_put pm a (p_Start False (proc_view pm a))"
  have "batch_move pe (\<lparr>par = False, todo = map (\<lambda>a. (a, CStart False)) (a # as), finished = fs, seen = sn\<rparr>, pm) (Call 0) =
      Ret (\<lparr>par = False, todo = map (\<lambda>a. (a, CStart False)) as, finished = fs @ [a], seen = sn @ [proc_view ?pm a]\<rparr>, ?pm)"
    using Cons.prems(2) by (simp add: batch_move_def batch_call_def call_step_def drop_nth_def Let_def)
  moreover have "\<forall>b\<in>set as. b < length (sh_heap ?pm) \<and> \<not> lock_held (mp_sys (sh_heap ?pm ! b))"
    using Cons.prems by (auto simp: proc_put_def nth_list_update)
  ultimately show ?case using Cons.IH[of ?pm "fs @ [a]" "sn @ [proc_view ?pm a]"] Cons.prems(1) by simp
qed simp

lemma start_effect:
  assumes "distinct as" "\<forall>a\<in>set as. a < length (sh_heap pm)" "b < length (sh_heap pm)"
  shows "mp_sys (sh_heap (foldl (\<lambda>pm a. proc_put pm a (p_Start False (proc_view pm a))) pm as) ! b) =
    (if b \<in> set as then p_Start False (mp_sys (sh_heap pm ! b)\<lparr>proc := (proc (mp_sys (sh_heap pm ! b)))\<lparr>config := entry_of pm b\<rparr>, wld := sh_world pm\<rparr>)
     else mp_sys (sh_heap pm ! b))"
  using assms
proof (induction "as" arbitrary: pm)
  case (Cons a "as")
  let ?pm = "proc_put pm a (p_Start False (proc_view pm a))"
  have w: "wld (p_Start False s) = wld s" for s by (simp add: p_Start_def)
  have e: "entry_of ?pm b = entry_of pm b" "sh_world ?pm = sh_world pm"
    using same_tables_entry[OF same_tables_put] by (simp_all add: w) (simp add: proc_view_def Let_def)
  have "mp_sys (sh_heap ?pm ! b) = (if a = b then p_Start False (proc_view pm a) else mp_sys (sh_heap pm ! b))"
    using Cons.prems(2,3) by (simp add: proc_put_def nth_list_update)
  with Cons.IH[of ?pm] Cons.prems e show ?case by (auto simp: proc_view_def Let_def)
qed simp



section \<open>Witnesses\<close>

definition demo_conf :: Config where
  "demo_conf = (NewConfig [])\<lparr>cf_heap := [demo_prog ''web'' [(''depends_on'', ''db'')], demo_prog ''db'' [(''autostart'', ''false'')]],
     cf_entries := [(''web'', 0), (''db'', 1)]\<rparr>"

definition demo_pm :: ProcessManager where
  "demo_pm = snd (CreateProcess ''s'' 1 (snd (CreateProcess ''s'' 0 (NewProcessManager demo_conf demo_world))))"

definition demo_so :: sorter where
  "demo_so = \<lparr>so_passes = (\<lambda>k xs. xs), so_sort = sort_key (priority_of \<circ> cf_at demo_conf)\<rparr>"

lemma demo_orderly: "orderly demo_os demo_so demo_pm [(''web'', [''db''])]"
proof -
  have "pm_wf demo_pm" "sh_conf demo_pm = demo_conf"
    "initDepends demo_os (cf_at demo_conf) (prog_cfgs demo_pm) = Ret [(''web'', [''db''])]" by code_simp+
  moreover have "acyclic (depends [(''web'', [''db''])])"
    by (rule acyclic_ranked[of _ "\<lambda>p. if p = ''web'' then 1 else 0"]) (auto simp: depends_def deps_def split: if_splits)
  ultimately show ?thesis using is_range_id by (simp add: orderly_def demo_so_def sorts_by_def)
qed

theorem getAllProcess_order_witness:
  "getAllProcess demo_os demo_so demo_pm = Ret [1, 0] \<and> snd ` set (procs demo_pm) = {0, 1}"
proof -
  have "getAllProcess demo_os demo_so demo_pm = Ret [1, 0]" "set (map snd (procs demo_pm)) = {0, 1}" by code_simp+
  moreover have "set [1, 0 :: nat] = {a \<in> snd ` set (procs demo_pm). IsProgram (entry_of demo_pm a)}"
    using getAllProcess_order[OF demo_orderly] calculation(1) by auto
  ultimately show ?thesis by simp
qed

theorem Find_in_group_witness:
  "pm_Find demo_os demo_so ''web:web'' demo_pm = Ret (Some 0) \<and>
   (\<exists>ps. FindMatch demo_os demo_so ''web:*'' demo_pm = Ret ps \<and> distinct ps)"
proof -
  have "group_of demo_pm 0 = ''web''" "(''web'', 0) \<in> set (procs demo_pm)" "IsProgram (entry_of demo_pm 0)" by code_simp+
  then show ?thesis using Find_in_group[OF demo_orderly, of "''web''" 0] by auto
qed


end
