(* ===== verification/Supervisor.thy ===== *)
theory Supervisor
  imports ProcManager
begin

text \<open>
  \<open>subprocess/supervisor.go\<close>, \<open>xmlrpc.go\<close>, \<open>rest_rpc.go\<close> and \<open>types\<close>: the supervisor's state, its
  remote procedures, the (re)load of the configuration and the HTTP front ends.

  A remote procedure that calls \<open>Start\<close>, \<open>Stop\<close> or \<open>Signal\<close> takes the schedule of the goroutines
  during the call (theory \<open>ProcManager\<close>) and is \<open>Blocked\<close> when the schedule ends before it returns.
  Queries read a process at a moment when its lock is free. \<open>senv\<close> is what the operating
  system and the package \<open>go-ini\<close> provide; its field \<open>se_so\<close> numbers the sorts of the program
  table, since each ranges over Go maps in an order of its own.
\<close>

section \<open>State\<close>

text \<open>The open listeners by protocol; a listener that was closed stays in the map of the source, unused.\<close>

record XmlRPC =
  listeners :: "(string \<times> string \<times> string \<times> string) list"
  started :: bool

definition NewXmlRPC :: XmlRPC where
  "NewXmlRPC = \<lparr>listeners = [], started = False\<rparr>"

datatype log_level = FatalLevel | ErrorLevel | WarnLevel | InfoLevel | DebugLevel

record Supervisor =
  sv_pm :: ProcessManager
  xmlRPC :: XmlRPC
  sv_logger :: "logger option"
  restarting :: bool
  sv_level :: log_level
  exiting :: bool

record 'sec senv =
  se_pe :: penv
  se_ini :: "'sec ini_api"
  se_so :: "nat \<Rightarrow> sorter"
  se_pid :: int
  se_listen :: "string \<Rightarrow> string \<Rightarrow> bool"
  se_time :: "int \<Rightarrow> string"
  se_pipe :: bool

definition SUPERVISOR_VERSION :: string where
  "SUPERVISOR_VERSION = ''3.0''"

definition NewSupervisor :: "string \<Rightarrow> world \<Rightarrow> Supervisor" where
  "NewSupervisor configstring w =
     \<lparr>sv_pm = NewProcessManager (NewConfig configstring) w, xmlRPC = NewXmlRPC, sv_logger = None, restarting = False,
      sv_level = InfoLevel, exiting = False\<rparr>"

abbreviation se_os :: "'sec senv \<Rightarrow> os_env" where
  "se_os se \<equiv> pe_os (se_pe se)"

abbreviation sv_conf :: "Supervisor \<Rightarrow> Config" where
  "sv_conf sv \<equiv> sh_conf (sv_pm sv)"

definition GetSupervisorId :: "'sec senv \<Rightarrow> Supervisor \<Rightarrow> string go" where
  "GetSupervisorId se sv =
     (case GetSupervisord (sv_conf sv) of
        None \<Rightarrow> Ret ''supervisor''
      | Some a \<Rightarrow> GetString (se_os se) (cf_at (sv_conf sv) a) ''identifier'' ''supervisor'')"

record StateInfo =
  Statecode :: int
  Statename :: string

definition GetState :: StateInfo where
  "GetState = \<lparr>Statecode = 1, Statename = ''RUNNING''\<rparr>"

section \<open>Process information\<close>

record ProcessInfo =
  pi_Name :: string
  pi_Group :: string
  pi_Description :: string
  pi_Start :: int
  pi_Stop :: int
  pi_Now :: int
  pi_State :: int
  pi_Statename :: string
  pi_Spawnerr :: string
  pi_Exitstatus :: int
  pi_Logfile :: string
  pi_Stdout_logfile :: string
  pi_Stderr_logfile :: string
  pi_Pid :: int

definition GetFullName :: "ProcessInfo \<Rightarrow> string" where
  "GetFullName i = (if length (pi_Group i) > 0 then pi_Group i @ '':'' @ pi_Name i else pi_Name i)"

definition getProcessInfo :: "'sec senv \<Rightarrow> psys \<Rightarrow> ProcessInfo go" where
  "getProcessInfo se s =
     (let p = proc s; now = clock (wld s)
      in bindg (GetDescription (se_time se) now p) (\<lambda>desc.
         bindg (GetExitstatus p) (\<lambda>exitstatus.
         bindg (GetStdoutLogfile (se_os se) (pe_users (se_pe se)) p) (\<lambda>out.
         bindg (GetStderrLogfile (se_os se) (pe_users (se_pe se)) p) (\<lambda>err.
         bindg (GetPid p) (\<lambda>pid.
           Ret \<lparr>pi_Name = p_GetName p, pi_Group = p_GetGroup p, pi_Description = desc, pi_Start = startTime p,
             pi_Stop = GetStopTime p, pi_Now = now, pi_State = state_code (state p), pi_Statename = state_String (state p),
             pi_Spawnerr = [], pi_Exitstatus = exitstatus, pi_Logfile = out, pi_Stdout_logfile = out,
             pi_Stderr_logfile = err, pi_Pid = pid\<rparr>))))))"

text \<open>\<open>sort.Sort\<close> by name; managed programs have different names, so its result is this one.\<close>

definition SortProcessInfos :: "ProcessInfo list \<Rightarrow> ProcessInfo list" where
  "SortProcessInfos infos = sort_key pi_Name infos"

definition GetAllProcessInfo :: "'sec senv \<Rightarrow> Supervisor \<Rightarrow> ProcessInfo list go" where
  "GetAllProcessInfo se sv =
     bindg (getAllProcess (se_os se) (se_so se 0) (sv_pm sv)) (\<lambda>ps.
     bindg (mapg (\<lambda>a. getProcessInfo se (proc_view (sv_pm sv) a)) ps) (\<lambda>infos.
       Ret (SortProcessInfos infos)))"

definition GetProcessInfo :: "'sec senv \<Rightarrow> string \<Rightarrow> Supervisor \<Rightarrow> (log_error + ProcessInfo) go" where
  "GetProcessInfo se name sv =
     bindg (pm_Find (se_os se) (se_so se 0) name (sv_pm sv)) (\<lambda>r.
       case r of
         None \<Rightarrow> Ret (Inl (Errorf (''no process named '' @ name)))
       | Some a \<Rightarrow> bindg (getProcessInfo se (proc_view (sv_pm sv) a)) (\<lambda>i. Ret (Inr i)))"

section \<open>Starting, stopping, signalling\<close>

datatype 'r rpc = Blocked | Done "log_error option" 'r

record RpcTaskResult =
  tr_Name :: string
  tr_Group :: string
  tr_Status :: int
  tr_Description :: string

definition task_ok :: "ProcessInfo \<Rightarrow> RpcTaskResult" where
  "task_ok i = \<lparr>tr_Name = pi_Name i, tr_Group = pi_Group i, tr_Status = SUCCESS, tr_Description = ''OK''\<rparr>"

text \<open>The loop over the processes that match a name, one call after the other.\<close>

definition call_matching ::
  "'sec senv \<Rightarrow> string \<Rightarrow> string \<Rightarrow> pcall \<Rightarrow> sched list \<Rightarrow> Supervisor \<Rightarrow> (bool rpc \<times> Supervisor) go" where
  "call_matching se msg name c sch sv =
     bindg (FindMatch (se_os se) (se_so se 0) name (sv_pm sv)) (\<lambda>ps.
       if length ps \<le> 0 then Ret (Done (Some (Errorf (msg @ name))) False, sv)
       else bindg (run_batch (se_pe se) False (map (\<lambda>a. (a, c)) ps) sch (sv_pm sv)) (\<lambda>(b, pm).
              Ret (if todo b = [] then Done None True else Blocked, sv\<lparr>sv_pm := pm\<rparr>)))"

definition StartProcess :: "'sec senv \<Rightarrow> string \<Rightarrow> bool \<Rightarrow> sched list \<Rightarrow> Supervisor \<Rightarrow> (bool rpc \<times> Supervisor) go" where
  "StartProcess se name wait sch sv = call_matching se ''fail to find process '' name (CStart wait) sch sv"

definition StopProcess :: "'sec senv \<Rightarrow> string \<Rightarrow> bool \<Rightarrow> sched list \<Rightarrow> Supervisor \<Rightarrow> (bool rpc \<times> Supervisor) go" where
  "StopProcess se name wait sch sv = call_matching se ''fail to find process '' name (CStop wait) sch sv"

definition SignalProcess :: "'sec senv \<Rightarrow> string \<Rightarrow> string \<Rightarrow> sched list \<Rightarrow> Supervisor \<Rightarrow> (bool rpc \<times> Supervisor) go" where
  "SignalProcess se name sig sch sv = call_matching se ''No process named '' name (CSignal (ToSignal sig) False) sch sv"

text \<open>The parallel loops: the reply lists the processes in the order in which their calls return.\<close>

definition call_all ::
  "'sec senv \<Rightarrow> (ProcessManager \<Rightarrow> nat \<Rightarrow> pcall) \<Rightarrow> (psys \<Rightarrow> bool) \<Rightarrow> (ProcessInfo \<Rightarrow> 'r) \<Rightarrow> sched list \<Rightarrow> Supervisor \<Rightarrow>
   ('r list rpc \<times> Supervisor) go" where
  "call_all se procFunc keep answer sch sv =
     bindg (AsyncForEachProcess (se_pe se) (se_so se 0) procFunc sch (sv_pm sv)) (\<lambda>(b, pm).
     bindg (mapg (getProcessInfo se) (filter keep (seen b))) (\<lambda>infos.
       Ret (if todo b = [] then Done None (map answer infos) else Blocked, sv\<lparr>sv_pm := pm\<rparr>)))"

definition StartAllProcesses :: "'sec senv \<Rightarrow> bool \<Rightarrow> sched list \<Rightarrow> Supervisor \<Rightarrow> (RpcTaskResult list rpc \<times> Supervisor) go" where
  "StartAllProcesses se wait sch sv = call_all se (\<lambda>_ _. CStart wait) (\<lambda>_. True) task_ok sch sv"

definition StopAllProcesses :: "'sec senv \<Rightarrow> bool \<Rightarrow> sched list \<Rightarrow> Supervisor \<Rightarrow> (RpcTaskResult list rpc \<times> Supervisor) go" where
  "StopAllProcesses se wait sch sv = call_all se (\<lambda>_ _. CStop wait) (\<lambda>_. True) task_ok sch sv"

definition StartProcessGroup ::
  "'sec senv \<Rightarrow> string \<Rightarrow> bool \<Rightarrow> sched list \<Rightarrow> Supervisor \<Rightarrow> (ProcessInfo list rpc \<times> Supervisor) go" where
  "StartProcessGroup se name wait sch sv =
     call_all se (\<lambda>pm a. if group_of pm a = name then CStart wait else CDone) (\<lambda>s. p_GetGroup (proc s) = name) id sch sv"

definition StopProcessGroup ::
  "'sec senv \<Rightarrow> string \<Rightarrow> bool \<Rightarrow> sched list \<Rightarrow> Supervisor \<Rightarrow> (ProcessInfo list rpc \<times> Supervisor) go" where
  "StopProcessGroup se name wait sch sv =
     call_all se (\<lambda>pm a. if group_of pm a = name then CStop wait else CDone) (\<lambda>s. p_GetGroup (proc s) = name) id sch sv"

text \<open>Signals are sent one after the other; then the processes are listed in a second loop.\<close>

definition signal_each ::
  "'sec senv \<Rightarrow> (ProcessManager \<Rightarrow> nat \<Rightarrow> bool) \<Rightarrow> string \<Rightarrow> sched list \<Rightarrow> Supervisor \<Rightarrow> (ProcessInfo list rpc \<times> Supervisor) go" where
  "signal_each se sel sig sch sv =
     bindg (getAllProcess (se_os se) (se_so se 0) (sv_pm sv)) (\<lambda>ps.
     bindg (run_batch (se_pe se) False (map (\<lambda>a. (a, CSignal (ToSignal sig) False)) (filter (sel (sv_pm sv)) ps)) sch (sv_pm sv)) (\<lambda>(b, pm).
       if todo b \<noteq> [] then Ret (Blocked, sv\<lparr>sv_pm := pm\<rparr>)
       else
         bindg (getAllProcess (se_os se) (se_so se 1) pm) (\<lambda>qs.
         bindg (mapg (\<lambda>a. getProcessInfo se (proc_view pm a)) (filter (sel pm) qs)) (\<lambda>infos.
           Ret (Done None infos, sv\<lparr>sv_pm := pm\<rparr>)))))"

definition SignalProcessGroup ::
  "'sec senv \<Rightarrow> string \<Rightarrow> string \<Rightarrow> sched list \<Rightarrow> Supervisor \<Rightarrow> (ProcessInfo list rpc \<times> Supervisor) go" where
  "SignalProcessGroup se name sig sch sv = signal_each se (\<lambda>pm a. group_of pm a = name) sig sch sv"

definition SignalAllProcesses :: "'sec senv \<Rightarrow> string \<Rightarrow> sched list \<Rightarrow> Supervisor \<Rightarrow> (ProcessInfo list rpc \<times> Supervisor) go" where
  "SignalAllProcesses se sig sch sv = signal_each se (\<lambda>_ _. True) sig sch sv"

definition sv_Shutdown :: "'sec senv \<Rightarrow> sched list \<Rightarrow> Supervisor \<Rightarrow> (bool rpc \<times> Supervisor) go" where
  "sv_Shutdown se sch sv =
     bindg (pm_StopAllProcesses (se_pe se) (se_so se 0) sch (sv_pm sv)) (\<lambda>(b, pm).
       Ret (if todo b = [] then (Done None True, sv\<lparr>sv_pm := pm, exiting := True\<rparr>) else (Blocked, sv\<lparr>sv_pm := pm\<rparr>)))"

definition sv_Restart :: "Supervisor \<Rightarrow> bool \<times> Supervisor" where
  "sv_Restart sv = (True, sv\<lparr>restarting := True\<rparr>)"

text \<open>\<open>p.SendProcessStdin\<close>: \<open>se_pipe\<close> tells whether the write to the pipe succeeds.\<close>

definition p_SendProcessStdin :: "'sec senv \<Rightarrow> string \<Rightarrow> Process \<Rightarrow> log_error option" where
  "p_SendProcessStdin se chars p =
     (if stdin p then (if se_pipe se then None else Some OsError) else Some (Errorf ''NO_FILE''))"

definition SendProcessStdin :: "'sec senv \<Rightarrow> string \<Rightarrow> string \<Rightarrow> Supervisor \<Rightarrow> (log_error option \<times> bool) go" where
  "SendProcessStdin se name chars sv =
     bindg (pm_Find (se_os se) (se_so se 0) name (sv_pm sv)) (\<lambda>r.
       Ret (case r of
              None \<Rightarrow> (Some (Errorf ''NOT_RUNNING''), False)
            | Some a \<Rightarrow>
                (let p = proc (proc_view (sv_pm sv) a)
                 in if state p \<noteq> RUNNING then (Some (Errorf ''NOT_RUNNING''), False)
                    else (let err = p_SendProcessStdin se chars p in (err, err = None)))))"

definition SendRemoteCommEvent :: "string \<Rightarrow> string \<Rightarrow> Supervisor \<Rightarrow> bool \<times> Supervisor" where
  "SendRemoteCommEvent typ data sv =
     (let pm = sv_pm sv; w = sh_world pm
      in (True, sv\<lparr>sv_pm := pm\<lparr>sh_world := w\<lparr>ev := emit_new (NewRemoteCommunicationEvent typ data) (ev w)\<rparr>\<rparr>\<rparr>))"


section \<open>Logs\<close>

text \<open>\<open>s.logger\<close> is nil until \<open>setSupervisordInfo\<close> has set it.\<close>

definition sv_ReadLog :: "int \<Rightarrow> int \<Rightarrow> Supervisor \<Rightarrow> (log_error + string) go" where
  "sv_ReadLog offset len sv =
     (case sv_logger sv of None \<Rightarrow> Panic | Some lg \<Rightarrow> lg_ReadLog offset len lg (sh_world (sv_pm sv)))"

definition sv_ClearLog :: "Supervisor \<Rightarrow> (log_error option \<times> bool \<times> Supervisor) go" where
  "sv_ClearLog sv =
     (case sv_logger sv of
        None \<Rightarrow> Panic
      | Some lg \<Rightarrow> bindg (lg_ClearAllLogFile lg (sh_world (sv_pm sv))) (\<lambda>(err, lg', w).
          Ret (err, err = None, sv\<lparr>sv_logger := Some lg', sv_pm := (sv_pm sv)\<lparr>sh_world := w\<rparr>\<rparr>)))"

text \<open>The logger behind \<open>p.StderrLog\<close>; with a capture it reads the log of the standard output.\<close>

definition err_logger :: "Process \<Rightarrow> logger option" where
  "err_logger p =
     (case StderrLog p of
        ErrNone \<Rightarrow> None
      | ErrSame \<Rightarrow> StdoutLog p
      | ErrOwn lg \<Rightarrow> Some lg
      | ErrCapture pec \<Rightarrow> map_option (\<lambda>lg. CaptureL lg pec) (StdoutLog p))"

definition with_process :: "'sec senv \<Rightarrow> string \<Rightarrow> Supervisor \<Rightarrow> (nat \<Rightarrow> (log_error + 'r) go) \<Rightarrow> (log_error + 'r) go" where
  "with_process se name sv f =
     bindg (pm_Find (se_os se) (se_so se 0) name (sv_pm sv)) (\<lambda>r.
       case r of None \<Rightarrow> Ret (Inl (Errorf (''No such process '' @ name))) | Some a \<Rightarrow> f a)"

definition read_with :: "(Process \<Rightarrow> logger option) \<Rightarrow> 'sec senv \<Rightarrow> string \<Rightarrow> int \<Rightarrow> int \<Rightarrow> Supervisor \<Rightarrow> (log_error + string) go" where
  "read_with sel se name offset len sv =
     with_process se name sv (\<lambda>a.
       case sel (proc (proc_view (sv_pm sv) a)) of
         None \<Rightarrow> Panic
       | Some lg \<Rightarrow> lg_ReadLog offset len lg (sh_world (sv_pm sv)))"

definition ReadProcessStdoutLog :: "'sec senv \<Rightarrow> string \<Rightarrow> int \<Rightarrow> int \<Rightarrow> Supervisor \<Rightarrow> (log_error + string) go" where
  "ReadProcessStdoutLog se name offset len sv = read_with StdoutLog se name offset len sv"

definition ReadProcessStderrLog :: "'sec senv \<Rightarrow> string \<Rightarrow> int \<Rightarrow> int \<Rightarrow> Supervisor \<Rightarrow> (log_error + string) go" where
  "ReadProcessStderrLog se name offset len sv = read_with err_logger se name offset len sv"

definition tail_with ::
  "(Process \<Rightarrow> logger option) \<Rightarrow> 'sec senv \<Rightarrow> string \<Rightarrow> int \<Rightarrow> int \<Rightarrow> Supervisor \<Rightarrow>
   (log_error + string \<times> int \<times> bool \<times> log_error option) go" where
  "tail_with sel se name offset len sv =
     with_process se name sv (\<lambda>a.
       case sel (proc (proc_view (sv_pm sv) a)) of
         None \<Rightarrow> Panic
       | Some lg \<Rightarrow> bindg (lg_ReadTailLog offset len lg (sh_world (sv_pm sv))) (\<lambda>r. Ret (Inr r)))"

definition TailProcessStdoutLog ::
  "'sec senv \<Rightarrow> string \<Rightarrow> int \<Rightarrow> int \<Rightarrow> Supervisor \<Rightarrow> (log_error + string \<times> int \<times> bool \<times> log_error option) go" where
  "TailProcessStdoutLog se name offset len sv = tail_with StdoutLog se name offset len sv"

definition TailProcessStderrLog ::
  "'sec senv \<Rightarrow> string \<Rightarrow> int \<Rightarrow> int \<Rightarrow> Supervisor \<Rightarrow> (log_error + string \<times> int \<times> bool \<times> log_error option) go" where
  "TailProcessStderrLog se name offset len sv = tail_with err_logger se name offset len sv"

text \<open>Both logs of a process, the standard output's first; they may be one and the same logger.\<close>

definition clear_logs :: "psys \<Rightarrow> (log_error option \<times> log_error option \<times> psys) go" where
  "clear_logs s =
     (case StdoutLog (proc s) of
        None \<Rightarrow> Panic
      | Some out \<Rightarrow>
          bindg (lg_ClearAllLogFile out (wld s)) (\<lambda>(err1, out', w1).
            let p1 = (proc s)\<lparr>StdoutLog := Some out'\<rparr>
            in case err_logger p1 of
                 None \<Rightarrow> Panic
               | Some el \<Rightarrow>
                   bindg (lg_ClearAllLogFile el w1) (\<lambda>(err2, el', w2).
                     let p2 = (case StderrLog p1 of
                                 ErrOwn _ \<Rightarrow> p1\<lparr>StderrLog := ErrOwn el'\<rparr>
                               | ErrCapture _ \<Rightarrow> (case el' of CaptureL lg _ \<Rightarrow> p1\<lparr>StdoutLog := Some lg\<rparr> | _ \<Rightarrow> p1)
                               | _ \<Rightarrow> p1\<lparr>StdoutLog := Some el'\<rparr>)
                     in Ret (err1, err2, s\<lparr>proc := p2, wld := w2\<rparr>))))"

definition ClearProcessLogs :: "'sec senv \<Rightarrow> string \<Rightarrow> Supervisor \<Rightarrow> (log_error option \<times> bool \<times> Supervisor) go" where
  "ClearProcessLogs se name sv =
     bindg (pm_Find (se_os se) (se_so se 0) name (sv_pm sv)) (\<lambda>r.
       case r of
         None \<Rightarrow> Ret (Some (Errorf (''No such process '' @ name)), False, sv)
       | Some a \<Rightarrow>
           bindg (clear_logs (proc_view (sv_pm sv) a)) (\<lambda>(err1, err2, s').
             Ret (if err1 \<noteq> None then err1 else err2, err1 = None \<and> err2 = None, sv\<lparr>sv_pm := proc_put (sv_pm sv) a s'\<rparr>)))"

definition ClearAllProcessLogs :: "'sec senv \<Rightarrow> Supervisor \<Rightarrow> (RpcTaskResult list \<times> Supervisor) go" where
  "ClearAllProcessLogs se sv =
     bindg (getAllProcess (se_os se) (se_so se 0) (sv_pm sv)) (\<lambda>ps.
     bindg (foldg (\<lambda>(res, pm) a.
         bindg (clear_logs (proc_view pm a)) (\<lambda>(err1, err2, s').
         bindg (getProcessInfo se s') (\<lambda>i. Ret (res @ [task_ok i], proc_put pm a s')))) ([], sv_pm sv) ps) (\<lambda>(res, pm).
       Ret (res, sv\<lparr>sv_pm := pm\<rparr>)))"

section \<open>The HTTP servers\<close>

definition xml_Stop :: "XmlRPC \<Rightarrow> XmlRPC" where
  "xml_Stop x = x\<lparr>listeners := [], started := False\<rparr>"

text \<open>
  A goroutine in \<open>startHttpServer\<close> of \<open>XmlRPC\<close>: before the test of \<open>started\<close>, before the assignment, before
  \<open>net.Listen\<close>, and serving or returned. The test and the assignment are not protected by a lock. The
  removal of an old socket file before a unix server is left out.
\<close>

datatype server_pc = SrvCheck | SrvSet | SrvListen | SrvEnd

record server_go =
  sg_pc :: server_pc
  sg_conf :: "string \<times> string \<times> string \<times> string"

definition xml_startHttpServer :: "string \<Rightarrow> string \<Rightarrow> string \<Rightarrow> string \<Rightarrow> server_go" where
  "xml_startHttpServer user password protocol listenAddr =
     \<lparr>sg_pc = SrvCheck, sg_conf = (protocol, listenAddr, user, password)\<rparr>"

definition server_step :: "'sec senv \<Rightarrow> server_go \<Rightarrow> XmlRPC \<Rightarrow> server_go \<times> XmlRPC" where
  "server_step se g x =
     (case sg_pc g of
        SrvCheck \<Rightarrow> (g\<lparr>sg_pc := (if started x then SrvEnd else SrvSet)\<rparr>, x)
      | SrvSet \<Rightarrow> (g\<lparr>sg_pc := SrvListen\<rparr>, x\<lparr>started := True\<rparr>)
      | SrvListen \<Rightarrow> (g\<lparr>sg_pc := SrvEnd\<rparr>,
          if se_listen se (fst (sg_conf g)) (fst (snd (sg_conf g))) then x\<lparr>listeners := listeners x @ [sg_conf g]\<rparr> else x)
      | SrvEnd \<Rightarrow> (g, x))"

text \<open>The goroutines by their numbers, in the order in which they take their steps.\<close>

fun run_servers :: "'sec senv \<Rightarrow> nat list \<Rightarrow> server_go list \<Rightarrow> XmlRPC \<Rightarrow> server_go list \<times> XmlRPC" where
  "run_servers se [] gs x = (gs, x)"
| "run_servers se (i # sch) gs x =
     (if i < length gs then (let (g, x') = server_step se (gs ! i) x in run_servers se sch (gs[i := g]) x')
      else run_servers se sch gs x)"

text \<open>
  \<open>h.ServeHTTP\<close> of the basic authentication: \<open>creds\<close> is \<open>r.BasicAuth()\<close>, \<open>sha1_hex\<close> the hexadecimal
  SHA-1 of the standard library. The result tells whether the request reaches the handler; if
  not, the answer is 401.
\<close>

definition auth_ServeHTTP :: "(string \<Rightarrow> string) \<Rightarrow> string \<Rightarrow> string \<Rightarrow> (string \<times> string) option \<Rightarrow> bool" where
  "auth_ServeHTTP sha1_hex h_user h_password creds =
     (if h_user = [] \<or> h_password = [] then True
      else (case creds of
              None \<Rightarrow> False
            | Some (username, password) \<Rightarrow>
                username = h_user \<and>
                (if has_prefix h_password ''{SHA}'' then sha1_hex password = drop 5 h_password
                 else password = h_password)))"

text \<open>
  \<open>startHttpServer\<close> of the supervisor: each server that is configured gets a goroutine. The goroutines take
  their steps in any order (\<open>sch\<close>), and in the end each has come to its end.
\<close>

definition inet_server :: "'sec senv \<Rightarrow> Supervisor \<Rightarrow> server_go list go" where
  "inet_server se sv =
     (case GetInetHttpServer (sv_conf sv) of
        None \<Rightarrow> Ret []
      | Some a \<Rightarrow>
          (let c = cf_at (sv_conf sv) a
           in bindg (GetString (se_os se) c ''port'' []) (\<lambda>addr.
                if addr = [] then Ret []
                else
                  bindg (GetString (se_os se) c ''username'' []) (\<lambda>user.
                  bindg (GetString (se_os se) c ''password'' []) (\<lambda>password.
                    Ret [xml_startHttpServer user password ''tcp'' addr])))))"

definition here_env :: "'sec senv \<Rightarrow> str_env go" where
  "here_env se = NewStringExpression (se_os se) [''here'', GetConfigFileDir]"

definition unix_server :: "'sec senv \<Rightarrow> Supervisor \<Rightarrow> server_go list go" where
  "unix_server se sv =
     (case GetUnixHttpServer (sv_conf sv) of
        None \<Rightarrow> Ret []
      | Some a \<Rightarrow>
          (let c = cf_at (sv_conf sv) a
           in bindg (here_env se) (\<lambda>env.
              bindg (GetString (se_os se) c ''file'' ''/tmp/supervisord.sock'') (\<lambda>f.
              bindg (Eval (fmt_other (se_os se)) env f) (\<lambda>r.
                case r of
                  Inl _ \<Rightarrow> Ret []
                | Inr sockFile \<Rightarrow>
                    bindg (GetString (se_os se) c ''username'' []) (\<lambda>user.
                    bindg (GetString (se_os se) c ''password'' []) (\<lambda>password.
                      Ret [xml_startHttpServer user password ''unix'' sockFile]))))))) "

definition startHttpServer :: "'sec senv \<Rightarrow> nat list \<Rightarrow> Supervisor \<Rightarrow> Supervisor go" where
  "startHttpServer se sch sv =
     bindg (inet_server se sv) (\<lambda>inet.
     bindg (unix_server se sv) (\<lambda>unix.
       Ret (sv\<lparr>xmlRPC := snd (run_servers se (sch @ [0, 0, 0, 1, 1, 1]) (inet @ unix) (xml_Stop (xmlRPC sv)))\<rparr>)))"

section \<open>The supervisor's own log and pid file\<close>

definition ascii_lower :: "string \<Rightarrow> string" where
  "ascii_lower s = map (\<lambda>c. if CHR ''A'' \<le> c \<and> c \<le> CHR ''Z'' then char_of (of_char c + 32 :: nat) else c) s"

definition toLogLevel :: "string \<Rightarrow> log_level" where
  "toLogLevel level =
     (let l = ascii_lower level
      in if l = ''critical'' then FatalLevel else if l = ''error'' then ErrorLevel else if l = ''warn'' then WarnLevel
         else if l = ''info'' then InfoLevel else DebugLevel)"

definition write_pidfile :: "'sec senv \<Rightarrow> string \<Rightarrow> world \<Rightarrow> world" where
  "write_pidfile se pidfile w = (let (ok, w1) = os_Create pidfile w in if ok then os_append pidfile (Itoa (se_pid se)) w1 else w1)"

definition setSupervisordInfo :: "'sec senv \<Rightarrow> Supervisor \<Rightarrow> Supervisor go" where
  "setSupervisordInfo se sv =
     (case GetSupervisord (sv_conf sv) of
        None \<Rightarrow> Ret sv
      | Some a \<Rightarrow>
          (let c = cf_at (sv_conf sv) a; os = se_os se
           in bindg (here_env se) (\<lambda>env.
              bindg (GetString os c ''logfile'' ''supervisord.log'') (\<lambda>lf.
              bindg (Eval (fmt_other os) env lf) (\<lambda>r.
                let lr = (case r of Inr f \<Rightarrow> Some f | Inl _ \<Rightarrow> Path_expand (pe_users (se_pe se)) [])
                in if lr = Some ''/dev/stdout'' then Ret sv
                   else
                     bindg (case lr of
                              None \<Rightarrow> Ret (sv\<lparr>sv_logger := Some (NullL NullLogEventEmitter)\<rparr>)
                            | Some logFile \<Rightarrow>
                                bindg (GetString os c ''loglevel'' ''info'') (\<lambda>level.
                                bindg (NewLogger logFile (GetBytes c ''logfile_maxbytes'' (50 * 1024 * 1024))
                                         (GetInt c ''logfile_backups'' 10) NullLogEventEmitter (sh_world (sv_pm sv))) (\<lambda>(lg, w).
                                  Ret (sv\<lparr>sv_logger := Some lg, sv_level := toLogLevel level, sv_pm := (sv_pm sv)\<lparr>sh_world := w\<rparr>\<rparr>)))) (\<lambda>sv1.
                     bindg (GetString os c ''pidfile'' ''supervisord.pid'') (\<lambda>pf.
                     bindg (Eval (fmt_other os) env pf) (\<lambda>rp.
                       Ret (case rp of
                              Inl _ \<Rightarrow> sv1
                            | Inr pidfile \<Rightarrow>
                                sv1\<lparr>sv_pm := (sv_pm sv1)\<lparr>sh_world := write_pidfile se pidfile (sh_world (sv_pm sv1))\<rparr>\<rparr>)))))))))"


section \<open>Loading the configuration\<close>

text \<open>
  The event listeners are created and started one after the other. Creating one does not
  touch another, so the processes are created first and their \<open>Start(false)\<close> calls follow.
\<close>

definition create_all :: "string \<Rightarrow> nat list \<Rightarrow> ProcessManager \<Rightarrow> nat list \<times> ProcessManager" where
  "create_all sid cfgs pm =
     foldl (\<lambda>(as, pm) cfg. let (r, pm') = CreateProcess sid cfg pm in (case r of None \<Rightarrow> as | Some a \<Rightarrow> as @ [a], pm')) ([], pm) cfgs"

definition startEventListeners :: "'sec senv \<Rightarrow> sched list \<Rightarrow> Supervisor \<Rightarrow> (bool \<times> Supervisor) go" where
  "startEventListeners se sch sv =
     bindg (GetSupervisorId se sv) (\<lambda>sid.
       let (as, pm) = create_all sid (GetEventListeners (sv_conf sv)) (sv_pm sv)
       in bindg (run_batch (se_pe se) False (map (\<lambda>a. (a, CStart False)) as) sch pm) (\<lambda>(b, pm').
            Ret (todo b = [], sv\<lparr>sv_pm := pm'\<rparr>)))"

definition createPrograms :: "'sec senv \<Rightarrow> string list \<Rightarrow> Supervisor \<Rightarrow> Supervisor go" where
  "createPrograms se prevPrograms sv =
     bindg (GetProgramNames (se_os se) (se_so se 2) (se_so se 3) (sv_conf sv)) (\<lambda>programs.
     bindg (cf_GetPrograms (se_os se) (se_so se 4) (sv_conf sv)) (\<lambda>entries.
     bindg (GetSupervisorId se sv) (\<lambda>sid.
       let pm = snd (create_all sid entries (sv_pm sv));
           removedPrograms = util_Sub prevPrograms programs
       in Ret (sv\<lparr>sv_pm := foldl (\<lambda>pm p. snd (pm_Remove p pm)) pm removedPrograms\<rparr>))))"

definition startAutoStartPrograms :: "'sec senv \<Rightarrow> sched list \<Rightarrow> Supervisor \<Rightarrow> (bool \<times> Supervisor) go" where
  "startAutoStartPrograms se sch sv =
     bindg (StartAutoStartPrograms (se_pe se) (se_so se 5) sch (sv_pm sv)) (\<lambda>(b, pm).
       Ret (todo b = [], sv\<lparr>sv_pm := pm\<rparr>))"

text \<open>
  One removed program: out of the configuration, out of the manager; its process will be stopped. Removing a
  program does not touch the process of another, so the \<open>Stop(false)\<close> calls follow the removals.
\<close>

definition remove_program :: "nat list \<times> ProcessManager \<Rightarrow> string \<Rightarrow> nat list \<times> ProcessManager" where
  "remove_program st name =
     (let (stops, pm) = st;
          pm1 = pm\<lparr>sh_conf := RemoveProgram (sh_conf pm) name\<rparr>;
          (r, pm2) = pm_Remove name pm1
      in (case r of None \<Rightarrow> stops | Some a \<Rightarrow> stops @ [a], pm2))"

definition remove_programs :: "'sec senv \<Rightarrow> string list \<Rightarrow> sched list \<Rightarrow> Supervisor \<Rightarrow> (bool \<times> Supervisor) go" where
  "remove_programs se names sch sv =
     (let (stops, pm) = foldl remove_program ([], sv_pm sv) names
      in bindg (run_batch (se_pe se) False (map (\<lambda>a. (a, CStop False)) stops) sch pm) (\<lambda>(b, pm').
           Ret (todo b = [], sv\<lparr>sv_pm := pm'\<rparr>)))"

text \<open>
  \<open>Load\<close> never fails. The schedules are those of the goroutines while the listeners, the
  programs and the removed programs are started and stopped; \<open>None\<close>: the reload is blocked.
\<close>

record reload_sched =
  rs_listeners :: "sched list"
  rs_autostart :: "sched list"
  rs_removed :: "sched list"
  rs_servers :: "nat list"

definition with_conf :: "Config \<Rightarrow> Supervisor \<Rightarrow> Supervisor" where
  "with_conf cf sv = sv\<lparr>sv_pm := (sv_pm sv)\<lparr>sh_conf := cf\<rparr>\<rparr>"

definition Reload ::
  "'sec senv \<Rightarrow> reload_sched \<Rightarrow> Supervisor \<Rightarrow> ((string list \<times> string list \<times> string list) option \<times> Supervisor) go" where
  "Reload se rs sv =
     bindg (GetProgramNames (se_os se) (se_so se 0) (se_so se 1) (sv_conf sv)) (\<lambda>prevPrograms.
       let prevProgGroup = pg_Clone (ProgramGroup (sv_conf sv))
       in bindg (Load (se_os se) (se_ini se) (sv_conf sv)) (\<lambda>(cf, loaded_programs).
          bindg (setSupervisordInfo se (with_conf cf sv)) (\<lambda>sv1.
          bindg (startEventListeners se (rs_listeners rs) sv1) (\<lambda>(ok2, sv2).
            if \<not> ok2 then Ret (None, sv2)
            else
              bindg (createPrograms se prevPrograms sv2) (\<lambda>sv3.
              bindg (startHttpServer se (rs_servers rs) sv3) (\<lambda>sv4.
              bindg (startAutoStartPrograms se (rs_autostart rs) sv4) (\<lambda>(ok5, sv5).
                if \<not> ok5 then Ret (None, sv5)
                else
                  bindg (remove_programs se (util_Sub prevPrograms loaded_programs) (rs_removed rs) sv5) (\<lambda>(ok6, sv6).
                    if \<not> ok6 then Ret (None, sv6)
                    else Ret (Some (pg_Sub (ProgramGroup (sv_conf sv6)) prevProgGroup), sv6)))))))))"

definition ReloadConfig ::
  "'sec senv \<Rightarrow> reload_sched \<Rightarrow> Supervisor \<Rightarrow> ((string list \<times> string list \<times> string list) rpc \<times> Supervisor) go" where
  "ReloadConfig se rs sv =
     bindg (Reload se rs sv) (\<lambda>(r, sv'). Ret (case r of None \<Rightarrow> Blocked | Some groups \<Rightarrow> Done None groups, sv'))"

section \<open>The life of a supervisor\<close>

datatype wait_event = CtxDone | Tick

text \<open>The \<open>select\<close> loop of \<open>WaitForExit\<close>: \<open>None\<close> while no event ends it.\<close>

fun wait_loop :: "bool \<Rightarrow> wait_event list \<Rightarrow> wait_event list option" where
  "wait_loop r [] = None"
| "wait_loop r (CtxDone # es) = Some es"
| "wait_loop r (Tick # es) = (if r then Some es else wait_loop r es)"

definition WaitForExit :: "'sec senv \<Rightarrow> wait_event list \<Rightarrow> sched list \<Rightarrow> Supervisor \<Rightarrow> (bool \<times> Supervisor) go" where
  "WaitForExit se es sch sv =
     (case wait_loop (restarting sv) es of
        None \<Rightarrow> Ret (False, sv)
      | Some _ \<Rightarrow>
          bindg (pm_StopAllProcesses (se_pe se) (se_so se 0) sch (sv_pm sv)) (\<lambda>(b, pm). Ret (todo b = [], sv\<lparr>sv_pm := pm\<rparr>)))"

section \<open>REST handlers\<close>

text \<open>The result is the \<open>success\<close> field of the answer; \<open>None\<close> while the call is blocked.\<close>

definition rest_success :: "bool rpc \<times> Supervisor \<Rightarrow> bool option \<times> Supervisor" where
  "rest_success r = (case fst r of Blocked \<Rightarrow> None | Done err ok \<Rightarrow> Some (err = None \<and> ok), snd r)"

definition StartProgram :: "'sec senv \<Rightarrow> string \<Rightarrow> sched list \<Rightarrow> Supervisor \<Rightarrow> (bool option \<times> Supervisor) go" where
  "StartProgram se name sch sv = bindg (StartProcess se name True sch sv) (\<lambda>r. Ret (rest_success r))"

definition StopProgram :: "'sec senv \<Rightarrow> string \<Rightarrow> sched list \<Rightarrow> Supervisor \<Rightarrow> (bool option \<times> Supervisor) go" where
  "StopProgram se name sch sv = bindg (StopProcess se name True sch sv) (\<lambda>r. Ret (rest_success r))"

text \<open>
  The loops of \<open>StartPrograms\<close> and \<open>StopPrograms\<close> over the names of the request (\<open>None\<close> when the body
  is no JSON array of strings), each with its schedule. The result is the status code and body;
  the outcome of each call is ignored.
\<close>

fun each_program ::
  "(string \<Rightarrow> sched list \<Rightarrow> Supervisor \<Rightarrow> (bool option \<times> Supervisor) go) \<Rightarrow> string list \<Rightarrow> sched list list \<Rightarrow> Supervisor \<Rightarrow>
   (bool \<times> Supervisor) go" where
  "each_program f [] schs sv = Ret (True, sv)"
| "each_program f (p # ps) [] sv = Ret (False, sv)"
| "each_program f (p # ps) (sch # schs) sv =
     bindg (f p sch sv) (\<lambda>(r, sv'). if r = None then Ret (False, sv') else each_program f ps schs sv')"

definition programs_handler ::
  "(string \<Rightarrow> sched list \<Rightarrow> Supervisor \<Rightarrow> (bool option \<times> Supervisor) go) \<Rightarrow> string \<Rightarrow> string list option \<Rightarrow> sched list list \<Rightarrow>
   Supervisor \<Rightarrow> ((int \<times> string) option \<times> Supervisor) go" where
  "programs_handler f verb body schs sv =
     (case body of
        None \<Rightarrow> Ret (Some (400, ''not a valid request''), sv)
      | Some programs \<Rightarrow>
          bindg (each_program f programs schs sv) (\<lambda>(ok, sv').
            Ret (if ok then Some (200, ''Success to '' @ verb @ '' the programs'') else None, sv')))"

definition StartPrograms ::
  "'sec senv \<Rightarrow> string list option \<Rightarrow> sched list list \<Rightarrow> Supervisor \<Rightarrow> ((int \<times> string) option \<times> Supervisor) go" where
  "StartPrograms se body schs sv = programs_handler (StartProgram se) ''start'' body schs sv"

definition StopPrograms ::
  "'sec senv \<Rightarrow> string list option \<Rightarrow> sched list list \<Rightarrow> Supervisor \<Rightarrow> ((int \<times> string) option \<times> Supervisor) go" where
  "StopPrograms se body schs sv = programs_handler (StopProgram se) ''stop'' body schs sv"

definition rest_Shutdown :: "'sec senv \<Rightarrow> sched list \<Rightarrow> Supervisor \<Rightarrow> (string option \<times> Supervisor) go" where
  "rest_Shutdown se sch sv =
     bindg (sv_Shutdown se sch sv) (\<lambda>(r, sv'). Ret (case r of Blocked \<Rightarrow> None | Done _ _ \<Rightarrow> Some ''Shutdown...'', sv'))"

text \<open>The reply's \<open>Ret\<close> is never set, so the answer says \<open>success: false\<close> whatever happened.\<close>

definition rest_Reload :: "'sec senv \<Rightarrow> reload_sched \<Rightarrow> Supervisor \<Rightarrow> (bool option \<times> Supervisor) go" where
  "rest_Reload se rs sv = bindg (Reload se rs sv) (\<lambda>(r, sv'). Ret (map_option (\<lambda>_. False) r, sv'))"

section \<open>The XML-RPC methods\<close>

definition rpc_aliases :: "(string \<times> string) list" where
  "rpc_aliases =
     [(''supervisor.getVersion'', ''Supervisor.GetVersion''), (''supervisor.getAPIVersion'', ''Supervisor.GetVersion''),
      (''supervisor.getIdentification'', ''Supervisor.GetIdentification''), (''supervisor.getState'', ''Supervisor.GetState''),
      (''supervisor.getPID'', ''Supervisor.GetPID''), (''supervisor.readLog'', ''Supervisor.ReadLog''),
      (''supervisor.clearLog'', ''Supervisor.ClearLog''), (''supervisor.shutdown'', ''Supervisor.Shutdown''),
      (''supervisor.restart'', ''Supervisor.Restart''), (''supervisor.getProcessInfo'', ''Supervisor.GetProcessInfo''),
      (''supervisor.getSupervisorVersion'', ''Supervisor.GetVersion''), (''supervisor.getAllProcessInfo'', ''Supervisor.GetAllProcessInfo''),
      (''supervisor.startProcess'', ''Supervisor.StartProcess''), (''supervisor.startAllProcesses'', ''Supervisor.StartAllProcesses''),
      (''supervisor.startProcessGroup'', ''Supervisor.StartProcessGroup''), (''supervisor.stopProcess'', ''Supervisor.StopProcess''),
      (''supervisor.stopProcessGroup'', ''Supervisor.StopProcessGroup''), (''supervisor.stopAllProcesses'', ''Supervisor.StopAllProcesses''),
      (''supervisor.signalProcess'', ''Supervisor.SignalProcess''), (''supervisor.signalProcessGroup'', ''Supervisor.SignalProcessGroup''),
      (''supervisor.signalAllProcesses'', ''Supervisor.SignalAllProcesses''), (''supervisor.sendProcessStdin'', ''Supervisor.SendProcessStdin''),
      (''supervisor.sendRemoteCommEvent'', ''Supervisor.SendRemoteCommEvent''), (''supervisor.reloadConfig'', ''Supervisor.ReloadConfig''),
      (''supervisor.addProcessGroup'', ''Supervisor.AddProcessGroup''), (''supervisor.removeProcessGroup'', ''Supervisor.RemoveProcessGroup''),
      (''supervisor.readProcessStdoutLog'', ''Supervisor.ReadProcessStdoutLog''), (''supervisor.readProcessStderrLog'', ''Supervisor.ReadProcessStderrLog''),
      (''supervisor.tailProcessStdoutLog'', ''Supervisor.TailProcessStdoutLog''), (''supervisor.tailProcessStderrLog'', ''Supervisor.TailProcessStderrLog''),
      (''supervisor.clearProcessLogs'', ''Supervisor.ClearProcessLogs''), (''supervisor.clearAllProcessLogs'', ''Supervisor.ClearAllProcessLogs'')]"

end
