(* ===== verification/SupervisorFacts.thy ===== *)
theory SupervisorFacts
  imports Supervisor
begin

text \<open>
  What the supervisor keeps: its tables are well formed and all its processes are in a sound
  state, whatever remote procedures are called and however the goroutines interleave; hence
  its queries never dereference nil. A reload brings configuration, manager and processes in
  step.
\<close>

section \<open>The invariant\<close>

definition sv_inv :: "Supervisor \<Rightarrow> bool" where
  "sv_inv sv \<longleftrightarrow> pm_wf (sv_pm sv) \<and> all_pinv (sv_pm sv)"

text \<open>
  Steps that keep the table of programs: the entries keep their addresses, the processes stay
  where they are, and the manager keeps its invariant.
\<close>

definition pm_step :: "ProcessManager \<Rightarrow> ProcessManager \<Rightarrow> bool" where
  "pm_step pm pm' \<longleftrightarrow> (pm_wf pm \<longrightarrow> pm_wf pm') \<and> (all_pinv pm \<longrightarrow> all_pinv pm') \<and>
     length (sh_heap pm) \<le> length (sh_heap pm')"

lemma pm_step_refl [simp]: "pm_step pm pm"
  by (simp add: pm_step_def)

lemma pm_step_trans [trans]: "pm_step pm pm' \<Longrightarrow> pm_step pm' pm'' \<Longrightarrow> pm_step pm pm''"
  by (auto simp: pm_step_def)

lemma sv_inv_step: "sv_inv sv \<Longrightarrow> pm_step (sv_pm sv) (sv_pm sv') \<Longrightarrow> sv_inv sv'"
  by (simp add: sv_inv_def pm_step_def)

lemma pm_step_world [simp]: "pm_step pm (pm\<lparr>sh_world := w\<rparr>)"
  by (simp add: pm_step_def pm_wf_def all_pinv_def cfg_of_def)

lemma same_tables_step: "same_tables pm pm' \<Longrightarrow> (all_pinv pm \<longrightarrow> all_pinv pm') \<Longrightarrow> pm_step pm pm'"
  using same_tables_wf[of pm pm'] by (simp add: pm_step_def same_tables_def)

lemma run_batch_step:
  assumes "run_batch pe p calls sch pm = Ret (b, pm')" "\<forall>a\<in>set (map fst calls). a < length (sh_heap pm)"
  shows "same_tables pm pm'" "pm_step pm pm'"
  using run_batch_ok[OF assms] by (auto simp: batch_ok_def intro: same_tables_step)

section \<open>Which processes are called\<close>

lemma sortProcess_subset: "sortProcess os so pm ps = Ret qs \<Longrightarrow> set qs \<subseteq> set ps"
  by (auto simp: sortProcess_def bindg_eq_Ret Let_def)

lemma getAllProcess_valid:
  "getAllProcess os so pm = Ret ps \<Longrightarrow> pm_wf pm \<Longrightarrow> a \<in> set ps \<Longrightarrow> a < length (sh_heap pm)"
  using sortProcess_subset[of os so pm "map snd (procs pm)" ps] pm_wf_entry(2)[of pm] by (force simp: getAllProcess_def)

lemma FindMatch_valid:
  "FindMatch os so n pm = Ret ps \<Longrightarrow> pm_wf pm \<Longrightarrow> a \<in> set ps \<Longrightarrow> a < length (sh_heap pm)"
  by (auto simp: FindMatch_def bindg_eq_Ret Let_def getAllProcess_valid split: if_splits option.splits
      dest!: map_of_SomeD dest: pm_wf_entry(2))

lemma pm_Find_valid: "pm_Find os so n pm = Ret (Some a) \<Longrightarrow> pm_wf pm \<Longrightarrow> a < length (sh_heap pm)"
proof -
  assume f: "pm_Find os so n pm = Ret (Some a)" and wf: "pm_wf pm"
  obtain ps where ps: "FindMatch os so n pm = Ret ps" using f by (auto simp: pm_Find_def bindg_eq_Ret)
  have "ps = [a]" using f ps by (cases ps rule: remdups_adj.cases) (auto simp: pm_Find_def split: if_splits)
  with FindMatch_valid[OF ps wf] show ?thesis by simp
qed

section \<open>Calls keep the invariant\<close>

lemma call_matching_step:
  "call_matching se msg n c sch sv = Ret (r, sv') \<Longrightarrow> pm_wf (sv_pm sv) \<Longrightarrow> pm_step (sv_pm sv) (sv_pm sv')"
  by (auto simp: call_matching_def bindg_eq_Ret split: if_splits dest!: run_batch_step(2) intro: FindMatch_valid)

lemma AsyncForEach_step:
  "AsyncForEachProcess pe so f sch pm = Ret (b, pm') \<Longrightarrow> pm_wf pm \<Longrightarrow> pm_step pm pm'"
  by (auto simp: AsyncForEachProcess_def bindg_eq_Ret dest!: run_batch_step(2) intro: getAllProcess_valid)

lemma call_all_step:
  "call_all se f keep answer sch sv = Ret (r, sv') \<Longrightarrow> pm_wf (sv_pm sv) \<Longrightarrow> pm_step (sv_pm sv) (sv_pm sv')"
  by (auto simp: call_all_def bindg_eq_Ret AsyncForEach_step)

lemma signal_each_step:
  "signal_each se sel sig sch sv = Ret (r, sv') \<Longrightarrow> pm_wf (sv_pm sv) \<Longrightarrow> pm_step (sv_pm sv) (sv_pm sv')"
  by (auto simp: signal_each_def bindg_eq_Ret split: if_splits dest!: run_batch_step(2) intro: getAllProcess_valid)

lemma Shutdown_step:
  "sv_Shutdown se sch sv = Ret (r, sv') \<Longrightarrow> pm_wf (sv_pm sv) \<Longrightarrow> pm_step (sv_pm sv) (sv_pm sv')"
  by (auto simp: sv_Shutdown_def pm_StopAllProcesses_def bindg_eq_Ret split: if_splits dest: AsyncForEach_step)

lemma clear_logs_frame:
  assumes "clear_logs s = Ret (e1, e2, s')"
  shows "\<exists>lo le w. s' = s\<lparr>proc := (proc s)\<lparr>StdoutLog := lo, StderrLog := le\<rparr>, wld := w\<rparr>"
proof -
  obtain out err1 out' w1 where o1: "StdoutLog (proc s) = Some out" "lg_ClearAllLogFile out (wld s) = Ret (err1, out', w1)"
    using assms by (auto simp: clear_logs_def bindg_eq_Ret split: option.splits)
  define p1 where "p1 = (proc s)\<lparr>StdoutLog := Some out'\<rparr>"
  note c = assms[unfolded clear_logs_def o1 option.case bindg.simps prod.case Let_def p1_def[symmetric]]
  obtain el err2 el' w2 where o2: "err_logger p1 = Some el" "lg_ClearAllLogFile el w1 = Ret (err2, el', w2)"
    using c by (auto simp: bindg_eq_Ret split: option.splits)
  note c2 = c[unfolded o2 option.case bindg.simps prod.case]
  show ?thesis
  proof (cases "StderrLog p1")
    case (ErrOwn lg)
    with c2 have "s' = s\<lparr>proc := (proc s)\<lparr>StdoutLog := Some out', StderrLog := ErrOwn el'\<rparr>, wld := w2\<rparr>" by (simp add: p1_def)
    then show ?thesis by blast
  next
    case (ErrCapture pec)
    with c2 have "s' = s\<lparr>proc := (case el' of CaptureL lg _ \<Rightarrow> p1\<lparr>StdoutLog := Some lg\<rparr> | _ \<Rightarrow> p1), wld := w2\<rparr>" by simp
    moreover have "\<exists>lo. (case el' of CaptureL lg _ \<Rightarrow> p1\<lparr>StdoutLog := Some lg\<rparr> | _ \<Rightarrow> p1) =
        (proc s)\<lparr>StdoutLog := lo, StderrLog := StderrLog (proc s)\<rparr>"
      by (cases el') (auto simp: p1_def intro: exI[of _ "Some out'"])
    ultimately show ?thesis by metis
  next
    case ErrSame
    with c2 have "s' = s\<lparr>proc := p1\<lparr>StdoutLog := Some el'\<rparr>, wld := w2\<rparr>" by simp
    moreover have "p1\<lparr>StdoutLog := Some el'\<rparr> = (proc s)\<lparr>StdoutLog := Some el', StderrLog := StderrLog (proc s)\<rparr>"
      by (simp add: p1_def)
    ultimately show ?thesis by metis
  next
    case ErrNone
    with o2(1) show ?thesis by (simp add: err_logger_def)
  qed
qed

lemma clear_logs_pinv: "clear_logs s = Ret (e1, e2, s') \<Longrightarrow> pinv tr s \<Longrightarrow> pinv tr s'"
  by (drule clear_logs_frame) (elim exE, rule pinv_control, assumption, simp_all)

lemma clear_put_step:
  assumes "clear_logs (proc_view pm a) = Ret (e1, e2, s')" "a < length (sh_heap pm)"
  shows "pm_step pm (proc_put pm a s')"
  using assms clear_logs_pinv all_pinv_view all_pinv_put by (intro same_tables_step) (simp, blast)

lemma ClearProcessLogs_step:
  "ClearProcessLogs se n sv = Ret (e, ok, sv') \<Longrightarrow> pm_wf (sv_pm sv) \<Longrightarrow> pm_step (sv_pm sv) (sv_pm sv')"
proof -
  assume r: "ClearProcessLogs se n sv = Ret (e, ok, sv')" and wf: "pm_wf (sv_pm sv)"
  obtain f where f: "pm_Find (se_os se) (se_so se 0) n (sv_pm sv) = Ret f"
    using r by (auto simp: ClearProcessLogs_def bindg_eq_Ret)
  show ?thesis
  proof (cases f)
    case None
    with r f show ?thesis by (simp add: ClearProcessLogs_def)
  next
    case (Some a)
    with r f obtain e1 e2 s' where "clear_logs (proc_view (sv_pm sv) a) = Ret (e1, e2, s')" "sv_pm sv' = proc_put (sv_pm sv) a s'"
      by (auto simp: ClearProcessLogs_def bindg_eq_Ret)
    with clear_put_step[OF _ pm_Find_valid[OF f[unfolded Some] wf]] show ?thesis by simp
  qed
qed

lemma ClearAllProcessLogs_step:
  assumes "ClearAllProcessLogs se sv = Ret (res, sv')" "pm_wf (sv_pm sv)"
  shows "pm_step (sv_pm sv) (sv_pm sv')"
proof -
  obtain ps pm where ps: "getAllProcess (se_os se) (se_so se 0) (sv_pm sv) = Ret ps"
    and f: "foldg (\<lambda>(res, pm) a. bindg (clear_logs (proc_view pm a)) (\<lambda>(err1, err2, s').
         bindg (getProcessInfo se s') (\<lambda>i. Ret (res @ [task_ok i], proc_put pm a s')))) ([], sv_pm sv) ps = Ret (res, pm)"
    and sv': "sv' = sv\<lparr>sv_pm := pm\<rparr>"
    using assms(1) by (auto simp: ClearAllProcessLogs_def bindg_eq_Ret)
  have "pm_step (sv_pm sv) (snd (res, pm))"
  proof (rule foldg_inv[OF f, where P = "\<lambda>x. pm_step (sv_pm sv) (snd x)"])
    fix s a s'
    assume h: "pm_step (sv_pm sv) (snd s)" "a \<in> set ps"
      "(case s of (res, pm) \<Rightarrow> \<lambda>a. bindg (clear_logs (proc_view pm a)) (\<lambda>(err1, err2, s').
         bindg (getProcessInfo se s') (\<lambda>i. Ret (res @ [task_ok i], proc_put pm a s')))) a = Ret s'"
    have "a < length (sh_heap (snd s))" using getAllProcess_valid[OF ps assms(2) h(2)] h(1) by (simp add: pm_step_def)
    with h(3) have "pm_step (snd s) (snd s')" by (auto simp: bindg_eq_Ret split: prod.splits intro: clear_put_step)
    with h(1) show "pm_step (sv_pm sv) (snd s')" by (rule pm_step_trans)
  qed simp
  with sv' show ?thesis by simp
qed


section \<open>Reload\<close>

text \<open>Creating processes: old ones stay in place.\<close>

definition grows :: "ProcessManager \<Rightarrow> ProcessManager \<Rightarrow> bool" where
  "grows pm pm' \<longleftrightarrow> sh_conf pm' = sh_conf pm \<and> length (sh_heap pm) \<le> length (sh_heap pm') \<and>
     (\<forall>a<length (sh_heap pm). sh_heap pm' ! a = sh_heap pm ! a) \<and> map_of (procs pm) \<subseteq>\<^sub>m map_of (procs pm')"

lemma grows_refl [simp]: "grows pm pm"
  by (simp add: grows_def)

lemma grows_trans: "grows pm pm' \<Longrightarrow> grows pm' pm'' \<Longrightarrow> grows pm pm''"
  by (fastforce simp: grows_def intro: map_le_trans)

lemma pinv_new_psys: "pinv tr (new_psys sid c w)"
  by (rule pinv_initial) (auto simp: proc_initial_def new_psys_def)

lemma alloc_facts:
  assumes "alloc sid cfg pm = (a, pm1)"
  shows "grows pm pm1" "all_pinv pm \<Longrightarrow> all_pinv pm1" "a = length (sh_heap pm)" "length (sh_heap pm1) = Suc a"
    "cfg_of pm1 a = cfg" "procs pm1 = procs pm" "pm_listeners pm1 = pm_listeners pm" "b < a \<Longrightarrow> cfg_of pm1 b = cfg_of pm b"
  using assms by (auto simp: alloc_def grows_def all_pinv_def pinv_new_psys cfg_of_def nth_append)

lemma CreateProcess_facts:
  assumes wf: "pm_wf pm" and k: "map_of (cf_entries (sh_conf pm)) k = Some cfg" and r: "CreateProcess sid cfg pm = (r, pm')"
  shows "pm_wf pm' \<and> (all_pinv pm \<longrightarrow> all_pinv pm') \<and> grows pm pm' \<and> (\<forall>a. r = Some a \<longrightarrow> a < length (sh_heap pm')) \<and>
    (IsProgram (cf_at (sh_conf pm) cfg) \<longrightarrow> map_of (procs pm') k \<noteq> None)"
proof -
  have wfc: "cf_wf (sh_conf pm)" using wf by (simp add: pm_wf_def)
  obtain a pm1 where al: "alloc sid cfg pm = (a, pm1)" by fastforce
  note af = alloc_facts[OF al]
  have conf: "sh_conf pm1 = sh_conf pm" using af(1) by (simp add: grows_def)
  have wf1: "pm_wf pm1"
    using wf af(3-8) conf by (force simp: pm_wf_def)
  consider (prog) "IsProgram (cf_at (sh_conf pm) cfg)" | (lsn) "\<not> IsProgram (cf_at (sh_conf pm) cfg)" "IsEventListener (cf_at (sh_conf pm) cfg)"
    | (other) "\<not> IsProgram (cf_at (sh_conf pm) cfg)" "\<not> IsEventListener (cf_at (sh_conf pm) cfg)" by blast
  then show ?thesis
  proof cases
    case prog
    have nm: "GetProgramName (cf_at (sh_conf pm) cfg) = k" using cf_wf_entry[OF wfc map_of_SomeD[OF k] prog] .
    show ?thesis
    proof (cases "map_of (procs pm) k")
      case None
      then have "AList.update k a (procs pm) = procs pm @ [(k, a)]" by (simp add: update_fresh map_of_eq_None_iff)
      then have new: "pm' = pm1\<lparr>procs := procs pm @ [(k, a)]\<rparr>" "r = Some a"
        using r prog nm al af(6) None by (auto simp: CreateProcess_def createProgram_def)
      have "pm_wf pm'"
        using wf1 af(3-6) k conf None unfolding new by (auto simp: pm_wf_def cfg_of_def map_of_eq_None_iff)
      moreover have "grows pm pm'" using af(1) None new by (auto simp: grows_def map_le_def dom_def map_add_def split: option.splits)
      ultimately show ?thesis using af new by (auto simp: all_pinv_def map_add_def split: option.split)
    next
      case (Some b)
      then have "pm' = pm" "r = Some b" using r prog nm by (auto simp: CreateProcess_def createProgram_def)
      then show ?thesis using wf Some pm_wf_entry(2)[OF wf map_of_SomeD[OF Some]] by simp
    qed
  next
    case lsn
    let ?n = "GetEventListenerName (cf_at (sh_conf pm) cfg)"
    show ?thesis
    proof (cases "map_of (pm_listeners pm) ?n")
      case None
      then have "AList.update ?n a (pm_listeners pm) = pm_listeners pm @ [(?n, a)]" by (simp add: update_fresh map_of_eq_None_iff)
      then have new: "pm' = pm1\<lparr>pm_listeners := pm_listeners pm @ [(?n, a)]\<rparr>" "r = Some a"
        using r lsn al af(7) None by (auto simp: CreateProcess_def createEventListener_def)
      have "pm_wf pm'" using wf1 af(3,4,7) unfolding new by (auto simp: pm_wf_def cfg_of_def)
      moreover have "grows pm pm'" using af(1) new by (simp add: grows_def)
      ultimately show ?thesis using af new lsn by (auto simp: all_pinv_def)
    next
      case (Some b)
      then have "pm' = pm" "r = Some b" using r lsn by (auto simp: CreateProcess_def createEventListener_def)
      moreover have "b < length (sh_heap pm)" using wf Some by (force simp: pm_wf_def dest: map_of_SomeD)
      ultimately show ?thesis using wf lsn by simp
    qed
  next
    case other
    then show ?thesis using r wf by (auto simp: CreateProcess_def)
  qed
qed


lemma create_all_facts:
  assumes wf: "pm_wf pm" and ks: "\<forall>cfg\<in>set cfgs. \<exists>k. map_of (cf_entries (sh_conf pm)) k = Some cfg"
    and r: "create_all sid cfgs pm = (as, pm')"
  shows "pm_wf pm' \<and> (all_pinv pm \<longrightarrow> all_pinv pm') \<and> grows pm pm' \<and> (\<forall>a\<in>set as. a < length (sh_heap pm')) \<and>
    (\<forall>k cfg. cfg \<in> set cfgs \<and> map_of (cf_entries (sh_conf pm)) k = Some cfg \<and> IsProgram (cf_at (sh_conf pm) cfg) \<longrightarrow>
       map_of (procs pm') k \<noteq> None)"
  using ks r
proof (induction cfgs arbitrary: "as" pm' rule: rev_induct)
  case Nil
  then show ?case using wf by (simp add: create_all_def)
next
  case (snoc cfg cfgs)
  obtain as1 pm1 where c1: "create_all sid cfgs pm = (as1, pm1)" by fastforce
  obtain x where c2: "CreateProcess sid cfg pm1 = (x, pm')" "as = (case x of None \<Rightarrow> as1 | Some a \<Rightarrow> as1 @ [a])"
    using snoc.prems(2) c1 by (cases "CreateProcess sid cfg pm1") (auto simp: create_all_def)
  have "\<forall>cfg\<in>set cfgs. \<exists>k. map_of (cf_entries (sh_conf pm)) k = Some cfg" using snoc.prems(1) by simp
  note ih = snoc.IH[OF this c1]
  have conf: "sh_conf pm1 = sh_conf pm" using ih by (simp add: grows_def)
  obtain k where k: "map_of (cf_entries (sh_conf pm)) k = Some cfg" using snoc.prems(1) by auto
  have wf1: "pm_wf pm1" using ih by simp
  note st = CreateProcess_facts[OF wf1 k[folded conf] c2(1)]
  have g: "grows pm1 pm'" using st by simp
  have "k' = k" if "map_of (cf_entries (sh_conf pm)) k' = Some cfg" for k'
    using cf_wf_inj[of "sh_conf pm"] that k wf by (simp add: pm_wf_def)
  moreover have "map_of (procs pm') k' \<noteq> None" if "map_of (procs pm1) k' \<noteq> None" for k'
    using g that by (auto simp: grows_def map_le_def dom_def)
  ultimately have "\<forall>k' c. c \<in> set (cfgs @ [cfg]) \<and> map_of (cf_entries (sh_conf pm)) k' = Some c \<and> IsProgram (cf_at (sh_conf pm) c) \<longrightarrow>
       map_of (procs pm') k' \<noteq> None" using ih st conf by auto
  moreover have "\<forall>a\<in>set as. a < length (sh_heap pm')" using ih st g c2(2) by (auto simp: grows_def split: option.splits)
  ultimately show ?case using ih st grows_trans[OF _ g] by blast
qed

lemma GetEntries_keys: "cfg \<in> set (GetEntries c P) \<Longrightarrow> cf_wf c \<Longrightarrow> (\<exists>k. map_of (cf_entries c) k = Some cfg) \<and> P (cf_at c cfg)"
  by (auto simp: GetEntries_def cf_wf_def)

lemma GetEntries_complete: "map_of (cf_entries c) k = Some cfg \<Longrightarrow> P (cf_at c cfg) \<Longrightarrow> cfg \<in> set (GetEntries c P)"
  by (force simp: GetEntries_def dest: map_of_SomeD)

definition sorters_ok :: "'sec senv \<Rightarrow> bool" where
  "sorters_ok se \<longleftrightarrow> (\<forall>i. is_range (so_passes (se_so se i)) \<and> is_perm (so_sort (se_so se i)))"

lemma cf_GetPrograms_set:
  assumes "sorters_ok se" "cf_GetPrograms os (se_so se i) c = Ret cs"
  shows "set cs = set (GetEntries c IsProgram)"
proof -
  have "mset cs = mset (filter (\<lambda>p. IsProgram (cf_at c p)) (GetEntries c IsProgram))"
    using assms(1) by (intro SortProgram_perm[OF _ _ assms(2)[unfolded cf_GetPrograms_def]]) (simp_all add: sorters_ok_def)
  moreover have "filter (\<lambda>p. IsProgram (cf_at c p)) (GetEntries c IsProgram) = GetEntries c IsProgram"
    by (simp add: GetEntries_def filter_id_conv)
  ultimately show ?thesis by (metis set_mset_mset)
qed

lemma GetProgramNames_set:
  assumes ok: "sorters_ok se" and wf: "cf_wf c" and r: "GetProgramNames os (se_so se i) (se_so se j) c = Ret ns"
  shows "set ns = {k. GetProgram c k \<noteq> None}"
proof -
  obtain cs ds where cs: "cf_GetPrograms os (se_so se i) c = Ret cs"
    and ds: "SortProgram os (cf_at c) (so_passes (se_so se j)) (so_sort (se_so se j)) cs = Ret ds"
    and ns: "ns = map (\<lambda>a. GetProgramName (cf_at c a)) ds"
    using r by (auto simp: GetProgramNames_def bindg_eq_Ret)
  have "mset ds = mset (filter (\<lambda>p. IsProgram (cf_at c p)) cs)"
    using SortProgram_perm[OF _ _ ds] ok by (auto simp: sorters_ok_def)
  then have "set ds = {a \<in> set cs. IsProgram (cf_at c a)}" by (metis set_filter set_mset_mset)
  then have d: "set ds = {a. (\<exists>k. map_of (cf_entries c) k = Some a) \<and> IsProgram (cf_at c a)}"
    using cf_GetPrograms_set[OF ok cs] GetEntries_keys[OF _ wf] GetEntries_complete[of c] by blast
  have "GetProgramName (cf_at c a) = k" if "map_of (cf_entries c) k = Some a" "IsProgram (cf_at c a)" for k a
    using cf_wf_entry[OF wf map_of_SomeD[OF that(1)] that(2)] .
  then show ?thesis unfolding ns GetProgram_lookup[OF wf] set_map d
    by (auto split: option.splits if_splits intro!: image_eqI)
qed


text \<open>What the stages between the load and the removal keep.\<close>

definition keeps :: "ProcessManager \<Rightarrow> ProcessManager \<Rightarrow> bool" where
  "keeps pm pm' \<longleftrightarrow> sh_conf pm' = sh_conf pm \<and> length (sh_heap pm) \<le> length (sh_heap pm') \<and>
     (\<forall>a<length (sh_heap pm). cfg_of pm' a = cfg_of pm a) \<and> map_of (procs pm) \<subseteq>\<^sub>m map_of (procs pm') \<and> pm_step pm pm'"

lemma keeps_trans: "keeps pm pm' \<Longrightarrow> keeps pm' pm'' \<Longrightarrow> keeps pm pm''"
  by (fastforce simp: keeps_def intro: map_le_trans pm_step_trans)

lemma keeps_refl [simp]: "keeps pm pm" and keeps_world [simp]: "keeps pm (pm\<lparr>sh_world := w\<rparr>)"
  by (simp_all add: keeps_def cfg_of_def)

lemma keeps_same_tables: "same_tables pm pm' \<Longrightarrow> pm_step pm pm' \<Longrightarrow> keeps pm pm'"
  by (simp add: keeps_def same_tables_def)

lemma grows_keeps: "grows pm pm' \<Longrightarrow> pm_step pm pm' \<Longrightarrow> keeps pm pm'"
  by (simp add: keeps_def grows_def cfg_of_def)

lemma setSupervisordInfo_keeps:
  assumes "setSupervisordInfo se sv = Ret sv'"
  shows "keeps (sv_pm sv) (sv_pm sv')"
proof (cases "GetSupervisord (sv_conf sv)")
  case (Some a)
  define c where "c = cf_at (sv_conf sv) a"
  obtain env lf r where e: "here_env se = Ret env" "GetString (se_os se) c ''logfile'' ''supervisord.log'' = Ret lf"
    "Eval (fmt_other (se_os se)) env lf = Ret r"
    using assms Some by (auto simp: setSupervisordInfo_def Let_def bindg_eq_Ret c_def)
  define lr where "lr = (case r of Inr f \<Rightarrow> Some f | Inl _ \<Rightarrow> Path_expand (pe_users (se_pe se)) [])"
  note a1 = assms[unfolded setSupervisordInfo_def Some option.case Let_def c_def[symmetric] e bindg.simps lr_def[symmetric]]
  show ?thesis
  proof (cases "lr = Some ''/dev/stdout''")
    case False
    define B where "B = (case lr of None \<Rightarrow> Ret (sv\<lparr>sv_logger := Some (NullL NullLogEventEmitter)\<rparr>)
        | Some logFile \<Rightarrow>
            bindg (GetString (se_os se) c ''loglevel'' ''info'') (\<lambda>level.
            bindg (NewLogger logFile (GetBytes c ''logfile_maxbytes'' (50 * 1024 * 1024))
                     (GetInt c ''logfile_backups'' 10) NullLogEventEmitter (sh_world (sv_pm sv))) (\<lambda>(lg, w).
              Ret (sv\<lparr>sv_logger := Some lg, sv_level := toLogLevel level, sv_pm := (sv_pm sv)\<lparr>sh_world := w\<rparr>\<rparr>))))"
    obtain sv1 where sv1: "B = Ret sv1" using a1 False by (auto simp: B_def[symmetric] bindg_eq_Ret)
    obtain rp :: "eval_error + string" where s: "sv' = (case rp of Inl _ \<Rightarrow> sv1
        | Inr pidfile \<Rightarrow> sv1\<lparr>sv_pm := (sv_pm sv1)\<lparr>sh_world := write_pidfile se pidfile (sh_world (sv_pm sv1))\<rparr>\<rparr>)"
      using a1 False sv1 by (auto simp: B_def[symmetric] bindg_eq_Ret)
    have "keeps (sv_pm sv) (sv_pm sv1)" using sv1 by (auto simp: B_def bindg_eq_Ret split: option.splits)
    with s show ?thesis by (cases rp) (auto intro: keeps_trans)
  qed (use a1 in simp)
qed (use assms in \<open>simp add: setSupervisordInfo_def\<close>)

lemma startEventListeners_keeps:
  assumes "startEventListeners se sch sv = Ret (ok, sv')" "pm_wf (sv_pm sv)"
  shows "keeps (sv_pm sv) (sv_pm sv')"
proof -
  obtain sid where sid: "GetSupervisorId se sv = Ret sid" using assms(1) by (auto simp: startEventListeners_def bindg_eq_Ret)
  obtain "as" pm where r1: "create_all sid (GetEventListeners (sv_conf sv)) (sv_pm sv) = (as, pm)" by fastforce
  obtain b where r: "create_all sid (GetEventListeners (sv_conf sv)) (sv_pm sv) = (as, pm)"
    "run_batch (se_pe se) False (map (\<lambda>a. (a, CStart False)) as) sch pm = Ret (b, sv_pm sv')"
    using assms(1) sid r1 by (auto simp: startEventListeners_def bindg_eq_Ret)
  have "cf_wf (sv_conf sv)" using assms(2) by (simp add: pm_wf_def)
  then have "\<forall>cfg\<in>set (GetEventListeners (sv_conf sv)). \<exists>k. map_of (cf_entries (sv_conf sv)) k = Some cfg"
    using GetEntries_keys by (auto simp: GetEventListeners_def)
  note c = create_all_facts[OF assms(2) this r(1)]
  have "keeps (sv_pm sv) pm" using c by (intro grows_keeps) (auto simp: pm_step_def grows_def)
  moreover have "keeps pm (sv_pm sv')" using run_batch_step[OF r(2)] c by (auto intro: keeps_same_tables)
  ultimately show ?thesis by (rule keeps_trans)
qed

lemma startAutoStart_keeps:
  assumes "startAutoStartPrograms se sch sv = Ret (ok, sv')" "pm_wf (sv_pm sv)"
  shows "keeps (sv_pm sv) (sv_pm sv')"
proof -
  obtain ps autos b where ps: "getAllProcess (se_os se) (se_so se 5) (sv_pm sv) = Ret ps"
    and r: "run_batch (se_pe se) False (map (\<lambda>(a, b). (a, CStart False)) (filter snd (zip ps autos))) sch (sv_pm sv) = Ret (b, sv_pm sv')"
    using assms(1) by (auto simp: startAutoStartPrograms_def StartAutoStartPrograms_def bindg_eq_Ret)
  have "\<forall>a\<in>set (map fst (map (\<lambda>(a, b). (a, CStart False)) (filter snd (zip ps autos)))). a < length (sh_heap (sv_pm sv))"
    using getAllProcess_valid[OF ps assms(2)] by (auto dest: set_zip_leftD)
  from run_batch_step[OF r this] show ?thesis by (rule keeps_same_tables)
qed

lemma startHttpServer_keeps: "startHttpServer se u sv = Ret sv' \<Longrightarrow> sv_pm sv' = sv_pm sv"
  by (auto simp: startHttpServer_def bindg_eq_Ret Let_def)

lemma removes_facts:
  assumes "pm' = foldl (\<lambda>pm p. snd (pm_Remove p pm)) pm ns"
  shows "map_of (procs pm') = (\<lambda>k. if k \<in> set ns then None else map_of (procs pm) k)"
    "sh_conf pm' = sh_conf pm" "sh_heap pm' = sh_heap pm" "pm_wf pm \<Longrightarrow> pm_wf pm'" "all_pinv pm \<Longrightarrow> all_pinv pm'"
proof -
  show "map_of (procs pm') = (\<lambda>k. if k \<in> set ns then None else map_of (procs pm) k)"
    unfolding assms by (rule pmt.lookup_dels)
  show f: "sh_conf pm' = sh_conf pm" "sh_heap pm' = sh_heap pm"
    unfolding assms by (induction ns arbitrary: pm) (simp_all add: pm_Remove_def)
  show "pm_wf pm'" if "pm_wf pm"
    unfolding assms using that
  proof (induction ns arbitrary: pm)
    case (Cons n ns)
    have "pm_wf (snd (pm_Remove n pm))"
      using Cons.prems by (auto simp: pm_wf_def pm_Remove_def cfg_of_def distinct_map_filter AList.delete_eq)
    then show ?case using Cons.IH by simp
  qed simp
  show "all_pinv pm'" if "all_pinv pm" using that f(2) by (simp add: all_pinv_def)
qed

lemma createPrograms_facts:
  assumes ok: "sorters_ok se" and wf: "pm_wf (sv_pm sv)" and r: "createPrograms se prev sv = Ret sv'"
  shows "pm_step (sv_pm sv) (sv_pm sv')" "sv_conf sv' = sv_conf sv"
    "\<And>a. a < length (sh_heap (sv_pm sv)) \<Longrightarrow> cfg_of (sv_pm sv') a = cfg_of (sv_pm sv) a"
    "\<And>k. GetProgram (sv_conf sv) k \<noteq> None \<Longrightarrow>
       (\<exists>p. map_of (procs (sv_pm sv')) k = Some p \<and> (\<forall>q. map_of (procs (sv_pm sv)) k = Some q \<longrightarrow> p = q))"
proof -
  have wfc: "cf_wf (sv_conf sv)" using wf by (simp add: pm_wf_def)
  obtain ns cs sid where ns: "GetProgramNames (se_os se) (se_so se 2) (se_so se 3) (sv_conf sv) = Ret ns"
    and cs: "cf_GetPrograms (se_os se) (se_so se 4) (sv_conf sv) = Ret cs"
    and sv'': "sv_pm sv' = foldl (\<lambda>pm p. snd (pm_Remove p pm)) (snd (create_all sid cs (sv_pm sv))) (util_Sub prev ns)"
    using r by (auto simp: createPrograms_def bindg_eq_Ret Let_def)
  obtain "as" pm where pm: "create_all sid cs (sv_pm sv) = (as, pm)" by fastforce
  have sv': "sv_pm sv' = foldl (\<lambda>pm p. snd (pm_Remove p pm)) pm (util_Sub prev ns)" using sv'' pm by simp
  have cset: "set cs = set (GetEntries (sv_conf sv) IsProgram)" using cf_GetPrograms_set[OF ok cs] .
  have "\<forall>cfg\<in>set cs. \<exists>k. map_of (cf_entries (sv_conf sv)) k = Some cfg"
    using GetEntries_keys[OF _ wfc] cset by blast
  note c = create_all_facts[OF wf this pm]
  note rm = removes_facts[OF sv']
  have g: "grows (sv_pm sv) pm" using c by simp
  show "pm_step (sv_pm sv) (sv_pm sv')" using c rm g by (simp add: pm_step_def grows_def)
  show "sv_conf sv' = sv_conf sv" using rm(2) g by (simp add: grows_def)
  show "cfg_of (sv_pm sv') a = cfg_of (sv_pm sv) a" if "a < length (sh_heap (sv_pm sv))" for a
    using that rm(3) g by (simp add: grows_def cfg_of_def)
  show "\<exists>p. map_of (procs (sv_pm sv')) k = Some p \<and> (\<forall>q. map_of (procs (sv_pm sv)) k = Some q \<longrightarrow> p = q)"
    if k: "GetProgram (sv_conf sv) k \<noteq> None" for k
  proof -
    have "k \<in> set ns" using GetProgramNames_set[OF ok wfc ns] k by simp
    then have "k \<notin> set (util_Sub prev ns)" by (simp add: util_Sub_filter)
    moreover obtain cfg where cfg: "map_of (cf_entries (sv_conf sv)) k = Some cfg" "IsProgram (cf_at (sv_conf sv) cfg)"
      using k by (auto simp: GetProgram_lookup[OF wfc] split: option.splits if_splits)
    moreover have "cfg \<in> set cs" using GetEntries_complete[of "sv_conf sv" k cfg IsProgram] cfg cset by blast
    ultimately obtain p where p: "map_of (procs (sv_pm sv')) k = Some p" "map_of (procs pm) k = Some p"
      using c rm(1) by (auto simp del: not_None_eq)
    with g show ?thesis by (auto simp: grows_def map_le_def dom_def)
  qed
qed


lemma remove_facts:
  assumes "foldl remove_program (stops, pm) ns = (stops', pm')"
  shows "map_of (procs pm') = (\<lambda>k. if k \<in> set ns then None else map_of (procs pm) k)" (is ?procs)
    "map_of (cf_entries (sh_conf pm')) = (\<lambda>k. if k \<in> set ns then None else map_of (cf_entries (sh_conf pm)) k)" (is ?ents)
    "sh_heap pm' = sh_heap pm \<and> cf_heap (sh_conf pm') = cf_heap (sh_conf pm) \<and> pm_listeners pm' = pm_listeners pm" (is ?heap)
    "pm_wf pm \<Longrightarrow> pm_wf pm'" "set stops' = set stops \<union> ran (map_of (procs pm) |` set ns)" (is ?stops)
proof -
  have step: "remove_program (st, q) n =
      ((case map_of (procs q) n of None \<Rightarrow> st | Some a \<Rightarrow> st @ [a]),
       q\<lparr>sh_conf := RemoveProgram (sh_conf q) n, procs := AList.delete n (procs q)\<rparr>)" for st q n
    by (simp add: remove_program_def pm_Remove_def Let_def)
  have wf1: "pm_wf (q\<lparr>sh_conf := RemoveProgram (sh_conf q) n, procs := AList.delete n (procs q)\<rparr>)" if "pm_wf q" for q n
  proof -
    have "(k, a) \<in> set (procs q) \<and> k \<noteq> n" if "(k, a) \<in> set (AList.delete n (procs q))" for k a
      using that by (auto simp: AList.delete_eq)
    moreover have "distinct (map fst (AList.delete n (procs q)))"
      using that by (simp add: pm_wf_def AList.delete_eq distinct_map_filter)
    ultimately show ?thesis
      using that RemoveProgram_wf[of "sh_conf q" n] by (fastforce simp: pm_wf_def cfg_of_def cft.lookup_del)
  qed
  have "?procs \<and> ?ents \<and> ?heap \<and> (pm_wf pm \<longrightarrow> pm_wf pm') \<and> ?stops"
    using assms
  proof (induction ns arbitrary: stops pm)
    case (Cons n ns)
    let ?q = "pm\<lparr>sh_conf := RemoveProgram (sh_conf pm) n, procs := AList.delete n (procs pm)\<rparr>"
    from Cons.prems have "foldl remove_program ((case map_of (procs pm) n of None \<Rightarrow> stops | Some a \<Rightarrow> stops @ [a]), ?q) ns = (stops', pm')"
      by (simp add: step)
    note ih = Cons.IH[OF this]
    have e: "map_of (cf_entries (sh_conf ?q)) = (map_of (cf_entries (sh_conf pm)))(n := None)" by (simp add: cft.lookup_del)
    have p: "map_of (procs ?q) = (map_of (procs pm))(n := None)" by (simp add: delete_conv')
    have "set stops' = set stops \<union> ran (map_of (procs pm) |` set (n # ns))"
      using ih p by (auto simp: ran_def restrict_map_def split: option.splits if_splits)
    with ih e p wf1[of pm n] show ?case by (auto simp: fun_eq_iff RemoveProgram_def)
  qed simp
  then show ?procs ?ents ?heap "pm_wf pm \<Longrightarrow> pm_wf pm'" ?stops by blast+
qed

lemma remove_programs_facts:
  assumes "remove_programs se ns sch sv = Ret (ok, sv')" "pm_wf (sv_pm sv)"
  shows "map_of (procs (sv_pm sv')) = (\<lambda>k. if k \<in> set ns then None else map_of (procs (sv_pm sv)) k)"
    "map_of (cf_entries (sv_conf sv')) = (\<lambda>k. if k \<in> set ns then None else map_of (cf_entries (sv_conf sv)) k)"
    "cf_heap (sv_conf sv') = cf_heap (sv_conf sv)" "cfg_of (sv_pm sv') = cfg_of (sv_pm sv)" "pm_step (sv_pm sv) (sv_pm sv')"
proof -
  obtain stops pm where f: "foldl remove_program ([], sv_pm sv) ns = (stops, pm)" by fastforce
  obtain b where r: "run_batch (se_pe se) False (map (\<lambda>a. (a, CStop False)) stops) sch pm = Ret (b, sv_pm sv')"
    using assms(1) f by (auto simp: remove_programs_def bindg_eq_Ret)
  note rm = remove_facts[OF f]
  have "a < length (sh_heap (sv_pm sv))" if a: "a \<in> ran (map_of (procs (sv_pm sv)) |` set ns)" for a
  proof -
    from a obtain k where "map_of (procs (sv_pm sv)) k = Some a" by (auto simp: ran_def restrict_map_def split: if_splits)
    then show ?thesis using pm_wf_entry(2)[OF assms(2)] map_of_SomeD by fastforce
  qed
  then have "\<forall>a\<in>set (map fst (map (\<lambda>a. (a, CStop False)) stops)). a < length (sh_heap pm)"
    using rm(3,5) by auto
  note st = run_batch_step[OF r this]
  show "map_of (procs (sv_pm sv')) = (\<lambda>k. if k \<in> set ns then None else map_of (procs (sv_pm sv)) k)"
    "map_of (cf_entries (sv_conf sv')) = (\<lambda>k. if k \<in> set ns then None else map_of (cf_entries (sv_conf sv)) k)"
    "cf_heap (sv_conf sv') = cf_heap (sv_conf sv)" "cfg_of (sv_pm sv') = cfg_of (sv_pm sv)"
    using st(1) rm by (simp_all add: same_tables_def cfg_of_def fun_eq_iff)
  have "pm_step (sv_pm sv) pm" using rm by (simp add: pm_step_def all_pinv_def)
  with st(2) show "pm_step (sv_pm sv) (sv_pm sv')" by (rule pm_step_trans[rotated])
qed

lemma with_conf_wf:
  assumes "pm_wf (sv_pm sv)" "Load os api (sv_conf sv) = Ret (cf, loaded)"
  shows "pm_wf (sv_pm (with_conf cf sv))"
proof -
  have "load_inv (sv_conf sv) (cf, loaded)" using assms by (intro Load_inv) (simp_all add: pm_wf_def)
  then show ?thesis using assms(1)
    by (auto simp: pm_wf_def with_conf_def load_inv_def cfg_of_def intro: cf_extends_key)
qed

lemma Reload_stages:
  assumes "Reload se rs sv = Ret (Some groups, sv')"
  obtains prev cf loaded sv1 sv2 sv3 sv4 sv5 where
    "GetProgramNames (se_os se) (se_so se 0) (se_so se 1) (sv_conf sv) = Ret prev"
    "Load (se_os se) (se_ini se) (sv_conf sv) = Ret (cf, loaded)"
    "setSupervisordInfo se (with_conf cf sv) = Ret sv1" "startEventListeners se (rs_listeners rs) sv1 = Ret (True, sv2)"
    "createPrograms se prev sv2 = Ret sv3" "startHttpServer se (rs_servers rs) sv3 = Ret sv4"
    "startAutoStartPrograms se (rs_autostart rs) sv4 = Ret (True, sv5)"
    "remove_programs se (util_Sub prev loaded) (rs_removed rs) sv5 = Ret (True, sv')"
    "groups = pg_Sub (ProgramGroup (sv_conf sv')) (pg_Clone (ProgramGroup (sv_conf sv)))"
  using assms by (auto simp: Reload_def bindg_eq_Ret Let_def split: if_splits)


lemma Reload_facts:
  assumes wf: "pm_wf (sv_pm sv)" and ok: "sorters_ok se" and r: "Reload se rs sv = Ret (Some groups, sv')"
    and prev: "GetProgramNames (se_os se) (se_so se 0) (se_so se 1) (sv_conf sv) = Ret prev"
    and load: "Load (se_os se) (se_ini se) (sv_conf sv) = Ret (cf, loaded)"
  shows "all_pinv (sv_pm sv) \<Longrightarrow> sv_inv sv'"
    "\<And>k. GetProgram (sv_conf sv') k = (if k \<in> set prev \<and> k \<notin> set loaded then None else GetProgram cf k)"
    "\<And>k. k \<in> set prev \<Longrightarrow> k \<notin> set loaded \<Longrightarrow> map_of (procs (sv_pm sv')) k = None"
    "\<And>k cfg. GetProgram (sv_conf sv') k = Some cfg \<Longrightarrow>
      (\<exists>p. map_of (procs (sv_pm sv')) k = Some p \<and> cfg_of (sv_pm sv') p = cfg \<and>
        (\<forall>q. map_of (procs (sv_pm sv)) k = Some q \<longrightarrow> p = q))"
proof -
  from r obtain sv1 sv2 sv3 sv4 sv5 where st:
    "setSupervisordInfo se (with_conf cf sv) = Ret sv1" "startEventListeners se (rs_listeners rs) sv1 = Ret (True, sv2)"
    "createPrograms se prev sv2 = Ret sv3" "startHttpServer se (rs_servers rs) sv3 = Ret sv4"
    "startAutoStartPrograms se (rs_autostart rs) sv4 = Ret (True, sv5)"
    "remove_programs se (util_Sub prev loaded) (rs_removed rs) sv5 = Ret (True, sv')"
    by (rule Reload_stages) (use prev load in auto)
  have wf0: "pm_wf (sv_pm (with_conf cf sv))" by (rule with_conf_wf[OF wf load])
  have k1: "keeps (sv_pm (with_conf cf sv)) (sv_pm sv1)" by (rule setSupervisordInfo_keeps[OF st(1)])
  then have wf1: "pm_wf (sv_pm sv1)" using wf0 by (simp add: keeps_def pm_step_def)
  have k2: "keeps (sv_pm sv1) (sv_pm sv2)" by (rule startEventListeners_keeps[OF st(2) wf1])
  then have wf2: "pm_wf (sv_pm sv2)" using wf1 by (simp add: keeps_def pm_step_def)
  note c3 = createPrograms_facts[OF ok wf2 st(3)]
  have wf3: "pm_wf (sv_pm sv3)" using c3(1) wf2 by (simp add: pm_step_def)
  have e4: "sv_pm sv4 = sv_pm sv3" by (rule startHttpServer_keeps[OF st(4)])
  have k5: "keeps (sv_pm sv3) (sv_pm sv5)" using startAutoStart_keeps[OF st(5)] e4 wf3 by simp
  then have wf5: "pm_wf (sv_pm sv5)" using wf3 by (simp add: keeps_def pm_step_def)
  note c6 = remove_programs_facts[OF st(6) wf5]
  have wf6: "pm_wf (sv_pm sv')" using c6(5) wf5 by (simp add: pm_step_def)
  have k02: "keeps (sv_pm (with_conf cf sv)) (sv_pm sv2)" by (rule keeps_trans[OF k1 k2])
  have conf2: "sv_conf sv2 = cf" using k02 by (simp add: keeps_def with_conf_def)
  have conf5: "sv_conf sv5 = cf" using k5 c3(2) conf2 by (simp add: keeps_def)
  have step: "pm_step (sv_pm (with_conf cf sv)) (sv_pm sv')"
    using k02 c3(1) k5 c6(5) unfolding keeps_def by (blast intro: pm_step_trans)
  show "sv_inv sv'" if "all_pinv (sv_pm sv)"
    using step wf0 that by (simp add: sv_inv_def pm_step_def with_conf_def all_pinv_def)
  have at: "cf_at (sv_conf sv') = cf_at cf" using c6(3) conf5 by (simp add: cf_at_def fun_eq_iff)
  have wfc: "cf_wf cf" "cf_wf (sv_conf sv')" using wf0 wf6 by (simp_all add: pm_wf_def with_conf_def)
  have U: "set (util_Sub prev loaded) = {k. k \<in> set prev \<and> k \<notin> set loaded}" by (auto simp: util_Sub_filter)
  show G: "GetProgram (sv_conf sv') k = (if k \<in> set prev \<and> k \<notin> set loaded then None else GetProgram cf k)" for k
    using c6(2) conf5 U by (simp add: GetProgram_lookup[OF wfc(1)] GetProgram_lookup[OF wfc(2)] at split: option.split)
  show "map_of (procs (sv_pm sv')) k = None" if "k \<in> set prev" "k \<notin> set loaded" for k
    using c6(1) U that by simp
  show "\<exists>p. map_of (procs (sv_pm sv')) k = Some p \<and> cfg_of (sv_pm sv') p = cfg \<and>
        (\<forall>q. map_of (procs (sv_pm sv)) k = Some q \<longrightarrow> p = q)" if k: "GetProgram (sv_conf sv') k = Some cfg" for k cfg
  proof -
    have kept: "\<not> (k \<in> set prev \<and> k \<notin> set loaded)" "GetProgram cf k = Some cfg" using k G[of k] by (auto split: if_splits)
    obtain p where p: "map_of (procs (sv_pm sv3)) k = Some p" "\<forall>q. map_of (procs (sv_pm sv2)) k = Some q \<longrightarrow> p = q"
      using c3(4)[of k] kept(2) conf2 by auto
    have "map_of (procs (sv_pm sv5)) k = Some p" using p(1) k5 by (auto simp: keeps_def map_le_def dom_def)
    then have p': "map_of (procs (sv_pm sv')) k = Some p" using c6(1) U kept(1) by simp
    have "cfg_of (sv_pm sv') p = cfg"
      using pm_wf_entry(3)[OF wf6 map_of_SomeD[OF p']] k by (auto simp: GetProgram_lookup[OF wfc(2)] split: option.splits if_splits)
    moreover have "p = q" if "map_of (procs (sv_pm sv)) k = Some q" for q
      using p(2) k02 that by (auto simp: keeps_def with_conf_def map_le_def dom_def)
    ultimately show ?thesis using p' by blast
  qed
qed

text \<open>
  C1. A reload brings configuration and processes in step: when it returns, the supervisor's
  invariant holds again; a program that was configured before and is not in the loaded text
  is gone from the configuration and from the manager; every other program of the new
  configuration is managed, by a process that reads the program's current entry; and a
  program that was already managed keeps its process, it is not replaced.
\<close>

theorem Reload_in_step:
  assumes "sv_inv sv" "sorters_ok se" "Reload se rs sv = Ret (Some groups, sv')"
    and "GetProgramNames (se_os se) (se_so se 0) (se_so se 1) (sv_conf sv) = Ret prev"
    and "Load (se_os se) (se_ini se) (sv_conf sv) = Ret (cf, loaded)"
  shows "sv_inv sv' \<and>
    (\<forall>k. k \<in> set prev \<and> k \<notin> set loaded \<longrightarrow> GetProgram (sv_conf sv') k = None \<and> map_of (procs (sv_pm sv')) k = None) \<and>
    (\<forall>k. \<not> (k \<in> set prev \<and> k \<notin> set loaded) \<longrightarrow> GetProgram (sv_conf sv') k = GetProgram cf k) \<and>
    (\<forall>k cfg. GetProgram (sv_conf sv') k = Some cfg \<longrightarrow>
      (\<exists>p. map_of (procs (sv_pm sv')) k = Some p \<and> cfg_of (sv_pm sv') p = cfg \<and>
        (\<forall>q. map_of (procs (sv_pm sv)) k = Some q \<longrightarrow> p = q)))"
  using Reload_facts[OF _ assms(2-5)] assms(1) by (auto simp: sv_inv_def)


lemma Reload_inv:
  assumes inv: "sv_inv sv" and ok: "sorters_ok se" and r: "Reload se rs sv = Ret (x, sv')"
  shows "sv_inv sv'"
proof (cases x)
  case (Some groups)
  from r[unfolded Some] obtain prev cf loaded where "GetProgramNames (se_os se) (se_so se 0) (se_so se 1) (sv_conf sv) = Ret prev"
    "Load (se_os se) (se_ini se) (sv_conf sv) = Ret (cf, loaded)" by (rule Reload_stages) blast
  from Reload_facts(1)[OF _ ok r[unfolded Some] this] inv show ?thesis by (simp add: sv_inv_def)
next
  case None
  obtain prev where prev: "GetProgramNames (se_os se) (se_so se 0) (se_so se 1) (sv_conf sv) = Ret prev"
    using r by (auto simp: Reload_def bindg_eq_Ret Let_def)
  obtain cf loaded where load: "Load (se_os se) (se_ini se) (sv_conf sv) = Ret (cf, loaded)"
    using r by (auto simp: Reload_def bindg_eq_Ret Let_def)
  obtain sv1 where s1: "setSupervisordInfo se (with_conf cf sv) = Ret sv1"
    using r prev load by (auto simp: Reload_def bindg_eq_Ret Let_def)
  obtain ok2 sv2 where s2: "startEventListeners se (rs_listeners rs) sv1 = Ret (ok2, sv2)"
    using r prev load s1 by (auto simp: Reload_def bindg_eq_Ret Let_def)
  have i0: "sv_inv (with_conf cf sv)"
    using with_conf_wf[OF _ load] inv by (simp add: sv_inv_def with_conf_def all_pinv_def)
  have i1: "sv_inv sv1" using setSupervisordInfo_keeps[OF s1] i0 by (simp add: keeps_def sv_inv_def pm_step_def)
  then have i2: "sv_inv sv2" using startEventListeners_keeps[OF s2] by (simp add: keeps_def sv_inv_def pm_step_def)
  show ?thesis
  proof (cases ok2)
    case True
    note r2 = r[unfolded Reload_def prev bindg.simps load prod.case s1 s2 Let_def, simplified True]
    obtain sv3 where s31: "createPrograms se prev sv2 = Ret sv3" using r2 by (auto simp: bindg_eq_Ret)
    obtain sv4 where s32: "startHttpServer se (rs_servers rs) sv3 = Ret sv4" using r2 s31 by (auto simp: bindg_eq_Ret)
    note s3 = s31 s32
    obtain ok5 sv5 where s5: "startAutoStartPrograms se (rs_autostart rs) sv4 = Ret (ok5, sv5)" using r2 s3 by (auto simp: bindg_eq_Ret)
    have rest: "(if \<not> ok5 then Ret (None, sv5)
                else bindg (remove_programs se (util_Sub prev loaded) (rs_removed rs) sv5) (\<lambda>(ok6, sv6).
                    if \<not> ok6 then Ret (None, sv6)
                    else Ret (Some (pg_Sub (ProgramGroup (sv_conf sv6)) (pg_Clone (ProgramGroup (sv_conf sv)))), sv6))) = Ret (x, sv')"
      using r2 s3 s5 by simp
    have i3: "sv_inv sv3" using createPrograms_facts(1)[OF ok _ s3(1)] i2 by (simp add: sv_inv_def pm_step_def)
    then have i4: "sv_inv sv4" using startHttpServer_keeps[OF s3(2)] by (simp add: sv_inv_def)
    have i5: "sv_inv sv5" using startAutoStart_keeps[OF s5] i4 by (simp add: sv_inv_def keeps_def pm_step_def)
    show ?thesis
    proof (cases ok5)
      case True
      with rest obtain ok6 where "remove_programs se (util_Sub prev loaded) (rs_removed rs) sv5 = Ret (ok6, sv')"
        by (auto simp: bindg_eq_Ret split: if_splits)
      from remove_programs_facts(5)[OF this] i5 show ?thesis by (simp add: sv_inv_def pm_step_def)
    qed (use rest i5 in simp)
  next
    case False
    then have "sv' = sv2" using r prev load s1 s2 by (auto simp: Reload_def Let_def)
    with i2 show ?thesis by simp
  qed
qed

section \<open>The supervisor as a transition system\<close>

text \<open>The remote procedures that change the state, and the steps of the processes' goroutines.\<close>

datatype sv_op =
    OpEnv nat act | OpStart string bool "sched list" | OpStop string bool "sched list" | OpSignal string string "sched list"
  | OpStartAll bool "sched list" | OpStopAll bool "sched list"
  | OpStartGroup string bool "sched list" | OpStopGroup string bool "sched list"
  | OpSignalGroup string string "sched list" | OpSignalAll string "sched list"
  | OpReload reload_sched | OpRestart | OpShutdown "sched list" | OpCommEvent string string
  | OpClearLog | OpClearProcessLogs string | OpClearAllProcessLogs

definition env_step :: "penv \<Rightarrow> nat \<Rightarrow> act \<Rightarrow> ProcessManager \<Rightarrow> ProcessManager go" where
  "env_step pe a x pm =
     (if a < length (sh_heap pm) then (case on_proc pe a x pm of None \<Rightarrow> Ret pm | Some r \<Rightarrow> r) else Ret pm)"

fun sv_do :: "'sec senv \<Rightarrow> sv_op \<Rightarrow> Supervisor \<Rightarrow> Supervisor go" where
  "sv_do se (OpEnv a x) sv = bindg (env_step (se_pe se) a x (sv_pm sv)) (\<lambda>pm. Ret (sv\<lparr>sv_pm := pm\<rparr>))"
| "sv_do se (OpStart n w sch) sv = bindg (StartProcess se n w sch sv) (\<lambda>r. Ret (snd r))"
| "sv_do se (OpStop n w sch) sv = bindg (StopProcess se n w sch sv) (\<lambda>r. Ret (snd r))"
| "sv_do se (OpSignal n sg sch) sv = bindg (SignalProcess se n sg sch sv) (\<lambda>r. Ret (snd r))"
| "sv_do se (OpStartAll w sch) sv = bindg (StartAllProcesses se w sch sv) (\<lambda>r. Ret (snd r))"
| "sv_do se (OpStopAll w sch) sv = bindg (StopAllProcesses se w sch sv) (\<lambda>r. Ret (snd r))"
| "sv_do se (OpStartGroup n w sch) sv = bindg (StartProcessGroup se n w sch sv) (\<lambda>r. Ret (snd r))"
| "sv_do se (OpStopGroup n w sch) sv = bindg (StopProcessGroup se n w sch sv) (\<lambda>r. Ret (snd r))"
| "sv_do se (OpSignalGroup n sg sch) sv = bindg (SignalProcessGroup se n sg sch sv) (\<lambda>r. Ret (snd r))"
| "sv_do se (OpSignalAll sg sch) sv = bindg (SignalAllProcesses se sg sch sv) (\<lambda>r. Ret (snd r))"
| "sv_do se (OpReload rs) sv = bindg (Reload se rs sv) (\<lambda>r. Ret (snd r))"
| "sv_do se OpRestart sv = Ret (snd (sv_Restart sv))"
| "sv_do se (OpShutdown sch) sv = bindg (sv_Shutdown se sch sv) (\<lambda>r. Ret (snd r))"
| "sv_do se (OpCommEvent t d) sv = Ret (snd (SendRemoteCommEvent t d sv))"
| "sv_do se OpClearLog sv = bindg (sv_ClearLog sv) (\<lambda>r. Ret (snd (snd r)))"
| "sv_do se (OpClearProcessLogs n) sv = bindg (ClearProcessLogs se n sv) (\<lambda>r. Ret (snd (snd r)))"
| "sv_do se OpClearAllProcessLogs sv = bindg (ClearAllProcessLogs se sv) (\<lambda>r. Ret (snd r))"

text \<open>
  The environment may be another one of \<open>E\<close> at every step: files, users, ini text change. A section
  of the ini text is its name and its keys in order.
\<close>

type_synonym ini_section = "string \<times> (string \<times> string) list"

inductive sv_step :: "ini_section senv set \<Rightarrow> Supervisor \<Rightarrow> Supervisor \<Rightarrow> bool" for E where
  op: "se \<in> E \<Longrightarrow> sorters_ok se \<Longrightarrow> sv_do se x sv = Ret sv' \<Longrightarrow> sv_step E sv sv'"

inductive_cases sv_stepE: "sv_step E sv sv'"

definition sv_initial :: "Supervisor \<Rightarrow> bool" where
  "sv_initial sv \<longleftrightarrow> (\<exists>s w. sv = NewSupervisor s w)"

interpretation svs: transition_system sv_initial "sv_step E" for E .

lemma env_step_inv: "env_step pe a x pm = Ret pm' \<Longrightarrow> pm_step pm pm'"
proof -
  assume r: "env_step pe a x pm = Ret pm'"
  show ?thesis
  proof (cases "a < length (sh_heap pm) \<and> on_proc pe a x pm \<noteq> None")
    case True
    with r have "on_proc pe a x pm = Some (Ret pm')" by (auto simp: env_step_def)
    from on_proc_frame[OF this] True show ?thesis by (auto intro: same_tables_step)
  qed (use r in \<open>auto simp: env_step_def split: if_splits\<close>)
qed

lemmas handler_defs = StartProcess_def StopProcess_def SignalProcess_def StartAllProcesses_def StopAllProcesses_def
  StartProcessGroup_def StopProcessGroup_def SignalProcessGroup_def SignalAllProcesses_def

lemmas handler_steps = call_matching_step call_all_step signal_each_step Shutdown_step ClearProcessLogs_step
  ClearAllProcessLogs_step env_step_inv

lemma sv_do_inv:
  assumes inv: "sv_inv sv" and ok: "sorters_ok se" and r: "sv_do se x sv = Ret sv'"
  shows "sv_inv sv'"
proof -
  have wf: "pm_wf (sv_pm sv)" using inv by (simp add: sv_inv_def)
  show ?thesis
  proof (cases "\<exists>rs. x = OpReload rs")
    case True
    with r show ?thesis by (auto simp: bindg_eq_Ret intro: Reload_inv[OF inv ok])
  next
    case False
    have "pm_step (sv_pm sv) (sv_pm sv')"
      using r wf False
      by (cases x) (auto simp: bindg_eq_Ret handler_defs sv_Restart_def SendRemoteCommEvent_def sv_ClearLog_def Let_def
          split: option.splits dest: handler_steps)
    with inv show ?thesis by (rule sv_inv_step)
  qed
qed

lemma reachable_sv_inv: "svs.reachable E sv \<Longrightarrow> sv_inv sv"
proof (erule svs.reachable_invariant)
  show "sv_initial s \<Longrightarrow> sv_inv s" for s
    by (auto simp: sv_initial_def NewSupervisor_def sv_inv_def pm_wf_def NewProcessManager_def all_pinv_def)
qed (auto elim!: sv_stepE intro: sv_do_inv)


section \<open>Queries\<close>

lemma getProcessInfo_returns:
  assumes "pinv tr s" "\<not> lock_held s" "is_Ret (GetStdoutLogfile (se_os se) (pe_users (se_pe se)) (proc s))"
    "is_Ret (GetStderrLogfile (se_os se) (pe_users (se_pe se)) (proc s))"
  shows "\<exists>i. getProcessInfo se s = Ret i \<and> pi_Name i = p_GetName (proc s)"
  using accessors_return[OF assms(1,2)] assms(3,4) unfolding getProcessInfo_def Let_def is_Ret_iff
  by (metis (no_types, lifting) ProcessInfo.select_convs(1) bindg.simps(1))

lemma mapg_names:
  "\<forall>a\<in>set ps. \<exists>i. f a = Ret i \<and> nm i = h a \<Longrightarrow> \<exists>is. mapg f ps = Ret is \<and> map nm is = map h ps"
  by (induction ps) fastforce+

text \<open>
  C2. Listing the processes never fails: in every reachable state of the supervisor, after any
  sequence of remote procedures, reloads and steps of the processes' goroutines, when no
  managed program holds its lock, its log file names can be evaluated and the dependencies are
  acyclic, \<open>GetAllProcessInfo\<close> returns (no nil pointer is dereferenced for the pid, the exit
  status or the description of any process) one record per managed program, sorted by name.
\<close>

theorem GetAllProcessInfo_lists:
  assumes reach: "svs.reachable E sv" and ord: "orderly (se_os se) (se_so se 0) (sv_pm sv) g"
    and free: "\<forall>a\<in>snd ` set (procs (sv_pm sv)). \<not> lock_held (mp_sys (sh_heap (sv_pm sv) ! a)) \<and>
      is_Ret (GetStdoutLogfile (se_os se) (pe_users (se_pe se)) (proc (proc_view (sv_pm sv) a))) \<and>
      is_Ret (GetStderrLogfile (se_os se) (pe_users (se_pe se)) (proc (proc_view (sv_pm sv) a)))"
  shows "\<exists>infos. GetAllProcessInfo se sv = Ret infos \<and> sorted (map pi_Name infos) \<and> distinct (map pi_Name infos) \<and>
    set (map pi_Name infos) = {k. \<exists>a. (k, a) \<in> set (procs (sv_pm sv)) \<and> IsProgram (entry_of (sv_pm sv) a)}"
proof -
  let ?pm = "sv_pm sv"
  have wf: "pm_wf ?pm" and inv: "all_pinv ?pm" using reachable_sv_inv[OF reach] by (simp_all add: sv_inv_def)
  obtain ps where ps: "getAllProcess (se_os se) (se_so se 0) ?pm = Ret ps" "distinct ps"
    "set ps = {a \<in> snd ` set (procs ?pm). IsProgram (entry_of ?pm a)}"
    using getAllProcess_spec[OF ord] by blast
  have nm: "name_of ?pm a = k" if "(k, a) \<in> set (procs ?pm)" "IsProgram (entry_of ?pm a)" for k a
    using pm_wf_entry(1)[OF wf that(1)] that(2) by (rule name_of_program)
  have "\<exists>i. getProcessInfo se (proc_view ?pm a) = Ret i \<and> pi_Name i = name_of ?pm a" if "a \<in> set ps" for a
  proof -
    have a: "a \<in> snd ` set (procs ?pm)" using that unfolding ps(3) by simp
    then have "pinv False (proc_view ?pm a)" using pm_wf_entry(2)[OF wf] inv by (force intro: all_pinv_view)
    from getProcessInfo_returns[OF this, of se] bspec[OF free a] show ?thesis unfolding name_of_def by simp
  qed
  then obtain infos where i: "mapg (\<lambda>a. getProcessInfo se (proc_view ?pm a)) ps = Ret infos" "map pi_Name infos = map (name_of ?pm) ps"
    using mapg_names[of ps "\<lambda>a. getProcessInfo se (proc_view ?pm a)" pi_Name "name_of ?pm"] by blast
  have set: "name_of ?pm ` set ps = {k. \<exists>a. (k, a) \<in> set (procs ?pm) \<and> IsProgram (entry_of ?pm a)}"
    unfolding ps(3) using nm by force
  have "inj_on (name_of ?pm) (set ps)"
  proof (rule inj_onI)
    fix a b assume ab: "a \<in> set ps" "b \<in> set ps" "name_of ?pm a = name_of ?pm b"
    then obtain k l where "(k, a) \<in> set (procs ?pm)" "(l, b) \<in> set (procs ?pm)" "IsProgram (entry_of ?pm a)" "IsProgram (entry_of ?pm b)"
      unfolding ps(3) by auto
    with nm ab(3) have "(k, a) \<in> set (procs ?pm)" "(k, b) \<in> set (procs ?pm)" by auto
    then show "a = b" using wf by (auto simp: pm_wf_def dest: eq_key_imp_eq_value)
  qed
  then have d: "distinct (map pi_Name infos)" using i(2) ps(2) by (simp add: distinct_map)
  have m: "mset (map pi_Name (SortProcessInfos infos)) = mset (map pi_Name infos)"
    by (simp add: SortProcessInfos_def)
  have "set (map pi_Name (SortProcessInfos infos)) = {k. \<exists>a. (k, a) \<in> set (procs ?pm) \<and> IsProgram (entry_of ?pm a)}"
    using mset_eq_setD[OF m] set unfolding i(2) by simp
  moreover have "distinct (map pi_Name (SortProcessInfos infos))" using mset_eq_imp_distinct_iff[OF m] d by simp
  moreover have "sorted (map pi_Name (SortProcessInfos infos))" by (simp add: SortProcessInfos_def)
  moreover have "GetAllProcessInfo se sv = Ret (SortProcessInfos infos)" using ps(1) i(1) by (simp add: GetAllProcessInfo_def)
  ultimately show ?thesis by blast
qed

section \<open>The goroutines of the HTTP servers\<close>

definition can_listen :: "'sec senv \<Rightarrow> server_go \<Rightarrow> bool" where
  "can_listen se g = se_listen se (fst (sg_conf g)) (fst (snd (sg_conf g)))"

lemma server_step_conf: "server_step se g x = (g', x') \<Longrightarrow> sg_conf g' = sg_conf g"
  by (auto simp: server_step_def split: server_pc.splits)

text \<open>What every step keeps holds after any schedule.\<close>

lemma run_servers_keeps:
  assumes "P gs x"
    and "\<And>gs x i g x'. P gs x \<Longrightarrow> i < length gs \<Longrightarrow> server_step se (gs ! i) x = (g, x') \<Longrightarrow> P (gs[i := g]) x'"
  shows "case run_servers se sch gs x of (gs', x') \<Rightarrow> P gs' x'"
  using assms(1)
proof (induction sch arbitrary: gs x)
  case (Cons i sch)
  show ?case
  proof (cases "i < length gs")
    case True
    obtain g x' where s: "server_step se (gs ! i) x = (g, x')" by fastforce
    from Cons.IH[OF assms(2)[OF Cons.prems True s]] True s show ?thesis by simp
  qed (use Cons in simp)
qed simp

lemma run_servers_append:
  "run_servers se (s @ t) gs x = (case run_servers se s gs x of (gs', x') \<Rightarrow> run_servers se t gs' x')"
  by (induction s arbitrary: gs x) (auto split: prod.splits)

lemma run_servers_conf: "map sg_conf (fst (run_servers se sch gs x)) = map sg_conf gs"
proof -
  have "case run_servers se sch gs x of (gs', x') \<Rightarrow> map sg_conf gs' = map sg_conf gs"
  proof (rule run_servers_keeps)
    fix gs1 x1 i g x2
    assume a: "map sg_conf gs1 = map sg_conf gs" "i < length gs1" "server_step se (gs1 ! i) x1 = (g, x2)"
    then show "map sg_conf (gs1[i := g]) = map sg_conf gs"
      by (metis length_map list_update_id map_update nth_map server_step_conf)
  qed simp
  then show ?thesis by (simp split: prod.splits)
qed

lemma run_servers_length [simp]: "length (fst (run_servers se sch gs x)) = length gs"
  by (metis length_map run_servers_conf)

text \<open>Three steps of a goroutine bring it to its end.\<close>

fun srv_rank :: "server_pc \<Rightarrow> nat" where
  "srv_rank SrvCheck = 3"
| "srv_rank SrvSet = 2"
| "srv_rank SrvListen = 1"
| "srv_rank SrvEnd = 0"

lemma srv_rank_0 [simp]: "srv_rank p = 0 \<longleftrightarrow> p = SrvEnd"
  by (cases p) auto

lemma server_step_rank: "server_step se g x = (g', x') \<Longrightarrow> srv_rank (sg_pc g') \<le> srv_rank (sg_pc g) - 1"
  by (auto simp: server_step_def split: server_pc.splits)

lemma run_servers_rank:
  "j < length gs \<Longrightarrow> srv_rank (sg_pc (fst (run_servers se sch gs x) ! j)) \<le> srv_rank (sg_pc (gs ! j)) - count_list sch j"
proof (induction sch arbitrary: gs x)
  case (Cons i sch)
  show ?case
  proof (cases "i < length gs")
    case True
    obtain g x' where s: "server_step se (gs ! i) x = (g, x')" by fastforce
    have "srv_rank (sg_pc (gs[i := g] ! j)) \<le> srv_rank (sg_pc (gs ! j)) - (if i = j then 1 else 0)"
      using server_step_rank[OF s] Cons.prems by (auto simp: nth_list_update)
    with Cons.IH[of "gs[i := g]" x'] Cons.prems True s show ?thesis by (auto split: if_splits)
  qed (use Cons in auto)
qed simp

lemma srv_rank_le: "srv_rank p \<le> 3"
  by (cases p) auto

lemma run_servers_end:
  assumes "length gs \<le> 2" and "g \<in> set (fst (run_servers se (sch @ [0, 0, 0, 1, 1, 1]) gs x))"
  shows "sg_pc g = SrvEnd"
proof -
  let ?gs = "fst (run_servers se (sch @ [0, 0, 0, 1, 1, 1]) gs x)"
  obtain j where j: "j < length gs" "g = ?gs ! j" using assms(2) by (metis in_set_conv_nth run_servers_length)
  have "srv_rank (sg_pc g) \<le> srv_rank (sg_pc (gs ! j)) - count_list (sch @ [0, 0, 0, 1, 1, 1]) j"
    unfolding j(2) by (rule run_servers_rank[OF j(1)])
  moreover have "3 \<le> count_list (sch @ [0, 0, 0, 1, 1, 1]) j" using j(1) assms(1) by (cases "j = 0") (auto simp: less_2_cases_iff)
  ultimately show ?thesis using srv_rank_le[of "sg_pc (gs ! j)"] by simp
qed

text \<open>
  What the goroutines keep, in any order of their steps. None listens twice, and only those that have come to
  their end listen. As long as the flag is not set all are before its assignment; afterwards one is about to
  listen, or has attempted to.
\<close>

definition attempted :: "'sec senv \<Rightarrow> XmlRPC \<Rightarrow> server_go \<Rightarrow> bool" where
  "attempted se x g \<longleftrightarrow> sg_pc g = SrvListen \<or> sg_pc g = SrvEnd \<and> (can_listen se g \<longrightarrow> sg_conf g \<in> set (listeners x))"

definition srv_open :: "'sec senv \<Rightarrow> server_go list \<Rightarrow> XmlRPC \<Rightarrow> bool" where
  "srv_open se gs x \<longleftrightarrow> distinct (map sg_conf gs) \<and> distinct (listeners x)
     \<and> set (listeners x) \<subseteq> sg_conf ` {g \<in> set gs. sg_pc g = SrvEnd \<and> can_listen se g}"

definition srv_flag :: "'sec senv \<Rightarrow> server_go list \<Rightarrow> XmlRPC \<Rightarrow> bool" where
  "srv_flag se gs x \<longleftrightarrow> \<not> started x \<and> (\<forall>g\<in>set gs. sg_pc g = SrvCheck \<or> sg_pc g = SrvSet) \<or> (\<exists>g\<in>set gs. attempted se x g)"

lemma srv_open_replace:
  assumes inv: "srv_open se (as @ h # bs) x" and h: "sg_pc h \<noteq> SrvEnd" and conf: "sg_conf g = sg_conf h"
    and l: "listeners x' = listeners x \<or> listeners x' = listeners x @ [sg_conf g] \<and> sg_pc g = SrvEnd \<and> can_listen se g"
  shows "srv_open se (as @ g # bs) x'"
proof -
  let ?ends = "\<lambda>g. sg_conf ` {k \<in> set (as @ g # bs). sg_pc k = SrvEnd \<and> can_listen se k}"
  have "?ends h \<subseteq> ?ends g" using h by (intro image_mono) auto
  then have "set (listeners x) \<subseteq> ?ends g" using inv unfolding srv_open_def by blast
  then have "set (listeners x') \<subseteq> ?ends g" using l by auto
  moreover have "sg_conf g \<notin> set (listeners x)" using inv h conf unfolding srv_open_def by auto
  then have "distinct (listeners x')" using l inv by (auto simp: srv_open_def)
  moreover have "distinct (map sg_conf (as @ g # bs))" using inv conf by (simp add: srv_open_def)
  ultimately show ?thesis unfolding srv_open_def by blast
qed

lemma server_step_cases:
  assumes "server_step se h x = (g, x')"
  obtains (check) "sg_pc h = SrvCheck" "x' = x" "sg_pc g = SrvEnd \<and> started x \<or> sg_pc g = SrvSet \<and> \<not> started x"
  | (set) "sg_pc h = SrvSet" "x' = x\<lparr>started := True\<rparr>" "sg_pc g = SrvListen"
  | (listen) "sg_pc h = SrvListen" "sg_pc g = SrvEnd" "x' = (if can_listen se g then x\<lparr>listeners := listeners x @ [sg_conf g]\<rparr> else x)"
  | (ended) "sg_pc h = SrvEnd" "g = h" "x' = x"
  using assms by (cases "sg_pc h") (auto simp: server_step_def can_listen_def split: if_splits)

definition srv_inv :: "'sec senv \<Rightarrow> server_go list \<Rightarrow> XmlRPC \<Rightarrow> bool" where
  "srv_inv se gs x \<longleftrightarrow> srv_open se gs x \<and> srv_flag se gs x"

lemma server_step_inv:
  assumes inv: "srv_inv se gs x" and i: "i < length gs" and st: "server_step se (gs ! i) x = (g, x')"
  shows "srv_inv se (gs[i := g]) x'"
proof -
  define as h bs where d: "as = take i gs" "h = gs ! i" "bs = drop (Suc i) gs"
  have gs: "gs = as @ h # bs" "gs[i := g] = as @ g # bs" using i by (simp_all add: d id_take_nth_drop upd_conv_take_nth_drop)
  have inv: "srv_open se (as @ h # bs) x" "srv_flag se (as @ h # bs) x" using inv by (simp_all add: srv_inv_def gs)
  have st: "server_step se h x = (g, x')" using st by (simp add: d)
  note replace = srv_open_replace[OF inv(1) _ server_step_conf[OF st], of x']
  show ?thesis using st unfolding gs(2) srv_inv_def
  proof (cases rule: server_step_cases)
    case check
    moreover have "\<not> attempted se x h" using check by (simp add: attempted_def)
    ultimately have "srv_flag se (as @ g # bs) x'" using inv(2) unfolding srv_flag_def by auto
    then show "srv_open se (as @ g # bs) x' \<and> srv_flag se (as @ g # bs) x'" using replace check by simp
  next
    case set
    then have "attempted se x' g" by (simp add: attempted_def)
    then show "srv_open se (as @ g # bs) x' \<and> srv_flag se (as @ g # bs) x'" using replace set by (simp add: srv_flag_def)
  next
    case listen
    then have "attempted se x' g" by (simp add: attempted_def)
    then show "srv_open se (as @ g # bs) x' \<and> srv_flag se (as @ g # bs) x'" using replace listen by (simp add: srv_flag_def)
  next
    case ended
    then show "srv_open se (as @ g # bs) x' \<and> srv_flag se (as @ g # bs) x'" using inv by simp
  qed
qed

lemma run_servers_inv: "srv_inv se gs x \<Longrightarrow> case run_servers se sch gs x of (gs', x') \<Rightarrow> srv_inv se gs' x'"
  by (rule run_servers_keeps) (auto intro: server_step_inv)

text \<open>
  When one goroutine has set the flag and the others have not tested it yet, they will return, and its own
  attempt decides alone.
\<close>

definition decided :: "'sec senv \<Rightarrow> nat \<Rightarrow> server_go list \<Rightarrow> XmlRPC \<Rightarrow> bool" where
  "decided se i gs x \<longleftrightarrow> started x \<and> i < length gs \<and> (\<forall>j<length gs. j \<noteq> i \<longrightarrow> sg_pc (gs ! j) = SrvCheck \<or> sg_pc (gs ! j) = SrvEnd)
     \<and> (sg_pc (gs ! i) = SrvListen \<and> listeners x = []
        \<or> sg_pc (gs ! i) = SrvEnd \<and> listeners x = (if can_listen se (gs ! i) then [sg_conf (gs ! i)] else []))"

lemma server_step_decided:
  assumes "decided se i gs x" and "j < length gs" and "server_step se (gs ! j) x = (g, x')"
  shows "decided se i (gs[j := g]) x'"
  using assms by (cases "sg_pc (gs ! j)"; cases "j = i") (auto simp: decided_def server_step_def nth_list_update can_listen_def)

lemma run_servers_decided: "decided se i gs x \<Longrightarrow> case run_servers se sch gs x of (gs', x') \<Rightarrow> decided se i gs' x'"
  by (rule run_servers_keeps) (auto intro: server_step_decided)

text \<open>What \<open>startHttpServer\<close> starts with: a goroutine per protocol at most, each at its beginning.\<close>

lemma inet_server_shape:
  assumes "inet_server se sv = Ret gs"
  shows "gs = [] \<or> (\<exists>u p addr. gs = [xml_startHttpServer u p ''tcp'' addr])"
  using assms by (auto simp: inet_server_def bindg_eq_Ret Let_def split: option.splits if_splits)

lemma unix_server_shape:
  assumes "unix_server se sv = Ret gs"
  shows "gs = [] \<or> (\<exists>u p addr. gs = [xml_startHttpServer u p ''unix'' addr])"
proof (cases "GetUnixHttpServer (sv_conf sv)")
  case (Some c)
  with assms obtain r where "(case r of Inl (_ :: eval_error) \<Rightarrow> Ret []
              | Inr sockFile \<Rightarrow>
                  bindg (GetString (se_os se) (cf_at (sv_conf sv) c) ''username'' []) (\<lambda>user.
                  bindg (GetString (se_os se) (cf_at (sv_conf sv) c) ''password'' []) (\<lambda>password.
                    Ret [xml_startHttpServer user password ''unix'' sockFile]))) = Ret gs"
    by (auto simp: unix_server_def bindg_eq_Ret Let_def)
  then show ?thesis by (cases r) (auto simp: bindg_eq_Ret)
qed (use assms in \<open>auto simp: unix_server_def\<close>)

lemma servers_shape:
  assumes "inet_server se sv = Ret inet" and "unix_server se sv = Ret unix"
  shows "distinct (map (fst \<circ> sg_conf) (inet @ unix))" and "length (inet @ unix) \<le> 2"
    and "\<And>g. g \<in> set (inet @ unix) \<Longrightarrow> sg_pc g = SrvCheck"
  using inet_server_shape[OF assms(1)] unix_server_shape[OF assms(2)] by (auto simp: xml_startHttpServer_def)

lemma servers_inv:
  assumes "inet_server se sv = Ret inet" and "unix_server se sv = Ret unix"
  shows "srv_inv se (inet @ unix) (xml_Stop x)"
proof -
  have "distinct (map sg_conf (inet @ unix))" using servers_shape(1)[OF assms] by (metis distinct_map map_map)
  then show ?thesis using servers_shape(3)[OF assms] by (simp add: srv_inv_def srv_open_def srv_flag_def xml_Stop_def)
qed

lemma servers_decided:
  assumes gs: "inet_server se sv = Ret inet" "unix_server se sv = Ret unix" and i: "i < length (inet @ unix)"
  shows "case run_servers se [i, i] (inet @ unix) (xml_Stop x) of (gs', x') \<Rightarrow> decided se i gs' x'"
proof -
  define gs where "gs = inet @ unix"
  have c: "sg_pc (gs ! j) = SrvCheck" if "j < length gs" for j
    using that servers_shape(3)[OF assms(1,2)] unfolding gs_def by (metis nth_mem)
  show ?thesis using c i unfolding gs_def[symmetric]
    by (auto simp: server_step_def xml_Stop_def decided_def nth_list_update)
qed

lemma start_servers:
  assumes start: "startHttpServer se sch sv = Ret sv'"
    and gs: "inet_server se sv = Ret inet" "unix_server se sv = Ret unix"
  obtains gs' where "run_servers se (sch @ [0, 0, 0, 1, 1, 1]) (inet @ unix) (xml_Stop (xmlRPC sv)) = (gs', xmlRPC sv')"
    and "srv_inv se gs' (xmlRPC sv')" and "map sg_conf gs' = map sg_conf (inet @ unix)" and "\<And>g. g \<in> set gs' \<Longrightarrow> sg_pc g = SrvEnd"
proof -
  let ?run = "run_servers se (sch @ [0, 0, 0, 1, 1, 1]) (inet @ unix) (xml_Stop (xmlRPC sv))"
  have run: "?run = (fst ?run, xmlRPC sv')" using start gs by (auto simp: startHttpServer_def)
  show thesis
  proof (rule that[OF run])
    show "srv_inv se (fst ?run) (xmlRPC sv')"
      using run_servers_inv[OF servers_inv[OF gs]] run by (metis case_prod_conv)
    show "map sg_conf (fst ?run) = map sg_conf (inet @ unix)" by (rule run_servers_conf)
    show "sg_pc g = SrvEnd" if "g \<in> set (fst ?run)" for g by (rule run_servers_end[OF servers_shape(2)[OF gs] that])
  qed
qed

text \<open>A configured server is known by its address and credentials alone: the goroutines move, these stay.\<close>

lemma can_listen_conf: "sg_conf g = sg_conf h \<Longrightarrow> can_listen se g = can_listen se h"
  by (simp add: can_listen_def)

lemma same_confs:
  assumes "map sg_conf gs' = map sg_conf gs" and "g \<in> set gs'"
  obtains h where "h \<in> set gs" and "sg_conf h = sg_conf g" and "can_listen se h = can_listen se g"
proof -
  have "sg_conf g \<in> set (map sg_conf gs)" using assms by (metis image_eqI list.set_map)
  then obtain h where "h \<in> set gs" "sg_conf h = sg_conf g" by auto
  then show thesis using that can_listen_conf[of h g se] by blast
qed

lemma nth_conf:
  assumes "map sg_conf gs' = map sg_conf gs" and "i < length gs"
  shows "sg_conf (gs' ! i) = sg_conf (gs ! i)" and "can_listen se (gs' ! i) = can_listen se (gs ! i)"
proof -
  show "sg_conf (gs' ! i) = sg_conf (gs ! i)" using assms by (metis length_map nth_map)
  then show "can_listen se (gs' ! i) = can_listen se (gs ! i)" by (rule can_listen_conf)
qed

text \<open>
  C37. The HTTP servers after \<open>startHttpServer\<close>, whose goroutines test and set the flag \<open>started\<close> without a lock and take
  their steps in any order. Every open listener is one of the servers configured as \<open>inet_http_server\<close> and
  \<open>unix_http_server\<close>, one that can listen on its address, and none is opened twice. If a server is configured, one of
  them has made its attempt: it listens unless its address cannot be had, so a server is open when every configured
  address can be listened on. And when one goroutine sets the flag before the other takes a step, that one decides
  alone: its listener is the only one, and there is none at all when it cannot listen.
\<close>

theorem http_servers_open:
  assumes start: "startHttpServer se sch sv = Ret sv'"
    and gs: "inet_server se sv = Ret inet" "unix_server se sv = Ret unix"
  shows "set (listeners (xmlRPC sv')) \<subseteq> sg_conf ` {g \<in> set (inet @ unix). can_listen se g} \<and>
    distinct (listeners (xmlRPC sv')) \<and>
    (inet @ unix \<noteq> [] \<longrightarrow> (\<exists>g\<in>set (inet @ unix). can_listen se g \<longrightarrow> sg_conf g \<in> set (listeners (xmlRPC sv')))) \<and>
    (\<forall>i rest. sch = i # i # rest \<and> i < length (inet @ unix) \<longrightarrow>
       listeners (xmlRPC sv') = (if can_listen se ((inet @ unix) ! i) then [sg_conf ((inet @ unix) ! i)] else []))"
    (is "?A \<and> ?B \<and> ?C \<and> ?D")
proof (intro conjI)
  obtain gs' where run: "run_servers se (sch @ [0, 0, 0, 1, 1, 1]) (inet @ unix) (xml_Stop (xmlRPC sv)) = (gs', xmlRPC sv')"
    and inv: "srv_inv se gs' (xmlRPC sv')" and conf: "map sg_conf gs' = map sg_conf (inet @ unix)"
    and ends: "\<And>g. g \<in> set gs' \<Longrightarrow> sg_pc g = SrvEnd" by (rule start_servers[OF assms]) blast
  show ?A
  proof
    fix c assume "c \<in> set (listeners (xmlRPC sv'))"
    then obtain g where "g \<in> set gs'" "c = sg_conf g" "can_listen se g" using inv unfolding srv_inv_def srv_open_def by auto
    then show "c \<in> sg_conf ` {g \<in> set (inet @ unix). can_listen se g}"
      by (metis (mono_tags, lifting) conf image_eqI mem_Collect_eq same_confs)
  qed
  show ?B using inv by (simp add: srv_inv_def srv_open_def)
  show ?C
  proof
    assume "inet @ unix \<noteq> []"
    then have "gs' \<noteq> []" using conf by fastforce
    then obtain g where g: "g \<in> set gs'" "attempted se (xmlRPC sv') g"
      using inv ends unfolding srv_inv_def srv_flag_def by (metis list.set_sel(1) server_pc.distinct(5,9))
    then have "can_listen se g \<longrightarrow> sg_conf g \<in> set (listeners (xmlRPC sv'))" using ends by (simp add: attempted_def)
    then show "\<exists>g\<in>set (inet @ unix). can_listen se g \<longrightarrow> sg_conf g \<in> set (listeners (xmlRPC sv'))"
      using same_confs[OF conf g(1)] by metis
  qed
  show ?D
  proof (intro allI impI, elim conjE)
    fix i rest assume s: "sch = i # i # rest" and i: "i < length (inet @ unix)"
    obtain gs1 x1 where two: "run_servers se [i, i] (inet @ unix) (xml_Stop (xmlRPC sv)) = (gs1, x1)" by fastforce
    have "decided se i gs1 x1" using servers_decided[OF gs i, of "xmlRPC sv"] two by simp
    from run_servers_decided[OF this] have "case run_servers se (rest @ [0, 0, 0, 1, 1, 1]) gs1 x1 of (gs', x') \<Rightarrow> decided se i gs' x'" .
    moreover have "run_servers se (rest @ [0, 0, 0, 1, 1, 1]) gs1 x1 = (gs', xmlRPC sv')"
      using run run_servers_append[of se "[i, i]" "rest @ [0, 0, 0, 1, 1, 1]" "inet @ unix" "xml_Stop (xmlRPC sv)"]
      unfolding s two by (simp only: append.simps case_prod_conv)
    ultimately have "decided se i gs' (xmlRPC sv')" by simp
    moreover have "sg_pc (gs' ! i) = SrvEnd" using ends i conf by (metis length_map nth_mem)
    ultimately show "listeners (xmlRPC sv') = (if can_listen se ((inet @ unix) ! i) then [sg_conf ((inet @ unix) ! i)] else [])"
      using nth_conf[OF conf i] unfolding decided_def by auto
  qed
qed


section \<open>Witnesses\<close>

definition demo_se :: "ini_section list \<Rightarrow> ini_section senv" where
  "demo_se secs = \<lparr>se_pe = demo_penv, se_ini = demo_ini secs, se_so = (\<lambda>_. \<lparr>so_passes = (\<lambda>k xs. xs), so_sort = id\<rparr>), se_pid = 1,
     se_listen = (\<lambda>_ _. True), se_time = (\<lambda>_. []), se_pipe = True\<rparr>"

definition demo_rs :: reload_sched where
  "demo_rs = \<lparr>rs_listeners = [], rs_autostart = [Call 0, Call 0], rs_removed = [Call 0], rs_servers = []\<rparr>"

lemma demo_se_ok: "sorters_ok (demo_se secs)"
  using is_range_id by (simp add: sorters_ok_def demo_se_def is_perm_def)

text \<open>A first load of \<open>web\<close> and \<open>db\<close>, then a reload of a text without \<open>db\<close>.\<close>

definition demo_sv :: "Supervisor go" where
  "demo_sv = sv_do (demo_se [(''program:web'', [(''command'', ''ls'')]), (''program:db'', [(''command'', ''ls'')])]) (OpReload demo_rs)
     (NewSupervisor [] demo_world)"

lemma demo_sv_reachable:
  "demo_sv = Ret sv \<Longrightarrow> svs.reachable {demo_se [(''program:web'', [(''command'', ''ls'')]), (''program:db'', [(''command'', ''ls'')])]} sv"
  unfolding demo_sv_def
  by (rule svs.move[OF svs.start[of "NewSupervisor [] demo_world"] sv_step.op[OF insertI1 demo_se_ok]])
    (auto simp: sv_initial_def simp del: sv_do.simps)

definition go_test :: "'a go \<Rightarrow> ('a \<Rightarrow> bool) \<Rightarrow> bool" where
  "go_test m P = (case m of Ret x \<Rightarrow> P x | _ \<Rightarrow> False)"

lemma go_testE: "go_test m P \<Longrightarrow> (\<And>x. m = Ret x \<Longrightarrow> P x \<Longrightarrow> thesis) \<Longrightarrow> thesis"
  by (auto simp: go_test_def split: go.splits)

lemma demo_reload_runs:
  "go_test demo_sv (\<lambda>sv. map fst (procs (sv_pm sv)) = [''web'', ''db''] \<and>
     (let se = demo_se [(''program:web'', [(''command'', ''ls'')])] in
        GetProgramNames (se_os se) (se_so se 0) (se_so se 1) (sv_conf sv) = Ret [''web'', ''db''] \<and>
        go_test (Load (se_os se) (se_ini se) (sv_conf sv)) (\<lambda>r. snd r = [''web'']) \<and>
        go_test (Reload se demo_rs sv) (\<lambda>r. fst r \<noteq> None)))"
  by code_simp

theorem Reload_in_step_witness:
  "\<exists>sv sv' groups. demo_sv = Ret sv \<and> Reload (demo_se [(''program:web'', [(''command'', ''ls'')])]) demo_rs sv = Ret (Some groups, sv') \<and>
     sv_inv sv' \<and> GetProgram (sv_conf sv') ''db'' = None \<and> map_of (procs (sv_pm sv')) ''db'' = None"
proof -
  let ?se = "demo_se [(''program:web'', [(''command'', ''ls'')])]"
  from demo_reload_runs obtain sv where d: "demo_sv = Ret sv"
    and h: "map fst (procs (sv_pm sv)) = [''web'', ''db''] \<and> (let se = ?se in
        GetProgramNames (se_os se) (se_so se 0) (se_so se 1) (sv_conf sv) = Ret [''web'', ''db''] \<and>
        go_test (Load (se_os se) (se_ini se) (sv_conf sv)) (\<lambda>r. snd r = [''web'']) \<and>
        go_test (Reload se demo_rs sv) (\<lambda>r. fst r \<noteq> None))" by (rule go_testE)
  from h have p: "GetProgramNames (se_os ?se) (se_so ?se 0) (se_so ?se 1) (sv_conf sv) = Ret [''web'', ''db'']"
    and l0: "go_test (Load (se_os ?se) (se_ini ?se) (sv_conf sv)) (\<lambda>r. snd r = [''web''])"
    and r0: "go_test (Reload ?se demo_rs sv) (\<lambda>r. fst r \<noteq> None)" unfolding Let_def by blast+
  obtain cf where l: "Load (se_os ?se) (se_ini ?se) (sv_conf sv) = Ret (cf, [''web''])"
    using l0 by (rule go_testE) (metis prod.collapse)
  obtain groups sv' where r: "Reload ?se demo_rs sv = Ret (Some groups, sv')"
    using r0 by (rule go_testE) (metis not_Some_eq prod.collapse)
  have "sv_inv sv" using reachable_sv_inv[OF demo_sv_reachable[OF d]] .
  note t = Reload_in_step[OF this demo_se_ok r p l]
  have "GetProgram (sv_conf sv') ''db'' = None \<and> map_of (procs (sv_pm sv')) ''db'' = None"
    using conjunct1[OF conjunct2[OF t], rule_format, of "''db''"] by simp
  then show ?thesis using d r conjunct1[OF t] by blast
qed

theorem GetAllProcessInfo_lists_witness:
  "\<exists>sv se infos. demo_sv = Ret sv \<and> GetAllProcessInfo (se :: ini_section senv) sv = Ret infos \<and>
     set (map pi_Name infos) = {''web'', ''db''} \<and> sorted (map pi_Name infos)"
proof -
  let ?P = "\<lambda>sv. map fst (procs (sv_pm sv)) = [''web'', ''db''] \<and>
      initDepends demo_os (cf_at (sv_conf sv)) (prog_cfgs (sv_pm sv)) = Ret [] \<and>
      list_all (\<lambda>(k, a). IsProgram (entry_of (sv_pm sv) a) \<and> \<not> lock_held (mp_sys (sh_heap (sv_pm sv) ! a)) \<and>
        is_Ret (GetStdoutLogfile demo_os (pe_users demo_penv) (proc (proc_view (sv_pm sv) a))) \<and>
        is_Ret (GetStderrLogfile demo_os (pe_users demo_penv) (proc (proc_view (sv_pm sv) a)))) (procs (sv_pm sv))"
  have "go_test demo_sv ?P" by code_simp
  then obtain sv where d: "demo_sv = Ret sv" and h: "?P sv" by (rule go_testE)
  note re = demo_sv_reachable[OF d]
  have ks: "fst ` set (procs (sv_pm sv)) = {''web'', ''db''}" using h by (metis (no_types, lifting) list.simps(15) set_empty set_map empty_set)
  have all: "\<forall>(k, a)\<in>set (procs (sv_pm sv)). IsProgram (entry_of (sv_pm sv) a) \<and> \<not> lock_held (mp_sys (sh_heap (sv_pm sv) ! a)) \<and>
        is_Ret (GetStdoutLogfile demo_os (pe_users demo_penv) (proc (proc_view (sv_pm sv) a))) \<and>
        is_Ret (GetStderrLogfile demo_os (pe_users demo_penv) (proc (proc_view (sv_pm sv) a)))"
    using h unfolding list_all_iff by blast
  define se where "se = (demo_se [])\<lparr>se_so := (\<lambda>_. \<lparr>so_passes = (\<lambda>k xs. xs), so_sort = sort_key (priority_of \<circ> cf_at (sv_conf sv))\<rparr>)\<rparr>"
  have se: "se_pe se = demo_penv" "pe_os demo_penv = demo_os" by (simp_all add: se_def demo_se_def demo_penv_def)
  have so: "se_so se 0 = \<lparr>so_passes = (\<lambda>k xs. xs), so_sort = sort_key (priority_of \<circ> cf_at (sv_conf sv))\<rparr>" by (simp add: se_def)
  have "pm_wf (sv_pm sv)" using reachable_sv_inv[OF re] by (simp add: sv_inv_def)
  then have "orderly (se_os se) (se_so se 0) (sv_pm sv) []"
    using h is_range_id by (simp add: orderly_def se so sorts_by_def depends_def deps_def acyclic_def)
  from GetAllProcessInfo_lists[OF re this] all obtain infos where "GetAllProcessInfo se sv = Ret infos" "sorted (map pi_Name infos)"
    "set (map pi_Name infos) = {k. \<exists>a. (k, a) \<in> set (procs (sv_pm sv)) \<and> IsProgram (entry_of (sv_pm sv) a)}"
    unfolding se by fastforce
  moreover have "{k. \<exists>a. (k, a) \<in> set (procs (sv_pm sv)) \<and> IsProgram (entry_of (sv_pm sv) a)} = fst ` set (procs (sv_pm sv))"
    using all by force
  ultimately show ?thesis using d ks by auto
qed

definition demo_servers :: "ini_section senv" where
  "demo_servers = demo_se [(''inet_http_server'', [(''port'', '':9001'')]), (''unix_http_server'', [(''file'', ''/run/s.sock'')])]"

definition demo_http_sv :: "Supervisor go" where
  "demo_http_sv = sv_do demo_servers (OpReload demo_rs) (NewSupervisor [] demo_world)"

text \<open>
  The flag does not always keep the second server away: when both goroutines test it before either has set it, both
  servers listen.
\<close>

lemma both_servers_listen:
  "go_test demo_http_sv (\<lambda>sv. go_test (startHttpServer demo_servers [0, 1] sv) (\<lambda>sv'.
     listeners (xmlRPC sv') = [(''tcp'', '':9001'', [], []), (''unix'', ''/run/s.sock'', [], [])]))"
  by code_simp

theorem http_servers_open_witness:
  "\<exists>sv sv'. demo_http_sv = Ret sv \<and> startHttpServer demo_servers [1, 1] sv = Ret sv' \<and>
     listeners (xmlRPC sv') = [(''unix'', ''/run/s.sock'', [], [])]"
proof -
  let ?i = "[xml_startHttpServer [] [] ''tcp'' '':9001'']" and ?u = "[xml_startHttpServer [] [] ''unix'' ''/run/s.sock'']"
  have "go_test demo_http_sv (\<lambda>sv. inet_server demo_servers sv = Ret ?i \<and> unix_server demo_servers sv = Ret ?u \<and>
      go_test (startHttpServer demo_servers [1, 1] sv) (\<lambda>_. True))" by code_simp
  then obtain sv where d: "demo_http_sv = Ret sv" and h: "inet_server demo_servers sv = Ret ?i \<and> unix_server demo_servers sv = Ret ?u \<and>
      go_test (startHttpServer demo_servers [1, 1] sv) (\<lambda>_. True)" by (rule go_testE)
  from h have i: "inet_server demo_servers sv = Ret ?i" and u: "unix_server demo_servers sv = Ret ?u"
    and g: "go_test (startHttpServer demo_servers [1, 1] sv) (\<lambda>_. True)" by blast+
  from g obtain sv' where s: "startHttpServer demo_servers [1, 1] sv = Ret sv'" by (rule go_testE)
  have "\<forall>i rest. [1, 1] = i # i # rest \<and> i < length (?i @ ?u) \<longrightarrow>
      listeners (xmlRPC sv') = (if can_listen demo_servers ((?i @ ?u) ! i) then [sg_conf ((?i @ ?u) ! i)] else [])"
    using http_servers_open[OF s i u] by (elim conjE)
  from this[rule_format, of 1 "[]"] have "listeners (xmlRPC sv') = [(''unix'', ''/run/s.sock'', [], [])]"
    by (simp add: can_listen_def demo_servers_def demo_se_def xml_startHttpServer_def)
  then show ?thesis using d s by blast
qed

end
