(* ===== verification/HeartbeatWire.thy ===== *)
theory HeartbeatWire
  imports Steps
begin

text \<open>
  The wire format of the heartbeat, \<open>core/heartbeat/heartbeat.go\<close> (\<open>makePacket\<close>) and
  \<open>core/heartbeat/handler.go\<close> (\<open>skipProtocolHead\<close>, \<open>readBody\<close>, the body of the loop of
  \<open>readFromConn\<close>), with the errors of \<open>utils.go\<close>. A connection is the sequence of results its
  \<open>Read\<close> would give; the buffer of \<open>bufio.Reader\<close> is explicit, since the code depends on what one
  \<open>Read\<close> returns.
\<close>

unbundle bit_operations_syntax

type_synonym byte = "8 word"

section \<open>Errors\<close>

text \<open>
  A Go error: the chain \<open>errors.Unwrap\<close> walks, outermost first, and the text of \<open>Error()\<close>.
\<close>

datatype err_node = EOFNode | UnexpectedEOFNode | OpNode string | ErrnoNode nat | DNSNode | TextNode

record go_error =
  chain :: "err_node list"
  message :: string

definition io_EOF :: go_error where
  "io_EOF = \<lparr>chain = [EOFNode], message = ''EOF''\<rparr>"

definition io_ErrUnexpectedEOF :: go_error where
  "io_ErrUnexpectedEOF = \<lparr>chain = [UnexpectedEOFNode], message = ''unexpected EOF''\<rparr>"

definition ErrMaxErrorCountExceed :: go_error where
  "ErrMaxErrorCountExceed = \<lparr>chain = [TextNode], message = ''max error count exceed''\<rparr>"

text \<open>The error of a read on a connection that this side has closed.\<close>

definition closed_error :: go_error where
  "closed_error = \<lparr>chain = [OpNode ''read'', TextNode], message = ''use of closed network connection''\<rparr>"

definition AbortErrs :: "nat list" where
  "AbortErrs = [32]"

definition isConnectionBroken :: "go_error \<Rightarrow> bool" where
  "isConnectionBroken err \<longleftrightarrow> err = io_EOF
     \<or> (\<exists>a\<in>set AbortErrs. ErrnoNode a \<in> set (chain err))
     \<or> index_of (message err) ''closed network'' \<noteq> None"

definition isDNSError :: "go_error option \<Rightarrow> bool" where
  "isDNSError err = (case err of None \<Rightarrow> False | Some e \<Rightarrow> DNSNode \<in> set (tl (chain e)))"

text \<open>The test \<open>err.(*net.OpError)\<close> with \<open>Op == "read"\<close>.\<close>

definition isReadOpError :: "go_error \<Rightarrow> bool" where
  "isReadOpError err \<longleftrightarrow> (case chain err of OpNode op # rest \<Rightarrow> op = ''read'' | _ \<Rightarrow> False)"

section \<open>Packets\<close>

definition protocolHead :: "byte list" where
  "protocolHead = [0x6C, 0xC6]"

definition OptionPlain :: byte where "OptionPlain = 0"
definition OptionProtoBuf :: byte where "OptionProtoBuf = push_bit 5 1"
definition OptionRequireMask :: byte where "OptionRequireMask = OptionProtoBuf - 1"

text \<open>\<open>binary.LittleEndian\<close>: \<open>PutUint16\<close> and \<open>Uint16\<close>.\<close>

definition PutUint16 :: "16 word \<Rightarrow> byte list" where
  "PutUint16 w = [ucast w, ucast (drop_bit 8 w)]"

definition Uint16 :: "byte list \<Rightarrow> 16 word" where
  "Uint16 b = ucast (b ! 0) OR push_bit 8 (ucast (b ! 1))"

definition makePacket :: "byte list \<Rightarrow> byte \<Rightarrow> byte list" where
  "makePacket p opt =
     (if p = [] then protocolHead @ [0, 0]
      else protocolHead @ PutUint16 (word_of_nat (length p)) @ [opt] @ p)"

section \<open>The connection and its buffered reader\<close>

text \<open>
  \<open>Data b d\<close>: bytes that arrive together, at least one; \<open>Fail e\<close>: a \<open>Read\<close> that returns an error.
  On an exhausted list \<open>Read\<close> waits (\<open>None\<close>). A \<open>Read\<close> with a shorter slice leaves the rest.
\<close>

datatype conn_read = Data byte "byte list" | Fail go_error

record reader =
  rbuf :: "byte list"
  rconn :: "conn_read list"

definition bufio_size :: nat where
  "bufio_size = 4096"

fun conn_Read :: "nat \<Rightarrow> conn_read list \<Rightarrow> ((go_error + byte list) \<times> conn_read list) option" where
  "conn_Read n [] = None"
| "conn_Read n (Fail e # cs) = Some (Inl e, cs)"
| "conn_Read n (Data b d # cs) =
     Some (Inr (take n (b # d)),
           (case drop n (b # d) of [] \<Rightarrow> cs | b' # d' \<Rightarrow> Data b' d' # cs))"

text \<open>\<open>bufio.Reader.Read\<close> of \<open>n\<close> bytes: one read of the connection at most.\<close>

definition bufio_Read :: "nat \<Rightarrow> reader \<Rightarrow> ((go_error + byte list) \<times> reader) option" where
  "bufio_Read n r =
     (if n = 0 then Some (Inr [], r)
      else if rbuf r \<noteq> [] then Some (Inr (take n (rbuf r)), r\<lparr>rbuf := drop n (rbuf r)\<rparr>)
      else if bufio_size \<le> n then
        map_option (\<lambda>(x, cs). (x, r\<lparr>rconn := cs\<rparr>)) (conn_Read n (rconn r))
      else (case conn_Read bufio_size (rconn r) of
          None \<Rightarrow> None
        | Some (Inl e, cs) \<Rightarrow> Some (Inl e, r\<lparr>rconn := cs\<rparr>)
        | Some (Inr d, cs) \<Rightarrow> Some (Inr (take n d), \<lparr>rbuf = drop n d, rconn = cs\<rparr>)))"

text \<open>What is left to read; every successful read of a byte makes it smaller.\<close>

fun conn_weight :: "conn_read \<Rightarrow> nat" where
  "conn_weight (Data b d) = length d + 2"
| "conn_weight (Fail e) = 1"

definition weight :: "reader \<Rightarrow> nat" where
  "weight r = length (rbuf r) + sum_list (map conn_weight (rconn r))"

lemma conn_Read_weight:
  "conn_Read n cs = Some (x, cs') \<Longrightarrow> 0 < n \<Longrightarrow>
   (case x of Inl e \<Rightarrow> 0 | Inr d \<Rightarrow> length d) + sum_list (map conn_weight cs') \<le> sum_list (map conn_weight cs)
   \<and> (\<forall>d. x = Inr d \<longrightarrow> d \<noteq> [])
   \<and> (\<forall>e. x = Inl e \<longrightarrow> sum_list (map conn_weight cs') < sum_list (map conn_weight cs))"
proof (induction n cs rule: conn_Read.induct)
  case (3 n b d cs)
  then show ?case
    by (cases n) (auto split: list.splits dest: arg_cong[of _ _ length])
qed auto

lemma conn_Read_shrinks:
  assumes "conn_Read n cs = Some (Inr d, cs')" "0 < n"
  shows "length d + sum_list (map conn_weight cs') \<le> sum_list (map conn_weight cs)" "d \<noteq> []"
  using conn_Read_weight[OF assms] by auto

lemma bufio_Read_progress:
  "bufio_Read n r = Some (Inr d, r') \<Longrightarrow> 0 < n \<Longrightarrow> d \<noteq> [] \<and> length d \<le> n"
  by (auto simp: bufio_Read_def bufio_size_def split: if_splits option.splits sum.splits dest: conn_Read_shrinks
      elim!: conn_Read.elims)

lemma bufio_Read_weight:
  assumes "bufio_Read n r = Some (x, r')" "0 < n"
  shows "weight r' < weight r"
proof (cases "rbuf r = []")
  case False
  then show ?thesis using assms by (cases "rbuf r") (auto simp: bufio_Read_def weight_def)
next
  case empty: True
  show ?thesis
  proof (cases "bufio_size \<le> n")
    case True
    with assms empty obtain cs where c: "conn_Read n (rconn r) = Some (x, cs)" "r' = r\<lparr>rconn := cs\<rparr>"
      by (auto simp: bufio_Read_def)
    show ?thesis using conn_Read_weight[OF c(1) assms(2)] c(2) empty
      by (cases x) (auto simp: weight_def simp flip: length_greater_0_conv)
  next
    case False
    with assms empty obtain y cs where c: "conn_Read bufio_size (rconn r) = Some (y, cs)"
      by (auto simp: bufio_Read_def split: option.splits)
    have pos: "0 < bufio_size" by (simp add: bufio_size_def)
    show ?thesis
      using conn_Read_weight[OF c pos] c False assms empty
      by (cases y) (auto simp: bufio_Read_def weight_def simp flip: length_greater_0_conv)
  qed
qed

text \<open>\<open>io.ReadFull\<close>: the bytes read so far are \<open>acc\<close>.\<close>

function io_ReadFull :: "nat \<Rightarrow> byte list \<Rightarrow> reader \<Rightarrow> ((go_error + byte list) \<times> reader) option" where
  "io_ReadFull n acc r =
     (if n = 0 then Some (Inr acc, r)
      else (case bufio_Read n r of
          None \<Rightarrow> None
        | Some (Inl e, r') \<Rightarrow>
            Some (Inl (if e = io_EOF \<and> acc \<noteq> [] then io_ErrUnexpectedEOF else e), r')
        | Some (Inr d, r') \<Rightarrow> io_ReadFull (n - length d) (acc @ d) r'))"
  by pat_completeness auto

termination
  by (relation "measure (\<lambda>(n, acc, r). n)") (auto dest: bufio_Read_progress)

declare io_ReadFull.simps [simp del]

section \<open>Reading a request\<close>

text \<open>The loop of \<open>skipProtocolHead\<close> with \<open>headIndex = i\<close>.\<close>

function skip_head :: "nat \<Rightarrow> reader \<Rightarrow> ((go_error + unit) \<times> reader) option" where
  "skip_head i r =
     (if i < length protocolHead then
        (case bufio_Read 1 r of
           None \<Rightarrow> None
         | Some (Inl e, r') \<Rightarrow> Some (Inl e, r')
         | Some (Inr b, r') \<Rightarrow>
             (if b = [] \<or> b ! 0 \<noteq> protocolHead ! i then skip_head 0 r' else skip_head (i + 1) r'))
      else Some (Inr (), r))"
  by pat_completeness auto

termination
  by (relation "measure (\<lambda>(i, r). weight r)") (auto dest: bufio_Read_weight)

declare skip_head.simps [simp del]

definition skipProtocolHead :: "reader \<Rightarrow> ((go_error + unit) \<times> reader) option" where
  "skipProtocolHead r = skip_head 0 r"

text \<open>
  \<open>readBody\<close>: the two length bytes are read by one \<open>Read\<close>, which may return one of them; the
  other stays zero.
\<close>

definition readBody :: "reader \<Rightarrow> ((go_error + byte list) \<times> reader) option" where
  "readBody r =
     (case bufio_Read 2 r of
        None \<Rightarrow> None
      | Some (Inl e, r1) \<Rightarrow> Some (Inl e, r1)
      | Some (Inr l, r1) \<Rightarrow>
          (let size = unat (Uint16 (l @ drop (length l) [0, 0])) in
           case bufio_Read 1 r1 of
             None \<Rightarrow> None
           | Some (Inl e, r2) \<Rightarrow> Some (Inl e, r2)
           | Some (Inr opt, r2) \<Rightarrow> io_ReadFull size [] r2))"

text \<open>
  One round of the loop of \<open>readFromConn\<close>: the loop goes on, has the requests of a report, or
  returns. \<open>unmarshal\<close> stands for \<open>proto.Unmarshal\<close> into a \<open>RequireReport\<close>.
\<close>

datatype read_result = Again | Requires "int list" | Return go_error

definition read_request :: "(byte list \<Rightarrow> int list option) \<Rightarrow> reader \<Rightarrow> (read_result \<times> reader) option" where
  "read_request unmarshal r =
     (case skipProtocolHead r of
        None \<Rightarrow> None
      | Some (Inl e, r1) \<Rightarrow>
          Some (if isConnectionBroken e then Return e else if isReadOpError e then Return e else Again, r1)
      | Some (Inr _, r1) \<Rightarrow>
          (case readBody r1 of
             None \<Rightarrow> None
           | Some (Inl e, r2) \<Rightarrow> Some (if isConnectionBroken e then Return e else Again, r2)
           | Some (Inr buf, r2) \<Rightarrow>
               Some (case unmarshal buf of None \<Rightarrow> Again | Some reqs \<Rightarrow> Requires reqs, r2)))"

section \<open>The whole loop\<close>

lemma io_ReadFull_weight: "io_ReadFull n acc r = Some (x, r') \<Longrightarrow> weight r' \<le> weight r"
proof (induction n acc r rule: io_ReadFull.induct)
  case (1 n acc r)
  show ?case
  proof (cases "n = 0")
    case False
    with "1.prems" obtain y r1 where y: "bufio_Read n r = Some (y, r1)"
      by (subst (asm) io_ReadFull.simps) (auto split: option.splits)
    have w: "weight r1 < weight r" using bufio_Read_weight[OF y] False by simp
    show ?thesis
    proof (cases y)
      case (Inl e)
      with "1.prems" y False w show ?thesis by (subst (asm) io_ReadFull.simps) auto
    next
      case (Inr d)
      with "1.prems" y False have "io_ReadFull (n - length d) (acc @ d) r1 = Some (x, r')"
        by (subst (asm) io_ReadFull.simps) auto
      from "1.IH"[OF False y[unfolded Inr] refl refl this] w show ?thesis by simp
    qed
  qed (use "1.prems" in \<open>auto simp: io_ReadFull.simps[of 0]\<close>)
qed

lemma skip_head_weight: "skip_head i r = Some (x, r') \<Longrightarrow> weight r' \<le> weight r"
proof (induction i r rule: skip_head.induct)
  case (1 i r)
  show ?case
  proof (cases "i < length protocolHead")
    case True
    with "1.prems" obtain y r1 where y: "bufio_Read 1 r = Some (y, r1)"
      by (subst (asm) skip_head.simps) (auto split: option.splits)
    have w: "weight r1 < weight r" using bufio_Read_weight[OF y] by simp
    show ?thesis
    proof (cases y)
      case (Inl e)
      with "1.prems" y True w show ?thesis by (subst (asm) skip_head.simps) auto
    next
      case (Inr b)
      with "1.prems" y True
      have "(if b = [] \<or> b ! 0 \<noteq> protocolHead ! i then skip_head 0 r1 else skip_head (i + 1) r1) = Some (x, r')"
        by (subst (asm) skip_head.simps) auto
      with "1.IH"[OF True y[unfolded Inr] refl refl] w show ?thesis by (auto split: if_splits)
    qed
  qed (use "1.prems" in \<open>auto simp: skip_head.simps\<close>)
qed

lemma skipProtocolHead_weight: "skipProtocolHead r = Some (x, r') \<Longrightarrow> weight r' < weight r"
proof -
  assume s: "skipProtocolHead r = Some (x, r')"
  then obtain y r1 where y: "bufio_Read 1 r = Some (y, r1)"
    by (auto simp: skipProtocolHead_def skip_head.simps[of 0 r] protocolHead_def split: option.splits)
  have "weight r1 < weight r" using bufio_Read_weight[OF y] by simp
  moreover have "weight r' \<le> weight r1"
    using s y by (cases y) (auto simp: skipProtocolHead_def skip_head.simps[of 0 r] protocolHead_def
        split: if_splits dest: skip_head_weight)
  ultimately show ?thesis by simp
qed

lemma readBody_weight: "readBody r = Some (x, r') \<Longrightarrow> weight r' \<le> weight r"
  by (auto simp: readBody_def Let_def split: option.splits sum.splits
      dest!: bufio_Read_weight io_ReadFull_weight)

lemma read_request_weight: "read_request um r = Some (x, r') \<Longrightarrow> weight r' < weight r"
  by (auto simp: read_request_def split: option.splits sum.splits dest!: skipProtocolHead_weight readBody_weight)

text \<open>
  \<open>readFromConn\<close>: the reports it passes to \<open>handleRequire\<close>, in order, and the error it returns;
  \<open>None\<close> when it waits for the connection at the end.
\<close>

function readFromConn :: "(byte list \<Rightarrow> int list option) \<Rightarrow> reader \<Rightarrow> int list list \<times> go_error option" where
  "readFromConn unmarshal r =
     (case read_request unmarshal r of
        None \<Rightarrow> ([], None)
      | Some (Again, r') \<Rightarrow> readFromConn unmarshal r'
      | Some (Requires reqs, r') \<Rightarrow>
          (let (rs, e) = readFromConn unmarshal r' in (reqs # rs, e))
      | Some (Return e, r') \<Rightarrow> ([], Some e))"
  by pat_completeness auto

termination
  by (relation "measure (\<lambda>(um, r). weight r)") (auto dest: read_request_weight)

declare readFromConn.simps [simp del]

section \<open>Delivery in pieces\<close>

lemma Uint16_PutUint16 [simp]: "Uint16 (PutUint16 w) = w"
  by (rule bit_word_eqI) (auto simp: Uint16_def PutUint16_def bit_simps)

lemma length_PutUint16 [simp]: "length (PutUint16 w) = 2"
  by (simp add: PutUint16_def)

text \<open>
  The bytes arrive in segments; \<open>r\<close> holds some in its buffer and will give exactly the bytes \<open>bs\<close> before it
  turns to \<open>rest\<close>. No segment is longer than the buffer. The places at which a segment begins are
  counted from the end of the bytes, so that reading only ever drops some of them.
\<close>

definition chunk :: "byte list \<Rightarrow> conn_read" where
  "chunk d = Data (hd d) (tl d)"

definition segment :: "byte list \<Rightarrow> bool" where
  "segment d \<longleftrightarrow> d \<noteq> [] \<and> length d \<le> bufio_size"

fun cuts :: "byte list list \<Rightarrow> nat list" where
  "cuts [] = []"
| "cuts (d # ds) = length (concat (d # ds)) # cuts ds"

definition feeds :: "reader \<Rightarrow> byte list \<Rightarrow> byte list list \<Rightarrow> conn_read list \<Rightarrow> bool" where
  "feeds r bs ds rest \<longleftrightarrow>
     rconn r = map chunk ds @ rest \<and> list_all segment ds \<and> bs = rbuf r @ concat ds"

lemma feeds_Nil: "feeds r [] ds rest \<Longrightarrow> r = \<lparr>rbuf = [], rconn = rest\<rparr>"
  by (cases r; cases ds) (auto simp: feeds_def segment_def)

lemma conn_Read_segment: "segment d \<Longrightarrow> length d \<le> n \<Longrightarrow> conn_Read n (chunk d # cs) = Some (Inr d, cs)"
  by (cases d) (auto simp: chunk_def segment_def split: list.splits)

text \<open>One \<open>Read\<close> returns fewer bytes than were asked for only where a segment begins.\<close>

lemma bufio_Read_feeds:
  assumes "feeds r bs ds rest" "bs \<noteq> []" "0 < n"
  obtains d bs' r' ds' where "bufio_Read n r = Some (Inr d, r')" "d \<noteq> []" "length d \<le> n"
    "bs = d @ bs'" "feeds r' bs' ds' rest" "set (cuts ds') \<subseteq> set (cuts ds)"
    "length d < n \<Longrightarrow> bs' \<noteq> [] \<Longrightarrow> length bs' \<in> set (cuts ds)"
proof -
  have at_cut: "length x \<in> set (cuts zs)" if "x = concat zs" "x \<noteq> []" for x zs
    using that by (cases zs) auto
  show thesis
  proof (cases "rbuf r = []")
    case False
    show thesis
    proof (rule that)
      show "bufio_Read n r = Some (Inr (take n (rbuf r)), r\<lparr>rbuf := drop n (rbuf r)\<rparr>)"
        using False assms(3) by (simp add: bufio_Read_def)
      show "bs = take n (rbuf r) @ (drop n (rbuf r) @ concat ds)" "feeds (r\<lparr>rbuf := drop n (rbuf r)\<rparr>) (drop n (rbuf r) @ concat ds) ds rest"
        using assms(1) by (auto simp: feeds_def)
      show "length (drop n (rbuf r) @ concat ds) \<in> set (cuts ds)"
        if "length (take n (rbuf r)) < n" "drop n (rbuf r) @ concat ds \<noteq> []"
        using that by (intro at_cut) auto
    qed (use False assms(3) in auto)
  next
    case True
    with assms(1,2) obtain d ds1 where ds: "ds = d # ds1" "segment d" "list_all segment ds1"
      "rconn r = chunk d # map chunk ds1 @ rest" "bs = d @ concat ds1"
      by (cases ds) (auto simp: feeds_def)
    have d: "bufio_Read n r = Some (Inr (take n d), \<lparr>rbuf = drop n d, rconn = map chunk ds1 @ rest\<rparr>)"
      using ds True assms(3) conn_Read_segment[OF ds(2), of n] conn_Read_segment[OF ds(2), of bufio_size]
      by (cases r) (auto simp: bufio_Read_def segment_def)
    show thesis
    proof (rule that[OF d])
      show "bs = take n d @ (drop n d @ concat ds1)" using ds by simp
      show "feeds \<lparr>rbuf = drop n d, rconn = map chunk ds1 @ rest\<rparr> (drop n d @ concat ds1) ds1 rest"
        using ds by (simp add: feeds_def)
      show "length (drop n d @ concat ds1) \<in> set (cuts ds)"
        if "length (take n d) < n" "drop n d @ concat ds1 \<noteq> []"
        using that ds(1) at_cut[of "concat ds1" ds1] by auto
    qed (use ds assms(3) in \<open>auto simp: segment_def\<close>)
  qed
qed

lemma bufio_Read_one:
  assumes "feeds r (b # bs) ds rest"
  obtains r' ds' where "bufio_Read (Suc 0) r = Some (Inr [b], r')" "feeds r' bs ds' rest" "set (cuts ds') \<subseteq> set (cuts ds)"
proof -
  obtain d bs' r' ds' where d: "bufio_Read (Suc 0) r = Some (Inr d, r')" "d \<noteq> []" "length d \<le> Suc 0"
    "b # bs = d @ bs'" "feeds r' bs' ds' rest" "set (cuts ds') \<subseteq> set (cuts ds)"
    by (rule bufio_Read_feeds[OF assms, of "Suc 0"]) auto
  then show thesis by (cases d) (auto intro: that)
qed

lemma bufio_Read_two:
  assumes "feeds r (a # b # bs) ds rest" "Suc (length bs) \<notin> set (cuts ds)"
  obtains r' ds' where "bufio_Read 2 r = Some (Inr [a, b], r')" "feeds r' bs ds' rest" "set (cuts ds') \<subseteq> set (cuts ds)"
proof -
  obtain d bs' r' ds' where d: "bufio_Read 2 r = Some (Inr d, r')" "d \<noteq> []" "length d \<le> 2"
    "a # b # bs = d @ bs'" "feeds r' bs' ds' rest" "set (cuts ds') \<subseteq> set (cuts ds)"
    "length d < 2 \<Longrightarrow> bs' \<noteq> [] \<Longrightarrow> length bs' \<in> set (cuts ds)"
    by (rule bufio_Read_feeds[OF assms(1), of 2]) auto
  have "length d \<noteq> 1"
  proof
    assume one: "length d = 1"
    with d(4) have "bs' = b # bs" by (cases d) auto
    with d(7) one assms(2) show False by simp
  qed
  with d(2,3) have "length d = 2" by (cases d; cases "tl d") auto
  with d(4) have "d = [a, b]" "bs' = bs" by (cases d; cases "tl d"; force)+
  with d show thesis by (intro that) auto
qed

lemma io_ReadFull_feeds:
  "feeds r (u @ v) ds rest \<Longrightarrow>
   \<exists>r' ds'. io_ReadFull (length u) acc r = Some (Inr (acc @ u), r') \<and> feeds r' v ds' rest \<and> set (cuts ds') \<subseteq> set (cuts ds)"
proof (induction "length u" arbitrary: u acc r ds rule: less_induct)
  case less
  show ?case
  proof (cases "u = []")
    case True
    with less.prems show ?thesis by (auto simp: io_ReadFull.simps[of 0])
  next
    case False
    then have ne: "u @ v \<noteq> []" "0 < length u" by auto
    obtain d bs' r' ds' where d: "bufio_Read (length u) r = Some (Inr d, r')" "d \<noteq> []" "length d \<le> length u"
      "u @ v = d @ bs'" "feeds r' bs' ds' rest" "set (cuts ds') \<subseteq> set (cuts ds)"
      by (rule bufio_Read_feeds[OF less.prems ne])
    define w where "w = drop (length d) u"
    have "take (length d) (u @ v) = d" "drop (length d) (u @ v) = bs'" using d(4) by simp_all
    with d(3) have u: "u = d @ w" "bs' = w @ v"
      by (simp_all add: w_def) (metis append_take_drop_id)
    have "length w < length u" using u(1) d(2) by simp
    from less.hyps[OF this, of r' ds' "acc @ d"] d(5) u obtain r'' ds'' where
      "io_ReadFull (length w) (acc @ d) r' = Some (Inr (acc @ u), r'')" "feeds r'' v ds'' rest"
      "set (cuts ds'') \<subseteq> set (cuts ds')" by auto
    then show ?thesis using d(1,6) u(1) False by (subst io_ReadFull.simps) auto
  qed
qed

lemma skip_noise:
  assumes "feeds r (noise @ v) ds rest" "0x6C \<notin> set noise"
  shows "\<exists>r' ds'. skip_head 0 r = skip_head 0 r' \<and> feeds r' v ds' rest \<and> set (cuts ds') \<subseteq> set (cuts ds)"
  using assms
proof (induction noise arbitrary: r ds)
  case Nil
  then show ?case by auto
next
  case (Cons b noise)
  obtain r1 ds1 where r1: "bufio_Read (Suc 0) r = Some (Inr [b], r1)" "feeds r1 (noise @ v) ds1 rest"
    "set (cuts ds1) \<subseteq> set (cuts ds)"
    using Cons.prems(1) by (auto elim: bufio_Read_one)
  have "skip_head 0 r = skip_head 0 r1"
    using r1(1) Cons.prems(2) by (subst skip_head.simps) (auto simp: protocolHead_def)
  with Cons.IH[OF r1(2)] Cons.prems(2) r1(3) show ?case by auto
qed

lemma skip_head_found:
  assumes "feeds r (protocolHead @ v) ds rest"
  shows "\<exists>r' ds'. skip_head 0 r = Some (Inr (), r') \<and> feeds r' v ds' rest \<and> set (cuts ds') \<subseteq> set (cuts ds)"
proof -
  obtain r1 ds1 where r1: "bufio_Read (Suc 0) r = Some (Inr [0x6C], r1)" "feeds r1 (0xC6 # v) ds1 rest"
    "set (cuts ds1) \<subseteq> set (cuts ds)"
    using assms by (auto simp: protocolHead_def elim: bufio_Read_one)
  obtain r2 ds2 where r2: "bufio_Read (Suc 0) r1 = Some (Inr [0xC6], r2)" "feeds r2 v ds2 rest"
    "set (cuts ds2) \<subseteq> set (cuts ds1)"
    using r1(2) by (auto elim: bufio_Read_one)
  have "skip_head 0 r = skip_head (Suc 0) r1"
    using r1(1) by (subst skip_head.simps) (simp add: protocolHead_def)
  also have "\<dots> = skip_head (Suc (Suc 0)) r2"
    using r2(1) by (subst skip_head.simps) (simp add: protocolHead_def)
  also have "\<dots> = Some (Inr (), r2)" by (subst skip_head.simps) (simp add: protocolHead_def)
  finally show ?thesis using r1(3) r2(2,3) by auto
qed

text \<open>
  What arrives on a connection: packets \<open>(noise, body, opt)\<close>, each after bytes that belong to no packet. The
  length of a packet is whole when no segment begins at its second byte.
\<close>

type_synonym arrival = "byte list \<times> byte list \<times> byte"

definition arrival_bytes :: "arrival list \<Rightarrow> byte list" where
  "arrival_bytes as = concat (map (\<lambda>(noise, body, opt). noise @ makePacket body opt) as)"

fun arrival_ok :: "arrival \<Rightarrow> bool" where
  "arrival_ok (noise, body, opt) \<longleftrightarrow> 0x6C \<notin> set noise \<and> body \<noteq> [] \<and> length body < 2 ^ 16"

fun lengths_whole :: "nat list \<Rightarrow> arrival list \<Rightarrow> bool" where
  "lengths_whole cs [] = True"
| "lengths_whole cs ((noise, body, opt) # as) \<longleftrightarrow>
     Suc (length (opt # body @ arrival_bytes as)) \<notin> set cs \<and> lengths_whole cs as"

lemma lengths_whole_subset: "lengths_whole cs as \<Longrightarrow> set cs' \<subseteq> set cs \<Longrightarrow> lengths_whole cs' as"
  by (induction cs as rule: lengths_whole.induct) auto

lemma readBody_feeds:
  assumes "feeds r (PutUint16 (word_of_nat (length body)) @ opt # body @ v) ds rest" "length body < 2 ^ 16"
    "Suc (length (opt # body @ v)) \<notin> set (cuts ds)"
  shows "\<exists>r' ds'. readBody r = Some (Inr body, r') \<and> feeds r' v ds' rest \<and> set (cuts ds') \<subseteq> set (cuts ds)"
proof -
  define l where "l = PutUint16 (word_of_nat (length body))"
  obtain a b where ab: "l = [a, b]" by (simp add: l_def PutUint16_def)
  have size: "unat (Uint16 [a, b]) = length body"
    using assms(2) unfolding ab[symmetric] by (simp add: l_def unat_of_nat take_bit_nat_eq_self_iff)
  obtain r1 ds1 where r1: "bufio_Read 2 r = Some (Inr [a, b], r1)" "feeds r1 (opt # body @ v) ds1 rest"
    "set (cuts ds1) \<subseteq> set (cuts ds)"
    by (rule bufio_Read_two[of r a b "opt # body @ v" ds rest]) (use assms ab in \<open>auto simp: l_def[symmetric]\<close>)
  obtain r2 ds2 where r2: "bufio_Read (Suc 0) r1 = Some (Inr [opt], r2)" "feeds r2 (body @ v) ds2 rest"
    "set (cuts ds2) \<subseteq> set (cuts ds1)"
    using r1(2) by (auto elim: bufio_Read_one)
  from io_ReadFull_feeds[OF r2(2), of "[]"] r1 r2 size show ?thesis by (fastforce simp: readBody_def)
qed

lemma read_request_feeds:
  assumes f: "feeds r (arrival_bytes ((noise, body, opt) # as)) ds rest" and ok: "arrival_ok (noise, body, opt)"
    and whole: "lengths_whole (cuts ds) ((noise, body, opt) # as)"
  shows "\<exists>r' ds'. read_request um r = Some (case um body of None \<Rightarrow> Again | Some reqs \<Rightarrow> Requires reqs, r')
    \<and> feeds r' (arrival_bytes as) ds' rest \<and> lengths_whole (cuts ds') as"
proof -
  let ?l = "PutUint16 (word_of_nat (length body))"
  have "feeds r (noise @ protocolHead @ ?l @ opt # body @ arrival_bytes as) ds rest"
    using f ok by (simp add: arrival_bytes_def makePacket_def)
  from skip_noise[OF this] ok obtain r1 ds1
    where r1: "skip_head 0 r = skip_head 0 r1" "feeds r1 (protocolHead @ ?l @ opt # body @ arrival_bytes as) ds1 rest"
      "set (cuts ds1) \<subseteq> set (cuts ds)" by auto
  from skip_head_found[OF r1(2)] obtain r2 ds2
    where r2: "skip_head 0 r1 = Some (Inr (), r2)" "feeds r2 (?l @ opt # body @ arrival_bytes as) ds2 rest"
      "set (cuts ds2) \<subseteq> set (cuts ds1)" by auto
  have "Suc (length (opt # body @ arrival_bytes as)) \<notin> set (cuts ds2)"
    using whole r1(3) r2(3) by auto
  from readBody_feeds[OF r2(2) _ this] ok obtain r3 ds3
    where r3: "readBody r2 = Some (Inr body, r3)" "feeds r3 (arrival_bytes as) ds3 rest" "set (cuts ds3) \<subseteq> set (cuts ds2)"
    by auto
  have "lengths_whole (cuts ds3) as"
    using whole lengths_whole_subset[of "cuts ds" as "cuts ds3"] r1(3) r2(3) r3(3) by auto
  with r1 r2 r3 show ?thesis by (auto simp: read_request_def skipProtocolHead_def)
qed

lemma readFromConn_EOF: "readFromConn um \<lparr>rbuf = [], rconn = [Fail io_EOF]\<rparr> = ([], Some io_EOF)"
  by (simp add: readFromConn.simps[of um "\<lparr>rbuf = [], rconn = [Fail io_EOF]\<rparr>"] read_request_def skipProtocolHead_def
      skip_head.simps[of 0] protocolHead_def bufio_Read_def bufio_size_def isConnectionBroken_def)

lemma readFromConn_feeds:
  assumes "feeds r (arrival_bytes as) ds [Fail io_EOF]" "list_all arrival_ok as" "lengths_whole (cuts ds) as"
  shows "readFromConn um r = (List.map_filter (\<lambda>(noise, body, opt). um body) as, Some io_EOF)"
  using assms
proof (induction as arbitrary: r ds)
  case Nil
  then show ?case by (auto simp: arrival_bytes_def readFromConn_EOF dest!: feeds_Nil)
next
  case (Cons a as)
  obtain noise body opt where a: "a = (noise, body, opt)" by (cases a)
  obtain r' ds' where r': "read_request um r = Some (case um body of None \<Rightarrow> Again | Some reqs \<Rightarrow> Requires reqs, r')"
    "feeds r' (arrival_bytes as) ds' [Fail io_EOF]" "lengths_whole (cuts ds') as"
    using read_request_feeds[of r noise body opt as ds "[Fail io_EOF]" um] Cons.prems by (auto simp: a)
  have "readFromConn um r' = (List.map_filter (\<lambda>(noise, body, opt). um body) as, Some io_EOF)"
    using Cons.IH[OF r'(2) _ r'(3)] Cons.prems(2) by simp
  with r'(1) show ?case by (subst readFromConn.simps) (simp add: a split: option.split)
qed

text \<open>A packet that arrives alone and at once.\<close>

lemma read_request_one:
  assumes "body \<noteq> []" "length body + 5 \<le> bufio_size"
  shows "read_request um \<lparr>rbuf = [], rconn = [chunk (makePacket body opt)]\<rparr> =
    Some (case um body of None \<Rightarrow> Again | Some reqs \<Rightarrow> Requires reqs, \<lparr>rbuf = [], rconn = []\<rparr>)"
proof -
  let ?p = "makePacket body opt"
  have len: "length ?p = length body + 5" using assms(1) by (simp add: makePacket_def protocolHead_def)
  have f: "feeds \<lparr>rbuf = [], rconn = [chunk ?p]\<rparr> (arrival_bytes [([], body, opt)]) [?p] []"
    using assms len by (auto simp: feeds_def segment_def arrival_bytes_def)
  have ok: "arrival_ok ([], body, opt)" using assms by (simp add: bufio_size_def)
  have whole: "lengths_whole (cuts [?p]) [([], body, opt)]" using len by (simp add: arrival_bytes_def)
  from read_request_feeds[OF f ok whole, of um] show ?thesis
    by (auto simp: arrival_bytes_def dest!: feeds_Nil)
qed

text \<open>C13. A connection on which packets arrive and that then ends. Each packet has a body of 1 to 65535 bytes and
  comes after any bytes without the first byte of the head. The bytes come in any segments of 1 to 4096
  bytes (the size of the reader's buffer), as long as no segment begins at the second byte of a packet's
  length. \<open>readFromConn\<close> hands on exactly the reports that unmarshal, in order, and returns \<open>io.EOF\<close>.\<close>

theorem readFromConn_packets:
  assumes "list_all arrival_ok as" and "concat ds = arrival_bytes as" and "list_all segment ds"
    and "lengths_whole (cuts ds) as"
  shows "readFromConn um \<lparr>rbuf = [], rconn = map chunk ds @ [Fail io_EOF]\<rparr> =
    (List.map_filter (\<lambda>(noise, body, opt). um body) as, Some io_EOF)"
  using assms by (intro readFromConn_feeds[where ds = ds]) (simp_all add: feeds_def)

text \<open>
  Three packets in six segments: noise, a head that is cut in two, an option and a body in pieces, the
  end of the second packet and the third in one segment.
\<close>

definition some_arrivals :: "arrival list" where
  "some_arrivals = [([1], [7, 8, 9, 5], 32), ([], [0x6C, 0xC6], 32), ([], [3], 33)]"

definition some_segments :: "byte list list" where
  "some_segments = [[1, 0x6C], [0xC6, 4, 0], [32, 7], [8, 9, 5, 0x6C, 0xC6, 2, 0, 32], [0x6C],
     [0xC6, 0x6C, 0xC6, 1, 0, 33, 3]]"

theorem readFromConn_packets_witness:
  "readFromConn (\<lambda>b. Some (map uint b)) \<lparr>rbuf = [], rconn = map chunk some_segments @ [Fail io_EOF]\<rparr> =
   ([[7, 8, 9, 5], [0x6C, 0xC6], [3]], Some io_EOF)"
proof -
  have "list_all arrival_ok some_arrivals" by (simp add: some_arrivals_def)
  moreover have "concat some_segments = arrival_bytes some_arrivals" by code_simp
  moreover have "list_all segment some_segments" by (simp add: some_segments_def segment_def bufio_size_def)
  moreover have "lengths_whole (cuts some_segments) some_arrivals" by code_simp
  ultimately have "readFromConn (\<lambda>b. Some (map uint b)) \<lparr>rbuf = [], rconn = map chunk some_segments @ [Fail io_EOF]\<rparr> =
    (List.map_filter (\<lambda>(noise, body, opt). Some (map uint body)) some_arrivals, Some io_EOF)"
    by (rule readFromConn_packets)
  then show ?thesis by (simp add: some_arrivals_def)
qed

text \<open>
  When the two length bytes arrive in different segments the second is lost: the length becomes that
  of the first byte, the second is taken for the option and the option for the first byte of the body.
\<close>

lemma readBody_split_length:
  "readBody \<lparr>rbuf = [], rconn = [Data 2 [], Data 1 [32, 7, 8, 9]]\<rparr> = Some (Inr [32, 7], \<lparr>rbuf = [8, 9], rconn = []\<rparr>)"
  by (simp add: readBody_def bufio_Read_def bufio_size_def io_ReadFull.simps[of "Suc (Suc 0)"] io_ReadFull.simps[of 2] io_ReadFull.simps[of 0]
      Uint16_def)

text \<open>A body of \<open>2 ^ 16\<close> bytes is announced with the length zero.\<close>

lemma makePacket_length_wraps:
  "length p = 2 ^ 16 \<Longrightarrow> makePacket p opt = protocolHead @ [0, 0, opt] @ p"
  by (auto simp: makePacket_def PutUint16_def)

text \<open>After the first byte of the head, a byte that is not the second is dropped without being compared to the first.\<close>

lemma skipProtocolHead_misses:
  "skipProtocolHead \<lparr>rbuf = [0x6C, 0x6C, 0xC6], rconn = [Fail io_EOF]\<rparr> = Some (Inl io_EOF, \<lparr>rbuf = [], rconn = []\<rparr>)"
  by (simp add: skipProtocolHead_def skip_head.simps protocolHead_def bufio_Read_def bufio_size_def)

end
