(* ===== verification/Heartbeat.thy ===== *)
theory Heartbeat
  imports HeartbeatWire
begin

text \<open>
  The heartbeat sender, \<open>core/heartbeat/heartbeat.go\<close> (\<open>Beat\<close>, \<open>connect\<close>, \<open>disconnect\<close>, \<open>beat\<close>,
  \<open>sendPacket\<close>) and \<open>handler.go\<close> (\<open>handleRequire\<close>, \<open>RegisterHandler\<close>, the goroutine that reads
  requests), as a transition system: the goroutine of \<open>Beat\<close> and one reader per connection share
  the channel \<open>toBeSent\<close> of capacity 6. A step is the code between two operations on which a
  goroutine can wait. What a connection will deliver is fixed when it is dialled, and arbitrary.
\<close>

section \<open>State\<close>

datatype Status = Disconnected | Connected | Beat

text \<open>
  A handler gives a body and an option; its argument is the number of handler calls so far, which
  stands for the time of the call. Keys are the values of \<open>message.RequireType\<close>.
\<close>

type_synonym handler = "nat \<Rightarrow> byte list \<times> byte"

text \<open>
  Where the goroutine of \<open>Beat\<close> is: connecting after so many errors, in \<open>handleRequire\<close> with the
  remaining requests, about to send a packet, in the loop of \<open>beat\<close> with its \<open>errorCount\<close>, about to
  send the empty packet of a tick, leaving \<open>beat\<close>, returned.
\<close>

datatype bphase =
    BConnect int | BReq "int list" | BSend "byte list" "int list"
  | BLoop int | BTick "byte list" int | BClose | BReturned go_error

datatype rphase = RRead | RReq "int list" | RSend "byte list" "int list" | RDone

record conn_reader =
  rd_reader :: reader
  rd_phase :: rphase

text \<open>
  \<open>readers\<close> has one entry per connection made; the last one is that of the current \<open>beat\<close>.
  \<open>hb_cancelled\<close>: the context of the current \<open>beat\<close> was cancelled by its reader. \<open>hb_written\<close>: the
  packets written on the current connection, \<open>conn.Write\<close> having succeeded. \<open>hb_wire\<close>: every call of \<open>conn.Write\<close>
  on it, with the number of bytes of the packet that went out, also when it failed.
\<close>

record HeartBeater =
  AllowErrorCount :: int
  hb_Status :: Status
  Handlers :: "(int, handler) gomap"
  hb_conn :: bool
  toBeSent :: "byte list list"
  hb_calls :: nat
  hb_phase :: bphase
  readers :: "conn_reader list"
  ctx_done :: bool
  hb_cancelled :: bool
  hb_written :: "byte list list"
  hb_wire :: "(byte list \<times> nat) list"

definition toBeSent_cap :: nat where
  "toBeSent_cap = 6"

definition NewHeartBeater :: "int \<Rightarrow> HeartBeater" where
  "NewHeartBeater allow = \<lparr>AllowErrorCount = allow, hb_Status = Disconnected, Handlers = [], hb_conn = False,
     toBeSent = [], hb_calls = 0, hb_phase = BConnect 0, readers = [], ctx_done = False,
     hb_cancelled = False, hb_written = [], hb_wire = []\<rparr>"

definition RegisterHandler :: "int \<Rightarrow> handler \<Rightarrow> HeartBeater \<Rightarrow> HeartBeater" where
  "RegisterHandler rt h b = b\<lparr>Handlers := AList.update rt h (Handlers b)\<rparr>"

text \<open>
  \<open>RegisterDefaultHandlers\<close>: \<open>collect k t\<close> is the marshalled answer of the collector to the
  question \<open>k\<close> at time \<open>t\<close>. All but the platform are asked once, when the handlers are registered.
\<close>

definition RegisterDefaultHandlers :: "(int \<Rightarrow> nat \<Rightarrow> byte list) \<Rightarrow> nat \<Rightarrow> HeartBeater \<Rightarrow> HeartBeater" where
  "RegisterDefaultHandlers collect t0 b =
     (let once = (\<lambda>k b. RegisterHandler k (\<lambda>t. (collect k t0, OptionProtoBuf OR word_of_int k)) b)
      in RegisterHandler 7 (\<lambda>t. (collect 7 t, OptionProtoBuf OR 7))
           (once 6 (once 5 (once 4 (once 3 (once 2 (once 1 b)))))))"

section \<open>Steps\<close>

definition send_room :: "HeartBeater \<Rightarrow> bool" where
  "send_room b \<longleftrightarrow> length (toBeSent b) < toBeSent_cap"

text \<open>\<open>b.toBeSent <- packet\<close>, which waits while the channel is full.\<close>

definition chan_send :: "byte list \<Rightarrow> HeartBeater \<Rightarrow> HeartBeater option" where
  "chan_send packet b = (if send_room b then Some (b\<lparr>toBeSent := toBeSent b @ [packet]\<rparr>) else None)"

text \<open>
  One round of the loop of \<open>handleRequire\<close>: no handler, or the packet that is to be sent.
\<close>

definition handle_one :: "int \<Rightarrow> HeartBeater \<Rightarrow> byte list option \<times> HeartBeater" where
  "handle_one req b =
     (case map_of (Handlers b) req of
        None \<Rightarrow> (None, b)
      | Some h \<Rightarrow> (let (p, opt) = h (hb_calls b)
                   in (Some (makePacket p opt), b\<lparr>hb_calls := Suc (hb_calls b)\<rparr>)))"

definition hb_connect :: "HeartBeater \<Rightarrow> HeartBeater" where
  "hb_connect b = b\<lparr>hb_conn := True, hb_Status := Connected\<rparr>"

text \<open>Entering \<open>beat\<close>: its context, the reader goroutine, and the first report.\<close>

definition beat_start :: "conn_read list \<Rightarrow> HeartBeater \<Rightarrow> HeartBeater" where
  "beat_start cs b = b\<lparr>hb_cancelled := False, hb_written := [], hb_wire := [],
     readers := readers b @ [\<lparr>rd_reader = \<lparr>rbuf = [], rconn = cs\<rparr>, rd_phase = RRead\<rparr>],
     hb_phase := BReq [1, 4]\<rparr>"

text \<open>\<open>disconnect\<close>: closing the connection makes the pending and later reads of its reader fail.\<close>

definition close_reader :: "conn_reader \<Rightarrow> conn_reader" where
  "close_reader c = c\<lparr>rd_reader := (rd_reader c)\<lparr>rconn := [Fail closed_error]\<rparr>\<rparr>"

definition hb_disconnect :: "HeartBeater \<Rightarrow> HeartBeater" where
  "hb_disconnect b =
     (if hb_conn b
      then b\<lparr>hb_conn := False, hb_Status := Disconnected,
             readers := (case rev (readers b) of [] \<Rightarrow> [] | c # cs \<Rightarrow> rev (close_reader c # cs))\<rparr>
      else b)"

text \<open>
  What happens next: the answer of \<open>net.DialTimeout\<close>, the goroutine of \<open>Beat\<close> going on, the answer
  of \<open>conn.Write\<close> to the first packet of the channel (an error with the number of bytes that were
  written before it, as when the deadline passes), the ticker, the closed context, a step of the
  reader of a connection, the end of the caller's context.
\<close>

datatype hb_act =
    DialOk "conn_read list" | DialErr go_error | Proceed
  | WriteOk | WriteErr go_error nat | Ticker | SeeDone | Reader nat | CtxCancel

text \<open>An error of \<open>connect\<close> in \<open>Beat\<close>, with the callback \<open>OnDNSError\<close>.\<close>

definition connect_failed :: "(go_error \<Rightarrow> go_error option) option \<Rightarrow> go_error \<Rightarrow> int \<Rightarrow> HeartBeater \<Rightarrow> HeartBeater" where
  "connect_failed dns e errCount b =
     (let err = (case dns of None \<Rightarrow> Some e | Some f \<Rightarrow> if isDNSError (Some e) then f e else Some e)
      in case err of
           None \<Rightarrow> b
         | Some e' \<Rightarrow> (if errCount + 1 > AllowErrorCount b then b\<lparr>hb_phase := BReturned e'\<rparr>
                        else b\<lparr>hb_phase := BConnect (errCount + 1)\<rparr>))"

definition beat_proceed :: "HeartBeater \<Rightarrow> HeartBeater option" where
  "beat_proceed b = (case hb_phase b of
       BReq [] \<Rightarrow> Some (b\<lparr>hb_phase := BLoop 0\<rparr>)
     | BReq (q # qs) \<Rightarrow>
         (case handle_one q b of
            (None, b') \<Rightarrow> Some (b'\<lparr>hb_phase := BReq qs\<rparr>)
          | (Some p, b') \<Rightarrow> Some (b'\<lparr>hb_phase := BSend p qs\<rparr>))
     | BSend p qs \<Rightarrow> map_option (\<lambda>b'. b'\<lparr>hb_phase := BReq qs\<rparr>) (chan_send p b)
     | BTick p n \<Rightarrow> map_option (\<lambda>b'. b'\<lparr>hb_phase := BLoop n\<rparr>) (chan_send p b)
     | BLoop n \<Rightarrow> (if n \<ge> AllowErrorCount b then Some (b\<lparr>hb_phase := BClose\<rparr>) else None)
     | BClose \<Rightarrow> Some ((hb_disconnect b)\<lparr>hb_phase := BConnect 0\<rparr>)
     | BConnect n \<Rightarrow> None
     | BReturned e \<Rightarrow> None)"

text \<open>The cases of the \<open>select\<close> of \<open>beat\<close>, when the error count lets it go on.\<close>

definition beat_select :: "hb_act \<Rightarrow> int \<Rightarrow> HeartBeater \<Rightarrow> HeartBeater option" where
  "beat_select act n b =
     (if n \<ge> AllowErrorCount b then None
      else (case (act, toBeSent b) of
          (WriteOk, p # ps) \<Rightarrow>
            Some (b\<lparr>toBeSent := ps, hb_written := hb_written b @ [p], hb_wire := hb_wire b @ [(p, length p)],
                   hb_Status := Beat, hb_phase := BLoop 0\<rparr>)
        | (WriteErr e k, p # ps) \<Rightarrow>
            (let b' = b\<lparr>toBeSent := ps, hb_wire := hb_wire b @ [(p, min k (length p))]\<rparr>
             in Some (if isConnectionBroken e then b'\<lparr>hb_phase := BClose\<rparr> else b'\<lparr>hb_phase := BLoop (n + 1)\<rparr>))
        | (Ticker, _) \<Rightarrow> Some (b\<lparr>hb_phase := BTick (makePacket [] OptionPlain) n\<rparr>)
        | (SeeDone, _) \<Rightarrow> (if ctx_done b \<or> hb_cancelled b then Some (b\<lparr>hb_phase := BClose\<rparr>) else None)
        | _ \<Rightarrow> None))"

text \<open>The reader goroutine of connection \<open>i\<close>; its end cancels the context of its own \<open>beat\<close>.\<close>

definition reader_step :: "(byte list \<Rightarrow> int list option) \<Rightarrow> nat \<Rightarrow> HeartBeater \<Rightarrow> HeartBeater option" where
  "reader_step um i b =
     (if length (readers b) \<le> i then None
      else (let c = readers b ! i in
        case rd_phase c of
          RRead \<Rightarrow>
            (case read_request um (rd_reader c) of
               None \<Rightarrow> None
             | Some (Again, r) \<Rightarrow> Some (b\<lparr>readers := (readers b)[i := c\<lparr>rd_reader := r\<rparr>]\<rparr>)
             | Some (Requires qs, r) \<Rightarrow> Some (b\<lparr>readers := (readers b)[i := \<lparr>rd_reader = r, rd_phase = RReq qs\<rparr>]\<rparr>)
             | Some (Return e, r) \<Rightarrow>
                 Some (b\<lparr>readers := (readers b)[i := \<lparr>rd_reader = r, rd_phase = RDone\<rparr>],
                         hb_cancelled := (hb_cancelled b \<or> Suc i = length (readers b))\<rparr>))
        | RReq [] \<Rightarrow> Some (b\<lparr>readers := (readers b)[i := c\<lparr>rd_phase := RRead\<rparr>]\<rparr>)
        | RReq (q # qs) \<Rightarrow>
            (case handle_one q b of
               (None, b') \<Rightarrow> Some (b'\<lparr>readers := (readers b)[i := c\<lparr>rd_phase := RReq qs\<rparr>]\<rparr>)
             | (Some p, b') \<Rightarrow> Some (b'\<lparr>readers := (readers b)[i := c\<lparr>rd_phase := RSend p qs\<rparr>]\<rparr>))
        | RSend p qs \<Rightarrow>
            map_option (\<lambda>b'. b'\<lparr>readers := (readers b)[i := c\<lparr>rd_phase := RReq qs\<rparr>]\<rparr>) (chan_send p b)
        | RDone \<Rightarrow> None))"

fun hb_do :: "(byte list \<Rightarrow> int list option) \<Rightarrow> (go_error \<Rightarrow> go_error option) option \<Rightarrow> hb_act \<Rightarrow> HeartBeater \<Rightarrow> HeartBeater option" where
  "hb_do um dns (DialOk cs) b =
     (case hb_phase b of BConnect n \<Rightarrow> Some (beat_start cs (hb_connect b)) | _ \<Rightarrow> None)"
| "hb_do um dns (DialErr e) b =
     (case hb_phase b of BConnect n \<Rightarrow> Some (connect_failed dns e n b) | _ \<Rightarrow> None)"
| "hb_do um dns Proceed b = beat_proceed b"
| "hb_do um dns (Reader i) b = reader_step um i b"
| "hb_do um dns CtxCancel b = Some (b\<lparr>ctx_done := True\<rparr>)"
| "hb_do um dns act b = (case hb_phase b of BLoop n \<Rightarrow> beat_select act n b | _ \<Rightarrow> None)"

definition hb_step :: "(byte list \<Rightarrow> int list option) \<Rightarrow> (go_error \<Rightarrow> go_error option) option \<Rightarrow> HeartBeater \<Rightarrow> HeartBeater \<Rightarrow> bool" where
  "hb_step um dns b b' \<longleftrightarrow> (\<exists>act. hb_do um dns act b = Some b')"

definition hb_initial :: "int \<Rightarrow> (int, handler) gomap \<Rightarrow> HeartBeater \<Rightarrow> bool" where
  "hb_initial allow hs b \<longleftrightarrow> b = (NewHeartBeater allow)\<lparr>Handlers := hs\<rparr>"

interpretation hbs: transition_system "hb_initial allow hs" "hb_step um dns"
  for allow hs um dns .

abbreviation hb_run :: "(byte list \<Rightarrow> int list option) \<Rightarrow> (go_error \<Rightarrow> go_error option) option \<Rightarrow> hb_act list \<Rightarrow> HeartBeater \<Rightarrow> HeartBeater option" where
  "hb_run um dns \<equiv> run_acts (hb_do um dns)"

lemma hb_run_reachable:
  "hb_run um dns acts b = Some b' \<Longrightarrow> hbs.reachable allow hs um dns b \<Longrightarrow> hbs.reachable allow hs um dns b'"
  by (rule hbs.reachable_acts) (auto simp: hb_step_def)

section \<open>Invariant\<close>

text \<open>The packets anywhere in the sender: in the channel, given to \<open>conn.Write\<close>, or held by a goroutine that waits to send.\<close>

fun pending :: "bphase \<Rightarrow> byte list set" where
  "pending (BSend p qs) = {p}"
| "pending (BTick p n) = {p}"
| "pending _ = {}"

fun rpending :: "rphase \<Rightarrow> byte list set" where
  "rpending (RSend p qs) = {p}"
| "rpending _ = {}"

definition packets :: "HeartBeater \<Rightarrow> byte list set" where
  "packets b = set (toBeSent b) \<union> set (hb_written b) \<union> fst ` set (hb_wire b) \<union> pending (hb_phase b)
     \<union> (\<Union>c\<in>set (readers b). rpending (rd_phase c))"

definition packet_of :: "(int, handler) gomap \<Rightarrow> byte list \<Rightarrow> bool" where
  "packet_of hs p \<longleftrightarrow> p = makePacket [] OptionPlain
     \<or> (\<exists>k h t. map_of hs k = Some h \<and> p = makePacket (fst (h t)) (snd (h t)))"

text \<open>Which phases hold a connection, and their error counts.\<close>

fun connected_phase :: "bphase \<Rightarrow> bool" where
  "connected_phase (BConnect n) = False"
| "connected_phase (BReturned e) = False"
| "connected_phase _ = True"

fun error_count :: "bphase \<Rightarrow> int" where
  "error_count (BConnect n) = n"
| "error_count (BLoop n) = n"
| "error_count (BTick p n) = n"
| "error_count _ = 0"

definition hb_inv :: "int \<Rightarrow> (int, handler) gomap \<Rightarrow> HeartBeater \<Rightarrow> bool" where
  "hb_inv allow hs b \<longleftrightarrow> AllowErrorCount b = allow \<and> Handlers b = hs
     \<and> length (toBeSent b) \<le> toBeSent_cap
     \<and> (\<forall>p\<in>packets b. packet_of hs p)
     \<and> (hb_conn b \<longleftrightarrow> connected_phase (hb_phase b)) \<and> (hb_Status b = Disconnected \<longleftrightarrow> \<not> hb_conn b)
     \<and> (hb_Status b = Connected \<longleftrightarrow> hb_conn b \<and> hb_written b = [])
     \<and> 0 \<le> error_count (hb_phase b) \<and> error_count (hb_phase b) \<le> max 0 allow"

lemma handle_one_cases:
  assumes "handle_one q b = (r, b')" "Handlers b = hs"
  obtains "r = None" "b' = b" | p where "r = Some p" "packet_of hs p" "b' = b\<lparr>hb_calls := Suc (hb_calls b)\<rparr>"
proof (cases "map_of (Handlers b) q")
  case None
  with assms that(1) show thesis by (simp add: handle_one_def)
next
  case (Some h)
  with assms have "r = Some (makePacket (fst (h (hb_calls b))) (snd (h (hb_calls b))))"
    "b' = b\<lparr>hb_calls := Suc (hb_calls b)\<rparr>" by (auto simp: handle_one_def split: prod.splits)
  with Some assms(2) show thesis by (intro that(2)) (auto simp: packet_of_def)
qed

lemma chan_send_inv:
  "chan_send p b = Some b' \<Longrightarrow> length (toBeSent b) < toBeSent_cap \<and> b' = b\<lparr>toBeSent := toBeSent b @ [p]\<rparr>"
  by (auto simp: chan_send_def send_room_def split: if_splits)

lemma connect_failed_inv:
  "hb_inv allow hs b \<Longrightarrow> hb_phase b = BConnect n \<Longrightarrow> hb_inv allow hs (connect_failed dns e n b)"
  by (auto simp: connect_failed_def hb_inv_def packets_def Let_def split: option.splits)

lemma disconnect_inv:
  assumes "hb_inv allow hs b" "hb_phase b = BClose"
  shows "hb_inv allow hs ((hb_disconnect b)\<lparr>hb_phase := BConnect 0\<rparr>)"
proof -
  have "rpending (rd_phase (close_reader c)) = rpending (rd_phase c)" for c
    by (simp add: close_reader_def)
  then have "packets ((hb_disconnect b)\<lparr>hb_phase := BConnect 0\<rparr>) \<subseteq> packets b"
    by (cases "readers b" rule: rev_cases) (auto simp: packets_def hb_disconnect_def)
  with assms show ?thesis by (auto simp: hb_inv_def hb_disconnect_def)
qed

lemma beat_proceed_inv:
  assumes inv: "hb_inv allow hs b" and step: "beat_proceed b = Some b'"
  shows "hb_inv allow hs b'"
proof (cases "hb_phase b")
  case (BReq qs)
  show ?thesis
  proof (cases qs)
    case Nil
    with BReq step have b': "b' = b\<lparr>hb_phase := BLoop 0\<rparr>" by (simp add: beat_proceed_def)
    then have "packets b' = packets b" using BReq by (simp add: packets_def)
    with b' BReq inv show ?thesis by (simp add: hb_inv_def)
  next
    case (Cons q qs')
    obtain r b1 where h: "handle_one q b = (r, b1)" by (cases "handle_one q b")
    have hs: "Handlers b = hs" using inv by (simp add: hb_inv_def)
    show ?thesis using h hs
    proof (cases rule: handle_one_cases)
      case 1
      with h BReq Cons step have b': "b' = b\<lparr>hb_phase := BReq qs'\<rparr>" by (simp add: beat_proceed_def)
      then have "packets b' = packets b" using BReq by (simp add: packets_def)
      with b' BReq inv show ?thesis by (simp add: hb_inv_def)
    next
      case (2 p)
      with h BReq Cons step have b': "b' = b\<lparr>hb_calls := Suc (hb_calls b), hb_phase := BSend p qs'\<rparr>"
        by (simp add: beat_proceed_def)
      then have "packets b' = insert p (packets b)" using BReq by (simp add: packets_def)
      with b' BReq inv 2(2) show ?thesis by (simp add: hb_inv_def)
    qed
  qed
next
  case (BSend p qs)
  with step have b': "length (toBeSent b) < toBeSent_cap" "b' = b\<lparr>toBeSent := toBeSent b @ [p], hb_phase := BReq qs\<rparr>"
    by (auto simp: beat_proceed_def dest!: chan_send_inv)
  then have "packets b' = packets b" using BSend by (auto simp: packets_def)
  with b' BSend inv show ?thesis by (simp add: hb_inv_def)
next
  case (BTick p n)
  with step have b': "length (toBeSent b) < toBeSent_cap" "b' = b\<lparr>toBeSent := toBeSent b @ [p], hb_phase := BLoop n\<rparr>"
    by (auto simp: beat_proceed_def dest!: chan_send_inv)
  then have "packets b' = packets b" using BTick by (auto simp: packets_def)
  with b' BTick inv show ?thesis by (simp add: hb_inv_def)
next
  case (BLoop n)
  with step inv show ?thesis by (auto simp: beat_proceed_def hb_inv_def packets_def ball_Un split: if_splits)
next
  case BClose
  with step disconnect_inv[OF inv] show ?thesis by (auto simp: beat_proceed_def)
qed (use step in \<open>auto simp: beat_proceed_def\<close>)

lemma hb_inv_packet: "hb_inv allow hs b \<Longrightarrow> p \<in> packets b \<Longrightarrow> packet_of hs p"
  by (simp add: hb_inv_def)

lemma beat_select_inv:
  assumes inv: "hb_inv allow hs b" and ph: "hb_phase b = BLoop n" and sel: "beat_select act n b = Some b'"
  shows "hb_inv allow hs b'"
proof -
  have n: "n < allow" "0 \<le> n" using inv ph sel by (auto simp: beat_select_def hb_inv_def split: if_splits)
  have conn: "hb_conn b" "AllowErrorCount b = allow" "Handlers b = hs" "hb_Status b \<noteq> Disconnected"
    "hb_Status b = Connected \<longleftrightarrow> hb_written b = []" "length (toBeSent b) \<le> toBeSent_cap"
    using inv ph by (auto simp: hb_inv_def)
  have pk: "packet_of hs p" if "p \<in> packets b \<or> p = makePacket [] OptionPlain" for p
    using that hb_inv_packet[OF inv] by (auto simp: packet_of_def)
  have goal: "hb_inv allow hs b'"
    if "packets b' \<subseteq> packets b \<union> {makePacket [] OptionPlain}" "hb_conn b'" "AllowErrorCount b' = allow"
      "Handlers b' = hs" "hb_Status b' \<noteq> Disconnected" "hb_Status b' = Connected \<longleftrightarrow> hb_written b' = []"
      "length (toBeSent b') \<le> toBeSent_cap" "connected_phase (hb_phase b')"
      "0 \<le> error_count (hb_phase b')" "error_count (hb_phase b') \<le> allow"
    using that pk by (auto simp: hb_inv_def)
  have "(\<exists>p ps. toBeSent b = p # ps \<and>
        b' = b\<lparr>toBeSent := ps, hb_written := hb_written b @ [p], hb_wire := hb_wire b @ [(p, length p)],
          hb_Status := Beat, hb_phase := BLoop 0\<rparr>)
    \<or> (\<exists>p ps k. toBeSent b = p # ps \<and> b' = b\<lparr>toBeSent := ps, hb_wire := hb_wire b @ [(p, k)], hb_phase := BClose\<rparr>)
    \<or> (\<exists>p ps k. toBeSent b = p # ps \<and> b' = b\<lparr>toBeSent := ps, hb_wire := hb_wire b @ [(p, k)], hb_phase := BLoop (n + 1)\<rparr>)
    \<or> b' = b\<lparr>hb_phase := BTick (makePacket [] OptionPlain) n\<rparr>
    \<or> b' = b\<lparr>hb_phase := BClose\<rparr>"
    using sel n(1) conn(2)
    by (cases act; cases "toBeSent b"; simp add: beat_select_def Let_def split: if_splits; fast?)
  then consider
      (ok) p ps where "toBeSent b = p # ps"
        "b' = b\<lparr>toBeSent := ps, hb_written := hb_written b @ [p], hb_wire := hb_wire b @ [(p, length p)],
          hb_Status := Beat, hb_phase := BLoop 0\<rparr>"
    | (broken) p ps k where "toBeSent b = p # ps" "b' = b\<lparr>toBeSent := ps, hb_wire := hb_wire b @ [(p, k)], hb_phase := BClose\<rparr>"
    | (failed) p ps k where "toBeSent b = p # ps" "b' = b\<lparr>toBeSent := ps, hb_wire := hb_wire b @ [(p, k)], hb_phase := BLoop (n + 1)\<rparr>"
    | (ticked) "b' = b\<lparr>hb_phase := BTick (makePacket [] OptionPlain) n\<rparr>"
    | (ended) "b' = b\<lparr>hb_phase := BClose\<rparr>"
    by (elim disjE exE conjE)
  then show ?thesis
  proof cases
    case ok
    then have "packets b' \<subseteq> packets b" using ph by (auto simp: packets_def)
    then show ?thesis using ok conn n by (intro goal) auto
  next
    case broken
    then have "packets b' \<subseteq> packets b" using ph by (auto simp: packets_def)
    then show ?thesis using broken conn n by (intro goal) auto
  next
    case failed
    then have "packets b' \<subseteq> packets b" using ph by (auto simp: packets_def)
    then show ?thesis using failed conn n by (intro goal) auto
  next
    case ticked
    then have "packets b' \<subseteq> packets b \<union> {makePacket [] OptionPlain}" using ph by (auto simp: packets_def)
    then show ?thesis using ticked conn n by (intro goal) auto
  next
    case ended
    then have "packets b' \<subseteq> packets b" using ph by (auto simp: packets_def)
    then show ?thesis using ended conn n by (intro goal) auto
  qed
qed

text \<open>Replacing one reader changes the packets by what that reader holds.\<close>

lemma packets_reader:
  assumes "i < length (readers b)" "\<And>p. p \<in> rpending (rd_phase c) \<Longrightarrow> packet_of hs p" "hb_inv allow hs b"
  shows "hb_inv allow hs (b\<lparr>readers := (readers b)[i := c]\<rparr>)"
proof -
  have "packets (b\<lparr>readers := (readers b)[i := c]\<rparr>) \<subseteq> packets b \<union> rpending (rd_phase c)"
    using set_update_subset_insert[of "readers b" i c] by (auto simp: packets_def)
  with assms(2,3) show ?thesis by (auto simp: hb_inv_def)
qed

lemma hb_inv_ghost:
  assumes "hb_inv allow hs b"
  shows "hb_inv allow hs (b\<lparr>hb_calls := k\<rparr>)" "hb_inv allow hs (b\<lparr>hb_cancelled := x\<rparr>)"
    "hb_inv allow hs (b\<lparr>ctx_done := x\<rparr>)"
  using assms by (auto simp: hb_inv_def packets_def)

lemma reader_step_inv:
  assumes inv: "hb_inv allow hs b" and step: "reader_step um i b = Some b'"
  shows "hb_inv allow hs b'"
proof -
  define c where "c = readers b ! i"
  have i: "i < length (readers b)" using step by (auto simp: reader_step_def split: if_splits)
  have put: "hb_inv allow hs (b\<lparr>readers := (readers b)[i := d]\<rparr>)" if "rpending (rd_phase d) = {}" for d
    using packets_reader[OF i _ inv, of d] that by auto
  have held: "packet_of hs p" if "rd_phase c = RSend p qs" for p qs
  proof (rule hb_inv_packet[OF inv])
    have "c \<in> set (readers b)" using i by (simp add: c_def)
    with that show "p \<in> packets b" by (force simp: packets_def)
  qed
  show ?thesis
  proof (cases "rd_phase c")
    case RRead
    then obtain x r where x: "read_request um (rd_reader c) = Some (x, r)"
      using step i by (auto simp: reader_step_def c_def Let_def split: option.splits)
    show ?thesis
    proof (cases x)
      case Again
      then show ?thesis using RRead x step i put[of "c\<lparr>rd_reader := r\<rparr>"]
        by (simp add: reader_step_def c_def[symmetric])
    next
      case (Requires qs)
      then show ?thesis using RRead x step i put[of "\<lparr>rd_reader = r, rd_phase = RReq qs\<rparr>"]
        by (simp add: reader_step_def c_def[symmetric])
    next
      case (Return e)
      then show ?thesis
        using RRead x step i hb_inv_ghost(2)[OF put[of "\<lparr>rd_reader = r, rd_phase = RDone\<rparr>"]]
        by (auto simp: reader_step_def c_def[symmetric])
    qed
  next
    case (RReq qs)
    show ?thesis
    proof (cases qs)
      case Nil
      then show ?thesis using RReq step i put[of "c\<lparr>rd_phase := RRead\<rparr>"]
        by (simp add: reader_step_def c_def[symmetric])
    next
      case (Cons q qs')
      obtain r b1 where h: "handle_one q b = (r, b1)" by (cases "handle_one q b")
      have hs: "Handlers b = hs" using inv by (simp add: hb_inv_def)
      show ?thesis using h hs
      proof (cases rule: handle_one_cases)
        case 1
        then show ?thesis using h Cons RReq step i put[of "c\<lparr>rd_phase := RReq qs'\<rparr>"]
          by (simp add: reader_step_def c_def[symmetric])
      next
        case (2 p)
        have "hb_inv allow hs (b1\<lparr>readers := (readers b1)[i := c\<lparr>rd_phase := RSend p qs'\<rparr>]\<rparr>)"
          by (rule packets_reader) (use 2 i hb_inv_ghost(1)[OF inv] in auto)
        then show ?thesis using 2 h Cons RReq step i
          by (auto simp: reader_step_def c_def[symmetric])
      qed
    qed
  next
    case (RSend p qs)
    then obtain b1 where b1: "chan_send p b = Some b1" "b' = b1\<lparr>readers := (readers b)[i := c\<lparr>rd_phase := RReq qs\<rparr>]\<rparr>"
      using step i by (auto simp: reader_step_def c_def Let_def)
    have sent: "length (toBeSent b) < toBeSent_cap \<and> b1 = b\<lparr>toBeSent := toBeSent b @ [p]\<rparr>"
      by (rule chan_send_inv[OF b1(1)])
    then have "hb_inv allow hs b1" using inv held[OF RSend] by (auto simp: hb_inv_def packets_def)
    from packets_reader[OF _ _ this, of i "c\<lparr>rd_phase := RReq qs\<rparr>"] show ?thesis using sent b1(2) i by simp
  next
    case RDone
    then show ?thesis using step i by (simp add: reader_step_def c_def[symmetric])
  qed
qed

lemma hb_do_inv:
  assumes "hb_inv allow hs b" "hb_do um dns act b = Some b'"
  shows "hb_inv allow hs b'"
proof (cases act)
  case (DialOk cs)
  with assms obtain n where "hb_phase b = BConnect n" "b' = beat_start cs (hb_connect b)"
    by (auto split: bphase.splits)
  with assms(1) show ?thesis
    by (auto simp: hb_inv_def packets_def beat_start_def hb_connect_def)
next
  case (DialErr e)
  with assms connect_failed_inv show ?thesis by (auto split: bphase.splits)
next
  case Proceed
  with assms beat_proceed_inv show ?thesis by auto
next
  case (Reader i)
  with assms reader_step_inv show ?thesis by auto
next
  case CtxCancel
  with assms hb_inv_ghost(3) show ?thesis by auto
qed (use assms in \<open>auto split: bphase.splits intro: beat_select_inv\<close>)

lemma reachable_hb_inv: "hbs.reachable allow hs um dns b \<Longrightarrow> hb_inv allow hs b"
proof (erule hbs.reachable_invariant)
  show "hb_inv allow hs b" if "hb_initial allow hs b" for b
    using that by (simp add: hb_initial_def NewHeartBeater_def hb_inv_def packets_def toBeSent_cap_def)
next
  show "hb_inv allow hs b'" if "hb_inv allow hs b" "hb_step um dns b b'" for b b'
    using that hb_do_inv by (auto simp: hb_step_def)
qed

text \<open>C11. In every state the sender can reach, whatever the connections, the requests and the interleaving: the
  status says whether there is a connection and whether a packet was written on it, the error
  counts are within the allowed number, the channel holds at most six packets, and everything in it
  or written is the empty packet or the packet of a registered handler.\<close>

theorem heartbeat_well_formed:
  assumes "hbs.reachable allow hs um dns b"
  shows "hb_Status b = (if \<not> connected_phase (hb_phase b) then Disconnected
                        else if hb_written b = [] then Connected else Beat)
    \<and> hb_conn b = connected_phase (hb_phase b)
    \<and> 0 \<le> error_count (hb_phase b) \<and> error_count (hb_phase b) \<le> max 0 allow
    \<and> length (toBeSent b) \<le> 6
    \<and> list_all (packet_of hs) (toBeSent b @ hb_written b)"
proof -
  have inv: "hb_inv allow hs b" by (rule reachable_hb_inv[OF assms])
  then have st: "hb_conn b = connected_phase (hb_phase b)" "(hb_Status b = Disconnected) = (\<not> hb_conn b)"
    "(hb_Status b = Connected) = (hb_conn b \<and> hb_written b = [])" by (simp_all add: hb_inv_def)
  moreover have "list_all (packet_of hs) (toBeSent b @ hb_written b)"
    using inv by (auto simp: hb_inv_def packets_def list_all_iff)
  ultimately show ?thesis using inv by (cases "hb_Status b") (auto simp: hb_inv_def toBeSent_cap_def)
qed

section \<open>The stream on the wire\<close>

text \<open>
  A decoder of what the sender writes: the head, the length in little-endian order, and unless it
  is zero the option and the body.
\<close>

function decode_packets :: "byte list \<Rightarrow> (byte list \<times> byte) list option" where
  "decode_packets bs =
     (if bs = [] then Some []
      else if length bs < 4 \<or> take 2 bs \<noteq> protocolHead then None
      else (let n = unat (Uint16 (take 2 (drop 2 bs))) in
        if n = 0 then map_option (\<lambda>fs. ([], OptionPlain) # fs) (decode_packets (drop 4 bs))
        else if length bs < 5 + n then None
        else map_option (\<lambda>fs. (take n (drop 5 bs), bs ! 4) # fs) (decode_packets (drop (5 + n) bs))))"
  by pat_completeness auto

termination
  by (relation "measure length") auto

declare decode_packets.simps [simp del]

lemma decode_packets_empty:
  "decode_packets (makePacket [] opt @ bs) = map_option (\<lambda>fs. ([], OptionPlain) # fs) (decode_packets bs)"
  by (subst decode_packets.simps) (simp add: makePacket_def protocolHead_def Uint16_def)

lemma decode_packets_makePacket:
  assumes "p \<noteq> []" "length p < 2 ^ 16"
  shows "decode_packets (makePacket p opt @ bs) = map_option (\<lambda>fs. (p, opt) # fs) (decode_packets bs)"
proof -
  define l where "l = PutUint16 (word_of_nat (length p))"
  have pk: "makePacket p opt @ bs = 0x6C # 0xC6 # l @ opt # p @ bs"
    using assms(1) by (simp add: makePacket_def protocolHead_def l_def)
  obtain x y where l: "l = [x, y]" by (simp add: l_def PutUint16_def)
  have size: "unat (Uint16 [x, y]) = length p"
    using assms(2) by (simp add: l[symmetric] l_def unat_of_nat take_bit_nat_eq_self_iff)
  have "drop (5 + length p) (0x6C # 0xC6 # x # y # opt # p @ bs) = bs"
    by (simp add: numeral_eq_Suc)
  with assms(1) size show ?thesis unfolding pk l
    by (subst decode_packets.simps) (simp add: protocolHead_def)
qed

lemma decode_packets_concat:
  assumes "\<forall>p\<in>set ps. packet_of hs p" "\<forall>(k, h)\<in>set hs. \<forall>t. length (fst (h t)) < 2 ^ 16"
  shows "\<exists>fs. decode_packets (concat ps) = Some fs \<and> map (\<lambda>(p, opt). makePacket p opt) fs = ps"
  using assms(1)
proof (induction ps)
  case Nil
  show ?case by (simp add: decode_packets.simps)
next
  case (Cons p ps)
  then obtain fs where fs: "decode_packets (concat ps) = Some fs" "map (\<lambda>(p, opt). makePacket p opt) fs = ps" by auto
  from Cons.prems obtain body opt where b: "p = makePacket body opt" "length body < 2 ^ 16"
    using assms(2) by (fastforce simp: packet_of_def dest: map_of_SomeD)
  show ?case
  proof (cases "body = []")
    case True
    with b fs show ?thesis
      by (intro exI[of _ "([], OptionPlain) # fs"]) (simp add: decode_packets_empty, simp add: makePacket_def)
  next
    case False
    with b fs show ?thesis
      by (intro exI[of _ "(body, opt) # fs"]) (simp add: decode_packets_makePacket)
  qed
qed

text \<open>
  A call of \<open>conn.Write\<close> is torn when some bytes of the packet went out and some did not. The packets that went
  out whole before the first torn write, and the bytes on the wire up to there.
\<close>

definition torn :: "byte list \<times> nat \<Rightarrow> bool" where
  "torn w \<longleftrightarrow> 0 < snd w \<and> snd w < length (fst w)"

definition wire_bytes :: "(byte list \<times> nat) list \<Rightarrow> byte list" where
  "wire_bytes ws = concat (map (\<lambda>(p, k). take k p) ws)"

definition before_tear :: "HeartBeater \<Rightarrow> (byte list \<times> nat) list" where
  "before_tear b = takeWhile (\<lambda>w. \<not> torn w) (hb_wire b)"

definition sent_whole :: "(byte list \<times> nat) list \<Rightarrow> byte list list" where
  "sent_whole ws = map fst (filter (\<lambda>(p, k). k \<noteq> 0) ws)"

lemma wire_bytes_whole: "\<forall>w\<in>set ws. \<not> torn w \<Longrightarrow> wire_bytes ws = concat (sent_whole ws)"
  by (induction ws) (auto simp: wire_bytes_def sent_whole_def torn_def)

lemma hb_wire_packets: "hb_inv allow hs b \<Longrightarrow> w \<in> set (hb_wire b) \<Longrightarrow> packet_of hs (fst w)"
  by (force simp: hb_inv_def packets_def)

text \<open>Every write that succeeded went out whole.\<close>

lemma wire_written: "hbs.reachable allow hs um dns b \<Longrightarrow> \<forall>p\<in>set (hb_written b). (p, length p) \<in> set (hb_wire b)"
proof (erule hbs.reachable_invariant)
  show "\<forall>p\<in>set (hb_written b). (p, length p) \<in> set (hb_wire b)" if "hb_initial allow hs b" for b
    using that by (simp add: hb_initial_def NewHeartBeater_def)
next
  fix b b' assume inv: "\<forall>p\<in>set (hb_written b). (p, length p) \<in> set (hb_wire b)" and "hb_step um dns b b'"
  then obtain act where act: "hb_do um dns act b = Some b'" by (auto simp: hb_step_def)
  have frame: "hb_written b' = hb_written b \<and> hb_wire b' = hb_wire b" if "reader_step um i b = Some b'" for i
    using that by (auto simp: reader_step_def handle_one_def chan_send_def Let_def
        split: if_splits rphase.splits option.splits read_result.splits list.splits prod.splits)
  have proceed: "hb_written b' = hb_written b \<and> hb_wire b' = hb_wire b" if "beat_proceed b = Some b'"
    using that by (auto simp: beat_proceed_def handle_one_def chan_send_def hb_disconnect_def
        split: bphase.splits list.splits option.splits prod.splits if_splits)
  show "\<forall>p\<in>set (hb_written b'). (p, length p) \<in> set (hb_wire b')"
    using act inv frame proceed
    by (cases act) (auto simp: beat_select_def connect_failed_def beat_start_def Let_def
        split: bphase.splits list.splits if_splits option.splits)
qed

text \<open>C12. When no handler gives a body of more than 65535 bytes, the bytes on the wire of a connection decode, at any
  moment and up to the first write that ended partway, into the bodies and options of the packets that
  went out whole, in order and nothing else; when no write ended partway these are all bytes of the
  connection, and every packet whose write succeeded is among them.\<close>

theorem heartbeat_stream_decodes:
  assumes "hbs.reachable allow hs um dns b" and "\<forall>(k, h)\<in>set hs. \<forall>t. length (fst (h t)) < 2 ^ 16"
  shows "\<exists>fs. decode_packets (wire_bytes (before_tear b)) = Some fs
      \<and> sent_whole (before_tear b) = map (\<lambda>(p, opt). makePacket p opt) fs
      \<and> (list_all (\<lambda>w. \<not> torn w) (hb_wire b) \<longrightarrow>
           decode_packets (wire_bytes (hb_wire b)) = Some fs \<and> set (hb_written b) \<subseteq> (\<lambda>(p, opt). makePacket p opt) ` set fs)"
proof -
  let ?ws = "before_tear b"
  have ws: "\<forall>w\<in>set ?ws. \<not> torn w" "set ?ws \<subseteq> set (hb_wire b)"
    by (auto simp: before_tear_def dest: set_takeWhileD)
  have "\<forall>p\<in>set (sent_whole ?ws). packet_of hs p"
    using hb_wire_packets[OF reachable_hb_inv[OF assms(1)]] ws(2) by (fastforce simp: sent_whole_def)
  from decode_packets_concat[OF this assms(2)] obtain fs
    where fs: "decode_packets (wire_bytes ?ws) = Some fs" "sent_whole ?ws = map (\<lambda>(p, opt). makePacket p opt) fs"
    unfolding wire_bytes_whole[OF ws(1)] by metis
  have "?ws = hb_wire b" if "list_all (\<lambda>w. \<not> torn w) (hb_wire b)"
    using that by (simp add: before_tear_def list_all_iff takeWhile_eq_all_conv)
  moreover have "set (hb_written b) \<subseteq> set (sent_whole (hb_wire b))"
  proof
    fix p assume p: "p \<in> set (hb_written b)"
    have "packet_of hs p" using reachable_hb_inv[OF assms(1)] p by (auto simp: hb_inv_def packets_def)
    then have "p \<noteq> []" by (auto simp: packet_of_def makePacket_def protocolHead_def split: if_splits)
    then show "p \<in> set (sent_whole (hb_wire b))"
      using wire_written[OF assms(1)] p by (force simp: sent_whole_def)
  qed
  ultimately show ?thesis using fs by (intro exI[of _ fs]) auto
qed

section \<open>Waiting for ever\<close>

lemma full_channel_stuck_step:
  assumes "hb_step um dns b b'" "hb_phase b = BTick p n" "length (toBeSent b) = toBeSent_cap"
  shows "hb_phase b' = BTick p n \<and> toBeSent b' = toBeSent b \<and> hb_written b' = hb_written b \<and> hb_Status b' = hb_Status b"
proof -
  from assms(1) obtain act where act: "hb_do um dns act b = Some b'" by (auto simp: hb_step_def)
  have full: "chan_send q b = None" for q using assms(3) by (simp add: chan_send_def send_room_def)
  show ?thesis
  proof (cases act)
    case (Reader i)
    with act full assms show ?thesis
      by (auto simp: reader_step_def handle_one_def Let_def
          split: if_splits rphase.splits option.splits read_result.splits list.splits prod.splits)
  qed (use act full assms in \<open>auto simp: beat_proceed_def\<close>)
qed

lemma full_channel_stuck:
  assumes "(hb_step um dns)\<^sup>*\<^sup>* b b'" "hb_phase b = BTick p n" "length (toBeSent b) = toBeSent_cap"
  shows "hb_phase b' = BTick p n \<and> toBeSent b' = toBeSent b \<and> hb_written b' = hb_written b \<and> hb_Status b' = hb_Status b"
  using assms by (induction rule: rtranclp_induct) (auto dest: full_channel_stuck_step)

text \<open>
  The schedule that fills the channel: the first report puts two packets into it, the reader of the
  connection four more, and then the ticker fires before anything is written.
\<close>

definition fill_and_tick :: "conn_read list \<Rightarrow> hb_act list" where
  "fill_and_tick cs = [DialOk cs, Proceed, Proceed, Proceed, Proceed, Proceed]
     @ Reader 0 # replicate 8 (Reader 0) @ [Ticker]"

lemma fill_and_tick_fills:
  assumes um: "um bs = Some [1, 2, 3, 4, 5, 6, 7]" and bs: "bs \<noteq> []" "length bs < 4000" and "0 < allow"
    and b: "b = RegisterDefaultHandlers collect t0 (NewHeartBeater allow)"
  shows "\<exists>b'. hb_run um dns (fill_and_tick [chunk (makePacket bs OptionProtoBuf)]) b = Some b'
    \<and> hb_phase b' = BTick (makePacket [] OptionPlain) 0 \<and> length (toBeSent b') = toBeSent_cap
    \<and> hb_written b' = []"
proof -
  have rd: "read_request um \<lparr>rbuf = [], rconn = [chunk (makePacket bs OptionProtoBuf)]\<rparr> =
    Some (Requires [1, 2, 3, 4, 5, 6, 7], \<lparr>rbuf = [], rconn = []\<rparr>)"
    using read_request_one[of bs um OptionProtoBuf] bs um by (simp add: bufio_size_def)
  show ?thesis using \<open>0 < allow\<close> rd unfolding b
    by (simp add: fill_and_tick_def numeral_eq_Suc beat_start_def hb_connect_def beat_proceed_def handle_one_def
        NewHeartBeater_def RegisterDefaultHandlers_def RegisterHandler_def chan_send_def send_room_def
        toBeSent_cap_def reader_step_def beat_select_def Let_def)
qed

lemma default_initial:
  "hbs.reachable allow (Handlers (RegisterDefaultHandlers collect t0 (NewHeartBeater allow))) um dns
     (RegisterDefaultHandlers collect t0 (NewHeartBeater allow))"
  by (rule hbs.start)
    (simp add: hb_initial_def NewHeartBeater_def RegisterDefaultHandlers_def RegisterHandler_def Let_def)

text \<open>C22. One request of the server for seven kinds of information can silence the sender: with the default
  handlers there is a reachable state with a live connection in which the goroutine of \<open>beat\<close>, the only one
  that empties the channel, waits to put the packet of a tick into the full channel; from then on nothing is
  ever written, whatever happens.\<close>

theorem heartbeat_deadlock:
  assumes "um bs = Some [1, 2, 3, 4, 5, 6, 7]" and "bs \<noteq> []" and "length bs < 4000" and "0 < allow"
  shows "\<exists>b. hbs.reachable allow (Handlers (RegisterDefaultHandlers collect t0 (NewHeartBeater allow))) um dns b
    \<and> hb_conn b \<and> hb_written b = []
    \<and> (\<forall>b'. (hb_step um dns)\<^sup>*\<^sup>* b b' \<longrightarrow> hb_written b' = [] \<and> hb_phase b' = BTick (makePacket [] OptionPlain) 0)"
proof -
  define b0 where "b0 = RegisterDefaultHandlers collect t0 (NewHeartBeater allow)"
  obtain b where b: "hb_run um dns (fill_and_tick [chunk (makePacket bs OptionProtoBuf)]) b0 = Some b"
      "hb_phase b = BTick (makePacket [] OptionPlain) 0" "length (toBeSent b) = toBeSent_cap" "hb_written b = []"
    using fill_and_tick_fills[of um bs allow b0 collect t0 dns, OF assms b0_def] by blast
  have r: "hbs.reachable allow (Handlers b0) um dns b"
    by (rule hb_run_reachable[OF b(1)]) (simp add: b0_def default_initial)
  have "hb_conn b" using reachable_hb_inv[OF r] b(2) by (simp add: hb_inv_def)
  moreover have "hb_written b' = [] \<and> hb_phase b' = BTick (makePacket [] OptionPlain) 0"
    if "(hb_step um dns)\<^sup>*\<^sup>* b b'" for b'
    using full_channel_stuck[OF that b(2,3)] b(4) by simp
  ultimately show ?thesis using r b(4) unfolding b0_def by (intro exI[of _ b] conjI) simp_all
qed

text \<open>The server that names the seven kinds by their numbers.\<close>

definition seven :: "byte list" where
  "seven = [1, 2, 3, 4, 5, 6, 7]"

theorem heartbeat_deadlock_witness:
  "\<exists>b. hbs.reachable 5 (Handlers (RegisterDefaultHandlers (\<lambda>k t. [word_of_int k]) 0 (NewHeartBeater 5)))
        (\<lambda>bs. Some (map uint bs)) None b \<and> hb_conn b \<and> hb_written b = []"
proof -
  let ?um = "\<lambda>bs :: byte list. Some (map uint bs)"
  have "?um seven = Some [1, 2, 3, 4, 5, 6, 7]" by (simp add: seven_def)
  from heartbeat_deadlock[of ?um seven 5 "\<lambda>k t. [word_of_int k]" 0 None, OF this] show ?thesis
    by (auto simp: seven_def)
qed

text \<open>A beat: the report of the worker is written, the network's is still in the channel.\<close>

definition beat_trace :: "hb_act list" where
  "beat_trace = [DialOk [], Proceed, Proceed, Proceed, Proceed, Proceed, WriteOk, Ticker, Proceed]"

definition small_beater :: HeartBeater where
  "small_beater = RegisterDefaultHandlers (\<lambda>k t. [word_of_int k, 9]) 0 (NewHeartBeater 5)"

lemma beat_trace_state:
  "\<exists>b. hb_run (\<lambda>bs. None) None beat_trace small_beater = Some b \<and> hb_written b = [[0x6C, 0xC6, 2, 0, 33, 1, 9]] \<and> hb_wire b = [([0x6C, 0xC6, 2, 0, 33, 1, 9], 7)]
     \<and> toBeSent b = [[0x6C, 0xC6, 2, 0, 36, 4, 9], [0x6C, 0xC6, 0, 0]] \<and> hb_phase b = BLoop 0
     \<and> hbs.reachable 5 (Handlers small_beater) (\<lambda>bs. None) None b"
proof -
  obtain b where b: "hb_run (\<lambda>bs. None) None beat_trace small_beater = Some b" "hb_written b = [[0x6C, 0xC6, 2, 0, 33, 1, 9]]"
    "hb_wire b = [([0x6C, 0xC6, 2, 0, 33, 1, 9], 7)]" "toBeSent b = [[0x6C, 0xC6, 2, 0, 36, 4, 9], [0x6C, 0xC6, 0, 0]]" "hb_phase b = BLoop 0"
    by (simp add: small_beater_def beat_trace_def beat_start_def hb_connect_def beat_proceed_def handle_one_def
        NewHeartBeater_def RegisterDefaultHandlers_def RegisterHandler_def chan_send_def send_room_def
        toBeSent_cap_def beat_select_def makePacket_def protocolHead_def PutUint16_def OptionProtoBuf_def
        OptionPlain_def)
  moreover have "hbs.reachable 5 (Handlers small_beater) (\<lambda>bs. None) None b"
    by (rule hb_run_reachable[OF b(1)]) (simp add: small_beater_def default_initial)
  ultimately show ?thesis by blast
qed

theorem heartbeat_well_formed_witness:
  "\<exists>b :: HeartBeater. hb_Status b = Beat \<and> hb_conn b \<and> hb_written b = [[0x6C, 0xC6, 2, 0, 33, 1, 9]]"
proof -
  obtain b where b: "hb_written b = [[0x6C, 0xC6, 2, 0, 33, 1, 9]]" "hb_phase b = BLoop 0"
    "hbs.reachable 5 (Handlers small_beater) (\<lambda>bs. None) None b"
    using beat_trace_state by blast
  from heartbeat_well_formed[OF b(3)] b(1,2) show ?thesis by (intro exI[of _ b]) simp
qed

theorem heartbeat_stream_decodes_witness:
  "\<exists>(b :: HeartBeater) fs. hb_wire b = [([0x6C, 0xC6, 2, 0, 33, 1, 9], 7)] \<and> decode_packets (wire_bytes (hb_wire b)) = Some fs
     \<and> [0x6C, 0xC6, 2, 0, 33, 1, 9] \<in> (\<lambda>(p, opt). makePacket p opt) ` set fs"
proof -
  obtain b where b: "hb_written b = [[0x6C, 0xC6, 2, 0, 33, 1, 9]]" "hb_wire b = [([0x6C, 0xC6, 2, 0, 33, 1, 9], 7)]"
    "hbs.reachable 5 (Handlers small_beater) (\<lambda>bs. None) None b"
    using beat_trace_state by blast
  have "\<forall>(k, h)\<in>set (Handlers small_beater). \<forall>t. length (fst (h t)) < 2 ^ 16"
    by (simp add: small_beater_def RegisterDefaultHandlers_def RegisterHandler_def NewHeartBeater_def)
  from heartbeat_stream_decodes[OF b(3) this] b(1,2) show ?thesis by (intro exI[of _ b]) (auto simp: torn_def)
qed

text \<open>
  A write that ends partway, at its deadline, is not the end of the connection: the packet that follows
  is written behind the torn one, its write succeeds, and the stream can no longer be decoded.
\<close>

definition timeout_error :: go_error where
  "timeout_error = \<lparr>chain = [OpNode ''write'', TextNode], message = ''i/o timeout''\<rparr>"

lemma timeout_not_broken: "\<not> isConnectionBroken timeout_error"
  by code_simp

definition torn_trace :: "hb_act list" where
  "torn_trace = [DialOk [], Proceed, Proceed, Proceed, Proceed, Proceed, WriteErr timeout_error 3, WriteOk]"

lemma torn_write_breaks_stream:
  "\<exists>b. hbs.reachable 5 (Handlers small_beater) (\<lambda>bs. None) None b \<and> hb_Status b = Beat
    \<and> hb_written b = [[0x6C, 0xC6, 2, 0, 36, 4, 9]] \<and> decode_packets (wire_bytes (hb_wire b)) = None"
proof -
  obtain b where b: "hb_run (\<lambda>bs. None) None torn_trace small_beater = Some b" "hb_written b = [[0x6C, 0xC6, 2, 0, 36, 4, 9]]"
    "hb_wire b = [([0x6C, 0xC6, 2, 0, 33, 1, 9], 3), ([0x6C, 0xC6, 2, 0, 36, 4, 9], 7)]" "hb_Status b = Beat"
    by (simp add: small_beater_def torn_trace_def beat_start_def hb_connect_def beat_proceed_def handle_one_def
        NewHeartBeater_def RegisterDefaultHandlers_def RegisterHandler_def chan_send_def send_room_def
        toBeSent_cap_def beat_select_def makePacket_def protocolHead_def PutUint16_def OptionProtoBuf_def
        OptionPlain_def timeout_not_broken)
  have "decode_packets [0x6C, 0xC6, 2, 0x6C, 0xC6, 2, 0, 36, 4, 9] = None"
    by (subst decode_packets.simps) (simp add: protocolHead_def Uint16_def)
  then have "decode_packets (wire_bytes (hb_wire b)) = None" by (simp add: b(3) wire_bytes_def numeral_eq_Suc)
  moreover have "hbs.reachable 5 (Handlers small_beater) (\<lambda>bs. None) None b"
    by (rule hb_run_reachable[OF b(1)]) (simp add: small_beater_def default_initial)
  ultimately show ?thesis using b by blast
qed

text \<open>The reports of all kinds but the platform are those of the time of registration.\<close>

lemma default_reports_stale:
  assumes "b = RegisterDefaultHandlers collect t0 b0" "k \<in> {1..6}" "map_of (Handlers b) k = Some h"
  shows "h t = (collect k t0, OptionProtoBuf OR word_of_int k)"
proof -
  have "k \<in> {1, 2, 3, 4, 5, 6}" using assms(2) by auto
  with assms(1,3) show ?thesis by (auto simp: RegisterDefaultHandlers_def RegisterHandler_def Let_def)
qed

end
