(* ===== verification/Collector.thy ===== *)
theory Collector
  imports Complex_Main GoPrelude
begin

text \<open>
  What the heartbeat reports about the device, \<open>core/heartbeat/collector\<close>: the parsers of
  \<open>/proc/cpuinfo\<close>, \<open>/proc/meminfo\<close> and \<open>/proc/mounts\<close> and the list of block devices
  (\<open>inspect.go\<close>), the number formats (\<open>utils.go\<close>), and the messages built from them
  (\<open>linux_collector.go\<close>). The contents of the files, \<open>strconv.ParseFloat\<close> and \<open>disk.Usage\<close> are arguments;
  the files are ASCII, so that a rune is a byte.
\<close>

section \<open>Lines and numbers\<close>

definition strip_cr :: "string \<Rightarrow> string" where
  "strip_cr l = (if l \<noteq> [] \<and> last l = CHR 0x0D then butlast l else l)"

text \<open>\<open>bufio.Scanner\<close>: the lines of a text; it stops at a line that does not fit its buffer.\<close>

definition scan_lines :: "string \<Rightarrow> string list" where
  "scan_lines s =
     (let ls = split_char (CHR 0x0A) s;
          ls = (if last ls = [] then butlast ls else ls)
      in map strip_cr (takeWhile (\<lambda>l. length l < 65536) ls))"

definition clamp64 :: "int \<Rightarrow> int" where
  "clamp64 v = (if v < - (2 ^ 63) then - (2 ^ 63) else if v \<ge> 2 ^ 63 then 2 ^ 63 - 1 else v)"

text \<open>The value \<open>strconv.Atoi\<close> returns, its error being ignored.\<close>

definition Atoi_value :: "string \<Rightarrow> int" where
  "Atoi_value s = (case parse_int s of None \<Rightarrow> 0 | Some v \<Rightarrow> clamp64 v)"

text \<open>\<open>hexToInt\<close>: the digits after the first two bytes.\<close>

definition hexToInt :: "string \<Rightarrow> int go" where
  "hexToInt hex =
     (if length hex < 2 then Panic
      else Ret (foldl (\<lambda>r c. wrap64 (wrap64 (r * 16) + (int (of_char c) - 48))) 0 (drop 2 hex)))"

definition mustInt :: "string \<Rightarrow> int" where
  "mustInt s = Atoi_value (TrimSpace s)"

definition translateFromHuman :: "string \<Rightarrow> int" where
  "translateFromHuman value =
     (let segments = split_char (CHR '' '') value;
          rr = Atoi_value (segments ! 0)
      in if length segments = 1 then rr
         else if segments ! 1 = ''kB'' then wrap64 (rr * 1024) else rr)"

definition virtualNetworkPrefixes :: "string list" where
  "virtualNetworkPrefixes = [''docker'', ''veth'', ''br-'']"

definition isVirtualNetwork :: "string \<Rightarrow> bool" where
  "isVirtualNetwork name \<longleftrightarrow> (\<exists>p\<in>set virtualNetworkPrefixes. has_prefix name p)"

section \<open>Processors\<close>

record ProcessorInfo =
  Index :: int
  BogoMIPS :: rat
  Features :: "string list"
  CPUImplementer :: int
  CPUArchitecture :: int
  CPUVariant :: int
  CPUPart :: int
  CPURevision :: int

definition new_processor :: ProcessorInfo where
  "new_processor = \<lparr>Index = 0, BogoMIPS = 0, Features = [], CPUImplementer = 0, CPUArchitecture = 0,
     CPUVariant = 0, CPUPart = 0, CPURevision = 0\<rparr>"

record RawCPUInfo =
  Processors :: "ProcessorInfo list"
  Serial :: string

text \<open>The assignment to the field of a processor that a tag stands for.\<close>

definition set_tag :: "(string \<Rightarrow> rat) \<Rightarrow> string \<Rightarrow> string \<Rightarrow> ProcessorInfo \<Rightarrow> ProcessorInfo go" where
  "set_tag ParseFloat tag value p =
     (if tag = ''processor'' then Ret (p\<lparr>Index := Atoi_value value\<rparr>)
      else if tag = ''BogoMIPS'' then Ret (p\<lparr>BogoMIPS := ParseFloat value\<rparr>)
      else if tag = ''Features'' then Ret (p\<lparr>Features := split_char (CHR '' '') value\<rparr>)
      else if tag = ''CPU implementer'' then bindg (hexToInt value) (\<lambda>v. Ret (p\<lparr>CPUImplementer := v\<rparr>))
      else if tag = ''CPU architecture'' then Ret (p\<lparr>CPUArchitecture := Atoi_value value\<rparr>)
      else if tag = ''CPU variant'' then bindg (hexToInt value) (\<lambda>v. Ret (p\<lparr>CPUVariant := v\<rparr>))
      else if tag = ''CPU part'' then bindg (hexToInt value) (\<lambda>v. Ret (p\<lparr>CPUPart := v\<rparr>))
      else if tag = ''CPU revision'' then Ret (p\<lparr>CPURevision := Atoi_value value\<rparr>)
      else Ret p)"

text \<open>One line; \<open>p\<close> is the last processor, and lines before the first one are skipped.\<close>

definition cpu_line :: "(string \<Rightarrow> rat) \<Rightarrow> RawCPUInfo \<Rightarrow> string \<Rightarrow> RawCPUInfo go" where
  "cpu_line ParseFloat info line =
     (if CHR '':'' \<notin> set line then Ret info
      else (let info = (if has_prefix line ''processor'' then info\<lparr>Processors := Processors info @ [new_processor]\<rparr> else info)
            in if Processors info = [] then Ret info
               else (let segments = split_char (CHR '':'') line;
                         tag = TrimSpace (segments ! 0);
                         value = TrimSpace (segments ! 1)
                     in if tag = ''Serial'' then Ret (info\<lparr>Serial := value\<rparr>)
                        else bindg (set_tag ParseFloat tag value (last (Processors info)))
                               (\<lambda>p. Ret (info\<lparr>Processors := butlast (Processors info) @ [p]\<rparr>)))))"

definition cpuInfoFromScanner :: "(string \<Rightarrow> rat) \<Rightarrow> string list \<Rightarrow> RawCPUInfo go" where
  "cpuInfoFromScanner ParseFloat lines = foldg (cpu_line ParseFloat) \<lparr>Processors = [], Serial = []\<rparr> lines"

definition GetRawCPUInfo :: "(string \<Rightarrow> rat) \<Rightarrow> string option \<Rightarrow> RawCPUInfo go" where
  "GetRawCPUInfo ParseFloat content = (case content of
       None \<Rightarrow> Ret \<lparr>Processors = [], Serial = []\<rparr>
     | Some c \<Rightarrow> cpuInfoFromScanner ParseFloat (scan_lines c))"

text \<open>\<open>GetCPUInfo\<close>: the number of processors as a \<open>uint32\<close>.\<close>

definition GetCPUInfo :: "(string \<Rightarrow> rat) \<Rightarrow> string option \<Rightarrow> 32 word go" where
  "GetCPUInfo ParseFloat content =
     bindg (GetRawCPUInfo ParseFloat content) (\<lambda>raw. Ret (word_of_nat (length (Processors raw))))"

section \<open>Memory\<close>

record RawMemoryInfo =
  Total :: int
  Free :: int
  Available :: int
  Extras :: "(string, int) gomap"

definition mem_line :: "RawMemoryInfo \<Rightarrow> string \<Rightarrow> RawMemoryInfo" where
  "mem_line info line =
     (if CHR '':'' \<notin> set line then info
      else (let segments = split_char (CHR '':'') line;
                tag = TrimSpace (segments ! 0);
                value = TrimSpace (segments ! 1)
            in if tag = ''MemTotal'' then info\<lparr>Total := translateFromHuman value\<rparr>
               else if tag = ''MemFree'' then info\<lparr>Free := translateFromHuman value\<rparr>
               else if tag = ''MemAvailable'' then info\<lparr>Available := translateFromHuman value\<rparr>
               else info\<lparr>Extras := AList.update tag (translateFromHuman value) (Extras info)\<rparr>))"

definition memoryInfoFromScanner :: "string list \<Rightarrow> RawMemoryInfo" where
  "memoryInfoFromScanner lines = foldl mem_line \<lparr>Total = 0, Free = 0, Available = 0, Extras = []\<rparr> lines"

definition GetMemoryInfo :: "string option \<Rightarrow> 64 word" where
  "GetMemoryInfo content = (case content of
       None \<Rightarrow> 0
     | Some c \<Rightarrow> word_of_int (Total (memoryInfoFromScanner (scan_lines c))))"

section \<open>Disks\<close>

record RawDiskInfo =
  disk_Name :: string
  disk_Type :: int
  disk_Size :: int
  disk_SectorSize :: int

definition DiskType_SSD :: int where "DiskType_SSD = 0"
definition DiskType_EMMC :: int where "DiskType_EMMC = 2"

text \<open>A block device and its files under \<open>/sys/block\<close>: \<open>rotational\<close>, \<open>size\<close>, \<open>hw_sector_size\<close>.\<close>

definition disk_info :: "string \<Rightarrow> string option \<Rightarrow> string option \<Rightarrow> string option \<Rightarrow> RawDiskInfo option" where
  "disk_info name rotational sectors hw_sector_size =
     (if has_prefix name ''loop'' \<or> index_of name ''ram'' \<noteq> None then None
      else (case (rotational, sectors, hw_sector_size) of
          (Some (c # cs), Some buf1, Some buf2) \<Rightarrow>
            (let d = \<lparr>disk_Name = name, disk_Type = mustInt [c], disk_Size = mustInt buf1, disk_SectorSize = mustInt buf2\<rparr>
             in Some (if disk_Type d = DiskType_SSD \<and> has_prefix name ''mmcblk'' then d\<lparr>disk_Type := DiskType_EMMC\<rparr> else d))
        | _ \<Rightarrow> None))"

definition GetDiskInfos :: "(string \<times> string option \<times> string option \<times> string option) list \<Rightarrow> RawDiskInfo list" where
  "GetDiskInfos entries = List.map_filter (\<lambda>(name, r, s, h). disk_info name r s h) entries"

text \<open>The capacity that \<open>GetDiskStat\<close> reports, in 64 bits.\<close>

definition disk_capacity :: "RawDiskInfo \<Rightarrow> 64 word" where
  "disk_capacity d = word_of_int (disk_Size d) * word_of_int (disk_SectorSize d)"

section \<open>Mounted file systems\<close>

record MountSegment =
  FileSystem :: string
  MountPoint :: string
  FsType :: string
  Options :: "string list"
  Dump :: int
  Pass :: int

definition mount_line :: "string \<Rightarrow> MountSegment option" where
  "mount_line l =
     (let line = TrimSpace l in
      if has_prefix line ''#'' then None
      else (case split_char (CHR '' '') line of
          [a, b, c, d, e, f] \<Rightarrow>
            Some \<lparr>FileSystem = a, MountPoint = b, FsType = c, Options = split_char (CHR '','') d, Dump = mustInt e, Pass = mustInt f\<rparr>
        | _ \<Rightarrow> None))"

definition parseMountsFile :: "string list \<Rightarrow> MountSegment list" where
  "parseMountsFile lines = List.map_filter mount_line lines"

text \<open>A mounted file system with the total of \<open>disk.Usage\<close>, when it succeeds.\<close>

definition filesystemInfoFromScanner :: "(string \<Rightarrow> 'u option) \<Rightarrow> string list \<Rightarrow> (MountSegment \<times> 'u option) list" where
  "filesystemInfoFromScanner usage lines =
     map (\<lambda>it. (it, usage (MountPoint it)))
       (filter (\<lambda>it. has_prefix (FileSystem it) ''/'' \<and> \<not> has_prefix (MountPoint it) ''/var/lib/docker/volumes/'')
          (parseMountsFile lines))"

section \<open>Network interfaces\<close>

text \<open>
  An address of an interface: an IPv4 address as its four bytes, an IPv6 address as its sixteen, or one
  that is not a \<open>net.IPNet\<close>. \<open>DefaultMask\<close> has four bytes for the first and none for the second.
\<close>

datatype if_addr = IPv4Net "8 word list" | IPv6Net "8 word list" | OtherAddr

record net_interface =
  if_Name :: string
  if_HardwareAddr :: "8 word list"
  if_Addrs :: "if_addr list option"

record RawNetworkInterface =
  rn_Interface :: net_interface
  rn_IPv4 :: "8 word list"
  rn_IPv6 :: "8 word list"

fun take_addr :: "RawNetworkInterface \<Rightarrow> if_addr \<Rightarrow> RawNetworkInterface" where
  "take_addr n (IPv4Net ip) = n\<lparr>rn_IPv4 := ip\<rparr>"
| "take_addr n (IPv6Net ip) = n\<lparr>rn_IPv6 := ip\<rparr>"
| "take_addr n OtherAddr = n"

definition GetEdgeNodeNetworkInfo :: "bool \<Rightarrow> net_interface list option \<Rightarrow> RawNetworkInterface list" where
  "GetEdgeNodeNetworkInfo skipVirtual interfaces = (case interfaces of
       None \<Rightarrow> []
     | Some ifaces \<Rightarrow> List.map_filter (\<lambda>iface.
         if skipVirtual \<and> (isVirtualNetwork (if_Name iface) \<or> if_HardwareAddr iface = []) then None
         else map_option (foldl take_addr \<lparr>rn_Interface = iface, rn_IPv4 = [], rn_IPv6 = []\<rparr>) (if_Addrs iface)) ifaces)"

text \<open>The interfaces of the report: name, IPv4, IPv6 and hardware address of the physical ones.\<close>

definition GetNetworkInfo :: "net_interface list option \<Rightarrow> (string \<times> 8 word list \<times> 8 word list \<times> 8 word list) list" where
  "GetNetworkInfo interfaces =
     map (\<lambda>n. (if_Name (rn_Interface n), rn_IPv4 n, rn_IPv6 n, if_HardwareAddr (rn_Interface n)))
       (GetEdgeNodeNetworkInfo True interfaces)"

section \<open>Packages\<close>

text \<open>The fallback of \<open>ListPipPackages\<close>: lines of \<open>pip freeze\<close>, split at the first \<open>==\<close>.\<close>

definition freeze_line :: "(string, string) gomap \<Rightarrow> string \<Rightarrow> (string, string) gomap" where
  "freeze_line r line = (case index_of line ''=='' of
       None \<Rightarrow> r
     | Some i \<Rightarrow> AList.update (take i line) (drop (i + 2) line) r)"

text \<open>\<open>ListPipPackages\<close>: the decoded answer of \<open>pip list\<close> (\<open>Inl\<close> when the command fails) and the output of \<open>pip freeze\<close>.\<close>

definition ListPipPackages :: "unit + (string \<times> string) list option \<Rightarrow> string option \<Rightarrow> (string, string) gomap" where
  "ListPipPackages pip_list pip_freeze = (case pip_list of
       Inr None \<Rightarrow> []
     | Inr (Some packages) \<Rightarrow> foldl (\<lambda>r (n, v). AList.update n v r) [] packages
     | Inl _ \<Rightarrow> (case pip_freeze of None \<Rightarrow> [] | Some buf \<Rightarrow> foldl freeze_line [] (scan_lines buf)))"

definition IsRknnInstalled :: "unit + (string \<times> string) list option \<Rightarrow> string option \<Rightarrow> bool" where
  "IsRknnInstalled pip_list pip_freeze \<longleftrightarrow> map_of (ListPipPackages pip_list pip_freeze) ''rknn'' \<noteq> None"

section \<open>Theorems\<close>

definition is_processor_line :: "string \<Rightarrow> bool" where
  "is_processor_line l \<longleftrightarrow> CHR '':'' \<in> set l \<and> has_prefix l ''processor''"

lemma cpu_line_count:
  assumes "cpu_line pf info l = Ret info'"
  shows "length (Processors info') = length (Processors info) + (if is_processor_line l then 1 else 0)"
proof (cases "CHR '':'' \<in> set l")
  case True
  define i1 where "i1 = (if has_prefix l ''processor'' then info\<lparr>Processors := Processors info @ [new_processor]\<rparr> else info)"
  have l1: "length (Processors i1) = length (Processors info) + (if is_processor_line l then 1 else 0)"
    using True by (simp add: i1_def is_processor_line_def)
  show ?thesis
  proof (cases "Processors i1 = []")
    case True
    then show ?thesis using assms \<open>CHR '':'' \<in> set l\<close> l1 by (simp add: cpu_line_def i1_def[symmetric] Let_def)
  next
    case False
    then have "length (Processors info') = length (Processors i1)"
      using assms \<open>CHR '':'' \<in> set l\<close>
      by (auto simp: cpu_line_def i1_def[symmetric] Let_def bindg_eq_Ret split: if_splits)
    with l1 show ?thesis by simp
  qed
qed (use assms in \<open>auto simp: cpu_line_def is_processor_line_def\<close>)

lemma cpu_lines_count:
  "foldg (cpu_line pf) info ls = Ret info' \<Longrightarrow>
   length (Processors info') = length (Processors info) + length (filter is_processor_line ls)"
proof (induction ls arbitrary: info)
  case (Cons l ls)
  then obtain i1 where "cpu_line pf info l = Ret i1" "foldg (cpu_line pf) i1 ls = Ret info'"
    by (auto simp: bindg_eq_Ret)
  with Cons.IH cpu_line_count show ?case by fastforce
qed simp

text \<open>The cores that are reported are the lines of the file that begin with \<open>processor\<close> and have a colon.\<close>

lemma GetCPUInfo_cores:
  "GetCPUInfo pf (Some c) = Ret w \<Longrightarrow> w = word_of_nat (length (filter is_processor_line (scan_lines c)))"
  by (auto simp: GetCPUInfo_def GetRawCPUInfo_def cpuInfoFromScanner_def bindg_eq_Ret dest!: cpu_lines_count)

lemma GetNetworkInfo_physical:
  "(n, v4, v6, mac) \<in> set (GetNetworkInfo (Some ifaces)) \<Longrightarrow>
   mac \<noteq> [] \<and> \<not> isVirtualNetwork n \<and> (\<exists>i\<in>set ifaces. if_Name i = n \<and> if_HardwareAddr i = mac)"
proof -
  have keep: "rn_Interface (foldl take_addr r as) = rn_Interface r" for r as
  proof (induction as arbitrary: r)
    case (Cons a as)
    then show ?case by (cases a) auto
  qed simp
  assume "(n, v4, v6, mac) \<in> set (GetNetworkInfo (Some ifaces))"
  then show ?thesis
    by (auto simp: GetNetworkInfo_def GetEdgeNodeNetworkInfo_def List.map_filter_def keep split: if_splits)
qed

text \<open>Hexadecimal digits above nine are not understood, and a value shorter than two bytes panics.\<close>

lemma hexToInt_letters: "hexToInt ''0xd03'' = Ret (0x3403)"
  by code_simp

lemma hexToInt_short: "hexToInt ''0'' = Panic"
  by (simp add: hexToInt_def)

text \<open>A line of \<open>/proc/mounts\<close>.\<close>

definition print_mount :: "MountSegment \<Rightarrow> string" where
  "print_mount m = join_with '' '' [FileSystem m, MountPoint m, FsType m, join_with '','' (Options m), Itoa (Dump m), Itoa (Pass m)]"

definition mount_ok :: "MountSegment \<Rightarrow> bool" where
  "mount_ok m \<longleftrightarrow> FileSystem m \<noteq> [] \<and> hd (FileSystem m) \<noteq> CHR ''#'' \<and> (\<forall>q\<in>set space_seqs. hd q \<noteq> hd (FileSystem m))
     \<and> CHR '' '' \<notin> set (FileSystem m @ MountPoint m @ FsType m @ concat (Options m))
     \<and> Options m \<noteq> [] \<and> CHR '','' \<notin> set (concat (Options m)) \<and> in_int64 (Dump m) \<and> in_int64 (Pass m)"

lemma digit_ends: "\<forall>d<10. (\<forall>q\<in>set space_seqs. hd q \<noteq> digit_char d \<and> last q \<noteq> digit_char d)"
proof -
  have "\<forall>d\<in>set [0..<10]. (\<forall>q\<in>set space_seqs. hd q \<noteq> digit_char d \<and> last q \<noteq> digit_char d)" by code_simp
  then show ?thesis by auto
qed

lemma last_show_nat: "\<exists>d<10. \<exists>s. show_nat n = s @ [digit_char d]"
proof (cases "n < 10")
  case True
  then show ?thesis by (intro exI[of _ n]) (simp add: show_nat.simps[of n])
next
  case False
  then show ?thesis by (intro exI[of _ "n mod 10"]) (simp add: show_nat.simps[of n])
qed

lemma last_Itoa: "\<exists>d<10. \<exists>s. Itoa i = s @ [digit_char d]"
  using last_show_nat[of "nat (- i)"] last_show_nat[of "nat i"] by (auto simp: Itoa_def)

lemma TrimSpace_ends:
  assumes "s = c # t" "s = u @ [d]" "\<forall>q\<in>set space_seqs. hd q \<noteq> c" "\<forall>q\<in>set space_seqs. last q \<noteq> d"
  shows "TrimSpace s = s"
proof -
  have "trim_by space_len s = s" using assms(1) space_len_0[OF assms(3)] by simp
  moreover have "trim_by rspace_len (rev s) = rev s" using assms(2) rspace_len_0[OF assms(4)] by simp
  ultimately show ?thesis by (simp add: TrimSpace_def)
qed

lemma mustInt_Itoa: "in_int64 i \<Longrightarrow> mustInt (Itoa i) = i"
proof -
  assume i: "in_int64 i"
  obtain d u where d: "d < 10" "Itoa i = u @ [digit_char d]" using last_Itoa by blast
  obtain c t where c: "Itoa i = c # t" unfolding d(2) by (metis append_is_Nil_conv list.exhaust not_Cons_self2)
  have "c = CHR ''-'' \<or> (\<exists>d<10. c = digit_char d)" using Itoa_chars[of c i] c by simp
  moreover have "\<forall>q\<in>set space_seqs. hd q \<noteq> CHR ''-''" by code_simp
  ultimately have "\<forall>q\<in>set space_seqs. hd q \<noteq> c" using digit_ends by auto
  then have "TrimSpace (Itoa i) = Itoa i" using TrimSpace_ends[OF c d(2)] digit_ends d(1) by blast
  with i show ?thesis by (simp add: mustInt_def Atoi_value_def clamp64_def in_int64_def)
qed

lemma space_notin_Itoa: "CHR '' '' \<notin> set (Itoa i)"
proof
  assume "CHR '' '' \<in> set (Itoa i)"
  then obtain d where "d < 10" "CHR '' '' = digit_char d" using Itoa_chars[of "CHR '' ''" i] by auto
  with digit_char_not(6)[of d] show False by simp
qed

lemma notin_join: "c \<noteq> d \<Longrightarrow> (\<forall>w\<in>set ws. c \<notin> set w) \<Longrightarrow> c \<notin> set (join_with [d] ws)"
  by (induction ws rule: induct_list012) auto

lemma mount_line_print: "mount_ok m \<Longrightarrow> mount_line (print_mount m) = Some m"
proof -
  assume ok: "mount_ok m"
  let ?ws = "[FileSystem m, MountPoint m, FsType m, join_with '','' (Options m), Itoa (Dump m), Itoa (Pass m)]"
  have "CHR '' '' \<notin> set (join_with '','' (Options m))" using ok by (intro notin_join) (auto simp: mount_ok_def)
  then have sp: "split_char (CHR '' '') (print_mount m) = ?ws"
    using ok space_notin_Itoa unfolding print_mount_def by (intro split_join_char) (auto simp: mount_ok_def)
  have opts: "split_char (CHR '','') (join_with '','' (Options m)) = Options m"
    using ok by (intro split_join_char) (auto simp: mount_ok_def)
  obtain c f where f: "FileSystem m = c # f" using ok by (cases "FileSystem m") (auto simp: mount_ok_def)
  obtain t where t: "print_mount m = c # t" by (simp add: print_mount_def f)
  obtain d u where d: "d < 10" "Itoa (Pass m) = u @ [digit_char d]" using last_Itoa by blast
  have "\<exists>v. print_mount m = v @ [digit_char d]" by (simp add: print_mount_def d(2))
  then obtain v where v: "print_mount m = v @ [digit_char d]" by blast
  have "TrimSpace (print_mount m) = print_mount m"
    by (rule TrimSpace_ends[OF t v]) (use ok f digit_ends d(1) in \<open>auto simp: mount_ok_def\<close>)
  moreover have "\<not> has_prefix (print_mount m) ''#''" using ok f t by (simp add: has_prefix_def mount_ok_def)
  ultimately show ?thesis using sp opts ok
    by (cases m) (simp add: mount_line_def mustInt_Itoa mount_ok_def)
qed

text \<open>A mount table printed line by line is parsed back; the report keeps those on a device that are
  not docker volumes.\<close>

theorem parseMountsFile_roundtrip:
  assumes "\<forall>m\<in>set ms. mount_ok m"
  shows "parseMountsFile (map print_mount ms) = ms
    \<and> map fst (filesystemInfoFromScanner usage (map print_mount ms)) =
        filter (\<lambda>m. has_prefix (FileSystem m) ''/'' \<and> \<not> has_prefix (MountPoint m) ''/var/lib/docker/volumes/'') ms"
proof -
  have "parseMountsFile (map print_mount ms) = ms"
    using assms by (induction ms) (simp_all add: parseMountsFile_def mount_line_print)
  then show ?thesis by (simp add: filesystemInfoFromScanner_def comp_def)
qed

definition root_mount :: MountSegment where
  "root_mount = \<lparr>FileSystem = ''/dev/sda1'', MountPoint = ''/'', FsType = ''ext4'', Options = [''rw'', ''noatime''], Dump = 0, Pass = 1\<rparr>"

theorem parseMountsFile_roundtrip_witness:
  "parseMountsFile [''/dev/sda1 / ext4 rw,noatime 0 1''] = [root_mount]"
proof -
  have ok: "\<forall>m\<in>set [root_mount]. mount_ok m" by code_simp
  have p: "map print_mount [root_mount] = [''/dev/sda1 / ext4 rw,noatime 0 1'']" by code_simp
  show ?thesis using conjunct1[OF parseMountsFile_roundtrip[OF ok, of "\<lambda>p. None :: nat option"]] unfolding p .
qed

end
