(* ===== verification/Registration.thy ===== *)
theory Registration
  imports GoPrelude
begin

text \<open>
  The identity of the device, \<open>core/device/gen.go\<close>, and its registration with the cloud,
  \<open>core/register/register.go\<close> and \<open>chaos_reader.go\<close>: the worker's number, the request, and the
  scrambled VPN configuration of the answer. The machine (files, scripts, architecture), MD5, the
  encoders and the HTTP client are arguments.
\<close>

unbundle bit_operations_syntax

section \<open>The scrambled configuration\<close>

type_synonym byte = "8 word"

record chaosReader =
  cr_Bytes :: "byte list"
  cr_Offset :: int

definition unscramble :: "byte \<Rightarrow> byte" where
  "unscramble b = (if b \<ge> 0x80 then b - 0x80 else b + 0x80)"

text \<open>
  \<open>read\<close> into a slice of length \<open>n\<close>: the bytes stored at its start, whether the error is \<open>io.EOF\<close>,
  and the reader.
\<close>

definition chaos_read :: "nat \<Rightarrow> chaosReader \<Rightarrow> byte list \<times> bool \<times> chaosReader" where
  "chaos_read n r =
     (let remain = int (length (cr_Bytes r)) - cr_Offset r in
      if remain \<le> 0 then ([], True, r)
      else (let (eof, count) = (if int n > remain then (True, nat remain) else (False, n));
                got = map unscramble (take count (drop (nat (cr_Offset r)) (cr_Bytes r)))
            in (got, eof, r\<lparr>cr_Offset := cr_Offset r + int count\<rparr>)))"

definition vpn_prefix :: nat where "vpn_prefix = 512"
definition vpn_suffix :: nat where "vpn_suffix = 128"

text \<open>\<open>decodeVpnConfig\<close>: \<open>make\<close> panics on a negative length. \<open>None\<close> is the error \<open>io.EOF\<close>.\<close>

definition decodeVpnConfig :: "byte list \<Rightarrow> byte list option go" where
  "decodeVpnConfig buff =
     (let size = int (length buff) - int vpn_prefix - int vpn_suffix in
      if size < 0 then Panic
      else (let (got, eof, r) = chaos_read (nat size) \<lparr>cr_Bytes = buff, cr_Offset = int vpn_prefix\<rparr>
            in Ret (if eof then None else Some (got @ replicate (nat size - length got) 0))))"

section \<open>The request\<close>

text \<open>\<open>base64.Encoding.Encode\<close> with the program's alphabet and no padding.\<close>

definition alphabet :: string where
  "alphabet = ''ABCDEFGHIJKLMNOabcdefghijklmnopqrstuvwxyzPQRSTUVWXYZ0123456789-_''"

definition sextet :: "nat \<Rightarrow> nat \<Rightarrow> char" where
  "sextet val shift = alphabet ! (val div 2 ^ shift mod 64)"

fun enc_Encode :: "byte list \<Rightarrow> string" where
  "enc_Encode (a # b # c # rest) =
     (let val = unat a * 2 ^ 16 + unat b * 2 ^ 8 + unat c
      in [sextet val 18, sextet val 12, sextet val 6, sextet val 0] @ enc_Encode rest)"
| "enc_Encode [a, b] = (let val = unat a * 2 ^ 16 + unat b * 2 ^ 8 in [sextet val 18, sextet val 12, sextet val 6])"
| "enc_Encode [a] = (let val = unat a * 2 ^ 16 in [sextet val 18, sextet val 12])"
| "enc_Encode [] = []"

record reqRegister =
  rr_WorkerID :: string
  rr_Nonce :: int
  rr_Version :: string
  rr_Key :: string

definition encodeReqData :: "(reqRegister \<Rightarrow> byte list) \<Rightarrow> reqRegister \<Rightarrow> string" where
  "encodeReqData marshal reqinfo = enc_Encode (marshal reqinfo)"

section \<open>The device\<close>

record Device =
  dv_WorkerID :: string
  dv_Key :: string
  dv_DhcpServer :: string
  dv_Vpn :: string

definition empty_device :: Device where
  "empty_device = \<lparr>dv_WorkerID = [], dv_Key = [], dv_DhcpServer = [], dv_Vpn = []\<rparr>"

definition VPNModeRandom :: string where "VPNModeRandom = ''random''"
definition VPNModeWG :: string where "VPNModeWG = ''wireguard''"
definition VPNModeOPENVPN :: string where "VPNModeOPENVPN = ''openvpn''"

definition type_prefix :: "string \<Rightarrow> string" where
  "type_prefix d =
     (if d = ''arm64'' \<or> d = ''arm32'' then ''01'' else if d = ''amd64'' then ''02''
      else if d = ''nano'' then ''03'' else if d = ''tx2'' then ''04'' else if d = ''rk3399pro'' then ''05''
      else if d = ''rk3399'' then ''06'' else if d = ''rk1808'' then ''07'' else ''00'')"

definition vpn_Interface :: "string \<Rightarrow> string + string" where
  "vpn_Interface v = (if v = VPNModeWG then Inr ''wg0'' else if v = VPNModeOPENVPN then Inr ''tun0''
     else Inl (''no supported '' @ v))"

text \<open>
  The machine: \<open>/etc/device\<close> (\<open>None\<close> when it cannot be read), the architecture, \<open>/proc/cpuinfo\<close> and the
  output of the serial number script, or the error, and the outputs of the GPS script, call by call
  (its errors are only logged).
\<close>

record machine =
  device_file :: "string option"
  goarch :: string
  cpuinfo :: "string + string"
  x86_script :: "string + string"
  gps_script :: "nat \<Rightarrow> string"

definition GetDeviceType :: "machine \<Rightarrow> string go" where
  "GetDeviceType m = (case device_file m of
       None \<Rightarrow> (if goarch m = ''arm64'' then Ret ''arm'' else if goarch m = ''x86'' then Ret ''x86'' else Panic)
     | Some data \<Rightarrow> Ret (TrimSpace data))"

text \<open>The functions that fill \<open>md5info\<close>: its content, or an error; \<open>md5\<close> is \<open>md5.Sum\<close>.\<close>

definition buildX86ID :: "(string \<Rightarrow> byte list) \<Rightarrow> machine \<Rightarrow> string + byte list" where
  "buildX86ID md5 m =
     (if goarch m = ''amd64''
      then (case x86_script m of Inl e \<Rightarrow> Inl e | Inr data \<Rightarrow> Inl ''This Platform is not amd64'')
      else Inl ''This Platform is not amd64'')"

definition buildRK3399ID :: "(string \<Rightarrow> byte list) \<Rightarrow> machine \<Rightarrow> (string + byte list) go" where
  "buildRK3399ID md5 m =
     (case cpuinfo m of
        Inl e \<Rightarrow> Ret (Inl e)
      | Inr content \<Rightarrow>
          (if index_of content ''Serial'' = None then Ret (Inl ''This Platform is not rk'')
           else if length content < 17 then Panic
           else Ret (Inr (md5 (drop (length content - 17) content)))))"

text \<open>Ten tries of the GPS script.\<close>

fun nano_tries :: "(string \<Rightarrow> byte list) \<Rightarrow> machine \<Rightarrow> nat \<Rightarrow> nat \<Rightarrow> string + byte list" where
  "nano_tries md5 m i 0 = Inl ''nano build id err''"
| "nano_tries md5 m i (Suc k) =
     (let result = TrimSpace (filter (\<lambda>c. c \<noteq> CHR 0x0A) (gps_script m i))
      in if length result \<ge> 10 then Inr (md5 result) else nano_tries md5 m (Suc i) k)"

definition buildNanoID :: "(string \<Rightarrow> byte list) \<Rightarrow> machine \<Rightarrow> string + byte list" where
  "buildNanoID md5 m = nano_tries md5 m 0 10"

definition hexes :: string where
  "hexes = ''0123456789abcdef''"

definition hex_digit :: "nat \<Rightarrow> char" where
  "hex_digit n = hexes ! n"

definition hex_bytes :: "byte list \<Rightarrow> string" where
  "hex_bytes bs = concat (map (\<lambda>b. [hex_digit (unat b div 16), hex_digit (unat b mod 16)]) bs)"

text \<open>\<open>BuildWokerID\<close>: an error or the worker's number.\<close>

definition last_seven :: "string \<Rightarrow> string" where
  "last_seven s = drop (length s - 7) s"

definition device_md5 :: "(string \<Rightarrow> byte list) \<Rightarrow> string \<Rightarrow> machine \<Rightarrow> (string + byte list) go" where
  "device_md5 md5 dt m =
     (if dt = ''x86'' then Ret (buildX86ID md5 m)
      else if dt \<in> set [''arm'', ''rk3399'', ''rk3399pro'', ''rk1808''] then buildRK3399ID md5 m
      else if dt \<in> set [''nano'', ''tx2''] then Ret (buildNanoID md5 m)
      else Ret (Inr (replicate 16 0)))"

definition BuildWokerID :: "(string \<Rightarrow> byte list) \<Rightarrow> machine \<Rightarrow> (string + string) go" where
  "BuildWokerID md5 m =
     bindg (GetDeviceType m) (\<lambda>dt.
     bindg (device_md5 md5 dt m) (\<lambda>r.
     case r of
       Inl e \<Rightarrow> Ret (Inl e)
     | Inr md5info \<Rightarrow>
         (let md5str = hex_bytes md5info in
          if last_seven md5str = ''0000000'' then Ret (Inl ''WorkerID Error'')
          else Ret (Inr (''J'' @ type_prefix dt @ last_seven md5str)))))"

text \<open>The device's own file: \<open>yaml\<close> gives what \<open>yaml.Unmarshal\<close> leaves in the pointer, and its error.\<close>

definition getDevice :: "(string \<Rightarrow> Device option \<times> string option) \<Rightarrow> string \<Rightarrow> Device \<times> string option" where
  "getDevice yaml content =
     (let (d, err) = yaml content in (case d of None \<Rightarrow> empty_device | Some x \<Rightarrow> x, err))"

definition GetDevice :: "(string \<Rightarrow> Device option \<times> string option) \<Rightarrow> string \<Rightarrow> Device option \<Rightarrow> Device \<times> string option" where
  "GetDevice yaml content cache = (case cache of Some d \<Rightarrow> (d, None) | None \<Rightarrow> getDevice yaml content)"

text \<open>The text of the error for an empty key, in UTF-8.\<close>

definition key_empty_text :: string where
  "key_empty_text = ''Request '' @ [CHR 0xE8, CHR 0x8E, CHR 0xB7, CHR 0xE5, CHR 0x8F, CHR 0x96] @ '' key ''
     @ [CHR 0xE4, CHR 0xB8, CHR 0xBA, CHR 0xE7, CHR 0xA9, CHR 0xBA] @ '' ''"

text \<open>
  \<open>BuildDeviceInfo\<close>: \<open>pick\<close> is the random mode, \<open>request\<close> the answer of \<open>RequestKey\<close> (the key) for the
  device with its server and mode set, \<open>save\<close> the error of writing the device's file. The object is
  changed also when a later step fails.
\<close>

definition BuildDeviceInfo :: "string \<Rightarrow> string \<Rightarrow> nat \<Rightarrow> (Device \<Rightarrow> string + string) \<Rightarrow> (Device \<Rightarrow> string option) \<Rightarrow> Device \<Rightarrow> string option \<times> Device" where
  "BuildDeviceInfo vpnmodel authHost pick request save d =
     (let mode = (if vpnmodel = VPNModeRandom then [VPNModeWG, VPNModeOPENVPN] ! (pick mod 2) else vpnmodel);
          d1 = d\<lparr>dv_DhcpServer := authHost, dv_Vpn := mode\<rparr>
      in case request d1 of
           Inl e \<Rightarrow> (Some e, d1)
         | Inr key \<Rightarrow>
             (if key = [] then (Some key_empty_text, d1)
              else (let d2 = d1\<lparr>dv_Key := key\<rparr> in (save d2, d2))))"

section \<open>Registration\<close>

datatype http_answer = HttpError string | HttpAnswer int string string "string + byte list"

text \<open>
  \<open>register\<close>: \<open>post url body\<close> is the answer of the server: its status code and line, the header with the master's
  address, and the body or the error of reading it.
\<close>

definition register :: "(reqRegister \<Rightarrow> byte list) \<Rightarrow> (string \<Rightarrow> string \<Rightarrow> http_answer) \<Rightarrow> int \<Rightarrow> string \<Rightarrow> Device \<Rightarrow> (string + string \<times> byte list) go" where
  "register marshal post now version dev =
     (let reqData = encodeReqData marshal \<lparr>rr_WorkerID = dv_WorkerID dev, rr_Nonce = now, rr_Version = version, rr_Key = dv_Key dev\<rparr>;
          url = (if dv_Vpn dev = VPNModeWG then Inr (dv_DhcpServer dev @ ''/api/v1/wg/register'')
                 else if dv_Vpn dev = VPNModeOPENVPN then Inr (dv_DhcpServer dev @ ''/api/v1/openvpn/register'')
                 else Inl (''VPN mode not supported: '' @ dv_Vpn dev))
      in case url of
           Inl e \<Rightarrow> Ret (Inl e)
         | Inr u \<Rightarrow>
             (case post u reqData of
                HttpError e \<Rightarrow> Ret (Inl e)
              | HttpAnswer code status masterip body \<Rightarrow>
                  (if code \<noteq> 200 then Ret (Inl (''register to master failed, status code: '' @ status))
                   else (case body of
                       Inl e \<Rightarrow> Ret (Inl e)
                     | Inr buff \<Rightarrow> bindg (decodeVpnConfig buff) (\<lambda>r. case r of
                           None \<Rightarrow> Ret (Inl ''EOF'')
                         | Some conf \<Rightarrow> Ret (Inr (masterip, conf)))))))"

section \<open>Theorems\<close>

lemma byte_less: "unat (b :: byte) < 256"
proof -
  have "unat b < 2 ^ LENGTH(8)" by (rule unsigned_less)
  then show ?thesis by simp
qed

lemma unscramble_xor: "unscramble b = b XOR 0x80"
proof -
  have "\<forall>n<256. unscramble (word_of_nat n) = word_of_nat n XOR 0x80"
  proof -
    have "\<forall>n\<in>set [0..<256]. unscramble (word_of_nat n) = word_of_nat n XOR 0x80" by code_simp
    then show ?thesis by auto
  qed
  then have "unscramble (word_of_nat (unat b)) = word_of_nat (unat b) XOR 0x80" using byte_less by blast
  then show ?thesis by simp
qed

lemma unscramble_involution: "unscramble (b XOR 0x80) = b"
  by (simp add: unscramble_xor xor.assoc)

text \<open>\<open>decodeVpnConfig\<close> computes, for every answer of the server, what the format says: the bytes between the
  first 512 and the last 128 with their top bits flipped, never an error; on an answer of fewer than 640 bytes it panics.\<close>

theorem decodeVpnConfig_spec:
  "decodeVpnConfig buff =
     (if length buff < 640 then Panic
      else Ret (Some (map (\<lambda>b. b XOR 0x80) (take (length buff - 640) (drop 512 buff)))))"
proof (cases "length buff < 640")
  case False
  have "nat (int (length buff) - 640) = length buff - 640" by linarith
  moreover have "unscramble = (\<lambda>b. b XOR 0x80)" by (rule ext) (rule unscramble_xor)
  ultimately show ?thesis using False
    by (simp add: decodeVpnConfig_def chaos_read_def vpn_prefix_def vpn_suffix_def Let_def)
qed (simp add: decodeVpnConfig_def vpn_prefix_def vpn_suffix_def Let_def)

text \<open>The content the server scrambled comes back, whatever surrounds it.\<close>

lemma decodeVpnConfig_scrambled:
  assumes "length pre = 512" and "length suf = 128"
  shows "decodeVpnConfig (pre @ map (\<lambda>b. b XOR 0x80) content @ suf) = Ret (Some content)"
proof -
  have "map unscramble (map (\<lambda>b. b XOR 0x80) content) = content"
    by (simp add: comp_def unscramble_involution)
  then show ?thesis using assms
    by (simp add: decodeVpnConfig_def chaos_read_def vpn_prefix_def vpn_suffix_def Let_def comp_def)
qed

lemma length_hex_bytes: "length (hex_bytes bs) = 2 * length bs"
  by (induction bs) (simp_all add: hex_bytes_def)

lemma hex_bytes_set: "set (hex_bytes bs) \<subseteq> set hexes"
proof -
  have "hex_digit n \<in> set hexes" if "n < 16" for n
    using that nth_mem[of n hexes] by (simp add: hex_digit_def hexes_def)
  moreover have "unat b div 16 < 16" for b :: byte using byte_less[of b] by simp
  ultimately show ?thesis by (auto simp: hex_bytes_def)
qed

lemma nano_md5: "nano_tries md5 m i k = Inr x \<Longrightarrow> \<exists>s. x = md5 s"
  by (induction k arbitrary: i) (auto simp: Let_def split: if_splits)

definition numbered_types :: "string list" where
  "numbered_types = [''arm'', ''rk3399'', ''rk3399pro'', ''rk1808'', ''nano'', ''tx2'']"

lemma device_md5_Inr:
  assumes "device_md5 md5 dt m = Ret (Inr x)"
  shows "(dt \<in> set numbered_types \<and> (\<exists>s. x = md5 s)) \<or> x = replicate 16 0"
proof -
  have rk: "\<exists>s. x = md5 s" if "buildRK3399ID md5 m = Ret (Inr x)"
    using that by (auto simp: buildRK3399ID_def split: sum.splits if_splits)
  have nano: "\<exists>s. x = md5 s" if "buildNanoID md5 m = Inr x"
    using that unfolding buildNanoID_def by (rule nano_md5)
  have x86: "buildX86ID md5 m \<noteq> Inr x" by (auto simp: buildX86ID_def split: sum.split)
  let ?rk = "set [''arm'', ''rk3399'', ''rk3399pro'', ''rk1808'']" and ?nano = "set [''nano'', ''tx2'']"
  have sub: "?rk \<union> ?nano \<subseteq> set numbered_types" by (simp add: numbered_types_def)
  have "dt \<noteq> ''x86''" using assms x86 by (auto simp: device_md5_def)
  then have "(if dt \<in> ?rk then buildRK3399ID md5 m else if dt \<in> ?nano then Ret (buildNanoID md5 m)
      else Ret (Inr (replicate 16 0))) = Ret (Inr x)"
    using assms by (simp add: device_md5_def del: list.set)
  then show ?thesis using rk nano sub by (cases "dt \<in> ?rk"; cases "dt \<in> ?nano") (auto simp del: list.set)
qed

text \<open>C36. When \<open>BuildWokerID\<close> gives a number, it is \<open>J\<close>, the two digits of the device type and seven lower-case
  hexadecimal digits, not all zero; it never does for the type \<open>x86\<close> or an unknown type.\<close>

theorem BuildWokerID_format:
  assumes "\<forall>s. length (md5 s) = 16" and "BuildWokerID md5 m = Ret (Inr wid)"
  shows "\<exists>dt hex. GetDeviceType m = Ret dt \<and> wid = ''J'' @ type_prefix dt @ hex
    \<and> length hex = 7 \<and> set hex \<subseteq> set hexes \<and> hex \<noteq> ''0000000''
    \<and> dt \<in> set numbered_types"
proof -
  obtain dt where dt: "GetDeviceType m = Ret dt" using assms(2) by (auto simp: BuildWokerID_def bindg_eq_Ret)
  then obtain md5info where r: "device_md5 md5 dt m = Ret (Inr md5info)"
    and w: "wid = ''J'' @ type_prefix dt @ last_seven (hex_bytes md5info)" "last_seven (hex_bytes md5info) \<noteq> ''0000000''"
  proof -
    from assms(2) dt obtain r where r: "device_md5 md5 dt m = Ret r"
      by (auto simp: BuildWokerID_def bindg_eq_Ret)
    with assms(2) dt show thesis
      by (cases r) (auto simp: BuildWokerID_def Let_def split: if_splits intro: that)
  qed
  have "last_seven (hex_bytes (replicate 16 0)) = ''0000000''" by code_simp
  then have "md5info \<noteq> replicate 16 0" using w(2) by auto
  with device_md5_Inr[OF r] obtain s where s: "md5info = md5 s" "dt \<in> set numbered_types" by auto
  have "length (last_seven (hex_bytes md5info)) = 7" using assms(1) by (simp add: last_seven_def length_hex_bytes s(1))
  moreover have "set (last_seven (hex_bytes md5info)) \<subseteq> set hexes"
    using hex_bytes_set[of md5info] set_drop_subset by (fastforce simp: last_seven_def)
  ultimately show ?thesis using dt w(1,2) s(2) by (intro exI conjI) (assumption | simp)+
qed

definition tx2_machine :: machine where
  "tx2_machine = \<lparr>device_file = Some (''tx2'' @ [CHR 0x0A]), goarch = ''arm64'', cpuinfo = Inl ''open'', x86_script = Inl ''exit'',
     gps_script = (\<lambda>i. if i = 0 then [] else ''861234567890123'')\<rparr>"

theorem BuildWokerID_format_witness:
  "\<exists>dt hex. GetDeviceType tx2_machine = Ret dt \<and> ''J040000001'' = ''J'' @ type_prefix dt @ hex \<and> length hex = 7"
proof -
  let ?md5 = "\<lambda>s. replicate 15 0 @ [1]"
  have "BuildWokerID ?md5 tx2_machine = Ret (Inr ''J040000001'')" by code_simp
  from BuildWokerID_format[OF _ this] show ?thesis by (auto simp del: list.inject)
qed

text \<open>An amd64 machine never gets a number: \<open>buildX86ID\<close> returns an error also after it has computed the digest.\<close>

lemma buildX86ID_fails: "\<exists>e. buildX86ID md5 m = Inl e"
  by (auto simp: buildX86ID_def split: sum.split)

text \<open>Without \<open>/etc/device\<close> the type of an amd64 machine is not found and the program panics.\<close>

lemma GetDeviceType_amd64_panics: "device_file m = None \<Longrightarrow> goarch m = ''amd64'' \<Longrightarrow> GetDeviceType m = Panic"
  by (simp add: GetDeviceType_def)

text \<open>The type \<open>arm\<close> has the prefix of unknown types.\<close>

lemma arm_prefix: "type_prefix ''arm'' = ''00''" "type_prefix ''x86'' = ''00''"
  by (simp_all add: type_prefix_def)

section \<open>The request can be read back\<close>

text \<open>A decoder of the encoding: positions in the alphabet, four at a time.\<close>

definition alphabet_pos :: "char \<Rightarrow> nat" where
  "alphabet_pos c = length (takeWhile (\<lambda>x. x \<noteq> c) alphabet)"

fun dec_positions :: "nat list \<Rightarrow> byte list" where
  "dec_positions (w # x # y # z # rest) =
     (let val = w * 2 ^ 18 + x * 2 ^ 12 + y * 2 ^ 6 + z
      in [word_of_nat (val div 2 ^ 16), word_of_nat (val div 2 ^ 8 mod 2 ^ 8), word_of_nat (val mod 2 ^ 8)] @ dec_positions rest)"
| "dec_positions [w, x, y] =
     (let val = w * 2 ^ 18 + x * 2 ^ 12 + y * 2 ^ 6 in [word_of_nat (val div 2 ^ 16), word_of_nat (val div 2 ^ 8 mod 2 ^ 8)])"
| "dec_positions [w, x] = (let val = w * 2 ^ 18 + x * 2 ^ 12 in [word_of_nat (val div 2 ^ 16)])"
| "dec_positions _ = []"

definition enc_Decode :: "string \<Rightarrow> byte list" where
  "enc_Decode s = dec_positions (map alphabet_pos s)"

lemma alphabet_pos_nth: "i < 64 \<Longrightarrow> alphabet_pos (alphabet ! i) = i"
proof -
  have "\<forall>i\<in>set [0..<64]. alphabet_pos (alphabet ! i) = i" by code_simp
  then show "i < 64 \<Longrightarrow> alphabet_pos (alphabet ! i) = i" by auto
qed

lemma alphabet_pos_sextet [simp]: "alphabet_pos (sextet val shift) = val div 2 ^ shift mod 64"
  by (simp add: sextet_def alphabet_pos_nth)

lemma sextets_value:
  fixes v :: nat
  assumes "v < 2 ^ 24"
  shows "v div 262144 mod 64 * 262144 + v div 4096 mod 64 * 4096 + v div 64 mod 64 * 64 + v mod 64 = v"
proof -
  have d: "v div 64 div 64 = v div 4096" "v div 4096 div 64 = v div 262144" by (simp_all flip: div_mult2_eq)
  have "v div 64 * 64 + v mod 64 = v" by (rule div_mult_mod_eq)
  moreover have "v div 4096 * 64 + v div 64 mod 64 = v div 64"
    using div_mult_mod_eq[of "v div 64" 64] unfolding d(1) .
  moreover have "v div 262144 * 64 + v div 4096 mod 64 = v div 4096"
    using div_mult_mod_eq[of "v div 4096" 64] unfolding d(2) .
  moreover have "v div 262144 mod 64 = v div 262144" using assms by simp
  ultimately show ?thesis by linarith
qed

lemma bytes_value:
  fixes a b c :: nat
  assumes "b < 256" "c < 256"
  shows "(a * 65536 + b * 256 + c) div 65536 = a" "(a * 65536 + b * 256 + c) div 256 mod 256 = b"
    "(a * 65536 + b * 256 + c) mod 256 = c"
proof -
  have "b * 256 + c < 65536" using assms by simp
  then have "(a * 65536 + (b * 256 + c)) div 65536 = a" by simp
  then show "(a * 65536 + b * 256 + c) div 65536 = a" by (simp add: add.assoc)
  have e: "a * 65536 + b * 256 + c = (a * 256 + b) * 256 + c" by simp
  show "(a * 65536 + b * 256 + c) mod 256 = c" unfolding e mod_mult_self3 using assms by simp
  have "((a * 256 + b) * 256 + c) div 256 = a * 256 + b" using assms by simp
  then show "(a * 65536 + b * 256 + c) div 256 mod 256 = b" unfolding e using assms
    by (simp only: mod_mult_self3 mod_less)
qed

text \<open>Decoding the positions of a value of 24 bits, and of one whose last six or twelve bits are zero.\<close>

lemma dec_positions_value:
  fixes v :: nat
  assumes "v < 2 ^ 24"
  shows "dec_positions (v div 262144 mod 64 # v div 4096 mod 64 # v div 64 mod 64 # v mod 64 # rest) =
      [word_of_nat (v div 65536), word_of_nat (v div 256 mod 256), word_of_nat (v mod 256)] @ dec_positions rest"
    and "v mod 64 = 0 \<Longrightarrow> dec_positions [v div 262144 mod 64, v div 4096 mod 64, v div 64 mod 64] =
      [word_of_nat (v div 65536), word_of_nat (v div 256 mod 256)]"
    and "v mod 4096 = 0 \<Longrightarrow> dec_positions [v div 262144 mod 64, v div 4096 mod 64] = [word_of_nat (v div 65536)]"
proof -
  note v = sextets_value[OF assms]
  have pw: "(2 :: nat) ^ 18 = 262144" "(2 :: nat) ^ 12 = 4096" "(2 :: nat) ^ 6 = 64" "(2 :: nat) ^ 16 = 65536" "(2 :: nat) ^ 8 = 256"
    by simp_all
  show "dec_positions (v div 262144 mod 64 # v div 4096 mod 64 # v div 64 mod 64 # v mod 64 # rest) =
      [word_of_nat (v div 65536), word_of_nat (v div 256 mod 256), word_of_nat (v mod 256)] @ dec_positions rest"
    by (simp only: dec_positions.simps Let_def pw v)
  show "dec_positions [v div 262144 mod 64, v div 4096 mod 64, v div 64 mod 64] =
      [word_of_nat (v div 65536), word_of_nat (v div 256 mod 256)]" if "v mod 64 = 0"
  proof -
    have "v div 262144 mod 64 * 262144 + v div 4096 mod 64 * 4096 + v div 64 mod 64 * 64 = v" using v that by linarith
    then show ?thesis by (simp only: dec_positions.simps Let_def pw)
  qed
  show "dec_positions [v div 262144 mod 64, v div 4096 mod 64] = [word_of_nat (v div 65536)]" if z: "v mod 4096 = 0"
  proof -
    obtain k where "v = 4096 * k" using z by auto
    then have "v = 64 * (64 * k)" by simp
    then have "v mod 64 = 0" "v div 64 mod 64 = 0" by simp_all
    then have "v div 262144 mod 64 * 262144 + v div 4096 mod 64 * 4096 = v" using v by linarith
    then show ?thesis by (simp only: dec_positions.simps Let_def pw)
  qed
qed

lemma enc_Decode_Encode: "enc_Decode (enc_Encode bs) = bs"
  unfolding enc_Decode_def
proof (induction bs rule: enc_Encode.induct)
  case (1 a b c rest)
  define v where "v = unat a * 65536 + unat b * 256 + unat c"
  have lt: "v < 2 ^ 24" using byte_less[of a] byte_less[of b] byte_less[of c] by (simp add: v_def)
  have "map alphabet_pos (enc_Encode (a # b # c # rest)) =
      v div 262144 mod 64 # v div 4096 mod 64 # v div 64 mod 64 # v mod 64 # map alphabet_pos (enc_Encode rest)"
    by (simp add: Let_def v_def)
  then show ?case
    using dec_positions_value(1)[OF lt] bytes_value[OF byte_less[of b] byte_less[of c], of "unat a"] 1
    by (simp add: v_def[symmetric] del: dec_positions.simps)
next
  case (2 a b)
  define v where "v = unat a * 65536 + unat b * 256 + 0"
  have lt: "v < 2 ^ 24" using byte_less[of a] byte_less[of b] by (simp add: v_def)
  have "v = 64 * (unat a * 1024 + unat b * 4)" by (simp add: v_def)
  then have z: "v mod 64 = 0" by simp
  have "map alphabet_pos (enc_Encode [a, b]) = [v div 262144 mod 64, v div 4096 mod 64, v div 64 mod 64]"
    by (simp add: Let_def v_def)
  then show ?case
    using dec_positions_value(2)[OF lt z] bytes_value[OF byte_less[of b], of 0 "unat a", folded v_def]
    by (simp del: dec_positions.simps)
next
  case (3 a)
  define v where "v = unat a * 65536 + 0 * 256 + 0"
  have lt: "v < 2 ^ 24" using byte_less[of a] by (simp add: v_def)
  have "v = 4096 * (unat a * 16)" by (simp add: v_def)
  then have z: "v mod 4096 = 0" by simp
  have "map alphabet_pos (enc_Encode [a]) = [v div 262144 mod 64, v div 4096 mod 64]"
    by (simp add: Let_def v_def)
  then show ?case
    using dec_positions_value(3)[OF lt z] bytes_value(1)[of 0 0 "unat a", folded v_def]
    by (simp del: dec_positions.simps)
qed simp

text \<open>The body of the registration request determines the request's JSON text: the encoding with the
  program's own alphabet, without padding, is undone by the decoding, for texts of every length.\<close>

theorem encodeReqData_decodes: "enc_Decode (encodeReqData marshal reqinfo) = marshal reqinfo"
  by (simp add: encodeReqData_def enc_Decode_Encode)

end
