(* ===== verification/LevelStore.thy ===== *)
theory LevelStore
  imports GoPrelude
begin

text \<open>
  The store of the gateway, \<open>gateway/store/store.go\<close>: the interface \<open>Store\<close>, and \<open>LevelDBStore\<close>, which implements
  it on a LevelDB that is opened when it is first used. The package \<open>goleveldb\<close> is the parameter
  \<open>leveldb\<close>. The services see the store through \<open>kv_api\<close>; what they rely on is the locale \<open>kv_store\<close>, which
  is proved of \<open>LevelDBStore\<close> from the documented behaviour of \<open>goleveldb\<close>.
\<close>

section \<open>LevelDB\<close>

text \<open>
  The package on a disk \<open>'w\<close>, by the path of the database: \<open>OpenFile\<close>, \<open>Get\<close>, \<open>Put\<close>, \<open>Delete\<close>, the pairs an iterator over
  a prefix gives, \<open>Close\<close>; and \<open>os.RemoveAll\<close>. The flag of an error is \<open>errors.IsCorrupted\<close>.
\<close>

type_synonym store_error = "bool \<times> string"

record 'w leveldb =
  ldb_OpenFile :: "string \<Rightarrow> 'w \<Rightarrow> store_error option \<times> 'w"
  ldb_Get :: "string \<Rightarrow> string \<Rightarrow> 'w \<Rightarrow> store_error + string"
  ldb_Put :: "string \<Rightarrow> string \<Rightarrow> string \<Rightarrow> 'w \<Rightarrow> store_error option \<times> 'w"
  ldb_Delete :: "string \<Rightarrow> string \<Rightarrow> 'w \<Rightarrow> store_error option \<times> 'w"
  ldb_Iter :: "string \<Rightarrow> string \<Rightarrow> 'w \<Rightarrow> (string \<times> string) list"
  ldb_Close :: "string \<Rightarrow> 'w \<Rightarrow> store_error option \<times> 'w"
  ldb_RemoveAll :: "string \<Rightarrow> 'w \<Rightarrow> store_error option \<times> 'w"

section \<open>LevelDBStore\<close>

text \<open>\<open>ls_DB\<close>: the embedded \<open>DB\<close> is not nil.\<close>

record 'w LevelDBStore =
  ls_DB :: bool
  ls_File :: string
  ls_disk :: 'w

definition NewLevelDBStore :: "string \<Rightarrow> 'w \<Rightarrow> 'w LevelDBStore" where
  "NewLevelDBStore f w = \<lparr>ls_DB = False, ls_File = f, ls_disk = w\<rparr>"

text \<open>A database that is corrupted is removed, and opened once more; the database of a failed \<open>OpenFile\<close> is nil.\<close>

definition store_Open :: "'w leveldb \<Rightarrow> 'w LevelDBStore \<Rightarrow> store_error option \<times> 'w LevelDBStore" where
  "store_Open L s =
     (case ldb_OpenFile L (ls_File s) (ls_disk s) of
        (None, w) \<Rightarrow> (None, s\<lparr>ls_DB := True, ls_disk := w\<rparr>)
      | (Some e, w) \<Rightarrow>
          (if fst e then
             (case ldb_RemoveAll L (ls_File s) w of
                (Some e1, w1) \<Rightarrow> (Some e1, s\<lparr>ls_disk := w1\<rparr>)
              | (None, w1) \<Rightarrow>
                  (let (e2, w2) = ldb_OpenFile L (ls_File s) w1 in (e2, s\<lparr>ls_DB := (e2 = None), ls_disk := w2\<rparr>)))
           else (Some e, s\<lparr>ls_disk := w\<rparr>)))"

definition store_db :: "'w leveldb \<Rightarrow> 'w LevelDBStore \<Rightarrow> store_error option \<times> 'w LevelDBStore" where
  "store_db L s = (if \<not> ls_DB s then store_Open L s else (None, s))"

definition store_Get :: "'w leveldb \<Rightarrow> string \<Rightarrow> 'w LevelDBStore \<Rightarrow> (store_error + string) \<times> 'w LevelDBStore" where
  "store_Get L key s = (case store_db L s of
       (Some e, s1) \<Rightarrow> (Inl e, s1)
     | (None, s1) \<Rightarrow> (ldb_Get L (ls_File s1) key (ls_disk s1), s1))"

definition store_Put :: "'w leveldb \<Rightarrow> string \<Rightarrow> string \<Rightarrow> 'w LevelDBStore \<Rightarrow> store_error option \<times> 'w LevelDBStore" where
  "store_Put L key value s = (case store_db L s of
       (Some e, s1) \<Rightarrow> (Some e, s1)
     | (None, s1) \<Rightarrow> (let (e, w) = ldb_Put L (ls_File s1) key value (ls_disk s1) in (e, s1\<lparr>ls_disk := w\<rparr>)))"

definition store_Delete :: "'w leveldb \<Rightarrow> string \<Rightarrow> 'w LevelDBStore \<Rightarrow> store_error option \<times> 'w LevelDBStore" where
  "store_Delete L key s = (case store_db L s of
       (Some e, s1) \<Rightarrow> (Some e, s1)
     | (None, s1) \<Rightarrow> (let (e, w) = ldb_Delete L (ls_File s1) key (ls_disk s1) in (e, s1\<lparr>ls_disk := w\<rparr>)))"

text \<open>A database that cannot be opened makes \<open>NewIterator\<close> panic.\<close>

definition store_NewIterator :: "'w leveldb \<Rightarrow> string \<Rightarrow> 'w LevelDBStore \<Rightarrow> ((string \<times> string) list \<times> 'w LevelDBStore) go" where
  "store_NewIterator L pre s = (case store_db L s of
       (Some e, s1) \<Rightarrow> Panic
     | (None, s1) \<Rightarrow> Ret (ldb_Iter L (ls_File s1) pre (ls_disk s1), s1))"

definition store_Close :: "'w leveldb \<Rightarrow> 'w LevelDBStore \<Rightarrow> store_error option \<times> 'w LevelDBStore" where
  "store_Close L s =
     (if \<not> ls_DB s then (None, s)
      else (let (e, w) = ldb_Close L (ls_File s) (ls_disk s) in (e, s\<lparr>ls_DB := False, ls_disk := w\<rparr>)))"

section \<open>The interface\<close>

text \<open>
  The operations of \<open>Store\<close> that the services call, on a state \<open>'s\<close>: a write and a deletion return an
  error, an iterator is the list of the pairs it will give.
\<close>

record 's kv_api =
  kv_Put :: "string \<Rightarrow> string \<Rightarrow> 's \<Rightarrow> store_error option \<times> 's"
  kv_Delete :: "string \<Rightarrow> 's \<Rightarrow> store_error option \<times> 's"
  kv_Iter :: "string \<Rightarrow> 's \<Rightarrow> ((string \<times> string) list \<times> 's) go"

definition level_api :: "'w leveldb \<Rightarrow> 'w LevelDBStore kv_api" where
  "level_api L = \<lparr>kv_Put = store_Put L, kv_Delete = store_Delete L, kv_Iter = store_NewIterator L\<rparr>"

text \<open>
  What the services rely on, of a store that is open: an operation leaves it open, a write and a deletion
  that return no error have their effect, an iterator has the keys of its prefix and changes nothing. Nothing is
  promised of what an operation that fails has done.
\<close>

locale kv_store =
  fixes api :: "'s kv_api"
    and ready :: "'s \<Rightarrow> bool"
    and lookup :: "'s \<Rightarrow> string \<Rightarrow> string option"
  assumes Put_ready: "ready s \<Longrightarrow> kv_Put api k v s = (e, s') \<Longrightarrow> ready s'"
    and Delete_ready: "ready s \<Longrightarrow> kv_Delete api k s = (e, s') \<Longrightarrow> ready s'"
    and lookup_Put: "ready s \<Longrightarrow> kv_Put api k v s = (None, s') \<Longrightarrow> lookup s' = (lookup s)(k \<mapsto> v)"
    and lookup_Delete: "ready s \<Longrightarrow> kv_Delete api k s = (None, s') \<Longrightarrow> lookup s' = (lookup s)(k := None)"
    and Iter_keys: "ready s \<Longrightarrow> \<exists>kvs. kv_Iter api pre s = Ret (kvs, s)
      \<and> fst ` set kvs = {k. has_prefix k pre \<and> lookup s k \<noteq> None}"
begin

text \<open>The names under a prefix, as the services list them.\<close>

lemma Iter_names:
  assumes "ready s"
  shows "\<exists>kvs. kv_Iter api pre s = Ret (kvs, s) \<and> (\<lambda>kv. drop (length pre) (fst kv)) ` set kvs = {n. lookup s (pre @ n) \<noteq> None}"
proof -
  obtain kvs where kvs: "kv_Iter api pre s = Ret (kvs, s)" "fst ` set kvs = {k. has_prefix k pre \<and> lookup s k \<noteq> None}"
    using Iter_keys[OF assms] by blast
  have "(\<lambda>kv. drop (length pre) (fst kv)) ` set kvs = drop (length pre) ` fst ` set kvs" by (simp add: image_image)
  also have "\<dots> = {n. lookup s (pre @ n) \<noteq> None}"
    unfolding kvs(2) by (auto simp: has_prefix_iff image_iff) (metis append_eq_conv_conj option.distinct(1))
  finally show ?thesis using kvs(1) by blast
qed

end

section \<open>The wrapper keeps what the package promises\<close>

text \<open>
  The documented behaviour of \<open>goleveldb\<close> on an open database: \<open>content\<close> is what it holds; a \<open>Put\<close> and a
  \<open>Delete\<close> without an error change one key; the range \<open>util.BytesPrefix\<close> has the keys with the prefix.
\<close>

definition level_lookup :: "(string \<Rightarrow> 'w \<Rightarrow> string \<Rightarrow> string option) \<Rightarrow> 'w LevelDBStore \<Rightarrow> string \<Rightarrow> string option" where
  "level_lookup content s = content (ls_File s) (ls_disk s)"

locale leveldb_laws =
  fixes L :: "'w leveldb"
    and content :: "string \<Rightarrow> 'w \<Rightarrow> string \<Rightarrow> string option"
  assumes Put_content: "ldb_Put L f k v w = (None, w') \<Longrightarrow> content f w' = (content f w)(k \<mapsto> v)"
    and Delete_content: "ldb_Delete L f k w = (None, w') \<Longrightarrow> content f w' = (content f w)(k := None)"
    and Iter_content: "fst ` set (ldb_Iter L f pre w) = {k. has_prefix k pre \<and> content f w k \<noteq> None}"
begin

sublocale lvl: kv_store "level_api L" ls_DB "level_lookup content"
proof
  fix s s' :: "'w LevelDBStore" and k v pre e
  assume db: "ls_DB s"
  show "kv_Put (level_api L) k v s = (e, s') \<Longrightarrow> ls_DB s'" "kv_Delete (level_api L) k s = (e, s') \<Longrightarrow> ls_DB s'"
    using db by (auto simp: level_api_def store_Put_def store_Delete_def store_db_def split: prod.splits)
  show "kv_Put (level_api L) k v s = (None, s') \<Longrightarrow> level_lookup content s' = (level_lookup content s)(k \<mapsto> v)"
    using db by (auto simp: level_api_def store_Put_def store_db_def level_lookup_def Put_content split: prod.splits)
  show "kv_Delete (level_api L) k s = (None, s') \<Longrightarrow> level_lookup content s' = (level_lookup content s)(k := None)"
    using db by (auto simp: level_api_def store_Delete_def store_db_def level_lookup_def Delete_content split: prod.splits)
  show "\<exists>kvs. kv_Iter (level_api L) pre s = Ret (kvs, s) \<and> fst ` set kvs = {k. has_prefix k pre \<and> level_lookup content s k \<noteq> None}"
    using db by (simp add: level_api_def store_NewIterator_def store_db_def level_lookup_def Iter_content)
qed

lemma level_kv: "kv_store (level_api L) ls_DB (level_lookup content)"
  by (rule lvl.kv_store_axioms)

end

text \<open>An operation on a store that is not open opens it first; when that fails, a write is not done and an iterator panics.\<close>

lemma closed_store_fails:
  assumes "\<not> ls_DB s" "store_Open L s = (Some e, s1)"
  shows "store_Put L k v s = (Some e, s1)" "store_NewIterator L pre s = Panic"
  using assms by (simp_all add: store_Put_def store_NewIterator_def store_db_def)

text \<open>A corrupted database is emptied without an error.\<close>

lemma corrupted_is_emptied:
  assumes "ldb_OpenFile L (ls_File s) (ls_disk s) = (Some (True, e), w)" "ldb_RemoveAll L (ls_File s) w = (None, w1)"
    and "ldb_OpenFile L (ls_File s) w1 = (None, w2)"
  shows "store_Open L s = (None, s\<lparr>ls_DB := True, ls_disk := w2\<rparr>)"
  using assms by (simp add: store_Open_def)

section \<open>A database in memory\<close>

text \<open>An instance of the package: the databases by their paths; a path that is listed as bad gives errors.\<close>

definition mem_pairs :: "string \<Rightarrow> (string, string) gomap \<Rightarrow> (string \<times> string) list" where
  "mem_pairs pre m = map (\<lambda>k. (k, the (map_of m k))) (sort (remdups (filter (\<lambda>k. has_prefix k pre) (map fst m))))"

definition mem_db :: "string \<Rightarrow> (string, (string, string) gomap) gomap \<Rightarrow> (string, string) gomap" where
  "mem_db f w = (case map_of w f of None \<Rightarrow> [] | Some m \<Rightarrow> m)"

definition mem_leveldb :: "string list \<Rightarrow> (string, (string, string) gomap) gomap leveldb" where
  "mem_leveldb bad = \<lparr>ldb_OpenFile = (\<lambda>f w. (None, w)),
     ldb_Get = (\<lambda>f k w. case map_of (mem_db f w) k of None \<Rightarrow> Inl (False, ''leveldb: not found'') | Some v \<Rightarrow> Inr v),
     ldb_Put = (\<lambda>f k v w. if f \<in> set bad then (Some (False, ''no space left on device''), w)
       else (None, AList.update f (AList.update k v (mem_db f w)) w)),
     ldb_Delete = (\<lambda>f k w. if f \<in> set bad then (Some (False, ''no space left on device''), w)
       else (None, AList.update f (AList.delete k (mem_db f w)) w)),
     ldb_Iter = (\<lambda>f pre w. mem_pairs pre (mem_db f w)),
     ldb_Close = (\<lambda>f w. (None, w)), ldb_RemoveAll = (\<lambda>f w. (None, AList.delete f w))\<rparr>"

lemma mem_pairs_keys: "fst ` set (mem_pairs pre m) = {k. has_prefix k pre \<and> map_of m k \<noteq> None}"
  by (auto simp: mem_pairs_def image_image map_of_eq_None_iff)

interpretation mem: leveldb_laws "mem_leveldb bad" "\<lambda>f w. map_of (mem_db f w)" for bad
proof
  fix f k v w w' pre
  show "ldb_Put (mem_leveldb bad) f k v w = (None, w') \<Longrightarrow> map_of (mem_db f w') = (map_of (mem_db f w))(k \<mapsto> v)"
    by (auto simp: mem_leveldb_def mem_db_def map_of_update split: if_splits)
  show "ldb_Delete (mem_leveldb bad) f k w = (None, w') \<Longrightarrow> map_of (mem_db f w') = (map_of (mem_db f w))(k := None)"
    by (auto simp: mem_leveldb_def mem_db_def map_of_update delete_conv split: if_splits)
  show "fst ` set (ldb_Iter (mem_leveldb bad) f pre w) = {k. has_prefix k pre \<and> map_of (mem_db f w) k \<noteq> None}"
    by (simp add: mem_leveldb_def mem_pairs_keys)
qed

end
