(* ===== verification/DynService.thy ===== *)
theory DynService
  imports Steps LevelStore
begin

text \<open>
  The gateway's registry of dynamic services, \<open>gateway/serve/dynamic.go\<close>. The container holds
  pointers to services: an address indexes the heap \<open>dheap\<close>. The slices of the map are not shared,
  so they are lists. A response is the sequence of what the handler writes; after the first status
  line Go ignores the others. The decoded body of a request is an argument, with the decoding error:
  \<open>json.Unmarshal\<close> may have stored a part of the value when it fails.
\<close>

section \<open>State\<close>

record DynamicService =
  ds_Name :: string
  ds_HostPort :: string
  ds_Version :: string
  ds_HealthCheck :: string
  ds_URLPatterns :: "string list"

definition empty_service :: DynamicService where
  "empty_service = \<lparr>ds_Name = [], ds_HostPort = [], ds_Version = [], ds_HealthCheck = [], ds_URLPatterns = []\<rparr>"

text \<open>\<open>OnChange\<close>: whether the callback is set; \<open>changes\<close>: how often it was called.\<close>

record DynamicServiceContainer =
  dheap :: "DynamicService list"
  Services :: "(string, nat list) gomap"
  OnChange :: bool
  changes :: nat
  Prefix :: string

datatype response = ErrorResponse int | SuccessResponse | ResultsResponse "DynamicService list" int

definition NewDynamicServiceContainer :: DynamicServiceContainer where
  "NewDynamicServiceContainer = \<lparr>dheap = [], Services = [], OnChange = False, changes = 0, Prefix = ''ds-''\<rparr>"

definition deref :: "DynamicServiceContainer \<Rightarrow> nat \<Rightarrow> DynamicService" where
  "deref d a = dheap d ! a"

definition alloc :: "DynamicService \<Rightarrow> DynamicServiceContainer \<Rightarrow> DynamicServiceContainer" where
  "alloc s d = d\<lparr>dheap := dheap d @ [s]\<rparr>"

definition notify :: "DynamicServiceContainer \<Rightarrow> DynamicServiceContainer" where
  "notify d = (if OnChange d then d\<lparr>changes := Suc (changes d)\<rparr> else d)"

definition swap :: "nat \<Rightarrow> nat \<Rightarrow> 'a list \<Rightarrow> 'a list" where
  "swap i j xs = xs[i := xs ! j, j := xs ! i]"

text \<open>The first index whose service has the host and port.\<close>

fun find_host :: "DynamicServiceContainer \<Rightarrow> string \<Rightarrow> nat list \<Rightarrow> nat option" where
  "find_host d hp [] = None"
| "find_host d hp (a # as) =
     (if ds_HostPort (deref d a) = hp then Some 0 else map_option Suc (find_host d hp as))"

section \<open>Operations\<close>

text \<open>A slice emptied by \<open>RemoveByHostPort\<close> is not nil, so it takes the second branch.\<close>

definition dyn_Add :: "nat \<Rightarrow> DynamicServiceContainer \<Rightarrow> DynamicServiceContainer" where
  "dyn_Add ds d =
     (let name = ds_Name (deref d ds) in
      case map_of (Services d) name of
        None \<Rightarrow> notify (d\<lparr>Services := AList.update name [ds] (Services d)\<rparr>)
      | Some xs \<Rightarrow>
          (case find_host d (ds_HostPort (deref d ds)) xs of
             Some i \<Rightarrow>
               notify (if i > 0 then d\<lparr>Services := AList.update name (swap 0 i xs) (Services d)\<rparr> else d)
           | None \<Rightarrow>
               notify (d\<lparr>Services := AList.update name (swap 0 (length xs) (xs @ [ds])) (Services d)\<rparr>)))"

text \<open>\<open>append(arr[0:i], arr[i+1:]...)\<close> and, for the first, \<open>arr[1:]\<close>.\<close>

fun remove_in :: "DynamicServiceContainer \<Rightarrow> string \<Rightarrow> (string, nat list) gomap \<Rightarrow> (string \<times> nat list) option" where
  "remove_in d s [] = None"
| "remove_in d s ((name, arr) # rest) =
     (case find_host d s arr of
        Some i \<Rightarrow> Some (name, if i = 0 then drop 1 arr else take i arr @ drop (i + 1) arr)
      | None \<Rightarrow> remove_in d s rest)"

definition RemoveByHostPort :: "string \<Rightarrow> DynamicServiceContainer \<Rightarrow> DynamicServiceContainer" where
  "RemoveByHostPort s d =
     (case remove_in d s (Services d) of
        None \<Rightarrow> d
      | Some (name, arr) \<Rightarrow> notify (d\<lparr>Services := AList.update name arr (Services d)\<rparr>))"

definition dyn_Remove :: "DynamicService \<Rightarrow> DynamicServiceContainer \<Rightarrow> DynamicServiceContainer" where
  "dyn_Remove ds d = RemoveByHostPort (ds_HostPort ds) d"

text \<open>The loop of \<open>Search\<close> over the slice, with \<open>right\<close> as an integer since it may be \<open>-1\<close>.\<close>

function partition_loop :: "(nat \<Rightarrow> bool) \<Rightarrow> nat list \<Rightarrow> nat \<Rightarrow> int \<Rightarrow> nat list \<times> nat" where
  "partition_loop match xs left right =
     (if int left \<ge> right then (xs, left)
      else if \<not> match (xs ! left) then partition_loop match (swap left (nat right) xs) (left + 1) (right - 1)
      else partition_loop match xs (left + 1) right)"
  by pat_completeness auto

termination
  by (relation "measure (\<lambda>(match, xs, left, right). nat (right - int left))") auto

declare partition_loop.simps [simp del]

text \<open>The selection by version: the permuted slice and the part of it that is returned.\<close>

definition select_version :: "DynamicServiceContainer \<Rightarrow> string \<Rightarrow> nat list \<Rightarrow> (nat list \<times> nat list) go" where
  "select_version d version services =
     (let match = (\<lambda>a. ds_Version (deref d a) = version);
          (xs, left) = partition_loop match services 0 (int (length services) - 1)
      in if length xs \<le> left then Panic
         else if \<not> match (xs ! left)
              then (if left = 0 then Panic else Ret (xs, take (left - 1) xs))
              else Ret (xs, take left xs))"

text \<open>
  \<open>Search\<close>: the slice of a name is permuted in place, also when the handler panics (the server
  recovers); the slice over all names is a fresh one.
\<close>

definition dyn_Search :: "string \<Rightarrow> string \<Rightarrow> DynamicServiceContainer \<Rightarrow> response list go \<times> DynamicServiceContainer" where
  "dyn_Search name version d =
     (let services = (if name \<noteq> [] then (case map_of (Services d) name of None \<Rightarrow> [] | Some xs \<Rightarrow> xs)
                      else concat (map snd (Services d)));
          answer = (\<lambda>as. [ResultsResponse (map (deref d) as) (int (length as))])
      in if version \<noteq> []
         then (let match = (\<lambda>a. ds_Version (deref d a) = version);
                   xs = fst (partition_loop match services 0 (int (length services) - 1));
                   d' = (if name \<noteq> [] \<and> map_of (Services d) name \<noteq> None
                         then d\<lparr>Services := AList.update name xs (Services d)\<rparr> else d)
               in (bindg (select_version d version services) (\<lambda>(ys, found). Ret (answer found)), d'))
         else (Ret (answer services), d))"

text \<open>
  \<open>Register\<close>: after an error the handler goes on. The loop variable \<open>srv\<close> is one variable, whose
  address is added in every round.
\<close>

definition register_one :: "nat \<Rightarrow> DynamicServiceContainer \<Rightarrow> DynamicService \<Rightarrow> DynamicServiceContainer" where
  "register_one srv d s = dyn_Add srv (d\<lparr>dheap := (dheap d)[srv := s]\<rparr>)"

definition dyn_Register :: "bool \<Rightarrow> DynamicService list \<Rightarrow> bool \<Rightarrow> DynamicServiceContainer \<Rightarrow> response list \<times> DynamicServiceContainer" where
  "dyn_Register read_failed services json_failed d =
     ((if read_failed then [ErrorResponse 400] else []) @ (if json_failed then [ErrorResponse 400] else [])
        @ [SuccessResponse],
      foldl (register_one (length (dheap d))) (alloc empty_service d) services)"

definition dyn_Unregister :: "bool \<Rightarrow> DynamicService \<Rightarrow> bool \<Rightarrow> DynamicServiceContainer \<Rightarrow> response list \<times> DynamicServiceContainer" where
  "dyn_Unregister read_failed service json_failed d =
     ((if read_failed then [ErrorResponse 400] else []) @ (if json_failed then [ErrorResponse 400] else [])
        @ [SuccessResponse],
      dyn_Remove service d)"

text \<open>\<open>Recovery\<close>: each value of the store that decodes is added from a variable of its own.\<close>

definition dyn_Recovery :: "DynamicService option list \<Rightarrow> DynamicServiceContainer \<Rightarrow> DynamicServiceContainer" where
  "dyn_Recovery vals d =
     foldl (\<lambda>d v. case v of None \<Rightarrow> d | Some s \<Rightarrow> dyn_Add (length (dheap d)) (alloc s d)) d vals"

datatype dyn_request =
    GetReq string string
  | PostReq bool "DynamicService list" bool
  | DeleteReq bool DynamicService bool
  | OtherReq

fun dyn_ServeHTTP :: "dyn_request \<Rightarrow> DynamicServiceContainer \<Rightarrow> response list go \<times> DynamicServiceContainer" where
  "dyn_ServeHTTP (GetReq name version) d = dyn_Search name version d"
| "dyn_ServeHTTP (PostReq rf ss jf) d = (let (r, d') = dyn_Register rf ss jf d in (Ret r, d'))"
| "dyn_ServeHTTP (DeleteReq rf s jf) d = (let (r, d') = dyn_Unregister rf s jf d in (Ret r, d'))"
| "dyn_ServeHTTP OtherReq d = (Ret [ErrorResponse 405], d)"

section \<open>Storing the table\<close>

text \<open>The errors of the store are ignored. \<open>marshal\<close> is \<open>json.Marshal\<close>, which does not fail on this type.\<close>

definition store_key :: "string \<Rightarrow> nat \<Rightarrow> string" where
  "store_key pre i = pre @ ''.'' @ Itoa (int i)"

definition store_puts :: "'s kv_api \<Rightarrow> (DynamicService \<Rightarrow> string) \<Rightarrow> string \<Rightarrow> DynamicService list \<Rightarrow> 's \<Rightarrow> 's" where
  "store_puts api marshal pre srv s =
     foldl (\<lambda>s (i, v). snd (kv_Put api (store_key pre i) (marshal v) s)) s (enumerate 0 srv)"

definition store_name :: "'s kv_api \<Rightarrow> (DynamicService \<Rightarrow> string) \<Rightarrow> string \<Rightarrow> DynamicService list \<Rightarrow> 's \<Rightarrow> 's go" where
  "store_name api marshal pre srv s =
     (let s1 = store_puts api marshal pre srv s in
      if srv = [] then Ret s1
      else (let k = store_key pre (length srv - 1)
            in bindg (kv_Iter api pre s1) (\<lambda>(kvs, s2).
                 Ret (foldl (\<lambda>s key. snd (kv_Delete api key s)) s2 (filter (\<lambda>key. \<not> key \<le> k) (map fst kvs))))))"

text \<open>The prefix of the keys is the result of \<open>fmt.Sprintf\<close> with the prefix and the name as its format: \<open>sprintf\<close>.\<close>

definition dyn_Store :: "'s kv_api \<Rightarrow> (string \<Rightarrow> string) \<Rightarrow> (DynamicService \<Rightarrow> string) \<Rightarrow> DynamicServiceContainer \<Rightarrow> 's \<Rightarrow> 's go" where
  "dyn_Store api sprintf marshal d s =
     foldg (\<lambda>s (name, as). store_name api marshal (sprintf (Prefix d @ name)) (map (deref d) as) s) s (Services d)"

section \<open>Well-formed tables\<close>

definition dyn_wf :: "DynamicServiceContainer \<Rightarrow> bool" where
  "dyn_wf d \<longleftrightarrow> distinct (map fst (Services d))
     \<and> (\<forall>name as. map_of (Services d) name = Some as \<longrightarrow>
          distinct (map (\<lambda>a. ds_HostPort (deref d a)) as)
          \<and> (\<forall>a\<in>set as. a < length (dheap d) \<and> ds_Name (deref d a) = name))"

definition hosts :: "DynamicServiceContainer \<Rightarrow> string \<Rightarrow> string set" where
  "hosts d name = (case map_of (Services d) name of None \<Rightarrow> {} | Some as \<Rightarrow> (\<lambda>a. ds_HostPort (deref d a)) ` set as)"

lemma mset_swap_index: "i < length xs \<Longrightarrow> j < length xs \<Longrightarrow> mset (swap i j xs) = mset xs"
  unfolding swap_def by (rule mset_swap)

lemma set_swap_index: "i < length xs \<Longrightarrow> j < length xs \<Longrightarrow> set (swap i j xs) = set xs"
  by (metis mset_swap_index set_mset_mset)

lemma length_swap [simp]: "length (swap i j xs) = length xs"
  by (simp add: swap_def)

lemma distinct_map_swap: "i < length xs \<Longrightarrow> j < length xs \<Longrightarrow> distinct (map f (swap i j xs)) = distinct (map f xs)"
  by (metis mset_swap_index mset_map mset_eq_imp_distinct_iff)

lemma hd_swap: "i < length xs \<Longrightarrow> swap 0 i xs ! 0 = xs ! i"
  by (cases xs; cases i) (auto simp: swap_def)

lemma find_host_Some:
  "find_host d hp as = Some i \<Longrightarrow> i < length as \<and> ds_HostPort (deref d (as ! i)) = hp"
  by (induction as arbitrary: i) (auto split: if_splits)

lemma find_host_None: "find_host d hp as = None \<longleftrightarrow> hp \<notin> (\<lambda>a. ds_HostPort (deref d a)) ` set as"
  by (induction as) auto

lemma find_host_first: "find_host d hp as = Some i \<Longrightarrow> j < i \<Longrightarrow> ds_HostPort (deref d (as ! j)) \<noteq> hp"
proof (induction as arbitrary: i j)
  case (Cons a as)
  then show ?case by (cases j) (auto split: if_splits)
qed simp

lemma notify_simps [simp]:
  "Services (notify d) = Services d" "dheap (notify d) = dheap d" "Prefix (notify d) = Prefix d"
  "OnChange (notify d) = OnChange d" "deref (notify d) = deref d"
  by (auto simp: notify_def deref_def)

lemma deref_update [simp]: "deref (d\<lparr>Services := x\<rparr>) = deref d"
  by (auto simp: deref_def)

lemma deref_alloc: "a < length (dheap d) \<Longrightarrow> deref (alloc s d) a = deref d a"
  by (simp add: deref_def alloc_def nth_append)

lemma deref_alloc_new [simp]: "deref (alloc s d) (length (dheap d)) = s"
  by (simp add: deref_def alloc_def)

lemma alloc_simps [simp]: "Services (alloc s d) = Services d" "dheap (alloc s d) = dheap d @ [s]"
  by (simp_all add: alloc_def)

lemma dyn_wf_alloc: "dyn_wf d \<Longrightarrow> dyn_wf (alloc s d)"
proof -
  assume wf: "dyn_wf d"
  have "map (\<lambda>a. ds_HostPort (deref (alloc s d) a)) as = map (\<lambda>a. ds_HostPort (deref d a)) as"
    if "map_of (Services d) n = Some as" for n as
    using wf that by (intro map_cong) (auto simp: dyn_wf_def deref_alloc)
  moreover have "a < length (dheap d)" if "map_of (Services d) n = Some as" "a \<in> set as" for n as a
    using wf that by (auto simp: dyn_wf_def)
  ultimately show ?thesis using wf
    unfolding dyn_wf_def alloc_simps by (metis deref_alloc length_append_singleton less_SucI)
qed

text \<open>Replacing the list of one name by one with the same properties.\<close>

lemma dyn_wf_put:
  assumes "dyn_wf d" "distinct (map (\<lambda>a. ds_HostPort (deref d a)) as)"
    "\<forall>a\<in>set as. a < length (dheap d) \<and> ds_Name (deref d a) = name"
  shows "dyn_wf (d\<lparr>Services := AList.update name as (Services d)\<rparr>)"
  using assms by (auto simp: dyn_wf_def distinct_update)

lemma dyn_wf_notify [simp]: "dyn_wf (notify d) = dyn_wf d"
  by (simp add: dyn_wf_def)

lemma dyn_Add_other: "n \<noteq> ds_Name (deref d a) \<Longrightarrow> map_of (Services (dyn_Add a d)) n = map_of (Services d) n"
  by (auto simp: dyn_Add_def Let_def split: option.split)

lemma dyn_Add_heap [simp]: "dheap (dyn_Add a d) = dheap d" "deref (dyn_Add a d) = deref d"
  by (auto simp: dyn_Add_def Let_def deref_def split: option.split)

text \<open>What \<open>Add\<close> does to the list of the service's own name.\<close>

lemma dyn_Add_list:
  assumes wf: "dyn_wf d" and a: "a < length (dheap d)"
  obtains xs where "map_of (Services (dyn_Add a d)) (ds_Name (deref d a)) = Some xs" "xs \<noteq> []"
    "ds_HostPort (deref d (xs ! 0)) = ds_HostPort (deref d a)"
    "(\<lambda>a. ds_HostPort (deref d a)) ` set xs = insert (ds_HostPort (deref d a)) (hosts d (ds_Name (deref d a)))"
    "distinct (map (\<lambda>a. ds_HostPort (deref d a)) xs)"
    "\<forall>x\<in>set xs. x < length (dheap d) \<and> ds_Name (deref d x) = ds_Name (deref d a)"
proof -
  let ?n = "ds_Name (deref d a)" and ?h = "ds_HostPort (deref d a)"
  show thesis
  proof (cases "map_of (Services d) ?n")
    case None
    then show thesis by (intro that[of "[a]"]) (auto simp: dyn_Add_def Let_def hosts_def a)
  next
    case (Some as)
    have as: "distinct (map (\<lambda>a. ds_HostPort (deref d a)) as)"
      "\<forall>x\<in>set as. x < length (dheap d) \<and> ds_Name (deref d x) = ?n"
      using wf Some by (auto simp: dyn_wf_def)
    show thesis
    proof (cases "find_host d ?h as")
      case None
      then have new: "?h \<notin> (\<lambda>a. ds_HostPort (deref d a)) ` set as" by (simp add: find_host_None)
      let ?xs = "swap 0 (length as) (as @ [a])"
      have "set ?xs = insert a (set as)" by (subst set_swap_index) auto
      moreover have "distinct (map (\<lambda>a. ds_HostPort (deref d a)) ?xs)"
        by (subst distinct_map_swap) (use as new in auto)
      moreover have "?xs ! 0 = a" by (subst hd_swap) auto
      moreover have "?xs \<noteq> []" by (metis length_swap length_0_conv append_is_Nil_conv list.discI)
      ultimately show thesis using Some None as a
        by (intro that[of ?xs]) (auto simp: dyn_Add_def Let_def hosts_def)
    next
      case (Some i)
      note found = find_host_Some[OF Some]
      let ?xs = "swap 0 i as"
      have s: "set ?xs = set as" "?xs ! 0 = as ! i" using found set_swap_index[of 0 as i] by (cases as; simp add: hd_swap)+
      have d: "distinct (map (\<lambda>a. ds_HostPort (deref d a)) ?xs)"
        by (subst distinct_map_swap) (use as found in auto)
      have ne: "?xs \<noteq> []" using found by (metis length_swap length_0_conv not_less_zero)
      have mem: "?h \<in> (\<lambda>a. ds_HostPort (deref d a)) ` set as" using found by (metis image_eqI nth_mem)
      have "map_of (Services (dyn_Add a d)) ?n = Some ?xs"
        using \<open>map_of (Services d) ?n = Some as\<close> Some
        by (cases i) (auto simp: dyn_Add_def Let_def swap_def)
      then show thesis using that[of ?xs] s d ne found mem as \<open>map_of (Services d) ?n = Some as\<close>
        by (auto simp: hosts_def)
    qed
  qed
qed

lemma dyn_Add_keys: "distinct (map fst (Services d)) \<Longrightarrow> distinct (map fst (Services (dyn_Add a d)))"
  by (auto simp: dyn_Add_def Let_def distinct_update split: option.split)

lemma dyn_wf_Add:
  assumes "dyn_wf d" "a < length (dheap d)"
  shows "dyn_wf (dyn_Add a d)"
proof -
  obtain xs where xs: "map_of (Services (dyn_Add a d)) (ds_Name (deref d a)) = Some xs"
    "distinct (map (\<lambda>a. ds_HostPort (deref d a)) xs)"
    "\<forall>x\<in>set xs. x < length (dheap d) \<and> ds_Name (deref d x) = ds_Name (deref d a)"
    by (rule dyn_Add_list[OF assms])
  have "distinct (map (\<lambda>a. ds_HostPort (deref d a)) as)
      \<and> (\<forall>x\<in>set as. x < length (dheap d) \<and> ds_Name (deref d x) = n)"
    if "map_of (Services (dyn_Add a d)) n = Some as" for n as
    using that xs assms(1) dyn_Add_other[of n d a]
    by (cases "n = ds_Name (deref d a)") (auto simp: dyn_wf_def)
  then show ?thesis using dyn_Add_keys assms(1) by (auto simp: dyn_wf_def)
qed

text \<open>C29. Adding a service, in a variable of its own, to a well-formed table: the table stays well formed (no
  address twice under a name, every entry under its own name), the first entry of the name then
  has the service's address, the addresses of the name are the old ones and this one, and no other name changes.\<close>

theorem dyn_Add_service:
  assumes "dyn_wf d" and "d' = dyn_Add (length (dheap d)) (alloc s d)"
  shows "dyn_wf d' \<and> hosts d' (ds_Name s) = insert (ds_HostPort s) (hosts d (ds_Name s))
    \<and> (\<exists>a as. map_of (Services d') (ds_Name s) = Some (a # as) \<and> ds_HostPort (deref d' a) = ds_HostPort s)
    \<and> (\<forall>n. n \<noteq> ds_Name s \<longrightarrow> map_of (Services d') n = map_of (Services d) n)"
proof -
  define e where "e = alloc s d"
  have wf: "dyn_wf e" using assms(1) by (simp add: e_def dyn_wf_alloc)
  have a: "length (dheap d) < length (dheap e)" by (simp add: e_def)
  have s: "deref e (length (dheap d)) = s" by (simp add: e_def)
  obtain xs where xs: "map_of (Services d') (ds_Name s) = Some xs" "xs \<noteq> []"
    "ds_HostPort (deref e (xs ! 0)) = ds_HostPort s"
    "(\<lambda>a. ds_HostPort (deref e a)) ` set xs = insert (ds_HostPort s) (hosts e (ds_Name s))"
    by (rule dyn_Add_list[OF wf a]) (auto simp: s assms(2) e_def[symmetric])
  have "hosts e (ds_Name s) = hosts d (ds_Name s)"
    using assms(1) by (force simp: hosts_def e_def dyn_wf_def deref_alloc split: option.split)
  then have "hosts d' (ds_Name s) = insert (ds_HostPort s) (hosts d (ds_Name s))"
    using xs(1,4) by (simp add: hosts_def assms(2) e_def[symmetric])
  moreover have "\<exists>a as. map_of (Services d') (ds_Name s) = Some (a # as) \<and> ds_HostPort (deref d' a) = ds_HostPort s"
    using xs by (cases xs) (auto simp: assms(2) e_def[symmetric])
  moreover have "map_of (Services d') n = map_of (Services d) n" if "n \<noteq> ds_Name s" for n
    using that dyn_Add_other[of n e "length (dheap d)"] s by (simp add: assms(2) e_def)
  ultimately show ?thesis using dyn_wf_Add[OF wf a] by (auto simp: assms(2) e_def)
qed

section \<open>Registration keeps the last service only\<close>

lemma register_round:
  assumes "dheap d = h @ [t]" "map_of (Services d) = (\<lambda>n. if n \<in> N then Some [length h] else None)"
  shows "dheap (register_one (length h) d s) = h @ [s]"
    "map_of (Services (register_one (length h) d s)) = (\<lambda>n. if n \<in> insert (ds_Name s) N then Some [length h] else None)"
proof -
  let ?e = "d\<lparr>dheap := h @ [s]\<rparr>"
  have e: "d\<lparr>dheap := (dheap d)[length h := s]\<rparr> = ?e" by (simp add: assms(1))
  have r: "deref ?e (length h) = s" by (simp add: deref_def)
  show "dheap (register_one (length h) d s) = h @ [s]" by (simp add: register_one_def e)
  show "map_of (Services (register_one (length h) d s)) = (\<lambda>n. if n \<in> insert (ds_Name s) N then Some [length h] else None)"
    using assms(2) r by (auto simp: register_one_def e dyn_Add_def Let_def split: option.split if_splits)
qed

lemma register_rounds:
  assumes "dheap d = h @ [t]" "map_of (Services d) = (\<lambda>n. if n \<in> N then Some [length h] else None)"
  shows "dheap (foldl (register_one (length h)) d ss) = h @ [if ss = [] then t else last ss]
    \<and> map_of (Services (foldl (register_one (length h)) d ss)) =
        (\<lambda>n. if n \<in> N \<union> ds_Name ` set ss then Some [length h] else None)"
  using assms
proof (induction ss arbitrary: d t N)
  case (Cons s ss)
  from Cons.IH[OF register_round(1,2)[OF Cons.prems], of s] show ?case by auto
qed simp

text \<open>Registering several services in one request with an empty table: every name of the request then
  has one entry, and all of them are the same object, which holds the last service of the
  request (the address of the loop variable is stored). All other services of the request are lost.\<close>

theorem Register_keeps_last:
  assumes "Services d = []" and "ss \<noteq> []" and "(r, d') = dyn_Register False ss False d"
  shows "map_of (Services d') =
      (\<lambda>n. if n \<in> ds_Name ` set ss then Some [length (dheap d)] else None)
    \<and> deref d' (length (dheap d)) = last ss \<and> r = [SuccessResponse]"
proof -
  have d': "d' = foldl (register_one (length (dheap d))) (alloc empty_service d) ss" "r = [SuccessResponse]"
    using assms(3) by (simp_all add: dyn_Register_def)
  have "map_of (Services (alloc empty_service d)) = (\<lambda>n. if n \<in> {} then Some [length (dheap d)] else None)"
    using assms(1) by simp
  note register_rounds[OF alloc_simps(2) this, of ss]
  then show ?thesis using d' assms(2) by (simp add: deref_def)
qed

section \<open>The search by version\<close>

lemma partition_all_match:
  "\<forall>x\<in>set xs. match x \<Longrightarrow> left \<le> n \<Longrightarrow> n < length xs \<Longrightarrow> partition_loop match xs left (int n) = (xs, n)"
proof (induction "n - left" arbitrary: left)
  case 0
  then show ?case by (subst partition_loop.simps) simp
next
  case (Suc k)
  then have "left < n" by simp
  moreover have "match (xs ! left)" using Suc.prems \<open>left < n\<close> by simp
  ultimately show ?case using Suc.hyps(1)[of "left + 1"] Suc by (subst partition_loop.simps) simp
qed

text \<open>When every service of a name has the version that is searched for, the answer lacks the last
  one; when there is none, the handler panics.\<close>

theorem Search_version_drops_last:
  assumes "name \<noteq> []" and "version \<noteq> []" and "map_of (Services d) name = Some as"
    and "\<forall>a\<in>set as. ds_Version (deref d a) = version"
  shows "fst (dyn_Search name version d) =
    (if as = [] then Panic
     else Ret [ResultsResponse (map (deref d) (butlast as)) (int (length as) - 1)])"
proof (cases "as = []")
  case True
  then show ?thesis using assms
    by (simp add: dyn_Search_def Let_def select_version_def partition_loop.simps[of _ "[]"])
next
  case False
  then have l: "int (length as) - 1 = int (length as - 1)" "length as - 1 < length as"
    by (cases as; simp)+
  have p: "partition_loop (\<lambda>a. ds_Version (deref d a) = version) as 0 (int (length as) - 1) = (as, length as - 1)"
    unfolding l(1) by (rule partition_all_match) (use assms(4) l(2) in auto)
  have "ds_Version (deref d (as ! (length as - 1))) = version" using assms(4) l(2) by simp
  moreover have "(length as \<le> length as - Suc 0) = False" using False by (cases as) auto
  ultimately show ?thesis using assms(1,2,3) False l
    by (simp add: dyn_Search_def Let_def select_version_def p butlast_conv_take)
qed

text \<open>Concrete tables for the theorems above.\<close>

definition svc :: "string \<Rightarrow> string \<Rightarrow> string \<Rightarrow> DynamicService" where
  "svc n h v = \<lparr>ds_Name = n, ds_HostPort = h, ds_Version = v, ds_HealthCheck = [], ds_URLPatterns = []\<rparr>"

definition sample_table :: DynamicServiceContainer where
  "sample_table = \<lparr>dheap = [svc ''a'' ''h1'' ''1'', svc ''a'' ''h2'' ''1''], Services = [(''a'', [0, 1])],
     OnChange = True, changes = 0, Prefix = ''ds-''\<rparr>"

lemma sample_table_wf: "dyn_wf sample_table"
  by (auto simp: dyn_wf_def sample_table_def deref_def svc_def split: if_splits)

theorem dyn_Add_service_witness:
  "hosts (dyn_Add 2 (alloc (svc ''a'' ''h3'' ''2'') sample_table)) ''a'' = {''h1'', ''h2'', ''h3''}"
proof -
  have l: "length (dheap sample_table) = 2" by (simp add: sample_table_def)
  have "hosts sample_table ''a'' = {''h1'', ''h2''}" by (simp add: hosts_def sample_table_def deref_def svc_def)
  then show ?thesis
    using dyn_Add_service[OF sample_table_wf refl, of "svc ''a'' ''h3'' ''2''"]
    by (auto simp: l svc_def)
qed

theorem Register_keeps_last_witness:
  "map_of (Services (snd (dyn_Register False [svc ''a'' ''h1'' ''1'', svc ''b'' ''h2'' ''2''] False NewDynamicServiceContainer))) ''a'' = Some [0]
   \<and> deref (snd (dyn_Register False [svc ''a'' ''h1'' ''1'', svc ''b'' ''h2'' ''2''] False NewDynamicServiceContainer)) 0 = svc ''b'' ''h2'' ''2''"
proof -
  let ?ss = "[svc ''a'' ''h1'' ''1'', svc ''b'' ''h2'' ''2'']" and ?d = NewDynamicServiceContainer
  have "Services ?d = []" "dheap ?d = []" by (simp_all add: NewDynamicServiceContainer_def)
  then show ?thesis
    using Register_keeps_last[of ?d ?ss "fst (dyn_Register False ?ss False ?d)" "snd (dyn_Register False ?ss False ?d)"]
    by (simp add: svc_def)
qed

theorem Search_version_drops_last_witness:
  "fst (dyn_Search ''a'' ''1'' sample_table) = Ret [ResultsResponse [svc ''a'' ''h1'' ''1''] 1]"
proof -
  have "map_of (Services sample_table) ''a'' = Some [0, 1]"
    "\<forall>a\<in>set [0, 1]. ds_Version (deref sample_table a) = ''1''"
    by (simp_all add: sample_table_def deref_def svc_def)
  from Search_version_drops_last[OF _ _ this] show ?thesis
    by (simp add: sample_table_def deref_def)
qed

text \<open>
  A service that does not match may be returned: the loop does not look at what it swaps in.
\<close>

lemma Search_version_wrong_service:
  "fst (dyn_Search ''a'' ''1''
     \<lparr>dheap = [svc ''a'' ''h1'' ''2'', svc ''a'' ''h2'' ''1'', svc ''a'' ''h3'' ''3''], Services = [(''a'', [0, 1, 2])],
       OnChange = False, changes = 0, Prefix = ''ds-''\<rparr>) =
   Ret [ResultsResponse [svc ''a'' ''h3'' ''3''] 1]"
  by (simp add: dyn_Search_def select_version_def partition_loop.simps deref_def svc_def swap_def)

section \<open>What is stored\<close>

text \<open>A store whose writes and deletions do not fail.\<close>

locale reliable_store = kv_store +
  assumes Put_succeeds: "ready s \<Longrightarrow> fst (kv_Put api k v s) = None"
    and Delete_succeeds: "ready s \<Longrightarrow> fst (kv_Delete api k s) = None"
begin

lemma Put_effect: "ready s \<Longrightarrow> ready (snd (kv_Put api k v s)) \<and> lookup (snd (kv_Put api k v s)) = (lookup s)(k \<mapsto> v)"
  using Put_ready lookup_Put Put_succeeds by (metis prod.collapse)

lemma Delete_effect: "ready s \<Longrightarrow> ready (snd (kv_Delete api k s)) \<and> lookup (snd (kv_Delete api k s)) = (lookup s)(k := None)"
  using Delete_ready lookup_Delete Delete_succeeds by (metis prod.collapse)

lemma lookup_Deletes:
  "ready s \<Longrightarrow> lookup (foldl (\<lambda>s k. snd (kv_Delete api k s)) s ks) = (\<lambda>k. if k \<in> set ks then None else lookup s k)"
  by (induction ks arbitrary: s) (auto simp: Delete_effect)

lemma puts_ready: "ready s \<Longrightarrow> ready (foldl (\<lambda>s (i, v). snd (kv_Put api (f i) (g v) s)) s ivs)"
  by (induction ivs arbitrary: s) (auto simp: Put_effect split: prod.splits)

lemma lookup_puts_from:
  "inj (store_key pre) \<Longrightarrow> ready s \<Longrightarrow>
   lookup (foldl (\<lambda>s (i, v). snd (kv_Put api (store_key pre i) (marshal v) s)) s (enumerate n srv)) (store_key pre i) =
   (if n \<le> i \<and> i < n + length srv then Some (marshal (srv ! (i - n))) else lookup s (store_key pre i))"
proof (induction srv arbitrary: s n)
  case (Cons v srv)
  have "(store_key pre i = store_key pre n) = (i = n)" using Cons.prems(1) by (rule inj_eq)
  with Cons show ?case by (auto simp: Put_effect nth_Cons')
qed auto

lemma lookup_puts:
  "inj (store_key pre) \<Longrightarrow> ready s \<Longrightarrow> lookup (store_puts api marshal pre srv s) (store_key pre i) =
   (if i < length srv then Some (marshal (srv ! i)) else lookup s (store_key pre i))"
  by (simp add: store_puts_def lookup_puts_from)

lemma lookup_store_name:
  assumes "inj (store_key pre)" "srv \<noteq> []" "ready s"
  shows "\<exists>s'. store_name api marshal pre srv s = Ret s' \<and> lookup s' (store_key pre i) =
    (if store_key pre i \<le> store_key pre (length srv - 1)
     then (if i < length srv then Some (marshal (srv ! i)) else lookup s (store_key pre i)) else None)"
proof -
  let ?s1 = "store_puts api marshal pre srv s" and ?k = "store_key pre (length srv - 1)"
  have r: "ready ?s1" unfolding store_puts_def by (rule puts_ready[OF assms(3)])
  obtain kvs where kvs: "kv_Iter api pre ?s1 = Ret (kvs, ?s1)" "fst ` set kvs = {k. has_prefix k pre \<and> lookup ?s1 k \<noteq> None}"
    using Iter_keys[OF r] by blast
  have "has_prefix (store_key pre i) pre" by (simp add: store_key_def)
  then have mem: "store_key pre i \<in> fst ` set kvs \<longleftrightarrow> lookup ?s1 (store_key pre i) \<noteq> None" by (simp add: kvs(2))
  have "lookup (foldl (\<lambda>s key. snd (kv_Delete api key s)) ?s1 (filter (\<lambda>key. \<not> key \<le> ?k) (map fst kvs))) (store_key pre i) =
      (if store_key pre i \<in> fst ` set kvs \<and> \<not> store_key pre i \<le> ?k then None else lookup ?s1 (store_key pre i))"
    by (simp add: lookup_Deletes[OF r])
  then show ?thesis using mem assms(2) kvs(1)
    by (auto simp: store_name_def Let_def lookup_puts[OF assms(1,3)])
qed

end

lemma store_key_inj: "inj (store_key pre)"
proof (rule injI)
  fix i j assume "store_key pre i = store_key pre j"
  then have "parse_int (Itoa (int i)) = parse_int (Itoa (int j))" by (simp add: store_key_def)
  then show "i = j" by simp
qed

lemma append_le_append: "(p @ x \<le> p @ y) = (x \<le> (y :: string))"
  by (induction p) auto

lemma Itoa_digit: "i < 10 \<Longrightarrow> Itoa (int i) = [digit_char i]"
  by (simp add: Itoa_def show_nat.simps[of i])

lemma digit_char_order:
  assumes "i < 10" "j < 10"
  shows "(digit_char i < digit_char j) = (i < j)" "(digit_char i = digit_char j) = (i = j)"
proof -
  show "(digit_char i < digit_char j) = (i < j)" using assms by (simp add: digit_char_def less_char_def)
  show "(digit_char i = digit_char j) = (i = j)"
    using assms digit_val_digit_char by (metis option.inject)
qed

lemma store_key_le: "i < 10 \<Longrightarrow> j < 10 \<Longrightarrow> (store_key pre i \<le> store_key pre j) = (i \<le> j)"
  by (auto simp: store_key_def append_le_append Itoa_digit digit_char_order)

text \<open>The key of the eleventh entry comes before those of the third to the tenth.\<close>

lemma store_key_ten: "2 \<le> i \<Longrightarrow> i < 10 \<Longrightarrow> \<not> store_key pre i \<le> store_key pre 10"
proof -
  assume i: "2 \<le> i" "i < 10"
  have "Itoa (int 10) = [digit_char 1, digit_char 0]"
    by (simp add: Itoa_def show_nat.simps[of 10] show_nat.simps[of "Suc 0"])
  moreover have "\<not> digit_char i < digit_char 1" "digit_char i \<noteq> digit_char 1"
    using i digit_char_order[of i 1] by simp_all
  ultimately show ?thesis using i by (simp add: store_key_def append_le_append Itoa_digit)
qed

text \<open>On an open store that does not fail, storing the services of a name, at most ten, leaves under its keys
  exactly these services: the entries of an earlier, longer list are gone.\<close>

theorem store_name_exact:
  assumes "reliable_store api ready lookup" and "ready s" and "srv \<noteq> []" and "length srv \<le> 10" and "i < 10"
  shows "\<exists>s'. store_name api marshal pre srv s = Ret s' \<and> lookup s' (store_key pre i) =
    (if i < length srv then Some (marshal (srv ! i)) else None)"
proof -
  have "(store_key pre i \<le> store_key pre (length srv - 1)) = (i \<le> length srv - 1)"
    using assms by (intro store_key_le) auto
  moreover have "i \<le> length srv - 1 \<longleftrightarrow> i < length srv" using assms(3) by (cases srv) auto
  ultimately show ?thesis
    using reliable_store.lookup_store_name[OF assms(1) store_key_inj assms(3,2), of marshal pre i] by (simp split: if_splits)
qed

text \<open>With eleven services the third to the tenth are deleted right after they were written.\<close>

lemma store_name_eleven:
  assumes "reliable_store api ready lookup" "ready s" "length srv = 11" "2 \<le> i" "i < 10"
  shows "\<exists>s'. store_name api marshal pre srv s = Ret s' \<and> lookup s' (store_key pre i) = None"
proof -
  have "srv \<noteq> []" using assms(3) by auto
  from reliable_store.lookup_store_name[OF assms(1) store_key_inj this assms(2), of marshal pre i] assms(3)
    store_key_ten[OF assms(4,5)] show ?thesis by simp
qed

text \<open>The LevelDB in memory does not fail on a path that is not bad.\<close>

interpretation mem_ok: reliable_store "level_api (mem_leveldb [])" ls_DB "level_lookup (\<lambda>f w. map_of (mem_db f w))"
  by unfold_locales (auto simp: level_api_def store_Put_def store_Delete_def store_db_def mem_leveldb_def)

definition demo_disk :: "(string, string) gomap \<Rightarrow> (string, (string, string) gomap) gomap LevelDBStore" where
  "demo_disk m = \<lparr>ls_DB = True, ls_File = ''gateway.db'', ls_disk = [(''gateway.db'', m)]\<rparr>"

theorem store_name_exact_witness:
  "\<exists>s'. store_name (level_api (mem_leveldb [])) ds_HostPort ''ds-a'' [svc ''a'' ''h1'' ''1''] (demo_disk [(''ds-a.1'', ''h2'')]) = Ret s'
    \<and> level_lookup (\<lambda>f w. map_of (mem_db f w)) s' (store_key ''ds-a'' 1) = None"
  using store_name_exact[OF mem_ok.reliable_store_axioms, of "demo_disk [(''ds-a.1'', ''h2'')]" "[svc ''a'' ''h1'' ''1'']" 1 ds_HostPort "''ds-a''"]
  by (simp add: demo_disk_def)

text \<open>Storing the services of the name \<open>a\<close> deletes those of a name that begins with it.\<close>

lemma store_name_deletes_longer_name:
  "store_name (level_api (mem_leveldb [])) ds_HostPort ''ds-a'' [svc ''a'' ''h1'' ''1''] (demo_disk [(''ds-ab.0'', ''h2'')])
    = Ret (demo_disk [(''ds-a.0'', ''h1'')])"
  by code_simp

end
