(* ===== verification/Gateway.thy ===== *)
theory Gateway
  imports GoPrelude
begin

text \<open>
  The gateway's options and its reverse proxy, \<open>gateway/option/option.go\<close> (\<open>Decode\<close>) and
  \<open>gateway/serve/reverse.go\<close>, and the configuration text of the built-in programs,
  \<open>management/programmanage/method.go\<close>. The decoding of TOML, \<open>url.Parse\<close> and the regular expressions are
  arguments.
\<close>

section \<open>The mode of the socket\<close>

text \<open>What \<open>Decode\<close> makes of \<open>SocketMode\<close>; numbers are \<open>uint\<close>, and no step can overflow.\<close>

definition socket_mode :: "nat \<Rightarrow> nat" where
  "socket_mode m =
     (if m > 0
      then (if m < 448 then 448
            else if m \<ge> 700 \<and> m < 1000 then (m div 100) * 64 + (m div 10) mod 10 * 8 + m mod 10
            else m)
      else m)"

text \<open>The number whose octal digits are the three decimal digits of \<open>m\<close>, first digit first.\<close>

fun octal_value :: "nat list \<Rightarrow> nat" where
  "octal_value ds = foldl (\<lambda>a d. 8 * a + d) 0 ds"

lemma socket_mode_octal:
  assumes "a = 7" "b < 8" "c < 8"
  shows "socket_mode (100 * a + 10 * b + c) = octal_value [a, b, c]"
proof -
  have "\<forall>b\<in>set [0..<8]. \<forall>c\<in>set [0..<8]. socket_mode (100 * 7 + 10 * b + c) = octal_value [7, b, c]"
    by code_simp
  with assms show ?thesis by auto
qed

lemma socket_mode_least: "0 < m \<Longrightarrow> 448 \<le> socket_mode m"
  using div_le_mono[of 700 m 100] by (auto simp: socket_mode_def)

text \<open>The comparison is of numbers: octal 1000, which gives nobody any right, is kept.\<close>

lemma socket_mode_sticky: "socket_mode 512 = 512"
  by (simp add: socket_mode_def)

section \<open>The reverse proxy\<close>

record Service =
  LocalOnly :: bool
  MasterOnly :: bool
  Proxy :: string

record Route =
  route_Name :: string
  ReplaceMent :: string
  Matcher :: string

record ProxyServerConfig =
  MasterProxy :: string
  cfg_Services :: "(string, Service) gomap"
  cfg_Routes :: "Route list"

text \<open>\<open>None\<close> stands for the nil pointer that a failed parse or compilation leaves.\<close>

record 'u proxy_service =
  ps_Service :: Service
  proxyURL :: "'u option"

record proxy_route =
  pr_Route :: Route
  pr_matcher :: "(string \<Rightarrow> bool) option"

record 'u ReverseProxyHandler =
  rp_Proxy :: 'u
  rp_Services :: "(string, 'u proxy_service) gomap"
  rp_Routes :: "proxy_route list"

text \<open>\<open>httputil.NewSingleHostReverseProxy\<close> reads its argument at once, so a nil one panics.\<close>

definition CreateReverseProxyFromOpion ::
  "(string \<Rightarrow> 'u option) \<Rightarrow> (string \<Rightarrow> (string \<Rightarrow> bool) option) \<Rightarrow> ProxyServerConfig \<Rightarrow> 'u ReverseProxyHandler go" where
  "CreateReverseProxyFromOpion parse compile opt =
     (case parse (MasterProxy opt) of
        None \<Rightarrow> Panic
      | Some u \<Rightarrow> Ret \<lparr>rp_Proxy = u,
          rp_Services = map (\<lambda>(k, srv). (k, \<lparr>ps_Service = srv, proxyURL = (if MasterOnly srv then None else parse (Proxy srv))\<rparr>))
            (cfg_Services opt),
          rp_Routes = map (\<lambda>r. \<lparr>pr_Route = r, pr_matcher = compile (Matcher r)\<rparr>) (cfg_Routes opt)\<rparr>)"

record proxy_request =
  rq_Path :: string
  rq_ToMaster :: string
  rq_RouteGateway :: string

datatype 'u proxy_answer = ToMaster 'u string | ToService 'u string | NotFoundAnswer

text \<open>\<open>strings.Replace(path, "/internalapi", "/api", 1)\<close>.\<close>

definition internal_path :: "string \<Rightarrow> string" where
  "internal_path path = (case index_of path ''/internalapi'' of
       None \<Rightarrow> path
     | Some i \<Rightarrow> take i path @ ''/api'' @ drop (i + length ''/internalapi'') path)"

fun serve_routes :: "'u ReverseProxyHandler \<Rightarrow> bool \<Rightarrow> string \<Rightarrow> proxy_route list \<Rightarrow> 'u proxy_answer go" where
  "serve_routes h localOnly path [] = Ret NotFoundAnswer"
| "serve_routes h localOnly path (r # rs) =
     (case pr_matcher r of
        None \<Rightarrow> Panic
      | Some match \<Rightarrow>
          (if match path
           then (case map_of (rp_Services h) (route_Name (pr_Route r)) of
               None \<Rightarrow> serve_routes h localOnly path rs
             | Some srv \<Rightarrow>
                 (if \<not> localOnly \<and> MasterOnly (ps_Service srv) then Ret (ToMaster (rp_Proxy h) path)
                  else (case proxyURL srv of None \<Rightarrow> Panic | Some u \<Rightarrow> Ret (ToService u (internal_path path)))))
           else serve_routes h localOnly path rs))"

definition proxy_ServeHTTP :: "proxy_request \<Rightarrow> 'u ReverseProxyHandler \<Rightarrow> 'u proxy_answer go" where
  "proxy_ServeHTTP rq h =
     (if rq_ToMaster rq \<noteq> [] then Ret (ToMaster (rp_Proxy h) (rq_Path rq))
      else serve_routes h (rq_RouteGateway rq \<noteq> []) (rq_Path rq) (rp_Routes h))"

text \<open>
  What the configuration says: the first route whose expression matches and whose service is
  configured; to the master when the service is the master's only, else to the service's address.
\<close>

definition first_route :: "(string \<Rightarrow> 'u option) \<Rightarrow> (string \<Rightarrow> (string \<Rightarrow> bool) option) \<Rightarrow> ProxyServerConfig \<Rightarrow> string \<Rightarrow> Route list \<Rightarrow> 'u proxy_answer" where
  "first_route parse compile opt path rs =
     (case find (\<lambda>r. the (compile (Matcher r)) path \<and> map_of (cfg_Services opt) (route_Name r) \<noteq> None) rs of
        None \<Rightarrow> NotFoundAnswer
      | Some r \<Rightarrow> (let srv = the (map_of (cfg_Services opt) (route_Name r)) in
          if MasterOnly srv then ToMaster (the (parse (MasterProxy opt))) path
          else ToService (the (parse (Proxy srv))) (internal_path path)))"

definition route_spec :: "(string \<Rightarrow> 'u option) \<Rightarrow> (string \<Rightarrow> (string \<Rightarrow> bool) option) \<Rightarrow> ProxyServerConfig \<Rightarrow> string \<Rightarrow> 'u proxy_answer" where
  "route_spec parse compile opt path = first_route parse compile opt path (cfg_Routes opt)"

text \<open>A configuration all of whose addresses and expressions are understood.\<close>

definition proxy_config_ok :: "(string \<Rightarrow> 'u option) \<Rightarrow> (string \<Rightarrow> (string \<Rightarrow> bool) option) \<Rightarrow> ProxyServerConfig \<Rightarrow> bool" where
  "proxy_config_ok parse compile opt \<longleftrightarrow> parse (MasterProxy opt) \<noteq> None
     \<and> (\<forall>r\<in>set (cfg_Routes opt). compile (Matcher r) \<noteq> None)
     \<and> (\<forall>(k, srv)\<in>set (cfg_Services opt). MasterOnly srv \<or> parse (Proxy srv) \<noteq> None)"

lemma map_of_services:
  "map_of (map (\<lambda>(k, srv). (k, f srv)) m) k = map_option f (map_of m k)"
  by (induction m) auto

lemma serve_routes_spec:
  assumes h: "rp_Services h = map (\<lambda>(k, srv). (k, \<lparr>ps_Service = srv, proxyURL = (if MasterOnly srv then None else parse (Proxy srv))\<rparr>)) (cfg_Services opt)"
    and p: "rp_Proxy h = the (parse (MasterProxy opt))"
    and c: "\<forall>r\<in>set rs. compile (Matcher r) \<noteq> None"
    and s: "\<forall>(k, srv)\<in>set (cfg_Services opt). MasterOnly srv \<or> parse (Proxy srv) \<noteq> None"
  shows "serve_routes h False path (map (\<lambda>r. \<lparr>pr_Route = r, pr_matcher = compile (Matcher r)\<rparr>) rs) =
    Ret (first_route parse compile opt path rs)"
  using c
proof (induction rs)
  case Nil
  then show ?case by (simp add: first_route_def)
next
  case (Cons r rs)
  obtain match where m: "compile (Matcher r) = Some match" using Cons.prems by auto
  have srv: "MasterOnly srv \<or> parse (Proxy srv) \<noteq> None" if "map_of (cfg_Services opt) k = Some srv" for k srv
    using s map_of_SomeD[OF that] by auto
  show ?case
  proof (cases "match path \<and> map_of (cfg_Services opt) (route_Name r) \<noteq> None")
    case True
    then obtain sv where sv: "map_of (cfg_Services opt) (route_Name r) = Some sv" by auto
    with True m srv[OF sv] h p show ?thesis by (auto simp: first_route_def map_of_services)
  next
    case False
    then have "first_route parse compile opt path (r # rs) = first_route parse compile opt path rs"
      using m by (auto simp: first_route_def)
    with False Cons m h show ?thesis by (auto simp: map_of_services split: option.split)
  qed
qed

text \<open>C35. With a configuration all of whose addresses and expressions are understood, the proxy built from
  it never panics on a request without the gateway header, and answers as the configuration says:
  to the master when the request asks for it, else by the first route that matches and has a service.\<close>

theorem reverse_proxy_routes:
  assumes "proxy_config_ok parse compile opt" and "rq_RouteGateway rq = []"
  shows "bindg (CreateReverseProxyFromOpion parse compile opt) (proxy_ServeHTTP rq) =
    Ret (if rq_ToMaster rq \<noteq> [] then ToMaster (the (parse (MasterProxy opt))) (rq_Path rq)
         else route_spec parse compile opt (rq_Path rq))"
proof -
  obtain u where u: "parse (MasterProxy opt) = Some u" using assms(1) by (auto simp: proxy_config_ok_def)
  define h where "h = \<lparr>rp_Proxy = u,
    rp_Services = map (\<lambda>(k, srv). (k, \<lparr>ps_Service = srv, proxyURL = (if MasterOnly srv then None else parse (Proxy srv))\<rparr>)) (cfg_Services opt),
    rp_Routes = map (\<lambda>r. \<lparr>pr_Route = r, pr_matcher = compile (Matcher r)\<rparr>) (cfg_Routes opt)\<rparr>"
  have "CreateReverseProxyFromOpion parse compile opt = Ret h" by (simp add: CreateReverseProxyFromOpion_def u h_def)
  moreover have "serve_routes h False (rq_Path rq) (rp_Routes h) = Ret (route_spec parse compile opt (rq_Path rq))"
    using serve_routes_spec[of h parse opt "cfg_Routes opt" compile "rq_Path rq"] assms(1) u
    by (simp add: h_def proxy_config_ok_def route_spec_def)
  ultimately show ?thesis using assms(2) u by (simp add: proxy_ServeHTTP_def h_def)
qed

definition sample_proxy :: ProxyServerConfig where
  "sample_proxy = \<lparr>MasterProxy = ''m'', cfg_Services = [(''a'', \<lparr>LocalOnly = False, MasterOnly = False, Proxy = ''pa''\<rparr>),
      (''b'', \<lparr>LocalOnly = False, MasterOnly = True, Proxy = ''''\<rparr>)],
     cfg_Routes = [\<lparr>route_Name = ''x'', ReplaceMent = '''', Matcher = ''/''\<rparr>, \<lparr>route_Name = ''a'', ReplaceMent = '''', Matcher = ''/internalapi''\<rparr>,
       \<lparr>route_Name = ''b'', ReplaceMent = '''', Matcher = ''/''\<rparr>]\<rparr>"

theorem reverse_proxy_routes_witness:
  "bindg (CreateReverseProxyFromOpion Some (\<lambda>p. Some (\<lambda>s. has_prefix s p)) sample_proxy)
     (proxy_ServeHTTP \<lparr>rq_Path = ''/internalapi/v1'', rq_ToMaster = [], rq_RouteGateway = []\<rparr>) = Ret (ToService ''pa'' ''/api/v1'')"
proof -
  have "proxy_config_ok Some (\<lambda>p. Some (\<lambda>s. has_prefix s p)) sample_proxy" by (simp add: proxy_config_ok_def sample_proxy_def)
  moreover have "route_spec Some (\<lambda>p. Some (\<lambda>s. has_prefix s p)) sample_proxy ''/internalapi/v1'' = ToService ''pa'' ''/api/v1''"
    by code_simp
  ultimately show ?thesis
    using reverse_proxy_routes[of Some "\<lambda>p. Some (\<lambda>s. has_prefix s p)" sample_proxy
        "\<lparr>rq_Path = ''/internalapi/v1'', rq_ToMaster = [], rq_RouteGateway = []\<rparr>"] by simp
qed

text \<open>A request with the gateway header for a service of the master makes the handler panic.\<close>

lemma gateway_header_panics:
  "serve_routes \<lparr>rp_Proxy = ''m'', rp_Services = [(''b'', \<lparr>ps_Service = \<lparr>LocalOnly = False, MasterOnly = True, Proxy = ''''\<rparr>, proxyURL = None\<rparr>)],
      rp_Routes = []\<rparr> True ''/'' [\<lparr>pr_Route = \<lparr>route_Name = ''b'', ReplaceMent = '''', Matcher = ''/''\<rparr>, pr_matcher = Some (\<lambda>s. True)\<rparr>] = Panic"
  by simp

section \<open>The built-in programs\<close>

text \<open>The global variables: the base text, the settings so far, and the table of the programs' texts.\<close>

record program_texts =
  ProgramMconfig :: string
  ProgramSetting :: string
  BaseDepend :: string
  DependOnBase :: string
  ProgramCfgMap :: "(string, string) gomap"

definition GetJxConfig :: "program_texts \<Rightarrow> string" where
  "GetJxConfig t = ProgramMconfig t @ ProgramSetting t @ BaseDepend t"

definition GetBaseConfig :: "program_texts \<Rightarrow> string" where
  "GetBaseConfig t = ProgramMconfig t"

definition AddToStart :: "string \<Rightarrow> program_texts \<Rightarrow> program_texts" where
  "AddToStart name t = (case map_of (ProgramCfgMap t) name of
       None \<Rightarrow> t
     | Some cfg \<Rightarrow> t\<lparr>ProgramSetting := ProgramSetting t @ cfg\<rparr>)"

definition AddDependStart :: "string \<Rightarrow> program_texts \<Rightarrow> program_texts" where
  "AddDependStart name t = (case map_of (ProgramCfgMap t) name of
       None \<Rightarrow> t
     | Some cfg \<Rightarrow>
         (let ls = split_char (CHR 0x0A) cfg
          in t\<lparr>ProgramSetting := ProgramSetting t @ join_with [CHR 0x0A] ([hd ls, DependOnBase t] @ tl ls)\<rparr>))"

lemma AddToStart_all:
  "GetJxConfig (foldl (\<lambda>t n. AddToStart n t) t names) =
   ProgramMconfig t @ ProgramSetting t @ concat (List.map_filter (map_of (ProgramCfgMap t)) names) @ BaseDepend t"
  by (induction names arbitrary: t) (auto simp: GetJxConfig_def AddToStart_def split: option.split)

text \<open>The constant \<open>DependOnBase\<close> is empty: adding a program that depends on the base adds an empty line only.\<close>

lemma AddDependStart_empty_line:
  assumes "map_of (ProgramCfgMap t) name = Some (hdr @ CHR 0x0A # rest)" "CHR 0x0A \<notin> set hdr" "DependOnBase t = []"
  shows "ProgramSetting (AddDependStart name t) = ProgramSetting t @ hdr @ [CHR 0x0A, CHR 0x0A] @ rest"
  using assms join_split_char[of "CHR 0x0A" rest]
  by (cases "split_char (CHR 0x0A) rest") (auto simp: AddDependStart_def Let_def split_char_append)

end
