(* ===== verification/DnsFiles.thy ===== *)
theory DnsFiles
  imports GoPrelude
begin

text \<open>
  The files the device keeps for name resolution, \<open>internal/network/dns\<close>: the hosts file of
  dnsmasq with the master's address (\<open>method.go\<close>, \<open>check.go\<close>), the upstream servers of an interface
  (\<open>dnsmasq.go\<close>), \<open>/etc/hosts\<close>, \<open>/etc/network/interfaces\<close> and the other files written at set-up
  (\<open>setup.go\<close>), and the TXT record of \<open>utils.go\<close>. The file system is a table of contents with the
  paths whose reading or writing fails; the commands that are run are recorded.
\<close>

section \<open>Files\<close>

record fsys =
  files :: "(string, string) gomap"
  unreadable :: "string list"
  unwritable :: "string list"
  cmds :: "string list"

datatype file_error = NotExist | FileError string

definition ReadFile :: "string \<Rightarrow> fsys \<Rightarrow> file_error + string" where
  "ReadFile p fs = (if p \<in> set (unreadable fs) then Inl (FileError p)
     else (case map_of (files fs) p of None \<Rightarrow> Inl NotExist | Some c \<Rightarrow> Inr c))"

definition WriteFile :: "string \<Rightarrow> string \<Rightarrow> fsys \<Rightarrow> file_error option \<times> fsys" where
  "WriteFile p c fs = (if p \<in> set (unwritable fs) then (Some (FileError p), fs)
     else (None, fs\<lparr>files := AList.update p c (files fs)\<rparr>))"

definition run_cmd :: "string \<Rightarrow> fsys \<Rightarrow> fsys" where
  "run_cmd c fs = fs\<lparr>cmds := cmds fs @ [c]\<rparr>"

definition nl :: char where
  "nl = CHR 0x0A"

definition contains :: "string \<Rightarrow> string \<Rightarrow> bool" where
  "contains s p \<longleftrightarrow> index_of s p \<noteq> None"

section \<open>Names and paths\<close>

definition DockerHostIP :: string where "DockerHostIP = ''172.18.1.1''"
definition LocalHostName :: string where "LocalHostName = ''edgegw.localhost''"
definition IotedgeHostName :: string where "IotedgeHostName = ''edgegw.iotedge''"
definition MasterHostName :: string where "MasterHostName = ''master.iotedge''"
definition HostFile :: string where "HostFile = ''/etc/hosts''"
definition DnsmasqHostFile :: string where "DnsmasqHostFile = ''/etc/dnsmasq.hosts''"
definition dnsmasqUpstreamPath :: string where "dnsmasqUpstreamPath = ''/etc/dnsmasq.d/dnsmasq.conf''"
definition dnsmasqResolvPath :: string where "dnsmasqResolvPath = ''/etc/dnsmasq.resolv.conf''"
definition ifaceResolvPathPrefix :: string where "ifaceResolvPathPrefix = ''/edge/resolv.d/dhclient.''"
definition ifacePath :: string where "ifacePath = ''/etc/network/interfaces''"

definition ifaceDNSConfHeader :: string where
  "ifaceDNSConfHeader =
     ''################ DHCP Nameserver #############################################'' @ [nl]
     @ ''################ Below is the nameserver obtained by dhclient ################'' @ [nl]
     @ ''################ Maintained by edge-guard, don'' @ [CHR 0x27] @ ''t modify!! ########################'' @ [nl]"

definition dnsmasqIfaceConf :: string where
  "dnsmasqIfaceConf = [nl] @ ''auto lo:0'' @ [nl] @ ''iface lo:0 inet static'' @ [nl] @ ''address 172.18.1.1'' @ [nl]"

section \<open>The master in the hosts file\<close>

definition ReloadDnsmasq :: "fsys \<Rightarrow> fsys" where
  "ReloadDnsmasq fs = run_cmd ''systemctl reload dnsmasq'' fs"

definition RestartDnsmasq :: "fsys \<Rightarrow> fsys" where
  "RestartDnsmasq fs = run_cmd ''systemctl restart dnsmasq'' fs"

definition resetHostFile :: "fsys \<Rightarrow> file_error option \<times> fsys" where
  "resetHostFile fs =
     (let content = DockerHostIP @ '' '' @ LocalHostName @ [nl] @ DockerHostIP @ '' '' @ IotedgeHostName @ [nl];
          (err, fs1) = WriteFile DnsmasqHostFile content fs
      in case err of Some e \<Rightarrow> (Some e, fs1) | None \<Rightarrow> (None, ReloadDnsmasq fs1))"

text \<open>The first line that names the master is replaced; without one, a line is appended.\<close>

fun replace_first :: "string \<Rightarrow> string list \<Rightarrow> string list option" where
  "replace_first new [] = None"
| "replace_first new (l # ls) =
     (if contains l MasterHostName then Some (new # ls) else map_option ((#) l) (replace_first new ls))"

definition SaveMasterIPToHostFile :: "string \<Rightarrow> fsys \<Rightarrow> file_error option \<times> fsys" where
  "SaveMasterIPToHostFile masterip fs =
     (let save = (\<lambda>buf.
            let ls = split_char nl buf;
                masterLine = masterip @ '' '' @ MasterHostName;
                ls' = (case replace_first masterLine ls of Some x \<Rightarrow> x | None \<Rightarrow> ls @ [masterLine]);
                (err, fs1) = WriteFile DnsmasqHostFile (join_with [nl] ls') fs
            in case err of Some e \<Rightarrow> (Some e, fs1) | None \<Rightarrow> (None, ReloadDnsmasq fs1))
      in case ReadFile DnsmasqHostFile fs of
           Inl NotExist \<Rightarrow> save []
         | Inl e \<Rightarrow> (Some e, fs)
         | Inr buf \<Rightarrow> save buf)"

text \<open>\<open>strings.Split(line, MasterHostName)[0]\<close>: what stands before the first occurrence.\<close>

definition before :: "string \<Rightarrow> string \<Rightarrow> string" where
  "before s p = (case index_of s p of None \<Rightarrow> s | Some i \<Rightarrow> take i s)"

fun load_master :: "string list \<Rightarrow> string option" where
  "load_master [] = None"
| "load_master (l # ls) = (if contains l MasterHostName then Some (TrimSpace (before l MasterHostName)) else load_master ls)"

definition LoadMasterFromHostFile :: "fsys \<Rightarrow> file_error + string" where
  "LoadMasterFromHostFile fs =
     (case ReadFile DnsmasqHostFile fs of
        Inl e \<Rightarrow> Inl e
      | Inr buf \<Rightarrow> (case load_master (split_char nl buf) of
            None \<Rightarrow> Inl (FileError (''Master IP not found from '' @ DnsmasqHostFile))
          | Some ip \<Rightarrow> Inr ip))"

definition check_missing :: "string \<Rightarrow> string \<Rightarrow> string" where
  "check_missing txt target =
     (if contains txt target then [] else DnsmasqHostFile @ '' check failed, '' @ target @ '' not found.'' @ [nl])"

definition CheckDnsmasqConf :: "fsys \<Rightarrow> file_error option" where
  "CheckDnsmasqConf fs =
     (case ReadFile DnsmasqHostFile fs of
        Inl e \<Rightarrow> Some e
      | Inr txt \<Rightarrow>
          (let result = check_missing txt MasterHostName @ check_missing txt IotedgeHostName @ check_missing txt LocalHostName
           in if result \<noteq> [] then Some (FileError result) else None))"

section \<open>The servers of an interface\<close>

fun custom_rows :: "string list \<Rightarrow> string" where
  "custom_rows [] = []"
| "custom_rows (row # rows) =
     (if has_prefix row ''#'' \<and> contains row ''DHCP'' then [] else row @ [nl] @ custom_rows rows)"

definition readDNSResolvCustomContent :: "fsys \<Rightarrow> string" where
  "readDNSResolvCustomContent fs =
     (case ReadFile dnsmasqResolvPath fs of Inl e \<Rightarrow> [] | Inr b \<Rightarrow> custom_rows (split_char nl b))"

definition readInterfaceDnsResolv :: "string \<Rightarrow> fsys \<Rightarrow> file_error + string" where
  "readInterfaceDnsResolv iFace fs = ReadFile (ifaceResolvPathPrefix @ iFace) fs"

definition ApplyInterfaceDNSResolv :: "string \<Rightarrow> fsys \<Rightarrow> file_error option \<times> fsys" where
  "ApplyInterfaceDNSResolv iFace fs =
     (case readInterfaceDnsResolv iFace fs of
        Inl e \<Rightarrow> (Some e, fs)
      | Inr ifaceDNS \<Rightarrow>
          WriteFile dnsmasqResolvPath (readDNSResolvCustomContent fs @ ifaceDNSConfHeader @ ifaceDNS) fs)"

definition ParseInterfaceDNSResolv :: "string \<Rightarrow> fsys \<Rightarrow> file_error + string list" where
  "ParseInterfaceDNSResolv iFace fs =
     (case readInterfaceDnsResolv iFace fs of
        Inl e \<Rightarrow> Inl e
      | Inr ifaceDNS \<Rightarrow>
          Inr (map (\<lambda>row. TrimSpace (drop (length ''nameserver'') row))
                 (filter (\<lambda>row. has_prefix row ''nameserver'') (split_char nl ifaceDNS))))"

section \<open>Set-up\<close>

definition ensureDNSMasqIface :: "fsys \<Rightarrow> file_error option \<times> fsys" where
  "ensureDNSMasqIface fs =
     (case ReadFile ifacePath fs of
        Inl e \<Rightarrow> (Some e, fs)
      | Inr data \<Rightarrow>
          (let (err, fs1) = (if contains data ''lo:0'' then (None, fs)
                             else WriteFile ifacePath (data @ dnsmasqIfaceConf) fs)
           in case err of Some e \<Rightarrow> (Some e, fs1) | None \<Rightarrow> (None, run_cmd ''ifup lo:0'' fs1)))"

text \<open>The last word of a line is the key, the first its value; a line whose first word is \<open>#\<close> is skipped.\<close>

definition host_record :: "string \<Rightarrow> (string, string) gomap \<Rightarrow> (string, string) gomap" where
  "host_record line m =
     (let words = split_char (CHR '' '') (TrimSpace line)
      in if words ! 0 \<noteq> ''#'' then AList.update (words ! (length words - 1)) (words ! 0) m else m)"

text \<open>The map is written in an arbitrary order; the model's is that of the list.\<close>

definition appendHostnameHosts :: "string \<Rightarrow> fsys \<Rightarrow> file_error option \<times> fsys" where
  "appendHostnameHosts workerID fs =
     (let append = (\<lambda>content.
            let m0 = foldl (\<lambda>m line. host_record line m) [] (split_char nl (TrimSpace content));
                m = AList.update ''edgex-mongo'' ''127.0.0.1'' (AList.update workerID ''127.0.0.1'' m0)
            in case map_of (files fs) HostFile of
                 None \<Rightarrow> (Some NotExist, fs)
               | Some _ \<Rightarrow> WriteFile HostFile (concat (map (\<lambda>(k, v). v @ '' '' @ k @ [nl]) m)) fs)
      in case ReadFile HostFile fs of
           Inl NotExist \<Rightarrow> append []
         | Inl e \<Rightarrow> (Some e, fs)
         | Inr content \<Rightarrow> append content)"

text \<open>\<open>lookup\<close>: the answer of \<open>net.LookupIP\<close> for the device's server after the shuffle, printed, or its error or
  that of \<open>device.GetDevice\<close>.\<close>

definition AddMasterDns :: "bool \<Rightarrow> (file_error + string list) \<Rightarrow> fsys \<Rightarrow> file_error option \<times> fsys" where
  "AddMasterDns force lookup fs =
     (if \<not> force \<and> map_of (files fs) dnsmasqUpstreamPath \<noteq> None then (None, fs)
      else (case lookup of
          Inl e \<Rightarrow> (Some e, fs)
        | Inr ips \<Rightarrow> WriteFile dnsmasqUpstreamPath (concat (map (\<lambda>ip. ''server=/.iotedge/'' @ ip @ [nl]) ips)) fs))"

text \<open>\<open>ParseIpInTxt\<close> on the records of \<open>net.LookupTXT\<close>, empty when the lookup fails.\<close>

definition ParseIpInTxt :: "string list \<Rightarrow> (string \<times> string) go" where
  "ParseIpInTxt txtRecords =
     (case txtRecords of
        [] \<Rightarrow> Ret ([], [])
      | t # ts \<Rightarrow> (case split_char (CHR '':'') t of a # b # rest \<Rightarrow> Ret (a, b) | _ \<Rightarrow> Panic))"

section \<open>Lemmas\<close>

definition ip_chars :: string where
  "ip_chars = ''0123456789.''"

lemma space_seqs_ip: "\<forall>c\<in>set ip_chars. (\<forall>q\<in>set space_seqs. hd q \<noteq> c) \<and> (\<forall>q\<in>set space_seqs. last q \<noteq> c)"
  by code_simp

lemma ip_char_spaces:
  assumes "c \<in> set ip_chars"
  shows "space_len (c # s) = 0" "rspace_len (c # s) = 0"
  using space_seqs_ip assms by (simp_all add: space_len_0 rspace_len_0)

lemma TrimSpace_ip:
  assumes "set ip \<subseteq> set ip_chars" "ip \<noteq> []"
  shows "TrimSpace (ip @ '' '') = ip"
proof -
  obtain c s where c: "ip = c # s" "c \<in> set ip_chars" using assms by (cases ip) auto
  obtain c' s' where c': "rev ip = c' # s'" "c' \<in> set ip_chars"
    using assms by (metis list.exhaust list.set_intros(1) rev_is_Nil_conv set_rev subsetD)
  have "trim_by space_len (ip @ '' '') = ip @ '' ''"
    using c ip_char_spaces(1) by simp
  moreover have "rspace_len (CHR '' '' # rev ip) = Suc 0"
    by (simp add: rspace_len_def space_seqs_def has_prefix_def)
  moreover have "trim_by rspace_len (rev ip) = rev ip"
    unfolding c'(1) by (rule trim_by_stop) (rule ip_char_spaces(2)[OF c'(2)])
  ultimately show ?thesis by (simp add: TrimSpace_def)
qed

text \<open>The line of the master, and what is read from it.\<close>

lemma master_line:
  assumes "set ip \<subseteq> set ip_chars" "ip \<noteq> []"
  shows "contains (ip @ '' '' @ MasterHostName) MasterHostName"
    "TrimSpace (before (ip @ '' '' @ MasterHostName) MasterHostName) = ip"
    "nl \<notin> set (ip @ '' '' @ MasterHostName)"
proof -
  have m: "CHR ''m'' \<notin> set (ip @ '' '')" using assms(1) by (auto simp: ip_chars_def)
  have "index_of ((ip @ '' '') @ (CHR ''m'' # ''aster.iotedge'') @ []) (CHR ''m'' # ''aster.iotedge'') = Some (length (ip @ '' ''))"
    by (rule index_of_skip[OF m])
  then have i: "index_of (ip @ '' '' @ MasterHostName) MasterHostName = Some (Suc (length ip))"
    by (simp add: MasterHostName_def)
  show "contains (ip @ '' '' @ MasterHostName) MasterHostName" unfolding contains_def i by simp
  have "before (ip @ '' '' @ MasterHostName) MasterHostName = ip @ '' ''" unfolding before_def i by simp
  then show "TrimSpace (before (ip @ '' '' @ MasterHostName) MasterHostName) = ip"
    using TrimSpace_ip[OF assms] by simp
  show "nl \<notin> set (ip @ '' '' @ MasterHostName)"
    using assms(1) by (auto simp: ip_chars_def nl_def MasterHostName_def)
qed

lemma replace_first_load:
  "contains new MasterHostName \<Longrightarrow>
   load_master (case replace_first new ls of Some x \<Rightarrow> x | None \<Rightarrow> ls @ [new]) = Some (TrimSpace (before new MasterHostName))"
  by (induction ls) (auto split: option.splits)

lemma replace_first_set: "replace_first new ls = Some x \<Longrightarrow> set x \<subseteq> insert new (set ls) \<and> x \<noteq> []"
  by (induction ls arbitrary: x) (auto split: if_splits)

lemma SaveMaster_loads:
  assumes "SaveMasterIPToHostFile ip fs = (None, fs')" and "set ip \<subseteq> set ip_chars" and "ip \<noteq> []"
  shows "LoadMasterFromHostFile fs' = Inr ip
    \<and> (\<forall>p. p \<noteq> DnsmasqHostFile \<longrightarrow> map_of (files fs') p = map_of (files fs) p)
    \<and> cmds fs' = cmds fs @ [''systemctl reload dnsmasq'']"
proof -
  define new where "new = ip @ '' '' @ MasterHostName"
  define res where "res buf = (case replace_first new (split_char nl buf) of Some x \<Rightarrow> x | None \<Rightarrow> split_char nl buf @ [new])" for buf
  define buf where "buf = (case map_of (files fs) DnsmasqHostFile of None \<Rightarrow> [] | Some b \<Rightarrow> b)"
  have buf: "fs' = ReloadDnsmasq (fs\<lparr>files := AList.update DnsmasqHostFile (join_with [nl] (res buf)) (files fs)\<rparr>)"
    "DnsmasqHostFile \<notin> set (unreadable fs)"
    using assms(1)
    by (auto simp: SaveMasterIPToHostFile_def res_def new_def buf_def Let_def ReadFile_def WriteFile_def
        split: sum.splits file_error.splits if_splits option.splits)
  note line = master_line[OF assms(2,3), folded new_def]
  have "\<forall>w\<in>set (res buf). nl \<notin> set w" "res buf \<noteq> []"
    using line(3) split_char_no_sep[of _ nl buf] replace_first_set[of new "split_char nl buf"]
    by (auto simp: res_def split: option.splits dest!: subsetD)
  then have "split_char nl (join_with [nl] (res buf)) = res buf" by (rule split_join_char[rotated])
  moreover have "load_master (res buf) = Some ip"
    using replace_first_load[OF line(1), of "split_char nl buf"] line(2) by (simp add: res_def)
  ultimately show ?thesis using buf
    by (auto simp: LoadMasterFromHostFile_def ReadFile_def ReloadDnsmasq_def run_cmd_def)
qed

text \<open>C32. After the master's address is saved in dnsmasq's hosts file, whatever the file was, loading gives
  this address; no other file changes, and dnsmasq is told to reload.\<close>

theorem save_load_master:
  assumes "SaveMasterIPToHostFile ip fs = (None, fs')" and "set ip \<subseteq> set ip_chars" and "ip \<noteq> []"
  shows "LoadMasterFromHostFile fs' = Inr ip
    \<and> (\<forall>p. p \<noteq> DnsmasqHostFile \<longrightarrow> map_of (files fs') p = map_of (files fs) p)
    \<and> cmds fs' = cmds fs @ [''systemctl reload dnsmasq'']"
  by (rule SaveMaster_loads[OF assms])

definition empty_fs :: fsys where
  "empty_fs = \<lparr>files = [(DnsmasqHostFile, ''10.0.0.1 master.iotedge'')], unreadable = [], unwritable = [], cmds = []\<rparr>"

theorem save_load_master_witness:
  "LoadMasterFromHostFile (snd (SaveMasterIPToHostFile ''10.8.0.1'' empty_fs)) = Inr ''10.8.0.1''"
proof -
  have "SaveMasterIPToHostFile ''10.8.0.1'' empty_fs = (None, snd (SaveMasterIPToHostFile ''10.8.0.1'' empty_fs))"
    by code_simp
  from save_load_master[OF this] show ?thesis by (simp add: ip_chars_def)
qed

lemma header_row:
  obtains row rest where "ifaceDNSConfHeader = row @ nl # rest" "nl \<notin> set row" "has_prefix row ''#''" "contains row ''DHCP''"
proof -
  let ?row = "''################ DHCP Nameserver #############################################''"
  have "has_prefix ?row ''#''" "contains ?row ''DHCP''" "nl \<notin> set ?row"
    by (simp_all add: has_prefix_def contains_def nl_def)
  then show thesis using that[of ?row] by (simp add: ifaceDNSConfHeader_def)
qed

lemma custom_rows_header: "custom_rows (split_char nl (ifaceDNSConfHeader @ x)) = []"
proof -
  obtain row rest where r: "ifaceDNSConfHeader = row @ nl # rest" "nl \<notin> set row" "has_prefix row ''#''" "contains row ''DHCP''"
    by (rule header_row)
  have "split_char nl (ifaceDNSConfHeader @ x) = row # split_char nl (rest @ x)"
    using split_char_append[OF r(2), of "rest @ x"] by (simp add: r(1))
  with r show ?thesis by simp
qed

lemma custom_rows_again:
  "\<forall>w\<in>set ls. nl \<notin> set w \<Longrightarrow> custom_rows (split_char nl (custom_rows ls @ ifaceDNSConfHeader @ x)) = custom_rows ls"
  by (induction ls) (auto simp: custom_rows_header split_char_append)

lemma iface_path_other: "ifaceResolvPathPrefix @ i \<noteq> dnsmasqResolvPath"
  by (simp add: ifaceResolvPathPrefix_def dnsmasqResolvPath_def)

text \<open>The lines of the file that stand before the first comment about DHCP, each with its end of line.\<close>

definition user_lines :: "string \<Rightarrow> string list" where
  "user_lines b = takeWhile (\<lambda>row. \<not> (has_prefix row ''#'' \<and> contains row ''DHCP'')) (split_char nl b)"

lemma custom_rows_user: "custom_rows (split_char nl b) = concat (map (\<lambda>row. row @ [nl]) (user_lines b))"
proof -
  have "custom_rows ls = concat (map (\<lambda>row. row @ [nl]) (takeWhile (\<lambda>row. \<not> (has_prefix row ''#'' \<and> contains row ''DHCP'')) ls))" for ls
    by (induction ls) auto
  then show ?thesis by (simp add: user_lines_def)
qed

lemma apply_again:
  assumes "ApplyInterfaceDNSResolv i1 fs = (None, fs1)" and "readInterfaceDnsResolv i2 fs = Inr servers"
  shows "ApplyInterfaceDNSResolv i2 fs1 = ApplyInterfaceDNSResolv i2 fs"
proof -
  define custom where "custom = readDNSResolvCustomContent fs"
  obtain s1 where fs1: "fs1 = fs\<lparr>files := AList.update dnsmasqResolvPath (custom @ ifaceDNSConfHeader @ s1) (files fs)\<rparr>"
    and w: "dnsmasqResolvPath \<notin> set (unwritable fs)"
    using assms(1) by (auto simp: ApplyInterfaceDNSResolv_def WriteFile_def custom_def split: sum.splits if_splits)
  define ls where "ls = (case ReadFile dnsmasqResolvPath fs of Inl e \<Rightarrow> [] | Inr b \<Rightarrow> split_char nl b)"
  have c: "custom = custom_rows ls"
    by (auto simp: ls_def custom_def readDNSResolvCustomContent_def split: sum.split)
  have "\<forall>w\<in>set ls. nl \<notin> set w"
    using split_char_no_sep by (auto simp: ls_def split: sum.splits)
  then have "custom_rows (split_char nl (custom @ ifaceDNSConfHeader @ s1)) = custom"
    unfolding c by (rule custom_rows_again)
  then have "readDNSResolvCustomContent fs1 = custom"
    by (auto simp: readDNSResolvCustomContent_def custom_def fs1 ReadFile_def)
  moreover have "readInterfaceDnsResolv i2 fs1 = Inr servers"
    using assms(2) iface_path_other[of i2] by (simp add: readInterfaceDnsResolv_def ReadFile_def fs1 split: if_splits)
  ultimately show ?thesis using assms(2) w
    by (simp add: ApplyInterfaceDNSResolv_def custom_def WriteFile_def fs1)
qed

text \<open>C34. Switching from one interface to another leaves dnsmasq's list of servers as if the second had
  been applied alone. The file then has the lines that stood before its first comment about DHCP (the
  lines the user wrote there), the header and the servers of the second interface; the servers of the
  first, and all else that followed such a comment, are gone. No other file changes.\<close>

theorem apply_interface_dns_again:
  assumes "ApplyInterfaceDNSResolv i1 fs = (None, fs1)" and "readInterfaceDnsResolv i2 fs = Inr servers"
    and "ReadFile dnsmasqResolvPath fs = Inr b"
  shows "ApplyInterfaceDNSResolv i2 fs1 = ApplyInterfaceDNSResolv i2 fs
    \<and> (\<exists>fs2. ApplyInterfaceDNSResolv i2 fs1 = (None, fs2)
         \<and> map_of (files fs2) dnsmasqResolvPath = Some (concat (map (\<lambda>row. row @ [nl]) (user_lines b)) @ ifaceDNSConfHeader @ servers)
         \<and> (\<forall>p. p \<noteq> dnsmasqResolvPath \<longrightarrow> map_of (files fs2) p = map_of (files fs) p))"
proof -
  have "dnsmasqResolvPath \<notin> set (unwritable fs)"
    using assms(1) by (auto simp: ApplyInterfaceDNSResolv_def WriteFile_def split: sum.splits if_splits)
  then have "ApplyInterfaceDNSResolv i2 fs = (None, fs\<lparr>files := AList.update dnsmasqResolvPath
      (concat (map (\<lambda>row. row @ [nl]) (user_lines b)) @ ifaceDNSConfHeader @ servers) (files fs)\<rparr>)"
    using assms(2,3) by (simp add: ApplyInterfaceDNSResolv_def WriteFile_def readDNSResolvCustomContent_def custom_rows_user)
  then show ?thesis using apply_again[OF assms(1,2)] by simp
qed

text \<open>A line that the user wrote below the header is lost.\<close>

lemma line_below_header_lost: "user_lines (''a'' @ [nl] @ ''# DHCP'' @ [nl] @ ''nameserver 9.9.9.9'') = [''a'']"
  by code_simp

definition two_ifaces :: fsys where
  "two_ifaces = \<lparr>files = [(ifaceResolvPathPrefix @ ''eth0'', ''nameserver 1.1.1.1''), (ifaceResolvPathPrefix @ ''usb0'', ''nameserver 2.2.2.2''),
      (dnsmasqResolvPath, ''nameserver 9.9.9.9'')], unreadable = [], unwritable = [], cmds = []\<rparr>"

theorem apply_interface_dns_again_witness:
  "\<exists>fs2. ApplyInterfaceDNSResolv ''usb0'' (snd (ApplyInterfaceDNSResolv ''eth0'' two_ifaces)) = (None, fs2)
    \<and> map_of (files fs2) dnsmasqResolvPath = Some (''nameserver 9.9.9.9'' @ [nl] @ ifaceDNSConfHeader @ ''nameserver 2.2.2.2'')"
proof -
  have "fst (ApplyInterfaceDNSResolv ''eth0'' two_ifaces) = None" by code_simp
  then have a: "ApplyInterfaceDNSResolv ''eth0'' two_ifaces = (None, snd (ApplyInterfaceDNSResolv ''eth0'' two_ifaces))"
    by (metis prod.collapse)
  have r: "readInterfaceDnsResolv ''usb0'' two_ifaces = Inr ''nameserver 2.2.2.2''"
    "ReadFile dnsmasqResolvPath two_ifaces = Inr ''nameserver 9.9.9.9''" "user_lines ''nameserver 9.9.9.9'' = [''nameserver 9.9.9.9'']"
    by code_simp+
  from apply_interface_dns_again[OF a r(1,2)] obtain fs2
    where "ApplyInterfaceDNSResolv ''usb0'' (snd (ApplyInterfaceDNSResolv ''eth0'' two_ifaces)) = (None, fs2)"
      "map_of (files fs2) dnsmasqResolvPath
        = Some (concat (map (\<lambda>row. row @ [nl]) (user_lines ''nameserver 9.9.9.9'')) @ ifaceDNSConfHeader @ ''nameserver 2.2.2.2'')"
    by blast
  then show ?thesis unfolding r(3) by (intro exI[of _ fs2]) simp
qed

text \<open>A TXT record without a colon makes \<open>ParseIpInTxt\<close> index past the fields.\<close>

lemma ParseIpInTxt_panics: "CHR '':'' \<notin> set t \<Longrightarrow> ParseIpInTxt (t # ts) = Panic"
  by (simp add: ParseIpInTxt_def split_char_single)

text \<open>
  Rewriting \<open>/etc/hosts\<close> keeps one name per line: of an entry with an alias only the last word and the address remain.
\<close>

lemma appendHostnameHosts_drops_alias:
  "appendHostnameHosts ''w'' \<lparr>files = [(HostFile, ''10.0.0.2 db db.local'')], unreadable = [], unwritable = [], cmds = []\<rparr> =
   (None, \<lparr>files = [(HostFile, ''10.0.0.2 db.local'' @ [nl] @ ''127.0.0.1 w'' @ [nl] @ ''127.0.0.1 edgex-mongo'' @ [nl])],
      unreadable = [], unwritable = [], cmds = []\<rparr>)"
  by code_simp

end
