(* ===== verification/OpLog.thy ===== *)
theory OpLog
  imports GoPrelude
begin

text \<open>
  The operation log, \<open>src/oplog\<close>: records as lines of a file (\<open>logs/logs.go\<close>), the manager that
  appends and lists them (\<open>manager/manager.go\<close>, \<open>api.go\<close>) and the filters (\<open>filiter.go\<close>). Of the
  package \<open>time\<close> the theory has what the layout \<open>2006-01-02 15:04:05 -0700\<close> uses: a time is its civil
  date and clock in a zone given in minutes.
\<close>

section \<open>Time\<close>

record gtime =
  year :: int
  month :: int
  day :: int
  hour :: int
  minute :: int
  second :: int
  nanos :: int
  zone :: int

definition zero_time :: gtime where
  "zero_time = \<lparr>year = 1, month = 1, day = 1, hour = 0, minute = 0, second = 0, nanos = 0, zone = 0\<rparr>"

definition is_leap :: "int \<Rightarrow> bool" where
  "is_leap y \<longleftrightarrow> y mod 4 = 0 \<and> (y mod 100 \<noteq> 0 \<or> y mod 400 = 0)"

definition days_in :: "int \<Rightarrow> int \<Rightarrow> int" where
  "days_in m y = (if m = 2 then (if is_leap y then 29 else 28)
     else if m \<in> set [4, 6, 9, 11] then 30 else 31)"

text \<open>Days before a date, counted from the first of March of the year 0.\<close>

definition day_number :: "int \<Rightarrow> int \<Rightarrow> int \<Rightarrow> int" where
  "day_number y m d =
     (let y' = (if m \<le> 2 then y - 1 else y); m' = (if m \<le> 2 then m + 9 else m - 3)
      in 365 * y' + y' div 4 - y' div 100 + y' div 400 + (153 * m' + 2) div 5 + d - 1)"

definition instant :: "gtime \<Rightarrow> int" where
  "instant t =
     (((day_number (year t) (month t) (day t) * 24 + hour t) * 60 + minute t - zone t) * 60 + second t) * 10 ^ 9 + nanos t"

definition time_Before :: "gtime \<Rightarrow> gtime \<Rightarrow> bool" where
  "time_Before t u \<longleftrightarrow> instant t < instant u"

definition time_After :: "gtime \<Rightarrow> gtime \<Rightarrow> bool" where
  "time_After t u \<longleftrightarrow> instant u < instant t"

definition valid_time :: "gtime \<Rightarrow> bool" where
  "valid_time t \<longleftrightarrow> 0 \<le> year t \<and> year t < 10000 \<and> 1 \<le> month t \<and> month t \<le> 12
     \<and> 1 \<le> day t \<and> day t \<le> days_in (month t) (year t) \<and> 0 \<le> hour t \<and> hour t < 24
     \<and> 0 \<le> minute t \<and> minute t < 60 \<and> 0 \<le> second t \<and> second t < 60 \<and> 0 \<le> nanos t \<and> nanos t < 10 ^ 9
     \<and> - (24 * 60) < zone t \<and> zone t < 24 * 60"

definition two_digits :: "int \<Rightarrow> string" where
  "two_digits n = [digit_char (nat n div 10), digit_char (nat n mod 10)]"

definition four_digits :: "int \<Rightarrow> string" where
  "four_digits n = two_digits (n div 100) @ two_digits (n mod 100)"

text \<open>\<open>Format\<close> with the layout, for the years 0 to 9999.\<close>

definition time_Format :: "gtime \<Rightarrow> string" where
  "time_Format t =
     four_digits (year t) @ ''-'' @ two_digits (month t) @ ''-'' @ two_digits (day t) @ '' ''
     @ two_digits (hour t) @ '':'' @ two_digits (minute t) @ '':'' @ two_digits (second t) @ '' ''
     @ (if zone t < 0 then ''-'' else ''+'') @ two_digits (\<bar>zone t\<bar> div 60) @ two_digits (\<bar>zone t\<bar> mod 60)"

text \<open>
  \<open>Parse\<close> with the layout: two digits, except that the hour may have one; a space of the layout
  matches any number of spaces; a fraction may follow the seconds.
\<close>

fun get2 :: "string \<Rightarrow> (int \<times> string) option" where
  "get2 (a # b # s) = (case (digit_val a, digit_val b) of
       (Some x, Some y) \<Rightarrow> Some (int (10 * x + y), s) | _ \<Rightarrow> None)"
| "get2 _ = None"

fun get_hour :: "string \<Rightarrow> (int \<times> string) option" where
  "get_hour (a # s) = (case digit_val a of
       None \<Rightarrow> None
     | Some x \<Rightarrow> (case s of
           [] \<Rightarrow> Some (int x, s)
         | b # s' \<Rightarrow> (case digit_val b of None \<Rightarrow> Some (int x, s) | Some y \<Rightarrow> Some (int (10 * x + y), s'))))"
| "get_hour [] = None"

fun expect :: "char \<Rightarrow> string \<Rightarrow> string option" where
  "expect c (x # s) = (if x = c then Some s else None)"
| "expect c [] = None"

fun cut_space :: "string \<Rightarrow> string" where
  "cut_space (c # s) = (if c = CHR '' '' then cut_space s else c # s)"
| "cut_space [] = []"

definition skip_space :: "string \<Rightarrow> string option" where
  "skip_space s = (case s of [] \<Rightarrow> Some [] | c # t \<Rightarrow> if c = CHR '' '' then Some (cut_space s) else None)"

text \<open>A fraction of a second; its digits as a number must stay below \<open>10 ^ 9\<close>.\<close>

definition get_frac :: "string \<Rightarrow> (int \<times> string) option" where
  "get_frac s = (case s of
       c # d # t \<Rightarrow>
         (if c = CHR ''.'' \<and> digit_val d \<noteq> None
          then (let ds = takeWhile (\<lambda>x. digit_val x \<noteq> None) (d # t) in
                case digits_val 0 ds of
                  None \<Rightarrow> None
                | Some n \<Rightarrow> (if n < 10 ^ 9
                    then Some (int (n * 10 ^ (9 - length ds)), dropWhile (\<lambda>x. digit_val x \<noteq> None) (d # t))
                    else None))
          else Some (0, s))
     | _ \<Rightarrow> Some (0, s))"

text \<open>The hours and the minutes of the zone are read by \<open>atoi\<close>, which takes a sign.\<close>

fun get_zone2 :: "string \<Rightarrow> (int \<times> string) option" where
  "get_zone2 (a # b # s) =
     (if a = CHR ''-'' then map_option (\<lambda>y. (- int y, s)) (digit_val b)
      else if a = CHR ''+'' then map_option (\<lambda>y. (int y, s)) (digit_val b)
      else get2 (a # b # s))"
| "get_zone2 _ = None"

definition get_sign :: "string \<Rightarrow> (int \<times> string) option" where
  "get_sign s = (case s of
       c # t \<Rightarrow> (if c = CHR ''+'' then Some (1, t) else if c = CHR ''-'' then Some (- 1, t) else None)
     | [] \<Rightarrow> None)"

definition time_Parse :: "string \<Rightarrow> gtime option" where
  "time_Parse s =
     Option.bind (get2 s) (\<lambda>(y1, s). Option.bind (get2 s) (\<lambda>(y2, s).
     Option.bind (expect (CHR ''-'') s) (\<lambda>s. Option.bind (get2 s) (\<lambda>(mo, s).
     Option.bind (expect (CHR ''-'') s) (\<lambda>s. Option.bind (get2 s) (\<lambda>(d, s).
     Option.bind (skip_space s) (\<lambda>s. Option.bind (get_hour s) (\<lambda>(h, s).
     Option.bind (expect (CHR '':'') s) (\<lambda>s. Option.bind (get2 s) (\<lambda>(mi, s).
     Option.bind (expect (CHR '':'') s) (\<lambda>s. Option.bind (get2 s) (\<lambda>(sec, s).
     Option.bind (get_frac s) (\<lambda>(ns, s). let y = 100 * y1 + y2 in
     Option.bind (skip_space s) (\<lambda>s. Option.bind (get_sign s) (\<lambda>(sg, s).
     Option.bind (get_zone2 s) (\<lambda>(zh, s). Option.bind (get_zone2 s) (\<lambda>(zm, s).
     if 1 \<le> mo \<and> mo \<le> 12 \<and> h < 24 \<and> mi < 60 \<and> sec < 60 \<and> 1 \<le> d \<and> d \<le> days_in mo y \<and> s = []
     then Some \<lparr>year = y, month = mo, day = d, hour = h, minute = mi, second = sec, nanos = ns,
                zone = sg * (zh * 60 + zm)\<rparr>
     else None)))))))))))))))))"

section \<open>Records\<close>

definition indent :: string where
  "indent = ''   ''"

record LogMessage =
  recordTime :: gtime
  messageType :: string
  description :: string

text \<open>\<open>strings.Split\<close> by a separator of several bytes.\<close>

function split_str :: "string \<Rightarrow> string \<Rightarrow> string list" where
  "split_str p s = (case index_of s p of
       None \<Rightarrow> [s]
     | Some i \<Rightarrow> if p = [] then [s] else take i s # split_str p (drop (i + length p) s))"
  by pat_completeness auto

termination
  by (relation "measure (\<lambda>(p, s). length s)") (auto dest!: index_of_Some simp flip: length_greater_0_conv)

declare split_str.simps [simp del]

definition NewOplog :: "gtime \<Rightarrow> string \<Rightarrow> string \<Rightarrow> LogMessage" where
  "NewOplog now mt desc = \<lparr>recordTime = now, messageType = mt, description = desc\<rparr>"

definition Marshal :: "LogMessage \<Rightarrow> string" where
  "Marshal l = time_Format (recordTime l) @ indent @ messageType l @ indent @ description l @ [CHR 0x0A]"

text \<open>\<open>UnMarshal\<close> into \<open>l\<close>; a time with fewer than two further fields makes it index past the end.\<close>

definition UnMarshal :: "string \<Rightarrow> LogMessage \<Rightarrow> LogMessage go" where
  "UnMarshal data l =
     (let info = split_str indent data in
      case time_Parse (info ! 0) of
        None \<Rightarrow> Ret l
      | Some t \<Rightarrow> (if length info < 3 then Panic
                   else Ret \<lparr>recordTime = t, messageType = info ! 1, description = info ! 2\<rparr>))"

definition zero_message :: LogMessage where
  "zero_message = \<lparr>recordTime = zero_time, messageType = [], description = []\<rparr>"

section \<open>Manager and filters\<close>

definition oplog_Insert :: "LogMessage \<Rightarrow> string \<Rightarrow> string" where
  "oplog_Insert o1 logFile = logFile @ Marshal o1"

definition oplog_Remove :: "LogMessage \<Rightarrow> string \<Rightarrow> string" where
  "oplog_Remove o1 logFile = logFile"

definition listByFiliter :: "(LogMessage \<Rightarrow> bool) list \<Rightarrow> string \<Rightarrow> LogMessage list go" where
  "listByFiliter fs logFile =
     bindg (mapg (\<lambda>line. UnMarshal line zero_message) (split_char (CHR 0x0A) (TrimSpace logFile)))
       (\<lambda>ms. Ret (filter (\<lambda>m. \<forall>f\<in>set fs. f m) ms))"

definition ListAll :: "string \<Rightarrow> LogMessage list go" where
  "ListAll logFile = listByFiliter [] logFile"

definition FindMany :: "(LogMessage \<Rightarrow> bool) list \<Rightarrow> string \<Rightarrow> LogMessage list go" where
  "FindMany fs logFile = listByFiliter fs logFile"

definition DefaultTimeFilter :: "gtime \<Rightarrow> gtime \<Rightarrow> LogMessage \<Rightarrow> bool" where
  "DefaultTimeFilter from until m \<longleftrightarrow> time_Before (recordTime m) until \<and> time_After (recordTime m) from"

definition DefaultTypeFilter :: "string \<Rightarrow> LogMessage \<Rightarrow> bool" where
  "DefaultTypeFilter mt m \<longleftrightarrow> mt = ''all'' \<or> messageType m = mt"

section \<open>Reading back what was written\<close>

lemma get2_two_digits [simp]: "0 \<le> n \<Longrightarrow> n < 100 \<Longrightarrow> get2 (two_digits n @ s) = Some (n, s)"
  by (simp add: two_digits_def)

lemma digit_char_not_sign [simp]: "d < 10 \<Longrightarrow> digit_char d \<noteq> CHR ''-''" "d < 10 \<Longrightarrow> digit_char d \<noteq> CHR ''+''"
  by simp_all

lemma get_zone2_two_digits [simp]: "0 \<le> n \<Longrightarrow> n < 100 \<Longrightarrow> get_zone2 (two_digits n @ s) = Some (n, s)"
  by (simp add: two_digits_def)

lemma get_hour_two_digits [simp]: "0 \<le> n \<Longrightarrow> n < 100 \<Longrightarrow> get_hour (two_digits n @ s) = Some (n, s)"
  by (simp add: two_digits_def)

lemma cut_space_two_digits [simp]: "0 \<le> n \<Longrightarrow> n < 100 \<Longrightarrow> cut_space (two_digits n @ s) = two_digits n @ s"
  by (simp add: two_digits_def)

lemma time_Parse_Format:
  assumes "valid_time t" "nanos t = 0"
  shows "time_Parse (time_Format t) = Some t"
proof -
  have v: "0 \<le> year t div 100" "year t div 100 < 100" "0 \<le> year t mod 100" "year t mod 100 < 100"
    "100 * (year t div 100) + year t mod 100 = year t"
    "0 \<le> \<bar>zone t\<bar> div 60" "\<bar>zone t\<bar> div 60 < 100" "0 \<le> \<bar>zone t\<bar> mod 60" "\<bar>zone t\<bar> mod 60 < 100"
    "\<bar>zone t\<bar> div 60 * 60 + \<bar>zone t\<bar> mod 60 = \<bar>zone t\<bar>"
    using assms(1) by (auto simp: valid_time_def)
  have d: "days_in (month t) (year t) \<le> 31" by (simp add: days_in_def)
  show ?thesis
  proof (cases t)
    case (fields y mo da h mi sec ns z)
    with assms v d show ?thesis
      by (simp add: time_Parse_def time_Format_def four_digits_def valid_time_def skip_space_def get_frac_def get_sign_def
          get2_two_digits[of _ "[]", simplified] get_zone2_two_digits[of _ "[]", simplified])
  qed
qed

text \<open>A field that the separator ends: it neither contains three spaces nor ends with a space.\<close>

definition field_ok :: "string \<Rightarrow> bool" where
  "field_ok f \<longleftrightarrow> index_of (f @ ''  '') indent = None"

lemma has_prefix_longer: "length p \<le> length u \<Longrightarrow> has_prefix (u @ v) p = has_prefix u p"
  by (simp add: has_prefix_def)

lemma index_of_field: "field_ok f \<Longrightarrow> index_of (f @ indent @ t) indent = Some (length f)"
  unfolding field_ok_def
proof (induction f)
  case Nil
  show ?case by (cases "indent @ t") (auto simp: indent_def has_prefix_def)
next
  case (Cons c f)
  have "\<not> has_prefix (c # f @ ''  '') indent" "index_of (f @ ''  '') indent = None"
    using Cons.prems by (auto split: if_splits)
  moreover have "has_prefix ((c # f @ ''  '') @ '' '' @ t) indent = has_prefix (c # f @ ''  '') indent"
    by (rule has_prefix_longer) (simp add: indent_def)
  ultimately show ?case using Cons.IH by (simp add: indent_def)
qed

lemma split_str_field: "field_ok f \<Longrightarrow> split_str indent (f @ indent @ t) = f # split_str indent t"
  by (subst split_str.simps) (simp add: index_of_field, simp add: indent_def)

lemma split_str_last: "index_of f indent = None \<Longrightarrow> split_str indent f = [f]"
  by (subst split_str.simps) simp

lemma digit_char_not_space: "d < 10 \<Longrightarrow> digit_char d \<noteq> CHR '' ''" "d < 10 \<Longrightarrow> CHR '' '' \<noteq> digit_char d"
  using digit_char_not(6)[of d] by metis+

text \<open>Whether a string has three spaces in a row can be decided piece by piece.\<close>

lemma index_of_indent_Cons: "c \<noteq> CHR '' '' \<Longrightarrow> index_of (c # s) indent = map_option Suc (index_of s indent)"
  by (simp add: has_prefix_def indent_def)

lemma index_of_indent_two_digits:
  "0 \<le> n \<Longrightarrow> n < 100 \<Longrightarrow> (index_of (two_digits n @ s) indent = None) = (index_of s indent = None)"
  by (simp add: two_digits_def index_of_indent_Cons digit_char_not_space del: index_of.simps)

lemma index_of_indent_space:
  "0 \<le> n \<Longrightarrow> n < 100 \<Longrightarrow> (index_of (CHR '' '' # two_digits n @ s) indent = None) = (index_of s indent = None)"
  "c \<noteq> CHR '' '' \<Longrightarrow> (index_of (CHR '' '' # c # s) indent = None) = (index_of s indent = None)"
  by (simp_all add: two_digits_def indent_def has_prefix_def digit_char_not_space)

lemma time_Format_field: "valid_time t \<Longrightarrow> field_ok (time_Format t)"
proof -
  assume v: "valid_time t"
  have b: "0 \<le> year t div 100" "year t div 100 < 100" "0 \<le> year t mod 100" "year t mod 100 < 100"
    "0 \<le> \<bar>zone t\<bar> div 60" "\<bar>zone t\<bar> div 60 < 100" "0 \<le> \<bar>zone t\<bar> mod 60" "\<bar>zone t\<bar> mod 60 < 100"
    using v by (auto simp: valid_time_def)
  have "days_in (month t) (year t) \<le> 31" by (simp add: days_in_def)
  moreover have "index_of ''  '' indent = None" by (simp add: indent_def has_prefix_def)
  ultimately show ?thesis using v b
    by (simp add: field_ok_def time_Format_def four_digits_def valid_time_def index_of_indent_two_digits
        index_of_indent_Cons index_of_indent_space del: index_of.simps)
qed

section \<open>The log as a list\<close>

text \<open>A record whose line can be read back, and what is left of it: times lose their fraction.\<close>

definition record_ok :: "LogMessage \<Rightarrow> bool" where
  "record_ok m \<longleftrightarrow> valid_time (recordTime m) \<and> field_ok (messageType m)
     \<and> index_of (description m) indent = None \<and> description m \<noteq> []
     \<and> (\<forall>q\<in>set space_seqs. last q \<noteq> last (description m))
     \<and> CHR 0x0A \<notin> set (messageType m) \<and> CHR 0x0A \<notin> set (description m)"

definition truncate_time :: "LogMessage \<Rightarrow> LogMessage" where
  "truncate_time m = m\<lparr>recordTime := (recordTime m)\<lparr>nanos := 0\<rparr>\<rparr>"

definition log_line :: "LogMessage \<Rightarrow> string" where
  "log_line m = time_Format (recordTime m) @ indent @ messageType m @ indent @ description m"

lemma time_Format_truncate: "time_Format (t\<lparr>nanos := 0\<rparr>) = time_Format t"
  by (simp add: time_Format_def)

lemma UnMarshal_line: "record_ok m \<Longrightarrow> UnMarshal (log_line m) l = Ret (truncate_time m)"
proof -
  assume ok: "record_ok m"
  then have "split_str indent (log_line m) = [time_Format (recordTime m), messageType m, description m]"
    by (simp add: record_ok_def log_line_def split_str_field split_str_last time_Format_field)
  moreover have "time_Parse (time_Format (recordTime m)) = Some ((recordTime m)\<lparr>nanos := 0\<rparr>)"
    using time_Parse_Format[of "(recordTime m)\<lparr>nanos := 0\<rparr>"] ok
    by (simp add: record_ok_def valid_time_def time_Format_truncate)
  ultimately show ?thesis by (cases m) (simp add: UnMarshal_def truncate_time_def)
qed

lemma digit_char_nl: "d < 10 \<Longrightarrow> digit_char d \<noteq> CHR 0x0A" "d < 10 \<Longrightarrow> CHR 0x0A \<noteq> digit_char d"
  using digit_char_not(7)[of d] by metis+

lemma log_line_no_newline: "record_ok m \<Longrightarrow> CHR 0x0A \<notin> set (log_line m)"
proof -
  have td: "CHR 0x0A \<notin> set (two_digits n)" if "0 \<le> n" "n < 100" for n
    using that by (simp add: two_digits_def digit_char_nl)
  assume ok: "record_ok m"
  have b: "0 \<le> year (recordTime m) div 100" "year (recordTime m) div 100 < 100"
    "\<bar>zone (recordTime m)\<bar> div 60 < 100" "\<bar>zone (recordTime m)\<bar> mod 60 < 100"
    using ok by (auto simp: record_ok_def valid_time_def)
  have "days_in (month (recordTime m)) (year (recordTime m)) \<le> 31" by (simp add: days_in_def)
  with b ok show ?thesis
    by (auto simp: log_line_def time_Format_def four_digits_def indent_def record_ok_def valid_time_def td)
qed

lemma hd_log_line: "record_ok m \<Longrightarrow> \<exists>d<10. \<exists>s. log_line m = digit_char d # s"
proof -
  assume "record_ok m"
  then have "nat (year (recordTime m) div 100) div 10 < 10" by (auto simp: record_ok_def valid_time_def)
  then show ?thesis
    by (intro exI[of _ "nat (year (recordTime m) div 100) div 10"]) (simp add: log_line_def time_Format_def four_digits_def two_digits_def)
qed

lemma space_seqs_digits: "\<forall>d<10. \<forall>q\<in>set space_seqs. hd q \<noteq> digit_char d"
proof -
  have "\<forall>d\<in>set [0..<10]. \<forall>q\<in>set space_seqs. hd q \<noteq> digit_char d" by code_simp
  then show ?thesis by auto
qed

lemma TrimSpace_log:
  assumes "ms \<noteq> []" "\<forall>m\<in>set ms. record_ok m"
  shows "TrimSpace (concat (map (\<lambda>m. log_line m @ [CHR 0x0A]) ms)) = join_with [CHR 0x0A] (map log_line ms)"
proof -
  let ?j = "join_with [CHR 0x0A] (map log_line ms)"
  have j: "concat (map (\<lambda>m. log_line m @ [CHR 0x0A]) ms) = ?j @ [CHR 0x0A]"
    using assms(1) by (induction ms rule: induct_list012) auto
  obtain d s where "d < 10" "?j = digit_char d # s"
  proof (cases ms)
    case (Cons m ms')
    with assms(2) hd_log_line[of m] obtain d s where "d < 10" "log_line m = digit_char d # s" by auto
    then show thesis using Cons that by (cases ms') auto
  qed (use assms(1) in simp)
  then have front: "trim_by space_len (?j @ [CHR 0x0A]) = ?j @ [CHR 0x0A]"
    using space_seqs_digits by (simp add: space_len_0)
  obtain m where m: "m \<in> set ms" "\<exists>u. ?j = u @ description m" "description m \<noteq> []"
  proof -
    have "\<exists>u. ?j = u @ log_line (last ms)" using assms(1)
      by (induction ms rule: induct_list012) auto
    then obtain u where "?j = u @ log_line (last ms)" by blast
    then have "?j = (u @ time_Format (recordTime (last ms)) @ indent @ messageType (last ms) @ indent) @ description (last ms)"
      by (simp add: log_line_def[of "last ms"])
    then have "\<exists>u. ?j = u @ description (last ms)" by blast
    then show thesis using that[of "last ms"] assms by (auto simp: record_ok_def)
  qed
  then obtain u where u: "?j = u @ description m" by blast
  obtain w x where "description m = w @ [x]" using m(3) by (cases "description m" rule: rev_cases) auto
  then have "rev ?j = last (description m) # rev (u @ w)" using u by simp
  then have "rspace_len (rev ?j) = 0" using assms(2) m(1) by (simp add: rspace_len_0 record_ok_def)
  moreover have "rspace_len (CHR 0x0A # rev ?j) = Suc 0"
    by (simp add: rspace_len_def space_seqs_def has_prefix_def)
  moreover have "trim_by rspace_len (rev ?j) = rev ?j"
    using calculation(1) by (cases "rev ?j") auto
  ultimately show ?thesis using front by (simp add: j TrimSpace_def)
qed

lemma mapg_Ret: "\<forall>x\<in>set xs. f x = Ret (g x) \<Longrightarrow> mapg f xs = Ret (map g xs)"
  by (induction xs) auto

lemma Inserts_lines: "foldl (\<lambda>f m. oplog_Insert m f) f ms = f @ concat (map (\<lambda>m. log_line m @ [CHR 0x0A]) ms)"
  by (induction ms arbitrary: f) (simp_all add: oplog_Insert_def Marshal_def log_line_def)

text \<open>C31. The records that were inserted come back, in order, from the file they were written to: a query
  returns exactly those that pass all its filters, with times cut to seconds. (Types and descriptions
  without line breaks and without the separator, descriptions that end in a visible character.)\<close>

theorem oplog_roundtrip:
  assumes "ms \<noteq> []" and "\<forall>m\<in>set ms. record_ok m"
  shows "FindMany fs (foldl (\<lambda>f m. oplog_Insert m f) [] ms) =
    Ret (filter (\<lambda>m. \<forall>f\<in>set fs. f m) (map truncate_time ms))"
proof -
  have "split_char (CHR 0x0A) (TrimSpace (foldl (\<lambda>f m. oplog_Insert m f) [] ms)) = map log_line ms"
    using assms log_line_no_newline by (simp add: Inserts_lines TrimSpace_log split_join_char)
  moreover have "mapg (\<lambda>line. UnMarshal line zero_message) (map log_line ms) = Ret (map truncate_time ms)"
    using assms(2) by (induction ms) (simp_all add: UnMarshal_line)
  ultimately show ?thesis by (simp add: FindMany_def listByFiliter_def)
qed

definition sample_time :: gtime where
  "sample_time = \<lparr>year = 2020, month = 2, day = 29, hour = 8, minute = 5, second = 0, nanos = 7, zone = 480\<rparr>"

theorem oplog_roundtrip_witness:
  "FindMany [DefaultTypeFilter ''AUTH''] (foldl (\<lambda>f m. oplog_Insert m f) []
     [NewOplog sample_time ''NETWORKE'' ''heartbeat success'', NewOplog sample_time ''AUTH'' ''ok'']) =
   Ret [NewOplog (sample_time\<lparr>nanos := 0\<rparr>) ''AUTH'' ''ok'']"
proof -
  let ?ms = "[NewOplog sample_time ''NETWORKE'' ''heartbeat success'', NewOplog sample_time ''AUTH'' ''ok'']"
  have "\<forall>m\<in>set ?ms. record_ok m" by code_simp
  from oplog_roundtrip[OF _ this, of "[DefaultTypeFilter ''AUTH'']"] show ?thesis
    by (simp add: truncate_time_def NewOplog_def DefaultTypeFilter_def)
qed

text \<open>An empty log is listed as one record with zero fields.\<close>

lemma empty_log_lists_zero: "ListAll [] = Ret [zero_message]"
  by code_simp

text \<open>A line with a time alone makes the listing panic.\<close>

lemma bare_time_panics: "ListAll (time_Format sample_time @ [CHR 0x0A]) = Panic"
  by code_simp

end
