(* ===== verification/Updates.thy ===== *)
theory Updates
  imports Steps "HOL-Library.Multiset"
begin

text \<open>
  The update manager, \<open>management/updatemanage\<close>: the goroutine of \<open>updateLoop\<close> and the handlers that
  call \<open>SetTargetVersion\<close> and \<open>UpdateWithZip\<close> as a transition system. They share the fields of
  \<open>updateManager\<close> with no lock, so a step is the code between two accesses to \<open>status\<close>, to the files
  or to another program. The outcome of every external command, read and write is an argument of
  the step and arbitrary. \<open>json\<close> stands for \<open>json.MarshalIndent\<close> and \<open>unjson\<close> for the map that
  \<open>json.Unmarshal\<close> leaves in its argument, errors included.
\<close>

section \<open>State\<close>

datatype UpdateStatus = FINISHED | UPDATING

type_synonym VersionInfo = "(string, string) gomap"

datatype upd_error =
  ErrUpdating | ErrNoPackageInstalled | GpgKeyInsertError | CommandError | ReadError | WriteError | PostError

text \<open>
  Where \<open>updateLoop\<close> is: at the head of \<open>tryUpdate\<close>; before the test of \<open>status\<close>; before
  \<open>up.status = UPDATING\<close>; before \<open>addAptKey\<close>, \<open>updateSource\<close>, the next \<open>aptInstall\<close>; before the version
  file is read, the version reported, the result judged, the deferred assignment; at \<open><-up.targetVersionUpdated\<close>.
\<close>

datatype loop_phase =
    LTry | LCheck VersionInfo | LSet VersionInfo | LKey VersionInfo | LSource VersionInfo
  | LInst VersionInfo | LRead | LReport | LJudge | LLeave | LWait

text \<open>
  A handler in \<open>SetTargetVersion\<close>: before the test, the assignment, the write of the file, the signal;
  in \<open>UpdateWithZip\<close>: before the test, the assignment, the commands, the read of the version file and
  the deferred assignment. \<open>Done\<close> holds what it returned.
\<close>

datatype handler_phase =
    TCheck VersionInfo | TSet VersionInfo | TWrite VersionInfo | TSend
  | ZCheck | ZSet | ZRun | ZRead | ZLeave "upd_error option" | HDone "upd_error option"

record updateManager =
  up_status :: UpdateStatus
  targetVersion :: VersionInfo
  currentVersion :: VersionInfo
  up_loop :: loop_phase
  up_handlers :: "handler_phase list"
  version_file :: "string option"
  target_file :: "string option"
  sources_list :: "string option"
  up_cmds :: "string list"
  up_logged :: "upd_error list"
  restarts :: nat

section \<open>Helpers of \<open>utils.go\<close>\<close>

definition jx_toolset :: string where
  "jx_toolset = ''jx-toolset''"

definition apt_line :: string where
  "apt_line = ''deb [arch=arm64] http://master.iotedge/public stable main''"

definition noPackageInstalledPrompt :: string where
  "noPackageInstalledPrompt = ''No packages will be installed, upgraded, or removed.''"

text \<open>\<open>strings.Contains\<close>.\<close>

definition Contains :: "string \<Rightarrow> string \<Rightarrow> bool" where
  "Contains s p \<longleftrightarrow> index_of s p \<noteq> None"

text \<open>The content of the source list that \<open>addAptKey\<close> writes; \<open>None\<close>: it returns before the write.\<close>

definition add_source :: "string \<Rightarrow> string option" where
  "add_source content =
     (let lines = split_char (CHR 0x0A) content
      in if list_ex (\<lambda>line. Contains line apt_line) lines then None
         else Some (join_with [CHR 0x0A] (lines @ [apt_line])))"

text \<open>\<open>addAptKey\<close>: whether the import of the key and the write succeed, and the file; the error and the file after.\<close>

definition addAptKey :: "bool \<Rightarrow> bool \<Rightarrow> string option \<Rightarrow> upd_error option \<times> string option" where
  "addAptKey key_ok write_ok src =
     (if \<not> key_ok then (Some GpgKeyInsertError, src)
      else case src of
             None \<Rightarrow> (Some ReadError, src)
           | Some content \<Rightarrow>
               (case add_source content of
                  None \<Rightarrow> (None, src)
                | Some c \<Rightarrow> (None, if write_ok then Some c else src)))"

definition parseCurrentVersionFile :: "string option \<Rightarrow> VersionInfo" where
  "parseCurrentVersionFile f = [(jx_toolset, TrimSpace (case f of None \<Rightarrow> [] | Some s \<Rightarrow> s))]"

definition parseTargetVersionFile :: "(string \<Rightarrow> VersionInfo) \<Rightarrow> string option \<Rightarrow> VersionInfo" where
  "parseTargetVersionFile unjson f = unjson (case f of None \<Rightarrow> [] | Some s \<Rightarrow> s)"

text \<open>A missing key of a Go map reads as the empty string.\<close>

definition version_of :: "VersionInfo \<Rightarrow> string \<Rightarrow> string" where
  "version_of m p = (case map_of m p of None \<Rightarrow> [] | Some v \<Rightarrow> v)"

definition getNeedUpdate :: "VersionInfo \<Rightarrow> VersionInfo \<Rightarrow> VersionInfo" where
  "getNeedUpdate current target =
     foldl (\<lambda>need (p, v). if version_of current p \<noteq> v then AList.update p v need else need) [] target"

definition apt_cmd :: "string \<Rightarrow> string \<Rightarrow> string" where
  "apt_cmd pkgname pkgversion =
     ''aptitude install -o Aptitude::ProblemResolver::SolutionCost='' @ [CHR 0x27]
     @ ''100*canceled-actions,200*removals'' @ [CHR 0x27] @ '' -y '' @ pkgname @ ''='' @ pkgversion"

text \<open>\<open>aptInstall\<close>: the result of the command, \<open>None\<close> for an error, decides what is returned.\<close>

definition aptInstall :: "string option \<Rightarrow> upd_error option" where
  "aptInstall output = (case output of
       None \<Rightarrow> Some CommandError
     | Some out \<Rightarrow> if Contains out noPackageInstalledPrompt then Some ErrNoPackageInstalled else None)"

section \<open>Steps\<close>

definition NewUpdateManager :: "(string \<Rightarrow> VersionInfo) \<Rightarrow> string option \<Rightarrow> string option \<Rightarrow> string option \<Rightarrow> updateManager" where
  "NewUpdateManager unjson vf tf src =
     \<lparr>up_status = FINISHED, targetVersion = parseTargetVersionFile unjson tf,
      currentVersion = parseCurrentVersionFile vf, up_loop = LTry, up_handlers = [],
      version_file = vf, target_file = tf, sources_list = src, up_cmds = [], up_logged = [], restarts = 0\<rparr>"

text \<open>\<open>RunAndLogError\<close> and \<open>logger.Error\<close>.\<close>

definition log_upd :: "upd_error option \<Rightarrow> updateManager \<Rightarrow> updateManager" where
  "log_upd e u = (case e of None \<Rightarrow> u | Some x \<Rightarrow> u\<lparr>up_logged := up_logged u @ [x]\<rparr>)"

definition upd_cmd :: "string \<Rightarrow> updateManager \<Rightarrow> updateManager" where
  "upd_cmd c u = u\<lparr>up_cmds := up_cmds u @ [c]\<rparr>"

text \<open>The outcome of a step that calls another program or the file system.\<close>

datatype upd_act =
    LoopGo
  | LoopKey bool bool
  | LoopSource bool VersionInfo
  | LoopInst "string option" "string option"
  | LoopReport bool
  | NewHandler handler_phase
  | HandlerGo nat
  | HandlerWrite nat bool
  | ZipRun nat "upd_error option" "string option"

text \<open>
  \<open>tryUpdate\<close>, step by step. \<open>LoopSource\<close> fixes the order in which the map of packages is visited, and
  \<open>LoopInst\<close> gives the output of aptitude and the content of the version file after it.
  \<open>LoopReport\<close> tells whether \<open>ReportVersion\<close> succeeded; it may also panic in \<open>ParseIpInTxt\<close>, which ends the whole
  program and with it the loop.
\<close>

fun loop_go :: "upd_act \<Rightarrow> updateManager \<Rightarrow> updateManager option" where
  "loop_go LoopGo u = (case up_loop u of
       LTry \<Rightarrow> (let need = getNeedUpdate (currentVersion u) (targetVersion u)
                in Some (u\<lparr>up_loop := if need = [] then LWait else LCheck need\<rparr>))
     | LCheck need \<Rightarrow> Some (if up_status u = UPDATING then log_upd (Some ErrUpdating) (u\<lparr>up_loop := LWait\<rparr>)
                             else u\<lparr>up_loop := LSet need\<rparr>)
     | LSet need \<Rightarrow> Some (u\<lparr>up_status := UPDATING, up_loop := LKey need\<rparr>)
     | LInst [] \<Rightarrow> Some (u\<lparr>up_loop := LRead\<rparr>)
     | LRead \<Rightarrow> Some (u\<lparr>currentVersion := parseCurrentVersionFile (version_file u), up_loop := LReport\<rparr>)
     | LJudge \<Rightarrow> Some (u\<lparr>restarts := (if getNeedUpdate (currentVersion u) (targetVersion u) = [] then Suc (restarts u) else restarts u),
                       up_loop := LLeave\<rparr>)
     | LLeave \<Rightarrow> Some (u\<lparr>up_status := FINISHED, up_loop := LWait\<rparr>)
     | _ \<Rightarrow> None)"
| "loop_go (LoopKey key_ok write_ok) u = (case up_loop u of
       LKey need \<Rightarrow> (let (e, src) = addAptKey key_ok write_ok (sources_list u)
                     in Some (log_upd e (u\<lparr>sources_list := src, up_loop := LSource need\<rparr>)))
     | _ \<Rightarrow> None)"
| "loop_go (LoopSource ok order) u = (case up_loop u of
       LSource need \<Rightarrow> (if mset order = mset need
                        then Some (log_upd (if ok then None else Some CommandError) (upd_cmd ''apt update'' (u\<lparr>up_loop := LInst order\<rparr>)))
                        else None)
     | _ \<Rightarrow> None)"
| "loop_go (LoopInst output vf) u = (case up_loop u of
       LInst ((p, v) # rest) \<Rightarrow>
         Some (log_upd (aptInstall output) (upd_cmd (apt_cmd p v) (u\<lparr>version_file := vf, up_loop := LInst rest\<rparr>)))
     | _ \<Rightarrow> None)"
| "loop_go (LoopReport ok) u = (case up_loop u of
       LReport \<Rightarrow> Some (log_upd (if ok then None else Some PostError) (u\<lparr>up_loop := LJudge\<rparr>))
     | _ \<Rightarrow> None)"
| "loop_go act u = None"

definition set_handler :: "nat \<Rightarrow> handler_phase \<Rightarrow> updateManager \<Rightarrow> updateManager" where
  "set_handler i h u = u\<lparr>up_handlers := (up_handlers u)[i := h]\<rparr>"

text \<open>
  \<open>SetTargetVersion\<close> and \<open>UpdateWithZip\<close>. The channel has no buffer: the \<open>select\<close> of \<open>TSend\<close> delivers
  the signal only to a loop that waits for it, and drops it otherwise.
\<close>

definition handler_go :: "nat \<Rightarrow> updateManager \<Rightarrow> updateManager option" where
  "handler_go i u =
     (if length (up_handlers u) \<le> i then None
      else case up_handlers u ! i of
          TCheck v \<Rightarrow> Some (set_handler i (if up_status u = UPDATING then HDone (Some ErrUpdating) else TSet v) u)
        | TSet v \<Rightarrow> Some (set_handler i (TWrite v) (u\<lparr>targetVersion := v\<rparr>))
        | TSend \<Rightarrow> Some (set_handler i (HDone None) (if up_loop u = LWait then u\<lparr>up_loop := LTry\<rparr> else u))
        | ZCheck \<Rightarrow> Some (set_handler i (if up_status u = UPDATING then HDone (Some ErrUpdating) else ZSet) u)
        | ZSet \<Rightarrow> Some (set_handler i ZRun (u\<lparr>up_status := UPDATING\<rparr>))
        | ZRead \<Rightarrow> Some (set_handler i (ZLeave None) (u\<lparr>currentVersion := parseCurrentVersionFile (version_file u)\<rparr>))
        | ZLeave e \<Rightarrow> Some (set_handler i (HDone e) (u\<lparr>up_status := FINISHED\<rparr>))
        | _ \<Rightarrow> None)"

definition handler_write :: "(VersionInfo \<Rightarrow> string) \<Rightarrow> nat \<Rightarrow> bool \<Rightarrow> updateManager \<Rightarrow> updateManager option" where
  "handler_write json i ok u =
     (if length (up_handlers u) \<le> i then None
      else case up_handlers u ! i of
          TWrite v \<Rightarrow> Some (if ok then set_handler i TSend (u\<lparr>target_file := Some (json v)\<rparr>)
                            else set_handler i (HDone (Some WriteError)) u)
        | _ \<Rightarrow> None)"

text \<open>
  The body of \<open>UpdateWithZip\<close>: reading the request, writing and unpacking the archive, \<open>dpkg\<close>. The
  first error returns; the packages may have changed the version file in any case.
\<close>

definition zip_run :: "nat \<Rightarrow> upd_error option \<Rightarrow> string option \<Rightarrow> updateManager \<Rightarrow> updateManager option" where
  "zip_run i e vf u =
     (if length (up_handlers u) \<le> i \<or> up_handlers u ! i \<noteq> ZRun then None
      else Some (set_handler i (case e of None \<Rightarrow> ZRead | Some x \<Rightarrow> ZLeave (Some x)) (u\<lparr>version_file := vf\<rparr>)))"

definition upd_do :: "(VersionInfo \<Rightarrow> string) \<Rightarrow> upd_act \<Rightarrow> updateManager \<Rightarrow> updateManager option" where
  "upd_do json act u = (case act of
       NewHandler h \<Rightarrow> (case h of TCheck v \<Rightarrow> Some (u\<lparr>up_handlers := up_handlers u @ [h]\<rparr>)
                        | ZCheck \<Rightarrow> Some (u\<lparr>up_handlers := up_handlers u @ [h]\<rparr>) | _ \<Rightarrow> None)
     | HandlerGo i \<Rightarrow> handler_go i u
     | HandlerWrite i ok \<Rightarrow> handler_write json i ok u
     | ZipRun i e vf \<Rightarrow> zip_run i e vf u
     | _ \<Rightarrow> loop_go act u)"

definition upd_step :: "(VersionInfo \<Rightarrow> string) \<Rightarrow> updateManager \<Rightarrow> updateManager \<Rightarrow> bool" where
  "upd_step json u u' \<longleftrightarrow> (\<exists>act. upd_do json act u = Some u')"

definition upd_initial :: "(string \<Rightarrow> VersionInfo) \<Rightarrow> updateManager \<Rightarrow> bool" where
  "upd_initial unjson u \<longleftrightarrow> (\<exists>vf tf src. u = NewUpdateManager unjson vf tf src)"

interpretation ups: transition_system "upd_initial unjson" "upd_step json"
  for unjson json .

abbreviation upd_run :: "(VersionInfo \<Rightarrow> string) \<Rightarrow> upd_act list \<Rightarrow> updateManager \<Rightarrow> updateManager option" where
  "upd_run json \<equiv> run_acts (upd_do json)"

section \<open>What is to be updated\<close>

lemma getNeedUpdate_set:
  "set (foldl (\<lambda>need (p, v). if version_of current p \<noteq> v then AList.update p v need else need) acc target) = {}
   \<longleftrightarrow> acc = [] \<and> (\<forall>(p, v)\<in>set target. version_of current p = v)"
proof (induction target arbitrary: acc)
  case (Cons x target)
  have "AList.update p v acc \<noteq> []" for p v
    by (cases acc) auto
  then show ?case by (cases x) (simp add: Cons.IH del: set_empty)
qed simp

lemma getNeedUpdate_Nil: "getNeedUpdate current target = [] \<longleftrightarrow> (\<forall>(p, v)\<in>set target. version_of current p = v)"
  using getNeedUpdate_set[of current "[]" target] by (simp add: getNeedUpdate_def)

lemma getNeedUpdate_filter:
  "distinct (map fst target) \<Longrightarrow> getNeedUpdate current target = filter (\<lambda>(p, v). version_of current p \<noteq> v) target"
proof -
  have "set (map fst acc) \<inter> set (map fst target) = {} \<Longrightarrow> distinct (map fst target) \<Longrightarrow>
    foldl (\<lambda>need (p, v). if version_of current p \<noteq> v then AList.update p v need else need) acc target
      = acc @ filter (\<lambda>(p, v). version_of current p \<noteq> v) target" for acc
    by (induction target arbitrary: acc) (auto simp: update_fresh)
  from this[of "[]"] show "distinct (map fst target) \<Longrightarrow> ?thesis" by (simp add: getNeedUpdate_def)
qed

lemma version_of_current: "version_of (parseCurrentVersionFile f) p = (if p = jx_toolset then TrimSpace (case f of None \<Rightarrow> [] | Some s \<Rightarrow> s) else [])"
  by (simp add: version_of_def parseCurrentVersionFile_def)

text \<open>A second run of \<open>addAptKey\<close> finds the line of the first and leaves the file alone.\<close>

lemma Contains_self: "Contains p p"
  by (cases p) (simp_all add: Contains_def has_prefix_def)

lemma add_source_again: "add_source c = Some c' \<Longrightarrow> add_source c' = None"
proof -
  assume "add_source c = Some c'"
  then have c': "c' = join_with [CHR 0x0A] (split_char (CHR 0x0A) c @ [apt_line])"
    by (auto simp: add_source_def Let_def split: if_splits)
  have "\<forall>w\<in>set (split_char (CHR 0x0A) c @ [apt_line]). CHR 0x0A \<notin> set w"
    using split_char_no_sep[of _ "CHR 0x0A" c] by (auto simp: apt_line_def)
  then have "split_char (CHR 0x0A) c' = split_char (CHR 0x0A) c @ [apt_line]"
    unfolding c' by (intro split_join_char) auto
  then show "add_source c' = None" by (simp add: add_source_def Let_def Contains_self)
qed

theorem addAptKey_idempotent:
  assumes "addAptKey True True src = (None, src')"
  shows "addAptKey key_ok write_ok src' = (if key_ok then None else Some GpgKeyInsertError, src')"
proof -
  obtain c where c: "src = Some c" using assms by (cases src) (auto simp: addAptKey_def)
  show ?thesis
  proof (cases "add_source c")
    case None
    with c assms show ?thesis by (auto simp: addAptKey_def)
  next
    case (Some c')
    with c assms show ?thesis by (auto simp: addAptKey_def add_source_again[OF Some])
  qed
qed

section \<open>Invariant\<close>

text \<open>The code between \<open>up.status = UPDATING\<close> and the deferred \<open>up.status = FINISHED\<close>.\<close>

fun loop_section :: "loop_phase \<Rightarrow> bool" where
  "loop_section (LKey need) = True"
| "loop_section (LSource need) = True"
| "loop_section (LInst ps) = True"
| "loop_section LRead = True"
| "loop_section LReport = True"
| "loop_section LJudge = True"
| "loop_section LLeave = True"
| "loop_section _ = False"

fun zip_section :: "handler_phase \<Rightarrow> bool" where
  "zip_section ZRun = True"
| "zip_section ZRead = True"
| "zip_section (ZLeave e) = True"
| "zip_section _ = False"

definition upd_inv :: "updateManager \<Rightarrow> bool" where
  "upd_inv u \<longleftrightarrow> (\<exists>f. currentVersion u = parseCurrentVersionFile f)
     \<and> (up_status u = UPDATING \<longrightarrow> loop_section (up_loop u) \<or> list_ex zip_section (up_handlers u))"

lemma log_upd_simps [simp]:
  "up_status (log_upd e u) = up_status u" "up_loop (log_upd e u) = up_loop u"
  "up_handlers (log_upd e u) = up_handlers u" "currentVersion (log_upd e u) = currentVersion u"
  "targetVersion (log_upd e u) = targetVersion u" "restarts (log_upd e u) = restarts u"
  "version_file (log_upd e u) = version_file u" "target_file (log_upd e u) = target_file u"
  by (simp_all add: log_upd_def split: option.splits)

lemma upd_cmd_simps [simp]:
  "up_status (upd_cmd e u) = up_status u" "up_loop (upd_cmd e u) = up_loop u"
  "up_handlers (upd_cmd e u) = up_handlers u" "currentVersion (upd_cmd e u) = currentVersion u"
  "targetVersion (upd_cmd e u) = targetVersion u" "restarts (upd_cmd e u) = restarts u"
  "version_file (upd_cmd e u) = version_file u" "target_file (upd_cmd e u) = target_file u"
  by (simp_all add: upd_cmd_def)

lemma loop_go_inv: "loop_go act u = Some u' \<Longrightarrow> upd_inv u \<Longrightarrow> upd_inv u'"
  by (cases "(act, u)" rule: loop_go.cases)
     (auto simp: upd_inv_def Let_def split: loop_phase.splits list.splits if_splits prod.splits)

lemma list_ex_update_keep: "list_ex P xs \<Longrightarrow> P x \<or> \<not> P (xs ! i) \<Longrightarrow> list_ex P (xs[i := x])"
  by (cases "i < length xs") (auto simp: list_ex_length nth_list_update)

lemma list_ex_update_new: "i < length xs \<Longrightarrow> P x \<Longrightarrow> list_ex P (xs[i := x])"
  by (auto simp: list_ex_length)

lemma handler_go_inv: "handler_go i u = Some u' \<Longrightarrow> upd_inv u \<Longrightarrow> upd_inv u'"
  by (cases "up_handlers u ! i")
     (auto simp: upd_inv_def handler_go_def set_handler_def split: if_splits
           simp: list_ex_update_keep list_ex_update_new not_le)

lemma handler_write_inv: "handler_write json i ok u = Some u' \<Longrightarrow> upd_inv u \<Longrightarrow> upd_inv u'"
  by (auto simp: handler_write_def set_handler_def upd_inv_def list_ex_update_keep
           split: handler_phase.splits if_splits)

lemma zip_run_inv: "zip_run i e vf u = Some u' \<Longrightarrow> upd_inv u \<Longrightarrow> upd_inv u'"
  by (cases e) (auto simp: zip_run_def set_handler_def upd_inv_def list_ex_update_keep list_ex_update_new
                  split: if_splits)

lemma new_handler_inv: "upd_inv u \<Longrightarrow> upd_inv (u\<lparr>up_handlers := up_handlers u @ [h]\<rparr>)"
  by (auto simp: upd_inv_def)

lemmas upd_inv_steps = loop_go_inv handler_go_inv handler_write_inv zip_run_inv

lemma upd_do_inv: "upd_do json act u = Some u' \<Longrightarrow> upd_inv u \<Longrightarrow> upd_inv u'"
  by (cases act) (auto simp: upd_do_def simp del: loop_go.simps dest: upd_inv_steps
                     intro: new_handler_inv split: handler_phase.splits)

lemma upd_reachable_inv: "ups.reachable unjson json u \<Longrightarrow> upd_inv u"
proof (erule ups.reachable_invariant)
  show "upd_initial unjson s \<Longrightarrow> upd_inv s" for s
    by (auto simp: upd_initial_def NewUpdateManager_def upd_inv_def)
qed (auto simp: upd_step_def intro: upd_do_inv)

section \<open>An update always ends\<close>

lemma upd_run_reachable:
  "upd_run json acts u = Some u' \<Longrightarrow> ups.reachable unjson json u \<Longrightarrow> ups.reachable unjson json u'"
  by (rule ups.reachable_acts) (auto simp: upd_step_def)

text \<open>The actions that take the loop from a phase of its section to the end, when every command works.\<close>

fun finish_loop :: "string option \<Rightarrow> loop_phase \<Rightarrow> upd_act list" where
  "finish_loop vf (LKey need) = LoopKey True True # LoopSource True need # map (\<lambda>_. LoopInst (Some []) vf) need @ [LoopGo, LoopGo, LoopReport True, LoopGo, LoopGo]"
| "finish_loop vf (LSource need) = LoopSource True need # map (\<lambda>_. LoopInst (Some []) vf) need @ [LoopGo, LoopGo, LoopReport True, LoopGo, LoopGo]"
| "finish_loop vf (LInst ps) = map (\<lambda>_. LoopInst (Some []) vf) ps @ [LoopGo, LoopGo, LoopReport True, LoopGo, LoopGo]"
| "finish_loop vf LRead = [LoopGo, LoopReport True, LoopGo, LoopGo]"
| "finish_loop vf LReport = [LoopReport True, LoopGo, LoopGo]"
| "finish_loop vf LJudge = [LoopGo, LoopGo]"
| "finish_loop vf LLeave = [LoopGo]"
| "finish_loop vf _ = []"

text \<open>What the loop leaves: the current version is the one of the file, the restart is ordered when it is the target.\<close>

definition loop_result :: "updateManager \<Rightarrow> updateManager \<Rightarrow> string option \<Rightarrow> bool" where
  "loop_result u u' vf \<longleftrightarrow> up_loop u' = LWait \<and> up_status u' = FINISHED \<and> targetVersion u' = targetVersion u
     \<and> target_file u' = target_file u \<and> version_file u' = vf \<and> up_handlers u' = up_handlers u
     \<and> currentVersion u' = parseCurrentVersionFile vf
     \<and> restarts u' = restarts u + (if getNeedUpdate (parseCurrentVersionFile vf) (targetVersion u) = [] then 1 else 0)"

lemma finish_read: "up_loop u = LRead \<Longrightarrow> \<exists>u'. upd_run json (finish_loop vf LRead) u = Some u' \<and> loop_result u u' (version_file u)"
  by (simp add: upd_do_def loop_result_def)

lemma finish_inst:
  "up_loop u = LInst ps \<Longrightarrow>
   \<exists>u'. upd_run json (finish_loop vf (LInst ps)) u = Some u' \<and> loop_result u u' (if ps = [] then version_file u else vf)"
proof (induction ps arbitrary: u)
  case Nil
  let ?u = "u\<lparr>up_loop := LRead\<rparr>"
  from Nil have "upd_do json LoopGo u = Some ?u" by (simp add: upd_do_def)
  moreover obtain u' where "upd_run json (finish_loop vf LRead) ?u = Some u'" "loop_result ?u u' (version_file ?u)"
    using finish_read[of ?u] by auto
  ultimately show ?case by (auto simp: loop_result_def)
next
  case (Cons x ps)
  obtain p v where x: "x = (p, v)" by (cases x)
  let ?u = "log_upd (aptInstall (Some [])) (upd_cmd (apt_cmd p v) (u\<lparr>version_file := vf, up_loop := LInst ps\<rparr>))"
  from Cons.prems x have "upd_do json (LoopInst (Some []) vf) u = Some ?u" by (simp add: upd_do_def)
  moreover obtain u' where "upd_run json (finish_loop vf (LInst ps)) ?u = Some u'"
    "loop_result ?u u' (if ps = [] then version_file ?u else vf)"
    using Cons.IH[of ?u] by auto
  ultimately show ?case by (auto simp: loop_result_def)
qed

lemma finish_source:
  assumes "up_loop u = LSource need" "need \<noteq> []"
  shows "\<exists>u'. upd_run json (finish_loop vf (LSource need)) u = Some u' \<and> loop_result u u' vf"
proof -
  let ?u = "log_upd None (upd_cmd ''apt update'' (u\<lparr>up_loop := LInst need\<rparr>))"
  from assms(1) have "upd_do json (LoopSource True need) u = Some ?u" by (simp add: upd_do_def)
  moreover obtain u' where "upd_run json (finish_loop vf (LInst need)) ?u = Some u'"
    "loop_result ?u u' (if need = [] then version_file ?u else vf)"
    using finish_inst[of ?u need json vf] by auto
  ultimately show ?thesis using assms(2) by (auto simp: loop_result_def)
qed

lemma finish_key:
  assumes "up_loop u = LKey need" "need \<noteq> []"
  shows "\<exists>u'. upd_run json (finish_loop vf (LKey need)) u = Some u' \<and> loop_result u u' vf"
proof -
  obtain e src where k: "addAptKey True True (sources_list u) = (e, src)"
    by (cases "addAptKey True True (sources_list u)")
  let ?u = "log_upd e (u\<lparr>sources_list := src, up_loop := LSource need\<rparr>)"
  from assms(1) k have "upd_do json (LoopKey True True) u = Some ?u" by (simp add: upd_do_def)
  moreover obtain u' where "upd_run json (finish_loop vf (LSource need)) ?u = Some u'" "loop_result ?u u' vf"
    using finish_source[of ?u need json vf, OF _ assms(2)] by auto
  ultimately show ?thesis by (auto simp: loop_result_def)
qed

text \<open>The needed packages are never none once \<open>tryUpdate\<close> goes on.\<close>

fun needed :: "loop_phase \<Rightarrow> bool" where
  "needed (LCheck need) = (need \<noteq> [])"
| "needed (LSet need) = (need \<noteq> [])"
| "needed (LKey need) = (need \<noteq> [])"
| "needed (LSource need) = (need \<noteq> [])"
| "needed _ = True"

lemma needed_step: "upd_do json act u = Some u' \<Longrightarrow> needed (up_loop u) \<Longrightarrow> needed (up_loop u')"
proof (cases act)
  case (HandlerGo i)
  then show "upd_do json act u = Some u' \<Longrightarrow> needed (up_loop u) \<Longrightarrow> needed (up_loop u')"
    by (auto simp: upd_do_def handler_go_def set_handler_def split: handler_phase.splits if_splits)
qed (auto simp: upd_do_def Let_def handler_write_def zip_run_def set_handler_def
       split: loop_phase.splits list.splits if_splits prod.splits handler_phase.splits)

lemma needed_reachable: "ups.reachable unjson json u \<Longrightarrow> needed (up_loop u)"
proof (erule ups.reachable_invariant)
  show "upd_initial unjson s \<Longrightarrow> needed (up_loop s)" for s
    by (auto simp: upd_initial_def NewUpdateManager_def)
qed (auto simp: upd_step_def intro: needed_step)

lemma finish_section:
  assumes "loop_section (up_loop u)" "needed (up_loop u)"
  shows "\<exists>u'. upd_run json (finish_loop (version_file u) (up_loop u)) u = Some u'
    \<and> up_status u' = FINISHED \<and> targetVersion u' = targetVersion u"
proof (cases "up_loop u")
  case (LKey need)
  then show ?thesis using finish_key[OF LKey] assms(2) by (fastforce simp: loop_result_def)
next
  case (LSource need)
  then show ?thesis using finish_source[OF LSource] assms(2) by (fastforce simp: loop_result_def)
next
  case (LInst ps)
  then show ?thesis using finish_inst[OF LInst] by (fastforce simp: loop_result_def)
next
  case LRead
  then show ?thesis using finish_read[OF LRead] by (fastforce simp: loop_result_def)
qed (use assms in \<open>auto simp: upd_do_def\<close>)

text \<open>A handler in its section ends it too.\<close>

fun finish_zip :: "nat \<Rightarrow> string option \<Rightarrow> handler_phase \<Rightarrow> upd_act list" where
  "finish_zip i vf ZRun = [ZipRun i None vf, HandlerGo i, HandlerGo i]"
| "finish_zip i vf ZRead = [HandlerGo i, HandlerGo i]"
| "finish_zip i vf (ZLeave e) = [HandlerGo i]"
| "finish_zip i vf _ = []"

lemma finish_handler:
  assumes "i < length (up_handlers u)" "zip_section (up_handlers u ! i)"
  shows "\<exists>u'. upd_run json (finish_zip i (version_file u) (up_handlers u ! i)) u = Some u'
    \<and> up_status u' = FINISHED \<and> targetVersion u' = targetVersion u"
  using assms
  by (cases "up_handlers u ! i") (auto simp: upd_do_def zip_run_def handler_go_def set_handler_def)

section \<open>Properties\<close>

text \<open>
  C25. The status never stays UPDATING: in every reachable state, whatever the interleaving of the loop
  and the handlers, UPDATING means that one of them is between its two assignments, and from every
  reachable state there is a run to FINISHED that keeps the target.
\<close>

theorem update_ends:
  assumes "ups.reachable unjson json u"
  shows "(up_status u = UPDATING \<longrightarrow> loop_section (up_loop u) \<or> list_ex zip_section (up_handlers u))
    \<and> (\<exists>acts u'. upd_run json acts u = Some u' \<and> up_status u' = FINISHED \<and> targetVersion u' = targetVersion u)"
proof -
  have inv: "upd_inv u" using assms by (rule upd_reachable_inv)
  consider "up_status u = FINISHED" | "loop_section (up_loop u)"
    | i where "i < length (up_handlers u)" "zip_section (up_handlers u ! i)"
    using inv by (cases "up_status u") (auto simp: upd_inv_def list_ex_length)
  then have "\<exists>acts u'. upd_run json acts u = Some u' \<and> up_status u' = FINISHED \<and> targetVersion u' = targetVersion u"
  proof cases
    case 1
    then have "upd_run json [] u = Some u \<and> up_status u = FINISHED \<and> targetVersion u = targetVersion u" by simp
    then show ?thesis by blast
  next
    case 2
    then show ?thesis using finish_section[OF 2 needed_reachable[OF assms]] by blast
  next
    case 3
    then show ?thesis using finish_handler[OF 3] by blast
  qed
  with inv show ?thesis by (simp add: upd_inv_def)
qed

text \<open>The actions of one \<open>SetTargetVersion\<close>, by handler \<open>i\<close>, that succeeds.\<close>

definition set_target_acts :: "nat \<Rightarrow> VersionInfo \<Rightarrow> upd_act list" where
  "set_target_acts i v = [NewHandler (TCheck v), HandlerGo i, HandlerGo i, HandlerWrite i True, HandlerGo i]"

lemma set_target_run:
  assumes "up_status u = FINISHED" "up_loop u = LWait"
  shows "upd_run json (set_target_acts (length (up_handlers u)) v) u
    = Some (u\<lparr>targetVersion := v, target_file := Some (json v), up_loop := LTry, up_handlers := up_handlers u @ [HDone None]\<rparr>)"
  using assms by (simp add: set_target_acts_def upd_do_def handler_go_def handler_write_def set_handler_def)

lemma try_update_run:
  assumes "up_status u = FINISHED" "up_loop u = LTry" "getNeedUpdate (currentVersion u) (targetVersion u) = need" "need \<noteq> []"
  shows "upd_run json [LoopGo, LoopGo, LoopGo] u = Some (u\<lparr>up_loop := LKey need, up_status := UPDATING\<rparr>)"
  using assms by (simp add: upd_do_def)

text \<open>
  C24. A new target is reached: from any state in which the loop waits and nothing is being
  updated, a \<open>SetTargetVersion\<close> for versions that are not the current ones, followed by the loop
  with an aptitude that leaves them in the version file, ends with the current version at the
  target, status FINISHED and one restart ordered; the manager that the restarted program creates
  from the files has the same target and finds nothing to do.
\<close>

theorem update_reaches_target:
  assumes "up_status u = FINISHED" "up_loop u = LWait"
    and "getNeedUpdate (currentVersion u) v = need" "need \<noteq> []"
    and "getNeedUpdate (parseCurrentVersionFile vf) v = []"
    and "unjson (json v) = v"
  shows "\<exists>u'. upd_run json (set_target_acts (length (up_handlers u)) v @ [LoopGo, LoopGo, LoopGo] @ finish_loop vf (LKey need)) u = Some u'
    \<and> up_status u' = FINISHED \<and> up_loop u' = LWait \<and> last (up_handlers u') = HDone None
    \<and> (\<forall>(p, w)\<in>set v. version_of (currentVersion u') p = w) \<and> restarts u' = Suc (restarts u)
    \<and> targetVersion (NewUpdateManager unjson (version_file u') (target_file u') src) = v
    \<and> upd_run json [LoopGo] (NewUpdateManager unjson (version_file u') (target_file u') src)
        = Some ((NewUpdateManager unjson (version_file u') (target_file u') src)\<lparr>up_loop := LWait\<rparr>)"
proof -
  let ?u1 = "u\<lparr>targetVersion := v, target_file := Some (json v), up_loop := LTry, up_handlers := up_handlers u @ [HDone None]\<rparr>"
  let ?u2 = "?u1\<lparr>up_loop := LKey need, up_status := UPDATING\<rparr>"
  have t: "upd_run json [LoopGo, LoopGo, LoopGo] ?u1 = Some ?u2"
    using assms(1,3,4) by (intro try_update_run) simp_all
  obtain u' where r: "upd_run json (finish_loop vf (LKey need)) ?u2 = Some u'" and u': "loop_result ?u2 u' vf"
    using finish_key[of ?u2 need json vf] assms(4) by auto
  have "upd_run json (set_target_acts (length (up_handlers u)) v @ [LoopGo, LoopGo, LoopGo] @ finish_loop vf (LKey need)) u = Some u'"
    unfolding run_acts_append[OF set_target_run[OF assms(1,2)]] run_acts_append[OF t] by (rule r)
  moreover have "targetVersion (NewUpdateManager unjson (version_file u') (target_file u') src) = v"
    using u' assms(6) by (simp add: loop_result_def NewUpdateManager_def parseTargetVersionFile_def)
  ultimately show ?thesis using u' assms(5,6)
    by (intro exI[of _ u']) (auto simp: loop_result_def getNeedUpdate_Nil[symmetric] upd_do_def NewUpdateManager_def parseTargetVersionFile_def)
qed

text \<open>
  A restart is ordered only at the target, and never for a target that names, with a version, any
  package but jx-toolset: the version file has no other.
\<close>

theorem restart_only_at_target:
  assumes "ups.reachable unjson json u" "upd_step json u u'" "restarts u < restarts u'"
  shows "(p, v) \<in> set (targetVersion u) \<Longrightarrow> version_of (currentVersion u) p = v \<and> (p = jx_toolset \<or> v = [])"
proof -
  assume pv: "(p, v) \<in> set (targetVersion u)"
  obtain act where act: "upd_do json act u = Some u'" using assms(2) by (auto simp: upd_step_def)
  have "restarts u' = restarts u \<or> getNeedUpdate (currentVersion u) (targetVersion u) = []"
    using act by (cases act)
      (auto simp: upd_do_def Let_def handler_write_def handler_go_def zip_run_def set_handler_def
         split: loop_phase.splits list.splits if_splits prod.splits handler_phase.splits)
  with assms(3) pv have v: "version_of (currentVersion u) p = v" by (auto simp: getNeedUpdate_Nil)
  moreover obtain f where "currentVersion u = parseCurrentVersionFile f"
    using upd_reachable_inv[OF assms(1)] by (auto simp: upd_inv_def)
  ultimately show ?thesis by (auto simp: version_of_current split: if_splits)
qed

section \<open>What the missing lock allows\<close>

definition demo_json :: "VersionInfo \<Rightarrow> string" where
  "demo_json v = join_with [CHR 0x0A] (map (\<lambda>(p, w). p @ CHR 0x09 # w) v)"

definition demo_unjson :: "string \<Rightarrow> VersionInfo" where
  "demo_unjson s = (if s = [] then [] else map (\<lambda>l. case split_char (CHR 0x09) l of [p, w] \<Rightarrow> (p, w) | _ \<Rightarrow> ([], [])) (split_char (CHR 0x0A) s))"

definition jx :: "string \<Rightarrow> VersionInfo" where
  "jx v = [(jx_toolset, v)]"

text \<open>A manager whose files say version 1 and target 2.\<close>

definition demo_upd :: updateManager where
  "demo_upd = NewUpdateManager demo_unjson (Some ''1'') (Some (demo_json (jx ''2''))) (Some [])"

lemma demo_reachable: "upd_run demo_json acts demo_upd = Some u \<Longrightarrow> ups.reachable demo_unjson demo_json u"
  by (erule upd_run_reachable, rule ups.start) (auto simp: upd_initial_def demo_upd_def)

lemma demo_case:
  "case_option False P (upd_run demo_json acts demo_upd) \<Longrightarrow>
   \<exists>u. upd_run demo_json acts demo_upd = Some u \<and> ups.reachable demo_unjson demo_json u \<and> P u"
  using demo_reachable by (cases "upd_run demo_json acts demo_upd") auto

lemma demo_run:
  "upd_run demo_json ([LoopGo, NewHandler (TCheck (jx ''3'')), HandlerGo 0, HandlerGo 0, HandlerWrite 0 True, HandlerGo 0,
      LoopGo, LoopGo] @ finish_loop (Some ''2'') (LKey (jx ''2''))) demo_upd
   = Some \<lparr>up_status = FINISHED, targetVersion = jx ''3'', currentVersion = jx ''2'', up_loop = LWait,
       up_handlers = [HDone None], version_file = Some ''2'', target_file = Some (demo_json (jx ''3'')),
       sources_list = Some (CHR 0x0A # apt_line), up_cmds = [''apt update'', apt_cmd jx_toolset ''2''],
       up_logged = [], restarts = 0\<rparr>"
  by code_simp

text \<open>
  A target can be forgotten: \<open>SetTargetVersion\<close> between the moment the loop computes what is needed and
  \<open>up.status = UPDATING\<close> returns no error, but its signal finds nobody waiting. The loop installs the
  old target and then waits, with the new one missing, until somebody sets a target again.
\<close>

theorem update_signal_lost:
  "\<exists>u. ups.reachable demo_unjson demo_json u \<and> up_handlers u = [HDone None] \<and> up_status u = FINISHED
    \<and> up_loop u = LWait \<and> getNeedUpdate (currentVersion u) (targetVersion u) = targetVersion u \<and> targetVersion u \<noteq> []
    \<and> (\<forall>act u'. upd_do demo_json act u = Some u' \<longrightarrow> (\<exists>h. act = NewHandler h))"
proof -
  let ?u = "\<lparr>up_status = FINISHED, targetVersion = jx ''3'', currentVersion = jx ''2'', up_loop = LWait,
       up_handlers = [HDone None], version_file = Some ''2'', target_file = Some (demo_json (jx ''3'')),
       sources_list = Some (CHR 0x0A # apt_line), up_cmds = [''apt update'', apt_cmd jx_toolset ''2''],
       up_logged = [], restarts = 0\<rparr>"
  have "getNeedUpdate (currentVersion ?u) (targetVersion ?u) = targetVersion ?u" "targetVersion ?u \<noteq> []"
    by code_simp+
  moreover have "\<exists>h. act = NewHandler h" if "upd_do demo_json act ?u = Some u'" for act u'
    using that by (cases act) (auto simp: upd_do_def handler_go_def handler_write_def zip_run_def not_less_eq_eq split: if_splits)
  ultimately show ?thesis by (intro exI[of _ ?u] conjI demo_reachable[OF demo_run]) auto
qed

text \<open>Two updates at a time: both pass the test of \<open>status\<close>, and the first to end says FINISHED for the other.\<close>

theorem update_two_at_once:
  "\<exists>u. ups.reachable demo_unjson demo_json u \<and> up_status u = FINISHED \<and> loop_section (up_loop u)
    \<and> up_handlers u = [HDone None]"
proof -
  have "case_option False (\<lambda>u. up_status u = FINISHED \<and> loop_section (up_loop u) \<and> up_handlers u = [HDone None])
      (upd_run demo_json [LoopGo, LoopGo, NewHandler ZCheck, HandlerGo 0, LoopGo, HandlerGo 0,
        ZipRun 0 None (Some ''5''), HandlerGo 0, HandlerGo 0] demo_upd)"
    by code_simp
  from demo_case[OF this] show ?thesis by blast
qed

section \<open>Witnesses\<close>

theorem update_reaches_target_witness:
  "\<exists>u'. upd_run demo_json (set_target_acts 0 (jx ''2'') @ [LoopGo, LoopGo, LoopGo] @ finish_loop (Some ''2'') (LKey (jx ''2'')))
      (demo_upd\<lparr>up_loop := LWait\<rparr>) = Some u' \<and> restarts u' = 1 \<and> version_of (currentVersion u') jx_toolset = ''2''"
proof -
  let ?u = "demo_upd\<lparr>up_loop := LWait\<rparr>"
  have h: "up_status ?u = FINISHED" "up_loop ?u = LWait" "getNeedUpdate (currentVersion ?u) (jx ''2'') = jx ''2''"
    "jx ''2'' \<noteq> []" "getNeedUpdate (parseCurrentVersionFile (Some ''2'')) (jx ''2'') = []"
    "demo_unjson (demo_json (jx ''2'')) = jx ''2''" "up_handlers ?u = []" "restarts ?u = 0"
    by code_simp+
  show ?thesis using update_reaches_target[of ?u "jx ''2''" "jx ''2''" "Some ''2''" demo_unjson demo_json, OF h(1-6)] h(7,8)
    by (auto simp: jx_def)
qed

theorem update_ends_witness:
  "\<exists>u. upd_run demo_json [LoopGo, LoopGo, LoopGo] demo_upd = Some u \<and> up_status u = UPDATING
    \<and> (\<exists>acts u'. upd_run demo_json acts u = Some u' \<and> up_status u' = FINISHED)"
proof -
  have "case_option False (\<lambda>u. up_status u = UPDATING) (upd_run demo_json [LoopGo, LoopGo, LoopGo] demo_upd)"
    by code_simp
  from demo_case[OF this] obtain u where u: "upd_run demo_json [LoopGo, LoopGo, LoopGo] demo_upd = Some u"
    "ups.reachable demo_unjson demo_json u" "up_status u = UPDATING" by blast
  with update_ends[OF u(2)] show ?thesis by blast
qed

end
