(* ===== verification/ConfigAgent.thy ===== *)
theory ConfigAgent
  imports Steps
begin

text \<open>
  The watch service of the configuration agent, \<open>gateway/serve/configagent.go\<close>: one websocket
  connection as a transition system. Its goroutines are the reader (\<open>ServeWebsocket\<close>), the handler
  (\<open>handleRequest\<close>) and one \<open>watchKeybg\<close> per \<open>go\<close> statement; they share the channels \<open>ch\<close> of capacity
  32 and \<open>responseC\<close> of capacity 3 and the maps of \<open>keysWatcher\<close> under its mutex. What the client sends
  and what \<open>GetConfig\<close> returns are arguments of the steps and arbitrary. A panic in a goroutine ends
  the whole program.
\<close>

section \<open>State\<close>

text \<open>\<open>req_JSON\<close>: \<open>None\<close> is a nil interface, \<open>Some\<close> the text of the value.\<close>

record getKeyRequest =
  Action :: int
  req_Key :: string
  req_JSON :: "string option"
  req_Timeout :: int

record watchKeyResponse =
  resp_Key :: string
  resp_Index :: int
  resp_Value :: string

text \<open>What is written on the websocket: an error, the answer of a get (null when there is none), a change of a watched key.\<close>

datatype ws_msg = ErrorMsg string | GetMsg "watchKeyResponse option" | ChangeMsg watchKeyResponse

datatype rd_phase = RdRead | RdSend | RdEnd

datatype watch_phase = WCheck | WGet int | WSend watchKeyResponse | WDone

record keysWatcher =
  kw_keys :: "(string, int) gomap"
  stoped :: bool
  responseC :: "watchKeyResponse list"
  responseC_closed :: bool
  ConfigIndexBucket :: "(string, int) gomap"
  watchers :: "(string \<times> watch_phase) list"

text \<open>
  The channel \<open>ch\<close> carries the pointer \<open>&req\<close>, always the same: its content is \<open>ch_len\<close> copies of the
  address of \<open>ws_req\<close>.
\<close>

record ws_conn =
  ws_req :: getKeyRequest
  ws_reader :: rd_phase
  ch_len :: nat
  ch_closed :: bool
  handler_returned :: bool
  ws_watcher :: keysWatcher
  ws_out :: "ws_msg list"
  crashed :: bool

definition ch_cap :: nat where
  "ch_cap = 32"

definition responseC_cap :: nat where
  "responseC_cap = 3"

definition newKeysWatcher :: keysWatcher where
  "newKeysWatcher = \<lparr>kw_keys = [], stoped = False, responseC = [], responseC_closed = False,
     ConfigIndexBucket = [], watchers = []\<rparr>"

definition new_conn :: ws_conn where
  "new_conn = \<lparr>ws_req = \<lparr>Action = 0, req_Key = [], req_JSON = None, req_Timeout = 0\<rparr>, ws_reader = RdRead,
     ch_len = 0, ch_closed = False, handler_returned = False, ws_watcher = newKeysWatcher, ws_out = [], crashed = False\<rparr>"

section \<open>The client\<close>

record go_url =
  url_Scheme :: string
  url_Host :: string
  url_Path :: string

text \<open>
  The answer of the agent: a status and, when there is a body, what \<open>json.Decode\<close> makes of it (its error,
  or index and value; for a put the text itself).
\<close>

datatype 'b agent_answer = HttpError string | HttpResp int "'b option"

text \<open>\<open>http.Client.Do\<close> refuses a request without a host; \<open>net\<close> is the network.\<close>

definition http_Do :: "(go_url \<Rightarrow> 'b agent_answer) \<Rightarrow> go_url \<Rightarrow> 'b agent_answer" where
  "http_Do net u = (if url_Host u = [] then HttpError ''http: no Host in request URL'' else net u)"

definition GetConfig :: "(string \<Rightarrow> string) \<Rightarrow> string \<Rightarrow> (go_url \<Rightarrow> (string + int \<times> string) agent_answer) \<Rightarrow> string \<Rightarrow> bool
    \<Rightarrow> string + watchKeyResponse option" where
  "GetConfig escape host net key watch =
     (let path = (if watch then ''/api/v1/config/watch/'' @ escape key else ''/api/v1/config/'' @ escape key)
      in case http_Do net \<lparr>url_Scheme = ''http'', url_Host = host, url_Path = path\<rparr> of
           HttpError e \<Rightarrow> Inl e
         | HttpResp status body \<Rightarrow>
             (if status \<ge> 400 then Inr None
              else case body of
                     None \<Rightarrow> Inr None
                   | Some (Inl e) \<Rightarrow> Inl e
                   | Some (Inr (ix, v)) \<Rightarrow> Inr (Some \<lparr>resp_Key = key, resp_Index = ix, resp_Value = v\<rparr>)))"

text \<open>\<open>json\<close> is the error or the text of \<open>json.Marshal\<close>; a body that cannot be read is \<open>Inl\<close>.\<close>

definition PutConfig :: "(string \<Rightarrow> string) \<Rightarrow> (go_url \<Rightarrow> (string + string) agent_answer) \<Rightarrow> string \<Rightarrow> string + string \<Rightarrow> string option" where
  "PutConfig escape net key json =
     (case json of
        Inl e \<Rightarrow> Some e
      | Inr buff \<Rightarrow>
          (case http_Do net \<lparr>url_Scheme = ''http'', url_Host = [], url_Path = ''/api/v1/config/'' @ escape key\<rparr> of
             HttpError e \<Rightarrow> Some e
           | HttpResp status None \<Rightarrow> None
           | HttpResp status (Some (Inl e)) \<Rightarrow> Some e
           | HttpResp status (Some (Inr buf)) \<Rightarrow> Some buf))"

section \<open>The keys watcher\<close>

definition shouldStop :: "string \<Rightarrow> keysWatcher \<Rightarrow> int option" where
  "shouldStop key w = (if stoped w then None else map_of (kw_keys w) key)"

definition WatchKey :: "string \<Rightarrow> int \<Rightarrow> keysWatcher \<Rightarrow> keysWatcher" where
  "WatchKey key timeout w =
     (if map_of (kw_keys w) key = None
      then w\<lparr>kw_keys := AList.update key timeout (kw_keys w), watchers := watchers w @ [(key, WCheck)]\<rparr>
      else w\<lparr>kw_keys := AList.update key timeout (kw_keys w)\<rparr>)"

definition UnwatchKey :: "string \<Rightarrow> keysWatcher \<Rightarrow> keysWatcher" where
  "UnwatchKey key w = w\<lparr>kw_keys := AList.delete key (kw_keys w)\<rparr>"

definition kw_Stop :: "keysWatcher \<Rightarrow> keysWatcher" where
  "kw_Stop w = w\<lparr>stoped := True, responseC_closed := True\<rparr>"

definition ConfigChanged :: "watchKeyResponse \<Rightarrow> keysWatcher \<Rightarrow> bool \<times> keysWatcher" where
  "ConfigChanged r w =
     (let index = (case map_of (ConfigIndexBucket w) (resp_Key r) of None \<Rightarrow> 0 | Some i \<Rightarrow> i)
      in if resp_Index r \<noteq> index
         then (True, w\<lparr>ConfigIndexBucket := AList.update (resp_Key r) (resp_Index r) (ConfigIndexBucket w)\<rparr>)
         else (False, w))"

text \<open>
  A step of \<open>watchKeybg\<close>: \<open>shouldStop\<close>; the return of \<open>GetConfig\<close>, with the index and the value it
  decoded, or nothing for an error and for a nil reply; the send, which panics on a closed channel
  and waits on a full one.
\<close>

definition set_watcher :: "nat \<Rightarrow> watch_phase \<Rightarrow> keysWatcher \<Rightarrow> keysWatcher" where
  "set_watcher i ph w = w\<lparr>watchers := (watchers w)[i := (fst (watchers w ! i), ph)]\<rparr>"

definition watchKeybg :: "nat \<Rightarrow> (int \<times> string) option \<Rightarrow> keysWatcher \<Rightarrow> keysWatcher go option" where
  "watchKeybg i reply w =
     (if length (watchers w) \<le> i then None
      else let key = fst (watchers w ! i) in
        case snd (watchers w ! i) of
          WCheck \<Rightarrow> Some (Ret (set_watcher i (case shouldStop key w of None \<Rightarrow> WDone | Some t \<Rightarrow> WGet t) w))
        | WGet t \<Rightarrow> Some (Ret (set_watcher i (case reply of None \<Rightarrow> WCheck
            | Some (ix, v) \<Rightarrow> WSend \<lparr>resp_Key = key, resp_Index = ix, resp_Value = v\<rparr>) w))
        | WSend r \<Rightarrow> (if responseC_closed w then Some Panic
                      else if length (responseC w) < responseC_cap
                      then Some (Ret (set_watcher i WCheck (w\<lparr>responseC := responseC w @ [r]\<rparr>)))
                      else None)
        | WDone \<Rightarrow> None)"

section \<open>The connection\<close>

text \<open>\<open>json.Unmarshal\<close> into \<open>req\<close> overwrites the fields the message has and keeps the others.\<close>

record req_patch =
  p_action :: "int option"
  p_key :: "string option"
  p_json :: "string option option"
  p_timeout :: "int option"

definition patched :: "'a option \<Rightarrow> 'a \<Rightarrow> 'a" where
  "patched p old = (case p of None \<Rightarrow> old | Some x \<Rightarrow> x)"

definition unmarshal_into :: "req_patch \<Rightarrow> getKeyRequest \<Rightarrow> getKeyRequest" where
  "unmarshal_into p r = \<lparr>Action = patched (p_action p) (Action r), req_Key = patched (p_key p) (req_Key r),
     req_JSON = patched (p_json p) (req_JSON r), req_Timeout = patched (p_timeout p) (req_Timeout r)\<rparr>"

definition write_msg :: "ws_msg \<Rightarrow> ws_conn \<Rightarrow> ws_conn" where
  "write_msg m s = s\<lparr>ws_out := ws_out s @ [m]\<rparr>"

definition missing_arg :: "string \<Rightarrow> string" where
  "missing_arg a = ''missing argument '' @ [CHR 0x27] @ a @ [CHR 0x27]"

text \<open>A text message; \<open>err\<close> is the error of \<open>json.Unmarshal\<close>, and \<open>timeout\<close> the configured default.\<close>

definition recv_text :: "int \<Rightarrow> req_patch \<Rightarrow> string option \<Rightarrow> ws_conn \<Rightarrow> ws_conn" where
  "recv_text timeout p err s =
     (let req = unmarshal_into p (ws_req s); s1 = s\<lparr>ws_req := req\<rparr>
      in case err of
           Some e \<Rightarrow> write_msg (ErrorMsg e) s1
         | None \<Rightarrow> (if req_Key req = [] then write_msg (ErrorMsg (missing_arg ''key'')) s1
                    else s1\<lparr>ws_req := (if req_Timeout req = 0 then req\<lparr>req_Timeout := timeout\<rparr> else req),
                            ws_reader := RdSend\<rparr>))"

text \<open>
  The body of \<open>case req, ok := <-ch\<close>; \<open>got\<close> is what \<open>GetConfig\<close> returns for a get. The fields of the request are
  read in one step, though the reader may decode its next message into the same record meanwhile.
\<close>

definition handle_action :: "string + watchKeyResponse option \<Rightarrow> ws_conn \<Rightarrow> ws_conn" where
  "handle_action got s =
     (let req = ws_req s in
      if Action req = 0 then write_msg (case got of Inl e \<Rightarrow> ErrorMsg e | Inr r \<Rightarrow> GetMsg r) s
      else if Action req = 1 then
        (if req_JSON req = None then write_msg (ErrorMsg (missing_arg ''json'')) s else s)
      else if Action req = 3 then s\<lparr>ws_watcher := WatchKey (req_Key req) (req_Timeout req) (ws_watcher s)\<rparr>
      else if Action req = 4 then s\<lparr>ws_watcher := UnwatchKey (req_Key req) (ws_watcher s)\<rparr>
      else write_msg (ErrorMsg ''unknown action'') s)"

datatype ws_act =
    RecvText req_patch "string option" | RecvOther | RecvClose | RecvFail | SendReq
  | HandleReq "string + watchKeyResponse option" | HandleResp | Watcher nat "(int \<times> string) option"

text \<open>
  \<open>RecvClose\<close>: a close frame runs the close handler, which closes \<open>ch\<close>, and \<open>ReadMessage\<close> fails;
  \<open>RecvFail\<close>: it fails without a close frame.
\<close>

fun ws_live :: "int \<Rightarrow> ws_act \<Rightarrow> ws_conn \<Rightarrow> ws_conn option" where
  "ws_live t (RecvText p err) s = (if ws_reader s = RdRead then Some (recv_text t p err s) else None)"
| "ws_live t RecvOther s = (if ws_reader s = RdRead then Some s else None)"
| "ws_live t RecvClose s = (if ws_reader s = RdRead then Some (s\<lparr>ch_closed := True, ws_reader := RdEnd\<rparr>) else None)"
| "ws_live t RecvFail s = (if ws_reader s = RdRead then Some (s\<lparr>ws_reader := RdEnd\<rparr>) else None)"
| "ws_live t SendReq s = (if ws_reader s = RdSend \<and> ch_len s < ch_cap
     then Some (s\<lparr>ch_len := Suc (ch_len s), ws_reader := RdRead\<rparr>) else None)"
| "ws_live t (HandleReq got) s =
     (if handler_returned s then None
      else if 0 < ch_len s then Some (handle_action got (s\<lparr>ch_len := ch_len s - 1\<rparr>))
      else if ch_closed s then Some (s\<lparr>ws_watcher := kw_Stop (ws_watcher s), handler_returned := True\<rparr>)
      else None)"
| "ws_live t HandleResp s =
     (if handler_returned s then None
      else case responseC (ws_watcher s) of
             [] \<Rightarrow> None
           | r # rs \<Rightarrow>
               (let (changed, w) = ConfigChanged r ((ws_watcher s)\<lparr>responseC := rs\<rparr>); s1 = s\<lparr>ws_watcher := w\<rparr>
                in Some (if changed then write_msg (ChangeMsg r) s1 else s1)))"
| "ws_live t (Watcher i reply) s = (case watchKeybg i reply (ws_watcher s) of
       None \<Rightarrow> None
     | Some (Ret w) \<Rightarrow> Some (s\<lparr>ws_watcher := w\<rparr>)
     | Some _ \<Rightarrow> Some (s\<lparr>crashed := True\<rparr>))"

definition ws_do :: "int \<Rightarrow> ws_act \<Rightarrow> ws_conn \<Rightarrow> ws_conn option" where
  "ws_do t act s = (if crashed s then None else ws_live t act s)"

definition ws_step :: "int \<Rightarrow> ws_conn \<Rightarrow> ws_conn \<Rightarrow> bool" where
  "ws_step t s s' \<longleftrightarrow> (\<exists>act. ws_do t act s = Some s')"

definition ws_initial :: "ws_conn \<Rightarrow> bool" where
  "ws_initial s \<longleftrightarrow> s = new_conn"

interpretation wss: transition_system ws_initial "ws_step t"
  for t .

abbreviation ws_run :: "int \<Rightarrow> ws_act list \<Rightarrow> ws_conn \<Rightarrow> ws_conn option" where
  "ws_run t \<equiv> run_acts (ws_do t)"

lemma ws_run_reachable: "ws_run t acts s = Some s' \<Longrightarrow> wss.reachable t s \<Longrightarrow> wss.reachable t s'"
  by (rule wss.reachable_acts) (auto simp: ws_step_def)

section \<open>Invariant\<close>

text \<open>The indices of the changes of a key that were written.\<close>

definition changes :: "string \<Rightarrow> ws_msg list \<Rightarrow> int list" where
  "changes k out = concat (map (\<lambda>m. case m of ChangeMsg r \<Rightarrow> if resp_Key r = k then [resp_Index r] else [] | _ \<Rightarrow> []) out)"

definition known_index :: "string \<Rightarrow> keysWatcher \<Rightarrow> int" where
  "known_index k w = (case map_of (ConfigIndexBucket w) k of None \<Rightarrow> 0 | Some i \<Rightarrow> i)"

definition polled :: "keysWatcher \<Rightarrow> string \<Rightarrow> bool" where
  "polled w k \<longleftrightarrow> (\<exists>ph. (k, ph) \<in> set (watchers w) \<and> ph \<noteq> WDone)"

definition kw_inv :: "keysWatcher \<Rightarrow> bool" where
  "kw_inv w \<longleftrightarrow> length (responseC w) \<le> responseC_cap \<and> responseC_closed w = stoped w
     \<and> (stoped w \<or> (\<forall>k. map_of (kw_keys w) k \<noteq> None \<longrightarrow> polled w k))"

definition out_inv :: "ws_msg list \<Rightarrow> keysWatcher \<Rightarrow> bool" where
  "out_inv out w \<longleftrightarrow> (\<forall>k. distinct_adj (0 # changes k out) \<and> last (0 # changes k out) = known_index k w)"

definition ws_inv :: "ws_conn \<Rightarrow> bool" where
  "ws_inv s \<longleftrightarrow> kw_inv (ws_watcher s) \<and> out_inv (ws_out s) (ws_watcher s) \<and> ch_len s \<le> ch_cap
     \<and> (handler_returned s \<longleftrightarrow> stoped (ws_watcher s)) \<and> (handler_returned s \<longrightarrow> ch_closed s \<and> ch_len s = 0)
     \<and> (ch_closed s \<longrightarrow> ws_reader s = RdEnd)"

lemma changes_snoc: "changes k (out @ [m]) = changes k out @
    (case m of ChangeMsg r \<Rightarrow> if resp_Key r = k then [resp_Index r] else [] | _ \<Rightarrow> [])"
  by (simp add: changes_def)

lemma distinct_adj_snoc: "distinct_adj (x # xs) \<Longrightarrow> last (x # xs) \<noteq> y \<Longrightarrow> distinct_adj (x # xs @ [y])"
  by (induction xs arbitrary: x) auto

lemma out_inv_other [simp]: "out_inv out w \<Longrightarrow> out_inv (out @ [ErrorMsg e]) w" "out_inv out w \<Longrightarrow> out_inv (out @ [GetMsg g]) w"
  by (simp_all add: out_inv_def changes_snoc)

lemma out_inv_bucket: "ConfigIndexBucket w' = ConfigIndexBucket w \<Longrightarrow> out_inv out w' = out_inv out w"
  by (simp add: out_inv_def known_index_def)

lemma ConfigChanged_out:
  assumes "ConfigChanged r w = (b, w')" "out_inv out w"
  shows "out_inv (if b then out @ [ChangeMsg r] else out) w'"
proof (cases "resp_Index r = known_index (resp_Key r) w")
  case True
  with assms show ?thesis by (simp add: ConfigChanged_def known_index_def)
next
  case False
  with assms(1) have b: "b" "w' = w\<lparr>ConfigIndexBucket := AList.update (resp_Key r) (resp_Index r) (ConfigIndexBucket w)\<rparr>"
    by (simp_all add: ConfigChanged_def known_index_def)
  have "distinct_adj (0 # changes k (out @ [ChangeMsg r])) \<and> last (0 # changes k (out @ [ChangeMsg r])) = known_index k w'" for k
  proof (cases "k = resp_Key r")
    case True
    have "distinct_adj (0 # changes k out)" "last (0 # changes k out) \<noteq> resp_Index r"
      using assms(2) False True by (auto simp: out_inv_def)
    from distinct_adj_snoc[OF this] True b show ?thesis by (simp add: changes_snoc known_index_def)
  next
    case False
    with assms(2) b show ?thesis by (auto simp: out_inv_def changes_snoc known_index_def)
  qed
  with b(1) show ?thesis by (simp add: out_inv_def)
qed

lemma ConfigChanged_kw: "ConfigChanged r w = (b, w') \<Longrightarrow> kw_inv w' = kw_inv w \<and> stoped w' = stoped w"
  by (auto simp: ConfigChanged_def kw_inv_def Let_def polled_def split: if_splits)

lemma WatchKey_inv: "kw_inv w \<Longrightarrow> kw_inv (WatchKey key t w)"
  by (auto simp: WatchKey_def kw_inv_def polled_def split: if_splits)

lemma UnwatchKey_inv: "kw_inv w \<Longrightarrow> kw_inv (UnwatchKey key w)"
  by (auto simp: UnwatchKey_def kw_inv_def polled_def)

lemma set_watcher_simps [simp]:
  "kw_keys (set_watcher i ph w) = kw_keys w" "stoped (set_watcher i ph w) = stoped w"
  "responseC (set_watcher i ph w) = responseC w" "responseC_closed (set_watcher i ph w) = responseC_closed w"
  "ConfigIndexBucket (set_watcher i ph w) = ConfigIndexBucket w"
  "watchers (set_watcher i ph w) = (watchers w)[i := (fst (watchers w ! i), ph)]"
  by (simp_all add: set_watcher_def)

lemma polled_set_watcher:
  assumes "polled w k" "i < length (watchers w)" "ph \<noteq> WDone \<or> fst (watchers w ! i) \<noteq> k"
  shows "polled (set_watcher i ph w) k"
proof -
  from assms(1) obtain j ph' where j: "j < length (watchers w)" "watchers w ! j = (k, ph')" "ph' \<noteq> WDone"
    by (auto simp: polled_def in_set_conv_nth)
  have "(watchers (set_watcher i ph w)) ! j = (if j = i then (k, ph) else (k, ph'))" "j = i \<longrightarrow> ph \<noteq> WDone"
    using j assms(2,3) by auto
  with j show ?thesis unfolding polled_def in_set_conv_nth
    by (intro exI[of _ "if j = i then ph else ph'"] conjI exI[of _ j]) simp_all
qed

lemma set_watcher_inv:
  assumes "kw_inv w" "i < length (watchers w)"
    and "ph = WDone \<Longrightarrow> stoped w \<or> map_of (kw_keys w) (fst (watchers w ! i)) = None"
  shows "kw_inv (set_watcher i ph w)"
  using assms polled_set_watcher[of w _ i ph] unfolding kw_inv_def by force

lemma watchKeybg_inv:
  assumes "watchKeybg i reply w = Some (Ret w')" "kw_inv w"
  shows "kw_inv w' \<and> stoped w' = stoped w \<and> ConfigIndexBucket w' = ConfigIndexBucket w"
proof -
  have i: "i < length (watchers w)" using assms(1) by (auto simp: watchKeybg_def split: if_splits)
  show ?thesis
  proof (cases "snd (watchers w ! i)")
    case WCheck
    have "shouldStop k w = None \<longleftrightarrow> stoped w \<or> map_of (kw_keys w) k = None" for k
      by (simp add: shouldStop_def)
    with WCheck assms i show ?thesis
      by (auto simp: watchKeybg_def Let_def intro!: set_watcher_inv split: option.splits)
  next
    case (WGet t)
    with assms i show ?thesis
      by (auto simp: watchKeybg_def Let_def intro!: set_watcher_inv split: option.splits)
  next
    case (WSend r)
    have "length (responseC w) < responseC_cap \<Longrightarrow> kw_inv (w\<lparr>responseC := responseC w @ [r]\<rparr>)"
      using assms(2) by (simp add: kw_inv_def polled_def)
    with WSend assms i show ?thesis
      by (auto simp: watchKeybg_def Let_def intro!: set_watcher_inv split: if_splits)
  next
    case WDone
    with assms i show ?thesis by (simp add: watchKeybg_def)
  qed
qed

lemma recv_text_inv: "ws_inv s \<Longrightarrow> ws_reader s = RdRead \<Longrightarrow> ws_inv (recv_text t p err s)"
  by (auto simp: recv_text_def Let_def ws_inv_def write_msg_def split: option.splits)

lemma WatchKey_simps [simp]:
  "stoped (WatchKey k t w) = stoped w" "ConfigIndexBucket (WatchKey k t w) = ConfigIndexBucket w"
  "stoped (UnwatchKey k w) = stoped w" "ConfigIndexBucket (UnwatchKey k w) = ConfigIndexBucket w"
  by (simp_all add: WatchKey_def UnwatchKey_def)

lemma handle_action_inv: "ws_inv s \<Longrightarrow> ws_inv (handle_action got s)"
  using out_inv_bucket[of "WatchKey _ _ (ws_watcher s)" "ws_watcher s"] out_inv_bucket[of "UnwatchKey _ (ws_watcher s)" "ws_watcher s"]
  by (auto simp: handle_action_def Let_def ws_inv_def write_msg_def WatchKey_inv UnwatchKey_inv split: sum.splits)

lemma ws_live_inv:
  assumes "ws_live t act s = Some s'" "ws_inv s"
  shows "ws_inv s'"
proof (cases act)
  case (RecvText p err)
  with assms show ?thesis by (auto intro: recv_text_inv split: if_splits)
next
  case (HandleReq got)
  have "ws_inv (s\<lparr>ch_len := ch_len s - 1\<rparr>)" if "0 < ch_len s"
    using that assms(2) by (auto simp: ws_inv_def)
  moreover have "ws_inv (s\<lparr>ws_watcher := kw_Stop (ws_watcher s), handler_returned := True\<rparr>)" if "ch_closed s" "ch_len s = 0"
    using that assms(2) by (auto simp: ws_inv_def kw_inv_def kw_Stop_def out_inv_def known_index_def)
  ultimately show ?thesis using HandleReq assms(1) by (auto intro: handle_action_inv split: if_splits)
next
  case HandleResp
  with assms(1) obtain r rs where r: "responseC (ws_watcher s) = r # rs" "\<not> handler_returned s"
    by (auto split: if_splits list.splits)
  let ?w = "(ws_watcher s)\<lparr>responseC := rs\<rparr>"
  obtain b w where c: "ConfigChanged r ?w = (b, w)" by (cases "ConfigChanged r ?w")
  have "kw_inv ?w" "out_inv (ws_out s) ?w"
    using assms(2) r by (auto simp: ws_inv_def kw_inv_def polled_def out_inv_def known_index_def)
  then have "kw_inv w" "stoped w = stoped (ws_watcher s)" "out_inv (if b then ws_out s @ [ChangeMsg r] else ws_out s) w"
    using ConfigChanged_out[OF c] ConfigChanged_kw[OF c] by simp_all
  moreover have "s' = s\<lparr>ws_watcher := w, ws_out := if b then ws_out s @ [ChangeMsg r] else ws_out s\<rparr>"
    using HandleResp assms(1) r c by (simp add: write_msg_def Let_def split: if_splits)
  ultimately show ?thesis using assms(2) by (simp add: ws_inv_def)
next
  case (Watcher i reply)
  show ?thesis
  proof (cases "watchKeybg i reply (ws_watcher s)")
    case (Some g)
    show ?thesis
    proof (cases g)
      case (Ret w)
      with Some Watcher assms watchKeybg_inv[of i reply "ws_watcher s" w] out_inv_bucket[of w "ws_watcher s"] show ?thesis
        by (auto simp: ws_inv_def)
    qed (use Some Watcher assms in \<open>auto simp: ws_inv_def\<close>)
  qed (use Watcher assms in simp)
qed (use assms in \<open>auto simp: ws_inv_def split: if_splits\<close>)

lemma ws_reachable_inv: "wss.reachable t s \<Longrightarrow> ws_inv s"
proof (erule wss.reachable_invariant)
  show "ws_initial s \<Longrightarrow> ws_inv s" for s
    by (auto simp: ws_initial_def new_conn_def newKeysWatcher_def ws_inv_def kw_inv_def out_inv_def changes_def known_index_def)
qed (auto simp: ws_step_def ws_do_def intro: ws_live_inv split: if_splits)

section \<open>Properties\<close>

text \<open>
  C26. Watching, in every state a connection can reach: until the connection is closed every watched key
  has a goroutine that polls it; no more than 3 answers and 32 requests wait; and each change of a
  key written to the client has an index other than that of the change of this key written just before
  it (an index may come back later), and other than 0 for the first.
\<close>

theorem config_watch_sound:
  assumes "wss.reachable t s"
  shows "(handler_returned s \<or> map_of (kw_keys (ws_watcher s)) k = None \<or> polled (ws_watcher s) k)
    \<and> length (responseC (ws_watcher s)) \<le> 3 \<and> ch_len s \<le> 32
    \<and> distinct_adj (0 # changes k (ws_out s))"
  using ws_reachable_inv[OF assms]
  by (auto simp: ws_inv_def kw_inv_def out_inv_def responseC_cap_def ch_cap_def)

text \<open>The put of the agent's client never reaches the agent: its URL has no host.\<close>

theorem PutConfig_always_fails: "PutConfig escape net key json \<noteq> None"
  by (simp add: PutConfig_def http_Do_def split: sum.splits)

text \<open>A request of the client, for the examples.\<close>

definition msg :: "int \<Rightarrow> string \<Rightarrow> ws_act" where
  "msg a k = RecvText \<lparr>p_action = Some a, p_key = Some k, p_json = None, p_timeout = None\<rparr> None"

lemma new_conn_run:
  assumes "case_option False P (ws_run t acts new_conn)"
  shows "\<exists>s. wss.reachable t s \<and> P s"
proof -
  from assms obtain s where s: "ws_run t acts new_conn = Some s" "P s" by (auto split: option.splits)
  have "wss.reachable t new_conn" by (rule wss.start) (simp add: ws_initial_def)
  with ws_run_reachable[OF s(1)] s(2) show ?thesis by blast
qed

text \<open>
  A client that watches a key and closes its websocket while a poll is under way ends the whole
  program: \<open>Stop\<close> closes the channel on which the answer of the poll is then sent.
\<close>

theorem close_while_polling_crashes:
  "\<exists>s. wss.reachable 30 s \<and> crashed s"
  by (rule new_conn_run[where acts = "[msg 3 ''k'', SendReq, HandleReq (Inr None), Watcher 0 None, RecvClose,
        HandleReq (Inr None), Watcher 0 (Some (1, ''v'')), Watcher 0 None]"]) code_simp

text \<open>
  Two requests that arrive before the first is handled: both entries of the channel point to the
  same variable, so the second is handled twice and the first never.
\<close>

theorem request_overwritten:
  "\<exists>s. wss.reachable 30 s \<and> ch_len s = 0 \<and> ws_out s = [] \<and> kw_keys (ws_watcher s) = [(''b'', 30)]"
  by (rule new_conn_run[where acts = "[msg 3 ''a'', SendReq, msg 3 ''b'', SendReq, HandleReq (Inr None), HandleReq (Inr None)]"])
     code_simp

text \<open>Watching a key again while its first poll is under way gives it a second goroutine.\<close>

theorem key_polled_twice:
  "\<exists>s. wss.reachable 30 s \<and> kw_keys (ws_watcher s) = [(''k'', 30)]
    \<and> watchers (ws_watcher s) = [(''k'', WGet 30), (''k'', WGet 30)]"
  by (rule new_conn_run[where acts = "[msg 3 ''k'', SendReq, HandleReq (Inr None), Watcher 0 None, msg 4 ''k'', SendReq,
        HandleReq (Inr None), msg 3 ''k'', SendReq, HandleReq (Inr None), Watcher 1 None]"]) code_simp

text \<open>
  A connection that is lost without a close frame is never given up: in every later state the
  handler goroutine runs, and every key that was watched is still polled.
\<close>

lemma lost_step:
  assumes "ws_step t s s'" "ws_reader s = RdEnd" "\<not> ch_closed s" "ch_len s = 0" "\<not> handler_returned s"
  shows "ws_reader s' = RdEnd \<and> \<not> ch_closed s' \<and> ch_len s' = 0 \<and> \<not> handler_returned s'
    \<and> kw_keys (ws_watcher s') = kw_keys (ws_watcher s)"
proof -
  obtain act where "ws_live t act s = Some s'" using assms(1) by (auto simp: ws_step_def ws_do_def split: if_splits)
  with assms(2-) show ?thesis
    by (cases act) (auto simp: write_msg_def ConfigChanged_def watchKeybg_def set_watcher_def Let_def
          split: list.splits if_splits option.splits go.splits prod.splits watch_phase.splits)
qed

theorem lost_connection_leaks:
  assumes "wss.reachable t s" "ws_reader s = RdEnd" "\<not> ch_closed s" "ch_len s = 0" "(ws_step t)\<^sup>*\<^sup>* s s'"
  shows "\<not> handler_returned s' \<and> (map_of (kw_keys (ws_watcher s)) k \<noteq> None \<longrightarrow> polled (ws_watcher s') k)"
proof -
  have run: "\<not> handler_returned s" using ws_reachable_inv[OF assms(1)] assms(3) by (auto simp: ws_inv_def)
  from assms(5) have "ws_reader s' = RdEnd \<and> \<not> ch_closed s' \<and> ch_len s' = 0 \<and> \<not> handler_returned s'
    \<and> kw_keys (ws_watcher s') = kw_keys (ws_watcher s)"
  proof (induction rule: rtranclp_induct)
    case (step y z)
    then show ?case using lost_step[of t y z] by simp
  qed (use assms(2-4) run in simp)
  moreover have "ws_inv s'" by (rule ws_reachable_inv[OF wss.reachable_run[OF assms(1,5)]])
  ultimately show ?thesis by (auto simp: ws_inv_def kw_inv_def)
qed

theorem config_watch_sound_witness:
  "\<exists>s :: ws_conn. kw_keys (ws_watcher s) = [(''k'', 30)] \<and> length (ws_out s) = 1 \<and> polled (ws_watcher s) ''k''"
proof -
  have "\<exists>s. wss.reachable 30 s \<and> kw_keys (ws_watcher s) = [(''k'', 30)] \<and> \<not> handler_returned s \<and> length (ws_out s) = 1"
    by (rule new_conn_run[where acts = "[msg 3 ''k'', SendReq, HandleReq (Inr None), Watcher 0 None,
        Watcher 0 (Some (5, ''v'')), Watcher 0 None, HandleResp]"]) code_simp
  then obtain s where "wss.reachable 30 s" "kw_keys (ws_watcher s) = [(''k'', 30)]" "\<not> handler_returned s" "length (ws_out s) = 1" by blast
  then show ?thesis using config_watch_sound[of 30 s "''k''"] by (intro exI[of _ s]) auto
qed

end
