(* ===== verification/Control.thy ===== *)
theory Control
  imports GoPrelude "HOL-Library.Char_ord"
begin

text \<open>
  The control client: \<open>ctl/rpc/xml_processor.go\<close> and \<open>xmlrpc-client.go\<close> (the calls to the supervisor)
  and \<open>ctl/client/executor.go\<close> (the commands of the prompt). The supervisor behind the connection is
  a state \<open>'w\<close> that a request may change; the transport, the XML-RPC library and the type
  \<open>types.ProcessInfo\<close> of another repository are the fields of \<open>ctl_env\<close>. What a command prints, and
  \<open>os.Exit\<close>, are recorded. \<open>verbose\<close> is never set by \<open>NewRpcExcutior\<close>, so the messages it enables are
  left out.
\<close>

section \<open>XML processors\<close>

text \<open>The tokens of \<open>encoding/xml\<close> that \<open>ProcessXml\<close> looks at; the list ends at the decoder's first error.\<close>

datatype xml_token = StartElement string | CharData string | EndElement | OtherToken

datatype xml_event = LeafNode string string | NonLeafNode string

definition AddChild :: "string \<Rightarrow> string list \<Rightarrow> string list" where
  "AddChild elemName xp = xp @ [elemName]"

definition RemoveLast :: "string list \<Rightarrow> string list" where
  "RemoveLast xp = (if length xp > 0 then take (length xp - 1) xp else xp)"

definition xp_String :: "string list \<Rightarrow> string" where
  "xp_String xp = join_with ''/'' xp"

text \<open>\<open>Equals\<close> compares from the last name to the first.\<close>

fun equal_down :: "nat \<Rightarrow> string list \<Rightarrow> string list \<Rightarrow> bool" where
  "equal_down 0 xs ys = True"
| "equal_down (Suc i) xs ys = (if xs ! i \<noteq> ys ! i then False else equal_down i xs ys)"

definition xp_Equals :: "string list \<Rightarrow> string list \<Rightarrow> bool" where
  "xp_Equals xp other = (if length xp \<noteq> length other then False else equal_down (length xp) xp other)"

text \<open>
  \<open>ProcessXml\<close>: the calls of \<open>ProcessLeafNode\<close> and \<open>ProcessNonLeafNode\<close>. \<open>curData\<close> is dropped at a start
  tag only, so the end of an element that follows a leaf counts as a leaf too.
\<close>

fun process_tokens :: "string list \<Rightarrow> string option \<Rightarrow> xml_token list \<Rightarrow> xml_event list" where
  "process_tokens curPath curData [] = []"
| "process_tokens curPath curData (StartElement n # ts) = process_tokens (AddChild n curPath) None ts"
| "process_tokens curPath curData (CharData d # ts) = process_tokens curPath (Some d) ts"
| "process_tokens curPath curData (EndElement # ts) =
     (case curData of Some d \<Rightarrow> LeafNode (xp_String curPath) d | None \<Rightarrow> NonLeafNode (xp_String curPath))
       # process_tokens (RemoveLast curPath) curData ts"
| "process_tokens curPath curData (OtherToken # ts) = process_tokens curPath curData ts"

definition ProcessXml :: "xml_token list \<Rightarrow> xml_event list" where
  "ProcessXml ts = process_tokens [] None ts"

text \<open>The closures of \<open>ReloadConfig\<close> and the variables they share.\<close>

record ReloadConfigResult =
  AddedGroup :: "string list"
  ChangedGroup :: "string list"
  RemovedGroup :: "string list"

record reload_vars =
  rv_reply :: ReloadConfigResult
  rv_i :: int
  has_value :: bool

definition data_path :: string where
  "data_path = ''methodResponse/params/param/value/array/data''"

fun reload_event :: "reload_vars \<Rightarrow> xml_event \<Rightarrow> reload_vars" where
  "reload_event v (NonLeafNode p) =
     (if p = data_path then (if has_value v then v\<lparr>has_value := False\<rparr> else v\<lparr>rv_i := rv_i v + 1\<rparr>) else v)"
| "reload_event v (LeafNode p value) =
     (if p = data_path @ ''/value'' then
        (let v1 = v\<lparr>has_value := True, rv_i := rv_i v + 1\<rparr>; r = rv_reply v
         in v1\<lparr>rv_reply :=
              (if rv_i v1 = 0 then r\<lparr>AddedGroup := AddedGroup r @ [value]\<rparr>
               else if rv_i v1 = 1 then r\<lparr>ChangedGroup := ChangedGroup r @ [value]\<rparr>
               else if rv_i v1 = 2 then r\<lparr>RemovedGroup := RemovedGroup r @ [value]\<rparr>
               else r)\<rparr>)
      else v)"

definition empty_reload :: ReloadConfigResult where
  "empty_reload = \<lparr>AddedGroup = [], ChangedGroup = [], RemovedGroup = []\<rparr>"

definition read_reload :: "xml_token list \<Rightarrow> ReloadConfigResult" where
  "read_reload ts = rv_reply (foldl reload_event \<lparr>rv_reply = empty_reload, rv_i = - 1, has_value = False\<rparr> (ProcessXml ts))"

section \<open>The XML-RPC client\<close>

datatype call_arg =
    NoArgs | ValueArg string | WaitArg bool | SignalArg string | ProcessSignal string string | NameArg string
  | TailArg string int int

record http_request =
  rq_url :: string
  rq_method :: string
  rq_data :: call_arg
  rq_auth :: "(string \<times> string) option"

record CtlInfo =
  ci_Name :: string
  ci_Group :: string
  ci_Description :: string
  ci_Statename :: string
  ci_Pid :: int

record ProcessTailLog =
  LogData :: string
  tl_Offset :: int
  tl_Overflow :: bool

text \<open>\<open>NoAnswer\<close>: the connection, the request or the reading of the response failed.\<close>

datatype 'b transport = NoAnswer | Answer int 'b

text \<open>
  \<open>parse_url\<close>: scheme and path of \<open>url.Parse\<close>; \<open>new_request\<close>: whether \<open>http.NewRequest\<close> accepts the URL;
  \<open>send_http\<close> and \<open>send_unix\<close>: the exchange over TCP and over a socket; \<open>dec_\<dots>\<close>: \<open>DecodeClientResponse\<close>
  for the type of the reply, the error on the left; \<open>tokens\<close>: the XML decoder; \<open>full_name\<close>:
  \<open>GetFullName\<close>; \<open>group_display\<close>: the variable \<open>SUPERVISOR_GROUP_DISPLAY\<close>.
\<close>

record ('b, 'w) ctl_env =
  parse_url :: "string \<Rightarrow> (string \<times> string) option"
  new_request :: "string \<Rightarrow> bool"
  send_http :: "http_request \<Rightarrow> 'w \<Rightarrow> 'b transport \<times> 'w"
  send_unix :: "string \<Rightarrow> http_request \<Rightarrow> 'w \<Rightarrow> 'b transport \<times> 'w"
  dec_infos :: "'b \<Rightarrow> string + CtlInfo list"
  dec_info :: "'b \<Rightarrow> string + CtlInfo"
  dec_bool :: "'b \<Rightarrow> string + bool"
  dec_tail :: "'b \<Rightarrow> string + ProcessTailLog"
  tokens :: "'b \<Rightarrow> xml_token list"
  full_name :: "CtlInfo \<Rightarrow> string"
  group_display :: "string option"

record XmlRPCClient =
  serverurl :: string
  cl_user :: string
  cl_password :: string

datatype ctl_out = Print string | RunCmd "string list"

text \<open>What the client has printed and run, and the supervisor.\<close>

record 'w ctl =
  outs :: "ctl_out list"
  world :: 'w

definition print :: "string \<Rightarrow> 'w ctl \<Rightarrow> 'w ctl" where
  "print t s = s\<lparr>outs := outs s @ [Print t]\<rparr>"

definition rpc_Url :: "XmlRPCClient \<Rightarrow> string" where
  "rpc_Url r = serverurl r @ ''/RPC2''"

definition basic_auth :: "XmlRPCClient \<Rightarrow> (string \<times> string) option" where
  "basic_auth r = (if length (cl_user r) > 0 \<and> length (cl_password r) > 0 then Some (cl_user r, cl_password r) else None)"

definition createHttpRequest :: "('b, 'w) ctl_env \<Rightarrow> XmlRPCClient \<Rightarrow> string \<Rightarrow> string \<Rightarrow> call_arg \<Rightarrow> http_request option" where
  "createHttpRequest E r meth url data =
     (if new_request E url
      then Some \<lparr>rq_url = url, rq_method = meth, rq_data = data,
        rq_auth = basic_auth r\<rparr>
      else None)"

text \<open>How \<open>processBody\<close> is called, if it is.\<close>

datatype 'b callback = NotCalled | CalledError string | CalledBody 'b

definition processResponse :: "int \<Rightarrow> 'b \<Rightarrow> 'b callback" where
  "processResponse status body =
     (if status div 100 \<noteq> 2 then CalledError (''Bad response with status code '' @ Itoa status) else CalledBody body)"

definition answered :: "'b transport \<times> 'w \<Rightarrow> 'w ctl \<Rightarrow> 'b callback \<times> 'w ctl" where
  "answered a s = (case fst a of NoAnswer \<Rightarrow> NotCalled | Answer st b \<Rightarrow> processResponse st b, s\<lparr>world := snd a\<rparr>)"

definition postInetHttp :: "('b, 'w) ctl_env \<Rightarrow> XmlRPCClient \<Rightarrow> string \<Rightarrow> string \<Rightarrow> call_arg \<Rightarrow> 'w ctl \<Rightarrow> 'b callback \<times> 'w ctl" where
  "postInetHttp E r meth url data s =
     (case createHttpRequest E r meth url data of
        None \<Rightarrow> (NotCalled, s)
      | Some req \<Rightarrow> answered (send_http E req (world s)) s)"

definition postUnixHttp :: "('b, 'w) ctl_env \<Rightarrow> XmlRPCClient \<Rightarrow> string \<Rightarrow> string \<Rightarrow> call_arg \<Rightarrow> 'w ctl \<Rightarrow> 'b callback \<times> 'w ctl" where
  "postUnixHttp E r meth path data s =
     (case createHttpRequest E r meth ''/RPC2'' data of
        None \<Rightarrow> (NotCalled, s)
      | Some req \<Rightarrow> answered (send_unix E path req (world s)) s)"

definition post :: "('b, 'w) ctl_env \<Rightarrow> XmlRPCClient \<Rightarrow> string \<Rightarrow> call_arg \<Rightarrow> 'w ctl \<Rightarrow> 'b callback \<times> 'w ctl" where
  "post E r meth data s =
     (case parse_url E (serverurl r) of
        None \<Rightarrow> (NotCalled, print (''Malform url:<nil>'' @ [CHR 0x0A]) s)
      | Some (scheme, path) \<Rightarrow>
          (if scheme = ''http'' \<or> scheme = ''https'' then postInetHttp E r meth (rpc_Url r) data s
           else if scheme = ''unix'' then postUnixHttp E r meth path data s
           else (NotCalled, print (''Unsupported URL scheme:'' @ scheme @ [CHR 0x0A]) s)))"

text \<open>
  The common shape of the calls: \<open>reply\<close> and \<open>err\<close> are named results that only the callback assigns.
  When it is not called the call returns the zero value and no error.
\<close>

definition rpc_call :: "('b, 'w) ctl_env \<Rightarrow> XmlRPCClient \<Rightarrow> string \<Rightarrow> call_arg \<Rightarrow> ('b \<Rightarrow> string + 'r) \<Rightarrow> 'r \<Rightarrow> 'w ctl \<Rightarrow> (string + 'r) \<times> 'w ctl" where
  "rpc_call E r meth data dec zero s =
     (case post E r meth data s of
        (NotCalled, s') \<Rightarrow> (Inr zero, s')
      | (CalledError e, s') \<Rightarrow> (Inl e, s')
      | (CalledBody b, s') \<Rightarrow> (dec b, s'))"

definition rpc_GetAllProcessInfo :: "('b, 'w) ctl_env \<Rightarrow> XmlRPCClient \<Rightarrow> 'w ctl \<Rightarrow> (string + CtlInfo list) \<times> 'w ctl" where
  "rpc_GetAllProcessInfo E r = rpc_call E r ''supervisor.getAllProcessInfo'' NoArgs (dec_infos E) []"

definition ChangeProcessState :: "('b, 'w) ctl_env \<Rightarrow> XmlRPCClient \<Rightarrow> string \<Rightarrow> string \<Rightarrow> 'w ctl \<Rightarrow> (string + bool) \<times> 'w ctl" where
  "ChangeProcessState E r change processName s =
     (if \<not> (change = ''start'' \<or> change = ''stop'') then (Inl ''Incorrect required state'', s)
      else rpc_call E r (''supervisor.'' @ change @ ''Process'') (ValueArg processName) (dec_bool E) False s)"

definition ChangeAllProcessState :: "('b, 'w) ctl_env \<Rightarrow> XmlRPCClient \<Rightarrow> string \<Rightarrow> 'w ctl \<Rightarrow> (string + CtlInfo list) \<times> 'w ctl" where
  "ChangeAllProcessState E r change s =
     (if \<not> (change = ''start'' \<or> change = ''stop'') then (Inl ''Incorrect required state'', s)
      else rpc_call E r (''supervisor.'' @ change @ ''AllProcesses'') (WaitArg True) (dec_infos E) [] s)"

definition rpc_Shutdown :: "('b, 'w) ctl_env \<Rightarrow> XmlRPCClient \<Rightarrow> 'w ctl \<Rightarrow> (string + bool) \<times> 'w ctl" where
  "rpc_Shutdown E r = rpc_call E r ''supervisor.shutdown'' NoArgs (dec_bool E) False"

definition rpc_ReloadConfig :: "('b, 'w) ctl_env \<Rightarrow> XmlRPCClient \<Rightarrow> 'w ctl \<Rightarrow> (string + ReloadConfigResult) \<times> 'w ctl" where
  "rpc_ReloadConfig E r = rpc_call E r ''supervisor.reloadConfig'' NoArgs (\<lambda>b. Inr (read_reload (tokens E b))) empty_reload"

definition rpc_SignalProcess :: "('b, 'w) ctl_env \<Rightarrow> XmlRPCClient \<Rightarrow> string \<Rightarrow> string \<Rightarrow> 'w ctl \<Rightarrow> (string + bool) \<times> 'w ctl" where
  "rpc_SignalProcess E r sig name = rpc_call E r ''supervisor.signalProcess'' (ProcessSignal name sig) (dec_bool E) False"

definition SignalAll :: "('b, 'w) ctl_env \<Rightarrow> XmlRPCClient \<Rightarrow> string \<Rightarrow> 'w ctl \<Rightarrow> (string + CtlInfo list) \<times> 'w ctl" where
  "SignalAll E r sig = rpc_call E r ''supervisor.signalProcess'' (SignalArg sig) (dec_infos E) []"

definition empty_info :: CtlInfo where
  "empty_info = \<lparr>ci_Name = [], ci_Group = [], ci_Description = [], ci_Statename = [], ci_Pid = 0\<rparr>"

definition rpc_GetProcessInfo :: "('b, 'w) ctl_env \<Rightarrow> XmlRPCClient \<Rightarrow> string \<Rightarrow> 'w ctl \<Rightarrow> (string + CtlInfo) \<times> 'w ctl" where
  "rpc_GetProcessInfo E r process = rpc_call E r ''supervisor.getProcessInfo'' (NameArg process) (dec_info E) empty_info"

definition rpc_TailProcessStdoutLog :: "('b, 'w) ctl_env \<Rightarrow> XmlRPCClient \<Rightarrow> string \<Rightarrow> int \<Rightarrow> int \<Rightarrow> 'w ctl \<Rightarrow> (string + ProcessTailLog) \<times> 'w ctl" where
  "rpc_TailProcessStdoutLog E r name off len =
     rpc_call E r ''supervisor.tailProcessStdoutLog'' (TailArg name off len) (dec_tail E) \<lparr>LogData = [], tl_Offset = 0, tl_Overflow = False\<rparr>"

definition rpc_TailProcessStderrLog :: "('b, 'w) ctl_env \<Rightarrow> XmlRPCClient \<Rightarrow> string \<Rightarrow> int \<Rightarrow> int \<Rightarrow> 'w ctl \<Rightarrow> (string + ProcessTailLog) \<times> 'w ctl" where
  "rpc_TailProcessStderrLog E r name off len =
     rpc_call E r ''supervisor.tailProcessStderrLog'' (TailArg name off len) (dec_tail E) \<lparr>LogData = [], tl_Offset = 0, tl_Overflow = False\<rparr>"

section \<open>The commands\<close>

text \<open>A command goes on, ends the program, or panics.\<close>

datatype 's outcome = Continue 's | Exit int 's | Crash

fun and_then :: "'s outcome \<Rightarrow> ('s \<Rightarrow> 's outcome) \<Rightarrow> 's outcome" where
  "and_then (Continue s) f = f s"
| "and_then (Exit c s) f = Exit c s"
| "and_then Crash f = Crash"

text \<open>\<open>xs[i]\<close> and \<open>xs[i:]\<close>: out of range they panic.\<close>

definition at_index :: "'a list \<Rightarrow> nat \<Rightarrow> ('a \<Rightarrow> 's outcome) \<Rightarrow> 's outcome" where
  "at_index xs i f = (if i < length xs then f (xs ! i) else Crash)"

definition slice_from :: "'a list \<Rightarrow> nat \<Rightarrow> ('a list \<Rightarrow> 's outcome) \<Rightarrow> 's outcome" where
  "slice_from xs i f = (if i \<le> length xs then f (drop i xs) else Crash)"

fun for_each :: "('a \<Rightarrow> 's \<Rightarrow> 's outcome) \<Rightarrow> 'a list \<Rightarrow> 's \<Rightarrow> 's outcome" where
  "for_each f [] s = Continue s"
| "for_each f (x # xs) s = and_then (f x s) (for_each f xs)"

text \<open>
  \<open>strings.ToLower\<close> as far as a comparison with an ASCII text can tell: the two other characters whose
  lower case is ASCII are U+0130 and U+212A.
\<close>

fun ToLower :: "string \<Rightarrow> string" where
  "ToLower [] = []"
| "ToLower (c # s) =
     (if has_prefix (c # s) [CHR 0xC4, CHR 0xB0] then CHR ''i'' # ToLower (drop 1 s)
      else if has_prefix (c # s) [CHR 0xE2, CHR 0x84, CHR 0xAA] then CHR ''k'' # ToLower (drop 2 s)
      else (if CHR ''A'' \<le> c \<and> c \<le> CHR ''Z'' then char_of (of_char c + 32 :: nat) else c) # ToLower s)"

text \<open>The number of code points of a byte string, an invalid byte counting for one, as \<open>fmt\<close> pads.\<close>

definition cont_byte :: "nat \<Rightarrow> nat \<Rightarrow> nat \<Rightarrow> string \<Rightarrow> bool" where
  "cont_byte i lo hi s \<longleftrightarrow> i < length s \<and> lo \<le> of_char (s ! i) \<and> of_char (s ! i) \<le> hi"

definition rune_len :: "string \<Rightarrow> nat" where
  "rune_len s = (let b = (of_char (hd s) :: nat) in
     if 0xC2 \<le> b \<and> b \<le> 0xDF \<and> cont_byte 1 0x80 0xBF s then 2
     else if 0xE0 \<le> b \<and> b \<le> 0xEF
       \<and> cont_byte 1 (if b = 0xE0 then 0xA0 else 0x80) (if b = 0xED then 0x9F else 0xBF) s \<and> cont_byte 2 0x80 0xBF s then 3
     else if 0xF0 \<le> b \<and> b \<le> 0xF4
       \<and> cont_byte 1 (if b = 0xF0 then 0x90 else 0x80) (if b = 0xF4 then 0x8F else 0xBF) s \<and> cont_byte 2 0x80 0xBF s
       \<and> cont_byte 3 0x80 0xBF s then 4
     else 1)"

fun rune_count :: "string \<Rightarrow> nat" where
  "rune_count [] = 0"
| "rune_count (c # s) = Suc (rune_count (drop (rune_len (c # s) - 1) s))"

definition pad_right :: "nat \<Rightarrow> string \<Rightarrow> string" where
  "pad_right n s = s @ replicate (n - rune_count s) (CHR '' '')"

record RpcExector =
  ServerUrl :: string
  x_User :: string
  x_Password :: string

definition NewRpcExcutior :: "string \<Rightarrow> string \<Rightarrow> string \<Rightarrow> RpcExector" where
  "NewRpcExcutior serveurl user password = \<lparr>ServerUrl = serveurl, x_User = user, x_Password = password\<rparr>"

definition createRpcClient :: "RpcExector \<Rightarrow> XmlRPCClient" where
  "createRpcClient x = \<lparr>serverurl = ServerUrl x, cl_user = x_User x, cl_password = x_Password x\<rparr>"

definition showGroupName :: "('b, 'w) ctl_env \<Rightarrow> bool" where
  "showGroupName E = (case group_display E of
       None \<Rightarrow> False
     | Some val \<Rightarrow> ToLower val \<in> {''yes'', ''true'', ''y'', ''t'', ''1''})"

text \<open>The loop over the keys of the map; the order of the visit does not matter for the answer.\<close>

definition name_matches :: "('b, 'w) ctl_env \<Rightarrow> CtlInfo \<Rightarrow> string \<Rightarrow> bool" where
  "name_matches E pinfo procName =
     (procName = ci_Name pinfo \<or> procName = full_name E pinfo
      \<or> (case index_of procName '':'' of
           None \<Rightarrow> False
         | Some pos \<Rightarrow> drop (pos + 1) procName = ''*'' \<and> take pos procName = ci_Group pinfo))"

definition inProcessMap :: "('b, 'w) ctl_env \<Rightarrow> CtlInfo \<Rightarrow> string list \<Rightarrow> bool" where
  "inProcessMap E pinfo processesMap = (if length processesMap \<le> 0 then True else list_ex (name_matches E pinfo) processesMap)"

definition getANSIColor :: "string \<Rightarrow> string" where
  "getANSIColor statename =
     (if statename = ''RUNNING'' then CHR 0x1B # ''[0;32m''
      else if statename = ''BACKOFF'' \<or> statename = ''FATAL'' then CHR 0x1B # ''[0;31m''
      else CHR 0x1B # ''[1;33m'')"

definition info_line :: "('b, 'w) ctl_env \<Rightarrow> CtlInfo \<Rightarrow> string" where
  "info_line E pinfo =
     (let description = (if ToLower (ci_Description pinfo) = ''<string></string>'' then [] else ci_Description pinfo);
          processName = (if showGroupName E then full_name E pinfo else ci_Name pinfo)
      in getANSIColor (ci_Statename pinfo) @ pad_right 33 processName @ pad_right 10 (ci_Statename pinfo)
         @ description @ (CHR 0x1B # ''[0m'') @ [CHR 0x0A])"

definition showProcessInfo :: "('b, 'w) ctl_env \<Rightarrow> CtlInfo list \<Rightarrow> string list \<Rightarrow> 'w ctl \<Rightarrow> 'w ctl" where
  "showProcessInfo E reply processesMap s =
     foldl (\<lambda>s pinfo. if inProcessMap E pinfo processesMap then print (info_line E pinfo) s else s) s reply"

definition x_getProcessInfo :: "('b, 'w) ctl_env \<Rightarrow> CtlInfo list \<Rightarrow> string list" where
  "x_getProcessInfo E reply = map (full_name E) reply"

definition x_status :: "('b, 'w) ctl_env \<Rightarrow> XmlRPCClient \<Rightarrow> string list \<Rightarrow> 'w ctl \<Rightarrow> 'w ctl outcome" where
  "x_status E r processes s =
     (case rpc_GetAllProcessInfo E r s of
        (Inr reply, s') \<Rightarrow> Continue (showProcessInfo E reply (remdups processes) s')
      | (Inl e, s') \<Rightarrow> Exit 1 s')"

text \<open>\<open>getAllProcessesName\<close>: the names, or the end of the program.\<close>

definition getAllProcessesName :: "('b, 'w) ctl_env \<Rightarrow> XmlRPCClient \<Rightarrow> 'w ctl \<Rightarrow> string list option \<times> 'w ctl" where
  "getAllProcessesName E r s =
     (case rpc_GetAllProcessInfo E r s of
        (Inr reply, s') \<Rightarrow> (Some (x_getProcessInfo E reply), s')
      | (Inl e, s') \<Rightarrow> (None, s'))"

text \<open>One round of \<open>_startStopProcesses\<close>; a call of \<open>fmt.Printf\<close> is one \<open>Print\<close>.\<close>

definition startStop_one :: "('b, 'w) ctl_env \<Rightarrow> XmlRPCClient \<Rightarrow> string \<Rightarrow> string \<Rightarrow> bool \<Rightarrow> string \<Rightarrow> 'w ctl \<Rightarrow> 'w ctl outcome" where
  "startStop_one E r verb state showInfo pname s =
     (if pname = ''all'' then
        (case ChangeAllProcessState E r verb s of
           (Inr reply, s') \<Rightarrow> Continue (if showInfo then showProcessInfo E reply [] s' else s')
         | (Inl e, s') \<Rightarrow> Continue (print (''Fail to change all process state to '' @ state) s'))
      else
        (case ChangeProcessState E r verb pname s of
           (Inr v, s') \<Rightarrow>
             Continue (if showInfo
               then print (state @ [CHR 0x0A]) (if v then print (pname @ '': '') s' else print ''not '' (print (pname @ '': '') s'))
               else s')
         | (Inl e, s') \<Rightarrow> Exit 1 (print (pname @ '': failed ['' @ e @ '']'' @ [CHR 0x0A]) s')))"

definition startStop_list :: "('b, 'w) ctl_env \<Rightarrow> XmlRPCClient \<Rightarrow> string \<Rightarrow> string list \<Rightarrow> string \<Rightarrow> bool \<Rightarrow> 'w ctl \<Rightarrow> 'w ctl outcome" where
  "startStop_list E r verb processes state showInfo s =
     for_each (startStop_one E r verb state showInfo) processes
       (if length processes \<le> 0 then print (''Please specify process for '' @ verb @ [CHR 0x0A]) s else s)"

definition startStopProcesses :: "('b, 'w) ctl_env \<Rightarrow> XmlRPCClient \<Rightarrow> string \<Rightarrow> string list \<Rightarrow> 'w ctl \<Rightarrow> 'w ctl outcome" where
  "startStopProcesses E r verb processes =
     startStop_list E r verb processes
       (if verb = ''start'' then ''started'' else if verb = ''stop'' then ''stopped'' else []) True"

definition restartProcesses :: "('b, 'w) ctl_env \<Rightarrow> XmlRPCClient \<Rightarrow> string list \<Rightarrow> 'w ctl \<Rightarrow> 'w ctl outcome" where
  "restartProcesses E r processes s =
     and_then (startStop_list E r ''stop'' processes ''stopped'' False s)
       (startStop_list E r ''start'' processes ''restarted'' True)"

definition x_shutdown :: "('b, 'w) ctl_env \<Rightarrow> XmlRPCClient \<Rightarrow> 'w ctl \<Rightarrow> 'w ctl outcome" where
  "x_shutdown E r s =
     (case rpc_Shutdown E r s of
        (Inr v, s') \<Rightarrow> Continue (print (if v then ''Shut Down'' @ [CHR 0x0A] else ''Hmmm! Something gone wrong?!'' @ [CHR 0x0A]) s')
      | (Inl e, s') \<Rightarrow> Exit 1 s')"

definition group_line :: "string \<Rightarrow> string list \<Rightarrow> 'w ctl \<Rightarrow> 'w ctl" where
  "group_line t gs s = (if length gs > 0 then print (t @ '' Groups: '' @ join_with '','' gs @ [CHR 0x0A]) s else s)"

definition x_reload :: "('b, 'w) ctl_env \<Rightarrow> XmlRPCClient \<Rightarrow> 'w ctl \<Rightarrow> 'w ctl outcome" where
  "x_reload E r s =
     (case rpc_ReloadConfig E r s of
        (Inr reply, s') \<Rightarrow> Continue (group_line ''Removed'' (RemovedGroup reply)
           (group_line ''Changed'' (ChangedGroup reply) (group_line ''Added'' (AddedGroup reply) s')))
      | (Inl e, s') \<Rightarrow> Exit 1 s')"

definition signal_one :: "('b, 'w) ctl_env \<Rightarrow> XmlRPCClient \<Rightarrow> string \<Rightarrow> string \<Rightarrow> 'w ctl \<Rightarrow> 'w ctl outcome" where
  "signal_one E r sig_name process s =
     (if process = ''all'' then
        (case SignalAll E r process s of
           (Inr reply, s') \<Rightarrow> Continue (showProcessInfo E reply [] s')
         | (Inl e, s') \<Rightarrow> Exit 1 (print (''Fail to send signal '' @ sig_name @ '' to all process'') s'))
      else
        (case rpc_SignalProcess E r sig_name process s of
           (res, s') \<Rightarrow>
             (if res = Inr True
              then Continue (print (''Succeed to send signal '' @ sig_name @ '' to process '' @ process @ [CHR 0x0A]) s')
              else Exit 1 (print (''Fail to send signal '' @ sig_name @ '' to process '' @ process @ [CHR 0x0A]) s'))))"

definition x_signal :: "('b, 'w) ctl_env \<Rightarrow> XmlRPCClient \<Rightarrow> string \<Rightarrow> string list \<Rightarrow> 'w ctl \<Rightarrow> 'w ctl outcome" where
  "x_signal E r sig_name processes = for_each (signal_one E r sig_name) processes"

definition getPid :: "('b, 'w) ctl_env \<Rightarrow> XmlRPCClient \<Rightarrow> string \<Rightarrow> 'w ctl \<Rightarrow> 'w ctl outcome" where
  "getPid E r process s =
     (case rpc_GetProcessInfo E r process s of
        (Inl e, s') \<Rightarrow> Exit 1 (print (''program '' @ [CHR 0x27] @ process @ [CHR 0x27] @ '' not found'' @ [CHR 0x0A]) s')
      | (Inr pinfo, s') \<Rightarrow> Continue (print (Itoa (ci_Pid pinfo) @ [CHR 0x0A]) s'))"

text \<open>The commands that run \<open>tail -f\<close>; what it prints, and an error of it, are not recorded.\<close>

definition run_tail :: "string \<Rightarrow> 'w ctl \<Rightarrow> 'w ctl" where
  "run_tail f s = s\<lparr>outs := outs s @ [RunCmd [''tail'', ''-f'', f]]\<rparr>"

definition tailProcessLog :: "string list \<Rightarrow> 'w ctl \<Rightarrow> 'w ctl outcome" where
  "tailProcessLog args s =
     at_index args 0 (\<lambda>a.
       let tail = (\<lambda>process.
             let run = (\<lambda>logLevel. Continue (run_tail (''/edge/logs/'' @ process @ ''_'' @ logLevel @ ''.log.0'') s))
             in if length args = 2 then at_index args 1 run else run ''stderr'')
       in if index_of a '':'' \<noteq> None then at_index (split_char (CHR '':'') a) 0 tail else tail a)"

definition Execute :: "('b, 'w) ctl_env \<Rightarrow> RpcExector \<Rightarrow> string \<Rightarrow> 'w ctl \<Rightarrow> 'w ctl outcome" where
  "Execute E x s0 st =
     (let s = TrimSpace s0 in
      if s = [] then Continue st
      else if s = ''quit'' \<or> s = ''exit'' then Exit 0 (print (''Bye!'' @ [CHR 0x0A]) st)
      else
        (let args = split_char (CHR '' '') s; n = length args; r = createRpcClient x
         in at_index args 0 (\<lambda>firstword.
            if firstword = ''status'' then slice_from args 1 (\<lambda>ps. x_status E r ps st)
            else if firstword = ''start'' \<or> firstword = ''stop'' then
              (if n \<ge> 1 then slice_from args 1 (\<lambda>ps. startStopProcesses E r firstword ps st) else Continue st)
            else if firstword = ''reset'' then x_shutdown E r st
            else if firstword = ''restart'' then slice_from args 1 (\<lambda>ps. restartProcesses E r ps st)
            else if firstword = ''signal'' then
              at_index args 1 (\<lambda>sig_name. slice_from args 2 (\<lambda>ps. x_signal E r sig_name ps st))
            else if firstword = ''tail'' then
              (if n = 3 then at_index args 2 (\<lambda>thirdword.
                 if thirdword = ''stderr'' \<or> thirdword = ''stdout'' then slice_from args 1 (\<lambda>as. tailProcessLog as st) else Continue st)
               else Continue st)
            else if firstword = ''pid'' then
              (if n = 2 then at_index args 1 (\<lambda>p. getPid E r p st) else Continue st)
            else if firstword = ''log'' then Continue (run_tail ''/edge/logs/edge-guard.log'' st)
            else if firstword = ''help'' then Continue st
            else Continue (print (''unknown command'' @ [CHR 0x0A]) st))))"

section \<open>The prompt\<close>

text \<open>
  The suggestions of \<open>arguments.go\<close> and \<open>completer.go\<close>. \<open>FilterHasPrefix\<close> and the word before the cursor
  are those of the prompt library; \<open>log\<close> runs a command while the line is still being typed.
\<close>

datatype suggest = Suggest string string

definition rpcCommands :: "suggest list" where
  "rpcCommands = [Suggest ''status'' ''Get all program status info'', Suggest ''tail'' ''tail the process stderr or stdout'',
     Suggest ''stop'' ''Stop the program'', Suggest ''start'' ''Start the program'', Suggest ''pid'' ''Get pid by name'',
     Suggest ''restart'' ''Restart program'', Suggest ''reset'' ''Restart edge-guard'', Suggest ''log'' ''edge-guard log'']"

definition logLevel :: "suggest list" where
  "logLevel = [Suggest ''stdout'' [], Suggest ''stderr'' []]"

definition argumentsCompleter :: "(suggest list \<Rightarrow> string \<Rightarrow> suggest list) \<Rightarrow> suggest list \<Rightarrow> string \<Rightarrow> string list
    \<Rightarrow> 'w ctl \<Rightarrow> suggest list \<times> 'w ctl" where
  "argumentsCompleter fhp processTypes word args s =
     (if length args \<le> 1 then (fhp rpcCommands (args ! 0), s)
      else if args ! 0 \<in> {''status'', ''tail'', ''stop'', ''start'', ''pid'', ''reset'', ''restart''} then
        (if length args = 2 then (fhp processTypes (args ! 1), s)
         else if length args = 3 \<and> args ! 0 = ''tail'' then
           (if word = ''stde'' \<or> word = ''stder'' \<or> word = ''stderr'' then [logLevel ! 1]
            else if word = ''stdo'' \<or> word = ''stdou'' \<or> word = ''stdout'' then [logLevel ! 0]
            else logLevel, s)
         else ([], s))
      else if args ! 0 = ''log'' then ([], run_tail ''/edge/logs/edge-guard.log'' s)
      else ([], s))"

definition completer :: "(suggest list \<Rightarrow> string \<Rightarrow> suggest list) \<Rightarrow> suggest list \<Rightarrow> string \<Rightarrow> string \<Rightarrow> 'w ctl \<Rightarrow> suggest list \<times> 'w ctl" where
  "completer fhp processTypes word before s =
     (if before = [] then (rpcCommands, s)
      else argumentsCompleter fhp processTypes word (split_char (CHR '' '') before) s)"

text \<open>\<open>Run\<close> on the lines that are entered: the status of all programs, the names for completion, and the commands.\<close>

definition ctl_Run :: "('b, 'w) ctl_env \<Rightarrow> string list \<Rightarrow> 'w ctl \<Rightarrow> 'w ctl outcome" where
  "ctl_Run E lines s =
     (let e = NewRpcExcutior ''http://127.0.0.1:9001'' ''root'' []; r = createRpcClient e
      in and_then (x_status E r [] s)
           (\<lambda>s. case getAllProcessesName E r s of
                  (None, s') \<Rightarrow> Exit 1 s'
                | (Some names, s') \<Rightarrow> for_each (Execute E e) lines s'))"

section \<open>Paths and replies\<close>

lemma equal_down_iff: "equal_down n xs ys \<longleftrightarrow> (\<forall>i<n. xs ! i = ys ! i)"
  by (induction n) (auto simp: less_Suc_eq)

lemma xp_Equals_iff: "xp_Equals xp other \<longleftrightarrow> xp = other"
  by (auto simp: xp_Equals_def equal_down_iff list_eq_iff_nth_eq)

lemma RemoveLast_AddChild [simp]: "RemoveLast (AddChild n xp) = xp"
  by (simp add: RemoveLast_def AddChild_def)

text \<open>The tokens of an answer to reloadConfig: one array of strings per list of groups.\<close>

definition value_tokens :: "string \<Rightarrow> xml_token list" where
  "value_tokens v = [StartElement ''value'', CharData v, EndElement]"

definition array_tokens :: "string list \<Rightarrow> xml_token list" where
  "array_tokens vs = [StartElement ''param'', StartElement ''value'', StartElement ''array'', StartElement ''data'']
     @ concat (map value_tokens vs) @ replicate 4 EndElement"

definition reload_tokens :: "string list \<Rightarrow> string list \<Rightarrow> string list \<Rightarrow> xml_token list" where
  "reload_tokens added changed removed = [StartElement ''methodResponse'', StartElement ''params'']
     @ array_tokens added @ array_tokens changed @ array_tokens removed @ [EndElement, EndElement]"

lemmas reload_eval = read_reload_def ProcessXml_def reload_tokens_def array_tokens_def value_tokens_def AddChild_def
  RemoveLast_def xp_String_def data_path_def empty_reload_def numeral_eq_Suc Let_def

text \<open>
  One group in each list is read as it is; a second added group is taken for a changed one, and so
  is a removed group when nothing changed: the closures count values, not lists.
\<close>

theorem reload_reply_misread:
  "read_reload (reload_tokens [a] [c] [r]) = \<lparr>AddedGroup = [a], ChangedGroup = [c], RemovedGroup = [r]\<rparr>"
  "read_reload (reload_tokens [a, b] [] []) = \<lparr>AddedGroup = [a], ChangedGroup = [b], RemovedGroup = []\<rparr>"
  "read_reload (reload_tokens [a] [] [r]) = \<lparr>AddedGroup = [a], ChangedGroup = [r], RemovedGroup = []\<rparr>"
  by (simp_all add: reload_eval)

section \<open>Commands and the supervisor\<close>

text \<open>A supervisor that answers over HTTP, and whose answers to start and stop can be decoded.\<close>

definition reachable_server :: "('b, 'w) ctl_env \<Rightarrow> XmlRPCClient \<Rightarrow> bool" where
  "reachable_server E r \<longleftrightarrow> (\<exists>path. parse_url E (serverurl r) = Some (''http'', path)) \<and> new_request E (rpc_Url r)"

definition change_request :: "XmlRPCClient \<Rightarrow> string \<Rightarrow> string \<Rightarrow> http_request" where
  "change_request r verb p = \<lparr>rq_url = rpc_Url r, rq_method = ''supervisor.'' @ verb @ ''Process'', rq_data = ValueArg p,
     rq_auth = basic_auth r\<rparr>"

definition answers :: "('b, 'w) ctl_env \<Rightarrow> http_request \<Rightarrow> 'w \<Rightarrow> bool" where
  "answers E q w \<longleftrightarrow> (case fst (send_http E q w) of
       NoAnswer \<Rightarrow> False
     | Answer st b \<Rightarrow> st div 100 = 2 \<and> (case dec_bool E b of Inl e \<Rightarrow> False | Inr v \<Rightarrow> True))"

lemma post_reachable:
  assumes "reachable_server E r"
  shows "post E r meth data s = answered (send_http E \<lparr>rq_url = rpc_Url r, rq_method = meth, rq_data = data,
     rq_auth = basic_auth r\<rparr> (world s)) s"
  using assms by (auto simp: reachable_server_def post_def postInetHttp_def createHttpRequest_def)

lemma ChangeProcessState_reachable:
  assumes "reachable_server E r" "verb = ''start'' \<or> verb = ''stop''" "answers E (change_request r verb p) (world s)"
  shows "\<exists>v. ChangeProcessState E r verb p s = (Inr v, s\<lparr>world := snd (send_http E (change_request r verb p) (world s))\<rparr>)"
  using assms(2,3)
  by (auto simp: ChangeProcessState_def rpc_call_def post_reachable[OF assms(1)] answered_def answers_def change_request_def
        processResponse_def split: transport.splits sum.splits prod.splits)

lemma startStop_one_world:
  assumes "reachable_server E r" "verb = ''start'' \<or> verb = ''stop''" "p \<noteq> ''all''" "answers E (change_request r verb p) (world s)"
  shows "\<exists>s'. startStop_one E r verb state b p s = Continue s'
    \<and> world s' = snd (send_http E (change_request r verb p) (world s))"
proof -
  obtain v where "ChangeProcessState E r verb p s = (Inr v, s\<lparr>world := snd (send_http E (change_request r verb p) (world s))\<rparr>)"
    using ChangeProcessState_reachable[OF assms(1,2,4)] by blast
  with assms(3) show ?thesis by (simp add: startStop_one_def print_def)
qed

definition send_all :: "('b, 'w) ctl_env \<Rightarrow> http_request list \<Rightarrow> 'w \<Rightarrow> 'w" where
  "send_all E qs w = foldl (\<lambda>w q. snd (send_http E q w)) w qs"

lemma startStop_list_world:
  assumes "reachable_server E r" "verb = ''start'' \<or> verb = ''stop''" "''all'' \<notin> set ps"
    and "\<And>p w. p \<in> set ps \<Longrightarrow> answers E (change_request r verb p) w"
  shows "\<exists>s'. startStop_list E r verb ps state b s = Continue s'
    \<and> world s' = send_all E (map (change_request r verb) ps) (world s)"
proof -
  have "\<exists>s'. for_each (startStop_one E r verb state b) ps s = Continue s'
      \<and> world s' = send_all E (map (change_request r verb) ps) (world s)" for s
    using assms(3,4)
  proof (induction ps arbitrary: s)
    case (Cons p ps)
    obtain s1 where s1: "startStop_one E r verb state b p s = Continue s1"
      "world s1 = snd (send_http E (change_request r verb p) (world s))"
      using startStop_one_world[OF assms(1,2), of p s state b] Cons.prems by auto
    obtain s' where "for_each (startStop_one E r verb state b) ps s1 = Continue s'"
      "world s' = send_all E (map (change_request r verb) ps) (world s1)"
      using Cons.IH[of s1] Cons.prems by auto
    with s1 show ?case by (simp add: send_all_def)
  qed (simp add: send_all_def)
  from this[of s] show ?thesis by (cases ps) (simp_all add: startStop_list_def print_def send_all_def)
qed

text \<open>
  C39. \<open>restart p q ...\<close> with a supervisor that answers: it goes on, and what the supervisor was sent is a
  stop of every named process, in order, and then a start of every one, in order.
\<close>

theorem restart_stops_then_starts:
  assumes "reachable_server E r" "''all'' \<notin> set ps"
    and "\<And>verb p w. p \<in> set ps \<Longrightarrow> answers E (change_request r verb p) w"
  shows "\<exists>s'. restartProcesses E r ps s = Continue s'
    \<and> world s' = send_all E (map (change_request r ''stop'') ps @ map (change_request r ''start'') ps) (world s)"
proof -
  obtain s1 where s1: "startStop_list E r ''stop'' ps ''stopped'' False s = Continue s1"
    "world s1 = send_all E (map (change_request r ''stop'') ps) (world s)"
    using startStop_list_world[OF assms(1) _ assms(2), of "''stop''"] assms(3) by blast
  obtain s' where "startStop_list E r ''start'' ps ''restarted'' True s1 = Continue s'"
    "world s' = send_all E (map (change_request r ''start'') ps) (world s1)"
    using startStop_list_world[OF assms(1) _ assms(2), of "''start''"] assms(3) by blast
  with s1 show ?thesis by (simp add: restartProcesses_def send_all_def)
qed

lemma for_each_no_crash: "(\<And>x s. f x s \<noteq> Crash) \<Longrightarrow> for_each f xs s \<noteq> Crash"
proof (induction xs arbitrary: s)
  case (Cons x xs)
  then show ?case by (cases "f x s") auto
qed simp

lemma no_crash [simp]:
  "x_status E r ps s \<noteq> Crash" "startStop_list E r verb ps state b s \<noteq> Crash" "x_shutdown E r s \<noteq> Crash"
  "x_signal E r sig ps s \<noteq> Crash" "getPid E r p s \<noteq> Crash"
proof -
  have "startStop_one E r verb state b p s \<noteq> Crash" for p s
    by (simp add: startStop_one_def split: prod.splits sum.splits)
  then show "startStop_list E r verb ps state b s \<noteq> Crash"
    unfolding startStop_list_def by (rule for_each_no_crash)
  have "signal_one E r sig p s \<noteq> Crash" for p s
    by (simp add: signal_one_def split: prod.splits sum.splits)
  then show "x_signal E r sig ps s \<noteq> Crash" unfolding x_signal_def by (rule for_each_no_crash)
qed (simp_all add: x_status_def x_shutdown_def getPid_def split: prod.splits sum.splits)

lemma restart_no_crash [simp]: "restartProcesses E r ps s \<noteq> Crash" "startStopProcesses E r verb ps s \<noteq> Crash"
  by (cases "startStop_list E r ''stop'' ps ''stopped'' False s") (simp_all add: restartProcesses_def startStopProcesses_def)

lemma split_char_one: "length (split_char d s) < 2 \<Longrightarrow> split_char d s ! 0 = w \<Longrightarrow> s = w"
  using join_split_char[of d s] by (cases "split_char d s") auto

lemma split_char_pos: "0 < length (split_char d s)"
  by (cases "split_char d s") (use split_char_not_Nil[of d s] in auto)

lemma tail_no_crash: "args \<noteq> [] \<Longrightarrow> tailProcessLog args s \<noteq> Crash"
  using split_char_pos[of "CHR '':''" "args ! 0"] by (simp add: tailProcessLog_def at_index_def Let_def del: split_char.simps)

lemma Execute_crash: "Execute E x line st = Crash \<longleftrightarrow> TrimSpace line = ''signal''"
proof
  assume c: "Execute E x line st = Crash"
  let ?args = "split_char (CHR '' '') (TrimSpace line)"
  have pos: "0 < length ?args" "Suc 0 \<le> length ?args" using split_char_pos[of "CHR '' ''" "TrimSpace line"] by (simp_all only: Suc_le_eq)
  have t: "tailProcessLog (drop (Suc 0) ?args) st \<noteq> Crash" if "length ?args = 3"
    by (rule tail_no_crash) (use that in \<open>simp del: split_char.simps\<close>)
  have "length ?args < 2 \<and> ?args ! 0 = ''signal''"
    using c pos t unfolding Execute_def Let_def at_index_def slice_from_def
    by (auto split: if_splits simp del: split_char.simps)
  then show "TrimSpace line = ''signal''" using split_char_one by blast
next
  assume "TrimSpace line = ''signal''"
  moreover have "split_char (CHR '' '') ''signal'' = [''signal'']" by code_simp
  ultimately show "Execute E x line st = Crash" by (simp add: Execute_def at_index_def)
qed

text \<open>
  C40. Go's checks of indexes and slices on the words of a line: of all lines only the bare word \<open>signal\<close>
  makes the prompt panic, because \<open>args[1]\<close> is then out of range; on every other line each index and each
  slice of the words is in range, whatever the supervisor answers (the decoders of the XML-RPC library
  return a value or an error).
\<close>

theorem Execute_crash_iff: "Execute E x line st = Crash \<longleftrightarrow> TrimSpace line = ''signal''"
  by (rule Execute_crash)

text \<open>The prompt as a whole panics only when one of the lines is that word.\<close>

lemma ctl_Run_crash: "ctl_Run E lines s = Crash \<Longrightarrow> \<exists>line\<in>set lines. TrimSpace line = ''signal''"
proof -
  assume c: "ctl_Run E lines s = Crash"
  define e where "e = NewRpcExcutior ''http://127.0.0.1:9001'' ''root'' []"
  have "for_each (Execute E e) ls s' = Crash \<Longrightarrow> \<exists>line\<in>set ls. TrimSpace line = ''signal''" for ls s'
  proof (induction ls arbitrary: s')
    case (Cons l ls)
    then show ?case using Execute_crash[of E e l s'] by (cases "Execute E e l s'") auto
  qed simp
  with c show ?thesis
    by (cases "x_status E (createRpcClient e) [] s")
       (auto simp: ctl_Run_def e_def[symmetric] split: prod.splits option.splits)
qed

text \<open>
  A supervisor that cannot be reached is not noticed: every call returns its zero value and no error,
  so pid prints 0, start and stop print not started and not stopped, status prints nothing, and
  the program goes on.
\<close>

definition unreachable_server :: "('b, 'w) ctl_env \<Rightarrow> RpcExector \<Rightarrow> bool" where
  "unreachable_server E x \<longleftrightarrow> (\<exists>path. parse_url E (ServerUrl x) = Some (''http'', path))
     \<and> (\<forall>q w. send_http E q w = (NoAnswer, w))"

lemma rpc_unreachable:
  "unreachable_server E x \<Longrightarrow> rpc_call E (createRpcClient x) meth data dec zero s = (Inr zero, s)"
  by (auto simp: unreachable_server_def rpc_call_def post_def postInetHttp_def createRpcClient_def answered_def split: option.splits)

theorem unreachable_not_noticed:
  assumes "unreachable_server E x"
  shows "getPid E (createRpcClient x) p st = Continue (print (''0'' @ [CHR 0x0A]) st)"
    and "x_status E (createRpcClient x) ps st = Continue st"
    and "p \<noteq> ''all'' \<Longrightarrow> startStopProcesses E (createRpcClient x) ''start'' [p] st
      = Continue (print (''started'' @ [CHR 0x0A]) (print ''not '' (print (p @ '': '') st)))"
proof -
  have "Itoa 0 = ''0''" by code_simp
  then show "getPid E (createRpcClient x) p st = Continue (print (''0'' @ [CHR 0x0A]) st)"
    by (simp add: getPid_def rpc_GetProcessInfo_def rpc_unreachable[OF assms] empty_info_def)
qed (use assms in \<open>simp_all add: x_status_def rpc_GetAllProcessInfo_def rpc_unreachable
        showProcessInfo_def startStopProcesses_def startStop_list_def startStop_one_def ChangeProcessState_def\<close>)

text \<open>A signal to all processes carries the word all and not the signal: the supervisor sees the same request for every signal.\<close>

fun outcome_world :: "'w ctl outcome \<Rightarrow> 'w option" where
  "outcome_world (Continue s) = Some (world s)"
| "outcome_world (Exit c s) = Some (world s)"
| "outcome_world Crash = None"

lemma signal_all_ignores_name:
  "outcome_world (signal_one E r sig ''all'' s) = outcome_world (signal_one E r sig' ''all'' s)"
  by (simp add: signal_one_def print_def split: prod.splits sum.splits)

text \<open>Which processes \<open>status\<close> shows: all without arguments, else those named, by name, full name or \<open>group:*\<close>.\<close>

theorem inProcessMap_iff:
  assumes "CHR '':'' \<notin> set (ci_Group pinfo)"
  shows "inProcessMap E pinfo names \<longleftrightarrow> names = [] \<or> ci_Name pinfo \<in> set names \<or> full_name E pinfo \<in> set names
    \<or> ci_Group pinfo @ '':*'' \<in> set names"
proof -
  have "name_matches E pinfo n \<longleftrightarrow> n = ci_Name pinfo \<or> n = full_name E pinfo \<or> n = ci_Group pinfo @ '':*''" for n
  proof -
    have "n = ci_Group pinfo @ '':*''" if "index_of n '':'' = Some pos" "drop (pos + 1) n = ''*''" "take pos n = ci_Group pinfo" for pos
    proof -
      have "n = take pos n @ '':'' @ drop (Suc pos) n" using index_of_Some[OF that(1)] by simp
      with that(2,3) show ?thesis by simp
    qed
    moreover have "index_of (ci_Group pinfo @ '':*'') '':'' = Some (length (ci_Group pinfo))"
      using index_of_skip[OF assms, of "[]" "''*''"] by simp
    ultimately show ?thesis by (auto simp: name_matches_def split: option.splits)
  qed
  then show ?thesis by (auto simp: inProcessMap_def list_ex_iff)
qed

section \<open>Witnesses\<close>

text \<open>A supervisor that keeps the requests it gets and answers yes.\<close>

definition demo_env :: "(unit, http_request list) ctl_env" where
  "demo_env = \<lparr>parse_url = (\<lambda>u. Some (''http'', [])), new_request = (\<lambda>u. True), send_http = (\<lambda>q w. (Answer 200 (), w @ [q])),
     send_unix = (\<lambda>p q w. (NoAnswer, w)), dec_infos = (\<lambda>b. Inr []), dec_info = (\<lambda>b. Inl []), dec_bool = (\<lambda>b. Inr True),
     dec_tail = (\<lambda>b. Inl []), tokens = (\<lambda>b. []), full_name = (\<lambda>i. ci_Group i @ '':'' @ ci_Name i), group_display = None\<rparr>"

definition demo_client :: XmlRPCClient where
  "demo_client = createRpcClient (NewRpcExcutior ''http://127.0.0.1:9001'' ''root'' [])"

theorem restart_stops_then_starts_witness:
  "\<exists>s'. restartProcesses demo_env demo_client [''a'', ''b''] \<lparr>outs = [], world = []\<rparr> = Continue s'
    \<and> map rq_method (world s') = [''supervisor.stopProcess'', ''supervisor.stopProcess'', ''supervisor.startProcess'', ''supervisor.startProcess'']"
proof -
  have h: "reachable_server demo_env demo_client" "''all'' \<notin> set [''a'', ''b'']"
    by (simp_all add: reachable_server_def demo_env_def)
  have "answers demo_env q w" for q w by (simp add: answers_def demo_env_def)
  then obtain s' where "restartProcesses demo_env demo_client [''a'', ''b''] \<lparr>outs = [], world = []\<rparr> = Continue s'"
    "world s' = send_all demo_env (map (change_request demo_client ''stop'') [''a'', ''b''] @ map (change_request demo_client ''start'') [''a'', ''b'']) []"
    using restart_stops_then_starts[OF h, where s = "\<lparr>outs = [], world = []\<rparr>"] by auto
  then show ?thesis by (simp add: send_all_def demo_env_def change_request_def)
qed

end
