(* ===== verification/Mount.thy ===== *)
theory Mount
  imports GoPrelude
begin

text \<open>
  The mount monitor, \<open>monitor/mount.go\<close>: \<open>GetMountCfg\<close>, \<open>CheckMount\<close>, \<open>tryMount\<close> with \<open>RemoveFile\<close>, and
  the handlers that call it (\<open>fileHandler\<close>, \<open>InitTF\<close>, the loop of \<open>MountListener\<close>). The operating system
  is a record of the device files, the mount table, the directories and the symbolic links; whether
  a command works when it could is given by \<open>tf_cmds\<close>.
\<close>

section \<open>Paths\<close>

text \<open>\<open>path.Split\<close>: the directory ends with the last slash.\<close>

definition path_Split :: "string \<Rightarrow> string \<times> string" where
  "path_Split p = (let file = rev (takeWhile (\<lambda>c. c \<noteq> CHR ''/'') (rev p)) in (take (length p - length file) p, file))"

text \<open>\<open>path.Join("/media", f)\<close> for a name without a slash.\<close>

definition media_Join :: "string \<Rightarrow> string" where
  "media_Join f = (if f = [] \<or> f = ''.'' then ''/media'' else if f = ''..'' then ''/'' else ''/media/'' @ f)"

text \<open>\<open>GetMountCfg\<close>: directory to file name to target; the configuration is a map, visited in any order.\<close>

definition add_mount :: "(string, (string, string) gomap) gomap \<Rightarrow> string \<times> string \<Rightarrow> (string, (string, string) gomap) gomap" where
  "add_mount merged entry =
     (case entry of (src, dst) \<Rightarrow>
       (case path_Split src of (dir, filename) \<Rightarrow>
         (case map_of merged dir of
            None \<Rightarrow> AList.update dir [(filename, dst)] merged
          | Some m \<Rightarrow> AList.update dir (AList.update filename dst m) merged)))"

definition GetMountCfg :: "(string, string) gomap \<Rightarrow> (string, (string, string) gomap) gomap" where
  "GetMountCfg cfg = foldl add_mount [] cfg"

section \<open>The operating system\<close>

record tf_os =
  dev_files :: "string list"
  mount_tab :: "(string \<times> string) list"
  dirs :: "(string, string list) gomap"
  links :: "(string, string) gomap"

record tf_cmds =
  proc_ok :: bool
  mkdir_ok :: bool
  rm_ok :: bool
  rmall_ok :: bool
  mount_ok :: bool
  ln_ok :: bool
  umount_ok :: bool

datatype mount_error = ErrRead | ErrNoCard | ErrRemove | ErrMount | ErrLink | ErrUnmount | ErrUnlink

text \<open>The text of \<open>/proc/mounts\<close>.\<close>

definition proc_line :: "string \<times> string \<Rightarrow> string" where
  "proc_line e = fst e @ '' '' @ snd e @ '' ext4 rw,relatime 0 0''"

definition proc_mounts :: "tf_os \<Rightarrow> string" where
  "proc_mounts os = concat (map (\<lambda>e. proc_line e @ [CHR 0x0A]) (mount_tab os))"

definition os_Stat :: "string \<Rightarrow> tf_os \<Rightarrow> bool" where
  "os_Stat p os = (p \<in> set (dev_files os) \<or> map_of (dirs os) p \<noteq> None)"

definition os_MkdirAll :: "tf_cmds \<Rightarrow> string \<Rightarrow> tf_os \<Rightarrow> tf_os" where
  "os_MkdirAll ok p os = (if mkdir_ok ok \<and> map_of (dirs os) p = None then os\<lparr>dirs := AList.update p [] (dirs os)\<rparr> else os)"

section \<open>Operations\<close>

definition mountTfCard :: "tf_cmds \<Rightarrow> string \<Rightarrow> string \<Rightarrow> tf_os \<Rightarrow> bool \<times> tf_os" where
  "mountTfCard ok mountPoint mountPath os =
     (if mount_ok ok then (True, os\<lparr>mount_tab := mount_tab os @ [(mountPoint, mountPath)]\<rparr>) else (False, os))"

text \<open>\<open>umount\<close> takes away the last mount on its target.\<close>

fun drop_target :: "string \<Rightarrow> (string \<times> string) list \<Rightarrow> (string \<times> string) list" where
  "drop_target t [] = []"
| "drop_target t (e # es) = (if snd e = t then es else e # drop_target t es)"

definition unmount :: "tf_cmds \<Rightarrow> string \<Rightarrow> tf_os \<Rightarrow> bool \<times> tf_os" where
  "unmount ok mountPath os =
     (if umount_ok ok then (True, os\<lparr>mount_tab := rev (drop_target mountPath (rev (mount_tab os)))\<rparr>) else (False, os))"

text \<open>The loop of \<open>CheckMount\<close> over the lines: the second field of a line that has none is out of range.\<close>

fun check_lines :: "string \<Rightarrow> string list \<Rightarrow> bool go" where
  "check_lines mountPath [] = Ret False"
| "check_lines mountPath (line # lines) =
     (let info = split_char (CHR '' '') line
      in if length info < 2 then Panic
         else if info ! 1 = mountPath then Ret True
         else check_lines mountPath lines)"

definition check_text :: "string \<Rightarrow> string \<Rightarrow> bool go" where
  "check_text mountPath data = check_lines mountPath (split_char (CHR 0x0A) (TrimSpace data))"

definition CheckMount :: "tf_cmds \<Rightarrow> string \<Rightarrow> tf_os \<Rightarrow> (mount_error + bool) go" where
  "CheckMount ok mountPath os =
     (if \<not> proc_ok ok then Ret (Inl ErrRead) else bindg (check_text mountPath (proc_mounts os)) (\<lambda>b. Ret (Inr b)))"

definition CheckTfCard :: "string \<Rightarrow> tf_os \<Rightarrow> bool" where
  "CheckTfCard src os = os_Stat src os"

text \<open>
  \<open>os.RemoveAll\<close>, whose error the code ignores: everything at and below the path goes, except a mount point and
  the directories above it, which are busy. A failure (\<open>rmall_ok\<close> is false) leaves all in place.
\<close>

definition below :: "string \<Rightarrow> string \<Rightarrow> bool" where
  "below dst p \<longleftrightarrow> p = dst \<or> has_prefix p (dst @ ''/'')"

definition busy :: "tf_os \<Rightarrow> string \<Rightarrow> string \<Rightarrow> bool" where
  "busy os dst p = list_ex (\<lambda>e. below dst (snd e) \<and> below p (snd e)) (mount_tab os)"

definition rm_all :: "tf_cmds \<Rightarrow> string \<Rightarrow> tf_os \<Rightarrow> tf_os" where
  "rm_all ok dst os =
     (if rmall_ok ok then
        os\<lparr>dev_files := filter (\<lambda>p. \<not> below dst p) (dev_files os),
           dirs := map (\<lambda>(p, fs). (p, if below dst p then filter (\<lambda>f. busy os dst (p @ ''/'' @ f)) fs else fs))
             (filter (\<lambda>(p, fs). \<not> below dst p \<or> busy os dst p) (dirs os)),
           links := filter (\<lambda>(p, t). \<not> below dst p) (links os)\<rparr>
      else os)"

text \<open>
  \<open>ln -s src dst\<close>: the link is \<open>dst\<close>, or in \<open>dst\<close> when this is still a directory or a link to one; what is
  there already makes it fail.
\<close>

definition link_place :: "string \<Rightarrow> string \<Rightarrow> tf_os \<Rightarrow> string option" where
  "link_place src dst os =
     (let inside = (\<lambda>d. Some (d @ ''/'' @ snd (path_Split src))) in
      if map_of (dirs os) dst \<noteq> None then inside dst
      else case map_of (links os) dst of
             Some d \<Rightarrow> if map_of (dirs os) d \<noteq> None then inside d else None
           | None \<Rightarrow> if dst \<in> set (dev_files os) then None else Some dst)"

definition link :: "tf_cmds \<Rightarrow> string \<Rightarrow> string \<Rightarrow> tf_os \<Rightarrow> bool \<times> tf_os" where
  "link ok src dst os =
     (let os1 = rm_all ok dst os in
      case link_place src dst os1 of
        None \<Rightarrow> (False, os1)
      | Some p \<Rightarrow> (if ln_ok ok \<and> map_of (links os1) p = None then (True, os1\<lparr>links := AList.update p src (links os1)\<rparr>)
                   else (False, os1)))"

definition unLink :: "string \<Rightarrow> tf_os \<Rightarrow> bool \<times> tf_os" where
  "unLink dst os = (map_of (links os) dst \<noteq> None, os\<lparr>links := AList.delete dst (links os)\<rparr>)"

text \<open>
  \<open>RemoveFile\<close>: the glob of the shell leaves names that begin with a dot alone, and \<open>rm\<close> fails when
  nothing matches.
\<close>

definition hidden :: "string \<Rightarrow> bool" where
  "hidden f = has_prefix f ''.''"

definition RemoveFile :: "tf_cmds \<Rightarrow> string \<Rightarrow> tf_os \<Rightarrow> bool \<times> tf_os" where
  "RemoveFile ok srcPath os =
     (let d = media_Join (snd (path_Split srcPath)) in
      case map_of (dirs os) d of
        None \<Rightarrow> (False, os)
      | Some fs \<Rightarrow>
          (if fs = [] then (True, os)
           else if rm_ok ok \<and> list_ex (\<lambda>f. \<not> hidden f) fs
           then (True, os\<lparr>dirs := AList.update d (filter hidden fs) (dirs os)\<rparr>)
           else (False, os)))"

text \<open>The branch of \<open>tryMount\<close> in which the card is there and not mounted.\<close>

definition mount_card :: "tf_cmds \<Rightarrow> string \<Rightarrow> string \<Rightarrow> string \<Rightarrow> tf_os \<Rightarrow> mount_error option \<times> tf_os" where
  "mount_card ok srcPath mountPath linkPath os =
     (let os1 = (if os_Stat mountPath os then os else os_MkdirAll ok mountPath os);
          (removed, os2) = RemoveFile ok srcPath os1
      in if \<not> removed then (Some ErrRemove, os2)
         else (let (mounted, os3) = mountTfCard ok srcPath mountPath os2
               in if \<not> mounted then (Some ErrMount, os3)
                  else (let (linked, os4) = link ok mountPath linkPath os3
                        in (if linked then None else Some ErrLink, os4))))"

definition unmount_card :: "tf_cmds \<Rightarrow> string \<Rightarrow> string \<Rightarrow> tf_os \<Rightarrow> mount_error option \<times> tf_os" where
  "unmount_card ok mountPath linkPath os =
     (let (unmounted, os1) = unmount ok mountPath os
      in if \<not> unmounted then (Some ErrUnmount, os1)
         else (let (unlinked, os2) = unLink linkPath os1 in (if unlinked then None else Some ErrUnlink, os2)))"

definition tryMount :: "tf_cmds \<Rightarrow> string \<Rightarrow> string \<Rightarrow> string \<Rightarrow> tf_os \<Rightarrow> (mount_error option \<times> tf_os) go" where
  "tryMount ok srcPath mountPath linkPath os =
     (let tfCardOk = CheckTfCard srcPath os
      in bindg (CheckMount ok mountPath os) (\<lambda>res. Ret (case res of
           Inl e \<Rightarrow> (Some e, os)
         | Inr mountOk \<Rightarrow>
             (if \<not> mountOk then
                (if \<not> tfCardOk then (Some ErrNoCard, snd (unLink linkPath os))
                 else mount_card ok srcPath mountPath linkPath os)
              else if tfCardOk then (None, os)
              else unmount_card ok mountPath linkPath os))))"

text \<open>An event of the file watcher: create or remove of a path, or another.\<close>

datatype fs_event = CreateOrRemove string | OtherEvent

definition fileHandler :: "tf_cmds \<Rightarrow> fs_event \<Rightarrow> (string, string) gomap \<Rightarrow> tf_os \<Rightarrow> (mount_error option \<times> tf_os) go" where
  "fileHandler ok ei mapSrcDst os =
     (case ei of
        CreateOrRemove p \<Rightarrow>
          (let fileName = snd (path_Split p)
           in case map_of mapSrcDst fileName of
                None \<Rightarrow> Ret (None, os)
              | Some dst \<Rightarrow> tryMount ok p (''/media/'' @ fileName) dst os)
      | OtherEvent \<Rightarrow> Ret (None, os))"

text \<open>\<open>MountListener\<close> on a sequence of events until its context ends; errors are logged.\<close>

definition MountListener :: "tf_cmds \<Rightarrow> (string, string) gomap \<Rightarrow> fs_event list \<Rightarrow> tf_os \<Rightarrow> tf_os go" where
  "MountListener ok mapSrcDst events os = foldg (\<lambda>os ei. bindg (fileHandler ok ei mapSrcDst os) (\<lambda>r. Ret (snd r))) os events"

definition InitTF :: "tf_cmds \<Rightarrow> (string, string) gomap \<Rightarrow> tf_os \<Rightarrow> tf_os go" where
  "InitTF ok cfg os = foldg (\<lambda>os (src, dst).
     if os_Stat src os
     then bindg (tryMount ok src (''/media/'' @ snd (path_Split src)) dst os) (\<lambda>r. Ret (snd r))
     else Ret os) os cfg"

section \<open>The configuration\<close>

lemma path_Split_join: "path_Split p = (d, f) \<Longrightarrow> p = d @ f \<and> CHR ''/'' \<notin> set f"
proof -
  assume "path_Split p = (d, f)"
  then have f: "f = rev (takeWhile (\<lambda>c. c \<noteq> CHR ''/'') (rev p))" "d = take (length p - length f) p"
    by (auto simp: path_Split_def Let_def)
  have "rev p = takeWhile (\<lambda>c. c \<noteq> CHR ''/'') (rev p) @ dropWhile (\<lambda>c. c \<noteq> CHR ''/'') (rev p)" by simp
  then have "p = rev (dropWhile (\<lambda>c. c \<noteq> CHR ''/'') (rev p)) @ f" unfolding f(1) by (metis rev_append rev_rev_ident)
  then have "p = d @ f" using f(2) by (metis append_eq_conv_conj append_take_drop_id length_append add_diff_cancel_right')
  moreover have "CHR ''/'' \<notin> set f" unfolding f(1) using set_takeWhileD by fastforce
  ultimately show ?thesis by simp
qed

lemma path_Split_inj: "path_Split p = path_Split q \<Longrightarrow> p = q"
  by (cases "path_Split q") (auto dest!: path_Split_join)

definition mount_target :: "(string, (string, string) gomap) gomap \<Rightarrow> string \<Rightarrow> string option" where
  "mount_target merged src = (case path_Split src of (d, f) \<Rightarrow>
     (case map_of merged d of None \<Rightarrow> None | Some m \<Rightarrow> map_of m f))"

lemma add_mount_target:
  "mount_target (add_mount merged (src, dst)) src' = (if src' = src then Some dst else mount_target merged src')"
proof -
  obtain d f where s: "path_Split src = (d, f)" by (cases "path_Split src")
  obtain d' f' where s': "path_Split src' = (d', f')" by (cases "path_Split src'")
  have "src' = src \<longleftrightarrow> d' = d \<and> f' = f" using path_Split_inj[of src' src] s s' by auto
  then show ?thesis by (auto simp: mount_target_def add_mount_def s s' split: option.splits)
qed

text \<open>
  The merged configuration has every configured source, under its directory and its name, with its
  target, and nothing else, whatever the order in which the map is visited.
\<close>

theorem GetMountCfg_exact:
  assumes "distinct (map fst cfg)"
  shows "mount_target (GetMountCfg cfg) src = map_of cfg src"
proof -
  have "mount_target (foldl add_mount m cfg) src = (case map_of cfg src of None \<Rightarrow> mount_target m src | Some d \<Rightarrow> Some d)" for m
    using assms
  proof (induction cfg arbitrary: m)
    case (Cons e cfg)
    obtain s d where e: "e = (s, d)" by (cases e)
    with Cons.prems have "map_of cfg s = None" by (simp add: map_of_eq_None_iff)
    with Cons e show ?case by (auto simp: add_mount_target split: option.splits)
  qed simp
  from this[of "[]"] show ?thesis by (simp add: GetMountCfg_def mount_target_def split: option.splits prod.splits)
qed

section \<open>Reading the mount table\<close>

text \<open>Entries as the kernel prints them: fields of printable ASCII characters.\<close>

definition printable :: "string \<Rightarrow> bool" where
  "printable s \<longleftrightarrow> s \<noteq> [] \<and> (\<forall>c\<in>set s. 33 \<le> (of_char c :: nat) \<and> (of_char c :: nat) < 127)"

definition tab_ok :: "(string \<times> string) list \<Rightarrow> bool" where
  "tab_ok tab \<longleftrightarrow> (\<forall>e\<in>set tab. printable (fst e) \<and> printable (snd e))"

lemma printable_no_sep: "printable s \<Longrightarrow> CHR '' '' \<notin> set s \<and> CHR 0x0A \<notin> set s"
  by (auto simp: printable_def)

lemma printable_hd: "printable (c # s) \<Longrightarrow> \<forall>q\<in>set space_seqs. hd q \<noteq> c"
proof -
  assume "printable (c # s)"
  then have c: "33 \<le> (of_char c :: nat)" "(of_char c :: nat) < 127" by (auto simp: printable_def)
  have "\<forall>q\<in>set space_seqs. (of_char (hd q) :: nat) < 33 \<or> 127 \<le> (of_char (hd q) :: nat)" by code_simp
  with c show ?thesis by fastforce
qed

lemma TrimSpace_line:
  assumes "s = c # t" "s = u @ [d]" "\<forall>q\<in>set space_seqs. hd q \<noteq> c" "\<forall>q\<in>set space_seqs. last q \<noteq> d"
  shows "TrimSpace (s @ [CHR 0x0A]) = s"
proof -
  have "trim_by space_len (s @ [CHR 0x0A]) = s @ [CHR 0x0A]" using assms(1) space_len_0[OF assms(3)] by simp
  moreover have "rspace_len (CHR 0x0A # r) = 1" for r
    by (simp add: rspace_len_def space_seqs_def has_prefix_def)
  moreover have "trim_by rspace_len (rev s) = rev s" using assms(2) rspace_len_0[OF assms(4)] by simp
  ultimately show ?thesis by (simp add: TrimSpace_def)
qed

lemma join_lines: "tab \<noteq> [] \<Longrightarrow> concat (map (\<lambda>e. f e @ [d]) tab) = join_with [d] (map f tab) @ [d]"
  by (induction tab rule: induct_list012) auto

lemma join_with_last: "ws \<noteq> [] \<Longrightarrow> \<exists>p. join_with d ws = p @ last ws"
  by (induction ws rule: induct_list012) auto

lemma check_lines_tab:
  "tab_ok tab \<Longrightarrow> check_lines t (map proc_line tab) = Ret (t \<in> snd ` set tab)"
proof (induction tab)
  case (Cons e tab)
  obtain a b where e: "e = (a, b)" by (cases e)
  with Cons.prems have ab: "CHR '' '' \<notin> set a" "CHR '' '' \<notin> set b"
    using printable_no_sep by (auto simp: tab_ok_def)
  have "split_char (CHR '' '') (proc_line e) = a # b # split_char (CHR '' '') ''ext4 rw,relatime 0 0''"
    using split_char_append[OF ab(1)] split_char_append[OF ab(2)] by (simp add: proc_line_def e del: split_char.simps)
  with Cons e show ?case by (auto simp: tab_ok_def Let_def simp del: split_char.simps)
qed simp

lemma CheckMount_tab:
  assumes "proc_ok ok" "tab_ok (mount_tab os)" "mount_tab os \<noteq> []"
  shows "CheckMount ok t os = Ret (Inr (t \<in> snd ` set (mount_tab os)))"
proof -
  let ?ws = "map proc_line (mount_tab os)"
  have nl: "\<forall>w\<in>set ?ws. CHR 0x0A \<notin> set w"
    using assms(2) printable_no_sep by (fastforce simp: tab_ok_def proc_line_def)
  obtain e tab where tab: "mount_tab os = e # tab" using assms(3) by (cases "mount_tab os") auto
  obtain c a where a: "fst e = c # a" "printable (c # a)" using assms(2) tab
    by (cases "fst e") (auto simp: tab_ok_def printable_def)
  obtain r where hd: "join_with [CHR 0x0A] ?ws = c # r" using a(1) tab
    by (cases tab) (auto simp: proc_line_def)
  obtain p where "join_with [CHR 0x0A] ?ws = p @ last ?ws" using join_with_last[of ?ws] assms(3) by auto
  moreover have "\<exists>q. last ?ws = q @ ''0''" using assms(3) by (auto simp: last_map proc_line_def)
  ultimately obtain u where last: "join_with [CHR 0x0A] ?ws = u @ [CHR ''0'']" by auto
  have "\<forall>q\<in>set space_seqs. last q \<noteq> CHR ''0''" by code_simp
  from TrimSpace_line[OF hd last printable_hd[OF a(2)] this]
  have "TrimSpace (proc_mounts os) = join_with [CHR 0x0A] ?ws"
    using join_lines[OF assms(3), of proc_line] by (simp add: proc_mounts_def)
  moreover have "split_char (CHR 0x0A) (join_with [CHR 0x0A] ?ws) = ?ws"
    using nl assms(3) by (intro split_join_char) auto
  ultimately show ?thesis using assms(1,2) by (simp add: CheckMount_def check_text_def check_lines_tab)
qed

text \<open>An empty table makes the monitor panic.\<close>

lemma CheckMount_empty: "proc_ok ok \<Longrightarrow> mount_tab os = [] \<Longrightarrow> CheckMount ok t os = Panic"
  by (simp add: CheckMount_def check_text_def proc_mounts_def TrimSpace_def)

section \<open>Following the card\<close>

definition all_ok :: tf_cmds where
  "all_ok = \<lparr>proc_ok = True, mkdir_ok = True, rm_ok = True, rmall_ok = True, mount_ok = True, ln_ok = True, umount_ok = True\<rparr>"

lemma all_ok_simps [simp]:
  "proc_ok all_ok" "mkdir_ok all_ok" "rm_ok all_ok" "rmall_ok all_ok" "mount_ok all_ok" "ln_ok all_ok" "umount_ok all_ok"
  by (simp_all add: all_ok_def)

definition targets :: "tf_os \<Rightarrow> string set" where
  "targets os = snd ` set (mount_tab os)"

lemma drop_target_subset: "set (drop_target t tab) \<subseteq> set tab"
  by (induction tab) auto

lemma drop_target_distinct: "distinct (map snd tab) \<Longrightarrow> distinct (map snd (drop_target t tab))"
  using drop_target_subset by (induction tab) fastforce+

lemma drop_target_set: "distinct (map snd tab) \<Longrightarrow> set (drop_target t tab) = {e \<in> set tab. snd e \<noteq> t}"
  by (induction tab) (auto simp: image_iff)

text \<open>
  What the monitor needs of the system: a readable table without double targets, with a mount that
  is not the card's; a mount point that is a directory, or not there, with no file or with one that is
  not hidden; and no mount, the card's device file or its mount point at or below the path of the link.
\<close>

definition tf_ok :: "string \<Rightarrow> string \<Rightarrow> string \<Rightarrow> tf_os \<Rightarrow> bool" where
  "tf_ok src mp lk os \<longleftrightarrow> tab_ok (mount_tab os) \<and> distinct (map snd (mount_tab os)) \<and> (\<exists>t\<in>targets os. t \<noteq> mp)
     \<and> mp \<notin> set (dev_files os)
     \<and> (\<forall>fs. map_of (dirs os) mp = Some fs \<longrightarrow> fs = [] \<or> list_ex (\<lambda>f. \<not> hidden f) fs)
     \<and> \<not> below lk src \<and> \<not> below lk mp \<and> (\<forall>t\<in>targets os. \<not> below lk t)"

lemma tf_ok_tab: "tf_ok src mp lk os \<Longrightarrow> tab_ok (mount_tab os)" "tf_ok src mp lk os \<Longrightarrow> mount_tab os \<noteq> []"
  by (auto simp: tf_ok_def targets_def)

text \<open>What mounting leaves of the directories and device files.\<close>

definition same_elsewhere :: "string \<Rightarrow> string \<Rightarrow> tf_os \<Rightarrow> tf_os \<Rightarrow> bool" where
  "same_elsewhere mp lk os os' \<longleftrightarrow> (\<forall>p. p \<noteq> mp \<longrightarrow> \<not> below lk p \<longrightarrow>
     (p \<in> set (dev_files os') \<longleftrightarrow> p \<in> set (dev_files os)) \<and> map_of (dirs os') p = map_of (dirs os) p)"

lemma CheckTfCard_same:
  "same_elsewhere mp lk os os' \<Longrightarrow> src \<noteq> mp \<Longrightarrow> \<not> below lk src \<Longrightarrow> CheckTfCard src os' = CheckTfCard src os"
  by (simp add: same_elsewhere_def CheckTfCard_def os_Stat_def)

lemma MkdirAll_ok:
  assumes "tf_ok src mp lk os" "os1 = (if os_Stat mp os then os else os_MkdirAll all_ok mp os)"
  shows "\<exists>fs. map_of (dirs os1) mp = Some fs \<and> (fs = [] \<or> list_ex (\<lambda>f. \<not> hidden f) fs)"
    and "mount_tab os1 = mount_tab os" "links os1 = links os" "same_elsewhere mp lk os os1"
  using assms by (auto simp: tf_ok_def os_Stat_def os_MkdirAll_def same_elsewhere_def)

lemma RemoveFile_ok:
  assumes "map_of (dirs os) (media_Join (snd (path_Split src))) = Some fs" "fs = [] \<or> list_ex (\<lambda>f. \<not> hidden f) fs"
  shows "\<exists>os'. RemoveFile all_ok src os = (True, os') \<and> mount_tab os' = mount_tab os \<and> links os' = links os
    \<and> same_elsewhere (media_Join (snd (path_Split src))) lk os os'"
  using assms by (auto simp: RemoveFile_def Let_def same_elsewhere_def)

lemma map_of_filter_keys: "map_of (filter (\<lambda>(k, v). P k) xs) q = (if P q then map_of xs q else None)"
  by (induction xs) auto

lemma RemoveAll_free:
  assumes "\<forall>t\<in>targets os. \<not> below dst t"
  shows "map_of (dirs (rm_all all_ok dst os)) p = (if below dst p then None else map_of (dirs os) p)"
    and "map_of (links (rm_all all_ok dst os)) p = (if below dst p then None else map_of (links os) p)"
    and "p \<in> set (dev_files (rm_all all_ok dst os)) \<longleftrightarrow> p \<in> set (dev_files os) \<and> \<not> below dst p"
    and "mount_tab (rm_all all_ok dst os) = mount_tab os"
proof -
  have no: "busy os dst q = False" for q using assms by (auto simp: busy_def targets_def list_ex_iff)
  have "map (\<lambda>(p, fs). (p, if below dst p then filter (\<lambda>f. busy os dst (p @ ''/'' @ f)) fs else fs))
      (filter (\<lambda>(p, fs). \<not> below dst p \<or> busy os dst p) xs) = filter (\<lambda>(p, fs). \<not> below dst p) xs" for xs
    by (induction xs) (auto simp: no)
  then show "map_of (dirs (rm_all all_ok dst os)) p = (if below dst p then None else map_of (dirs os) p)"
    by (simp add: rm_all_def map_of_filter_keys)
qed (auto simp: rm_all_def map_of_filter_keys)

lemma link_ok:
  assumes "\<forall>t\<in>targets os. \<not> below lk t"
  shows "\<exists>os'. link all_ok mp lk os = (True, os') \<and> mount_tab os' = mount_tab os \<and> map_of (links os') lk = Some mp
    \<and> same_elsewhere mp lk os os'"
proof -
  note free = RemoveAll_free[OF assms]
  have self: "below lk lk" by (simp add: below_def)
  then have "link_place mp lk (rm_all all_ok lk os) = Some lk" by (simp add: link_place_def free Let_def)
  then show ?thesis using self by (auto simp: link_def Let_def free same_elsewhere_def)
qed

lemma mount_card_ok:
  assumes "tf_ok src mp lk os" "mp = media_Join (snd (path_Split src))"
  shows "\<exists>os'. mount_card all_ok src mp lk os = (None, os') \<and> mount_tab os' = mount_tab os @ [(src, mp)]
    \<and> map_of (links os') lk = Some mp \<and> same_elsewhere mp lk os os'"
proof -
  define os1 where "os1 = (if os_Stat mp os then os else os_MkdirAll all_ok mp os)"
  note os1 = MkdirAll_ok[OF assms(1) os1_def]
  then obtain os2 where os2: "RemoveFile all_ok src os1 = (True, os2)" "mount_tab os2 = mount_tab os1" "links os2 = links os1"
    "same_elsewhere mp lk os1 os2" using RemoveFile_ok[of os1 src] assms(2) by auto
  define os3 where "os3 = os2\<lparr>mount_tab := mount_tab os2 @ [(src, mp)]\<rparr>"
  have "\<forall>t\<in>targets os3. \<not> below lk t" using assms(1) os1(2) os2(2) by (auto simp: os3_def targets_def tf_ok_def)
  from link_ok[OF this, of mp] obtain os4 where os4: "link all_ok mp lk os3 = (True, os4)" "mount_tab os4 = mount_tab os3"
      "map_of (links os4) lk = Some mp" "same_elsewhere mp lk os3 os4" by blast
  have "mount_card all_ok src mp lk os = (None, os4)"
    by (simp add: mount_card_def os1_def[symmetric] os2(1) mountTfCard_def os3_def[symmetric] os4(1))
  with os1(2-4) os2(2-4) os4(2-4) show ?thesis by (auto simp: same_elsewhere_def os3_def)
qed

lemma tryMount_ok:
  assumes "tab_ok (mount_tab os)" "mount_tab os \<noteq> []"
  shows "tryMount all_ok src mp lk os = Ret
    (if mp \<notin> targets os then (if CheckTfCard src os then mount_card all_ok src mp lk os else (Some ErrNoCard, snd (unLink lk os)))
     else if CheckTfCard src os then (None, os) else unmount_card all_ok mp lk os)"
  by (auto simp: tryMount_def CheckMount_tab[OF all_ok_simps(1) assms] targets_def)

lemma unmount_card_ok:
  assumes "tf_ok src mp lk os" "mp \<in> targets os"
  shows "\<exists>e os'. unmount_card all_ok mp lk os = (e, os') \<and> set (mount_tab os') = {e \<in> set (mount_tab os). snd e \<noteq> mp}
    \<and> links os' = AList.delete lk (links os) \<and> same_elsewhere mp lk os os'"
  using assms drop_target_set[of "rev (mount_tab os)" mp]
  by (auto simp: unmount_card_def unmount_def unLink_def same_elsewhere_def tf_ok_def rev_map[symmetric])

text \<open>In a state where the mount and the link are as the card says, a call changes nothing.\<close>

lemma tryMount_stable:
  assumes "tab_ok (mount_tab os)" "mount_tab os \<noteq> []" "mp \<in> targets os \<longleftrightarrow> CheckTfCard src os"
    and "\<not> CheckTfCard src os \<Longrightarrow> AList.delete lk (links os) = links os"
  shows "tryMount all_ok src mp lk os = Ret (if CheckTfCard src os then None else Some ErrNoCard, os)"
  using assms(3,4) by (simp add: tryMount_ok[OF assms(1,2)] unLink_def)

text \<open>The branches of a call: the card is newly mounted, still mounted, taken out, or was not there.\<close>

lemma call_mounts:
  assumes "tf_ok src mp lk os" "mp = media_Join (snd (path_Split src))" "printable src" "printable mp" "src \<noteq> mp"
    and card: "CheckTfCard src os" "mp \<notin> targets os"
  shows "\<exists>os'. tryMount all_ok src mp lk os = Ret (None, os') \<and> targets os' = insert mp (targets os)
    \<and> map_of (links os') lk = Some mp \<and> tryMount all_ok src mp lk os' = Ret (None, os')"
proof -
  obtain os' where m: "mount_card all_ok src mp lk os = (None, os')" "mount_tab os' = mount_tab os @ [(src, mp)]"
    "map_of (links os') lk = Some mp" "same_elsewhere mp lk os os'"
    using mount_card_ok[OF assms(1,2)] by blast
  have "tryMount all_ok src mp lk os = Ret (None, os')"
    using card m(1) by (simp add: tryMount_ok[OF tf_ok_tab[OF assms(1)]])
  moreover have "CheckTfCard src os'" using CheckTfCard_same[OF m(4) assms(5)] card(1) assms(1) by (simp add: tf_ok_def)
  then have "tryMount all_ok src mp lk os' = Ret (None, os')"
    using m(2) tf_ok_tab[OF assms(1)] assms(3,4) by (subst tryMount_stable) (auto simp: tab_ok_def targets_def)
  ultimately show ?thesis using m(2,3) by (auto simp: targets_def)
qed

lemma call_unmounts:
  assumes "tf_ok src mp lk os" "src \<noteq> mp" and gone: "\<not> CheckTfCard src os"
  shows "\<exists>e os'. tryMount all_ok src mp lk os = Ret (e, os') \<and> targets os' = targets os - {mp}
    \<and> links os' = AList.delete lk (links os) \<and> tryMount all_ok src mp lk os' = Ret (Some ErrNoCard, os')"
proof -
  obtain e os' where u: "tryMount all_ok src mp lk os = Ret (e, os')" "set (mount_tab os') = {e \<in> set (mount_tab os). snd e \<noteq> mp}"
    "links os' = AList.delete lk (links os)" "same_elsewhere mp lk os os'"
  proof (cases "mp \<in> targets os")
    case True
    then show ?thesis using that unmount_card_ok[OF assms(1) True] gone
      by (auto simp: tryMount_ok[OF tf_ok_tab[OF assms(1)]])
  next
    case False
    then have "set (mount_tab os) = {e \<in> set (mount_tab os). snd e \<noteq> mp}" by (auto simp: targets_def)
    with False show ?thesis using that[of "Some ErrNoCard" "snd (unLink lk os)"] gone
      by (simp add: tryMount_ok[OF tf_ok_tab[OF assms(1)]] unLink_def same_elsewhere_def)
  qed
  moreover have "mount_tab os' \<noteq> []" using assms(1) u(2) by (force simp: tf_ok_def targets_def)
  moreover have "\<not> CheckTfCard src os'" using CheckTfCard_same[OF u(4) assms(2)] gone assms(1) by (simp add: tf_ok_def)
  ultimately have "tryMount all_ok src mp lk os' = Ret (Some ErrNoCard, os')"
    using tf_ok_tab(1)[OF assms(1)] by (subst tryMount_stable) (auto simp: tab_ok_def targets_def delete_idem)
  with u show ?thesis by (auto simp: targets_def)
qed

text \<open>
  C27. One call of \<open>tryMount\<close> when every command works, in a system whose mount table can be read, has no double
  target and a mount other than the card's, whose mount point is empty or has a file that is not hidden, and
  where no mount and not the card lie below the path of the link (\<open>tf_ok\<close>). Afterwards the card is
  mounted exactly when its device file is there, and no other mount has changed. A card that was not yet
  mounted is linked; a card that was is left as it is, also when its link is missing; without a card there
  is no link. A second call changes nothing.
\<close>

theorem tryMount_follows_card:
  assumes "tf_ok src mp lk os" "mp = media_Join (snd (path_Split src))" "printable src" "printable mp" "src \<noteq> mp"
  shows "\<exists>e os'. tryMount all_ok src mp lk os = Ret (e, os')
    \<and> (mp \<in> targets os' \<longleftrightarrow> CheckTfCard src os) \<and> targets os' - {mp} = targets os - {mp}
    \<and> (if \<not> CheckTfCard src os then map_of (links os') lk = None
       else if mp \<in> targets os then os' = os else map_of (links os') lk = Some mp)
    \<and> tryMount all_ok src mp lk os' = Ret (if CheckTfCard src os then None else Some ErrNoCard, os')"
proof (cases "CheckTfCard src os")
  case card: True
  show ?thesis
  proof (cases "mp \<in> targets os")
    case True
    then have "tryMount all_ok src mp lk os = Ret (None, os)"
      using card by (simp add: tryMount_ok[OF tf_ok_tab[OF assms(1)]])
    with card True show ?thesis by auto
  next
    case False
    from call_mounts[OF assms card this] card False show ?thesis by auto
  qed
next
  case False
  from call_unmounts[OF assms(1,5) False] False show ?thesis by auto
qed

text \<open>A mounted card whose link was removed stays without it.\<close>

lemma missing_link_stays_missing:
  assumes "tab_ok (mount_tab os)" "mp \<in> targets os" "CheckTfCard src os" "map_of (links os) lk = None"
  shows "\<exists>os'. tryMount all_ok src mp lk os = Ret (None, os') \<and> map_of (links os') lk = None"
proof -
  have "mount_tab os \<noteq> []" using assms(2) by (auto simp: targets_def)
  with assms show ?thesis by (simp add: tryMount_ok)
qed

text \<open>
  A mount point in which all files are hidden is never mounted: the pattern of \<open>rm\<close> matches nothing,
  \<open>rm\<close> fails, and \<open>tryMount\<close> gives up.
\<close>

theorem hidden_files_block_mount:
  assumes "tab_ok (mount_tab os)" "mount_tab os \<noteq> []" "mp \<notin> targets os" "CheckTfCard src os"
    and "mp = media_Join (snd (path_Split src))" "map_of (dirs os) mp = Some fs" "fs \<noteq> []" "list_all hidden fs"
  shows "tryMount all_ok src mp lk os = Ret (Some ErrRemove, os)"
proof -
  have "\<not> list_ex (\<lambda>f. \<not> hidden f) fs" using assms(8) by (auto simp: list_ex_iff list_all_iff)
  with assms(3-7) show ?thesis
    by (simp add: tryMount_ok[OF assms(1,2)] mount_card_def os_Stat_def RemoveFile_def)
qed

section \<open>Witnesses\<close>

text \<open>A card that was put in, with a directory where its link belongs; and the same system after the card was taken out.\<close>

definition demo_tf :: tf_os where
  "demo_tf = \<lparr>dev_files = [''/dev/mmcblk1p1''], mount_tab = [(''/dev/root'', ''/'')],
     dirs = [(''/media/mmcblk1p1'', [''old'']), (''/data/edgex'', [''db''])], links = []\<rparr>"

definition demo_tf_out :: tf_os where
  "demo_tf_out = \<lparr>dev_files = [], mount_tab = [(''/dev/root'', ''/''), (''/dev/mmcblk1p1'', ''/media/mmcblk1p1'')],
     dirs = [(''/media/mmcblk1p1'', [])], links = [(''/data/edgex'', ''/media/mmcblk1p1'')]\<rparr>"

theorem tryMount_follows_card_witness:
  "(\<exists>e os'. tryMount all_ok ''/dev/mmcblk1p1'' ''/media/mmcblk1p1'' ''/data/edgex'' demo_tf = Ret (e, os')
      \<and> map_of (links os') ''/data/edgex'' = Some ''/media/mmcblk1p1'')
    \<and> (\<exists>e os'. tryMount all_ok ''/dev/mmcblk1p1'' ''/media/mmcblk1p1'' ''/data/edgex'' demo_tf_out = Ret (e, os')
      \<and> map_of (links os') ''/data/edgex'' = None \<and> ''/media/mmcblk1p1'' \<notin> targets os')"
proof -
  have h: "tf_ok ''/dev/mmcblk1p1'' ''/media/mmcblk1p1'' ''/data/edgex'' demo_tf"
    "tf_ok ''/dev/mmcblk1p1'' ''/media/mmcblk1p1'' ''/data/edgex'' demo_tf_out"
    by (simp_all add: tf_ok_def demo_tf_def demo_tf_out_def targets_def tab_ok_def printable_def hidden_def has_prefix_def below_def)
  have j: "''/media/mmcblk1p1'' = media_Join (snd (path_Split ''/dev/mmcblk1p1''))" by code_simp
  have p: "printable ''/dev/mmcblk1p1''" "printable ''/media/mmcblk1p1''" "''/dev/mmcblk1p1'' \<noteq> ''/media/mmcblk1p1''"
    by (simp_all add: printable_def)
  have "CheckTfCard ''/dev/mmcblk1p1'' demo_tf" "''/media/mmcblk1p1'' \<notin> targets demo_tf" "\<not> CheckTfCard ''/dev/mmcblk1p1'' demo_tf_out"
    by (simp_all add: CheckTfCard_def os_Stat_def demo_tf_def demo_tf_out_def targets_def)
  with tryMount_follows_card[OF h(1) j p] tryMount_follows_card[OF h(2) j p] show ?thesis by auto
qed

end
