(* ===== verification/NetAddr.thy ===== *)
theory NetAddr
  imports GoPrelude
begin

text \<open>
  \<open>net.SplitHostPort\<close> and \<open>net.JoinHostPort\<close>, which the services and the VPN client use, and that the
  one undoes the other.
\<close>

fun last_index :: "char \<Rightarrow> string \<Rightarrow> nat option" where
  "last_index c [] = None"
| "last_index c (x # xs) = (case last_index c xs of Some i \<Rightarrow> Some (Suc i) | None \<Rightarrow> if x = c then Some 0 else None)"

fun first_index :: "char \<Rightarrow> string \<Rightarrow> nat option" where
  "first_index c [] = None"
| "first_index c (x # xs) = (if x = c then Some 0 else map_option Suc (first_index c xs))"

text \<open>Host and port, or an error, whose text does not matter here.\<close>

definition SplitHostPort :: "string \<Rightarrow> (string \<times> string) option" where
  "SplitHostPort hp =
     (case last_index (CHR '':'') hp of
        None \<Rightarrow> None
      | Some i \<Rightarrow>
          (if hd hp = CHR ''['' then
             (case first_index (CHR '']'') hp of
                None \<Rightarrow> None
              | Some e \<Rightarrow>
                  (if e + 1 \<noteq> i then None
                   else if CHR ''['' \<in> set (drop 1 hp) \<or> CHR '']'' \<in> set (drop (e + 1) hp) then None
                   else Some (take (e - 1) (drop 1 hp), drop (i + 1) hp)))
           else if CHR '':'' \<in> set (take i hp) then None
           else if CHR ''['' \<in> set hp \<or> CHR '']'' \<in> set hp then None
           else Some (take i hp, drop (i + 1) hp)))"

text \<open>A host with a colon is put in brackets.\<close>

definition JoinHostPort :: "string \<Rightarrow> string \<Rightarrow> string" where
  "JoinHostPort host port = (if CHR '':'' \<in> set host then ''['' @ host @ '']:'' @ port else host @ '':'' @ port)"

lemma last_index_append: "c \<notin> set ys \<Longrightarrow> last_index c (xs @ c # ys) = Some (length xs)"
proof -
  assume "c \<notin> set ys"
  then have "last_index c ys = None" by (induction ys) auto
  then show ?thesis by (induction xs) auto
qed

lemma first_index_append: "c \<notin> set xs \<Longrightarrow> first_index c (xs @ c # ys) = Some (length xs)"
  by (induction xs) auto

text \<open>An address that was put together is taken apart again.\<close>

lemma SplitHostPort_Join:
  assumes "CHR ''['' \<notin> set host" "CHR '']'' \<notin> set host" "host \<noteq> []"
    and "CHR '':'' \<notin> set port" "CHR ''['' \<notin> set port" "CHR '']'' \<notin> set port"
  shows "SplitHostPort (JoinHostPort host port) = Some (host, port)"
proof (cases "CHR '':'' \<in> set host")
  case True
  have "last_index (CHR '':'') (''['' @ host @ '']:'' @ port) = Some (length host + 2)"
    using last_index_append[OF assms(4), of "''['' @ host @ '']''"] by simp
  moreover have "first_index (CHR '']'') (''['' @ host @ '']:'' @ port) = Some (length host + 1)"
    using first_index_append[of "CHR '']''" "''['' @ host" "'':'' @ port"] assms(2) by simp
  ultimately show ?thesis using True assms by (simp add: SplitHostPort_def JoinHostPort_def)
next
  case False
  have "last_index (CHR '':'') (host @ '':'' @ port) = Some (length host)"
    using last_index_append[OF assms(4), of host] by simp
  moreover have "hd (host @ '':'' @ port) \<noteq> CHR ''[''" using assms(1,3) by (cases host) auto
  ultimately show ?thesis using False assms by (simp add: SplitHostPort_def JoinHostPort_def)
qed

end
