(* ===== verification/FilePaths.thy ===== *)
theory FilePaths
  imports GoPrelude
begin

text \<open>
  The functions of \<open>path\<close> and \<open>path/filepath\<close> that the services use: \<open>Clean\<close>, \<open>Join\<close>, \<open>Dir\<close> and \<open>Base\<close>, and
  how they act on a directory that is already clean and the name of a file in it.
\<close>

text \<open>The elements that are left, the last one first.\<close>

fun clean_elems :: "bool \<Rightarrow> string list \<Rightarrow> string list \<Rightarrow> string list" where
  "clean_elems rooted out [] = rev out"
| "clean_elems rooted out (e # es) =
     (if e = [] \<or> e = ''.'' then clean_elems rooted out es
      else if e = ''..'' then
        (if out \<noteq> [] \<and> hd out \<noteq> ''..'' then clean_elems rooted (tl out) es
         else if rooted then clean_elems rooted out es
         else clean_elems rooted (e # out) es)
      else clean_elems rooted (e # out) es)"

definition Clean :: "string \<Rightarrow> string" where
  "Clean p =
     (if p = [] then ''.''
      else let rooted = has_prefix p ''/''; body = join_with ''/'' (clean_elems rooted [] (split_char (CHR ''/'') p))
           in if rooted then ''/'' @ body else if body = [] then ''.'' else body)"

definition path_Join :: "string list \<Rightarrow> string" where
  "path_Join elems = (let es = filter (\<lambda>e. e \<noteq> []) elems in if es = [] then [] else Clean (join_with ''/'' es))"

definition last_elem :: "string \<Rightarrow> string" where
  "last_elem p = rev (takeWhile (\<lambda>c. c \<noteq> CHR ''/'') (rev p))"

definition path_Dir :: "string \<Rightarrow> string" where
  "path_Dir p = Clean (take (length p - length (last_elem p)) p)"

definition path_Base :: "string \<Rightarrow> string" where
  "path_Base p =
     (if p = [] then ''.''
      else let q = rev (dropWhile (\<lambda>c. c = CHR ''/'') (rev p))
           in if q = [] then ''/'' else last_elem q)"

section \<open>Clean paths\<close>

text \<open>A name of a file or directory: not empty, no slash, not a dot or two.\<close>

definition plain_name :: "string \<Rightarrow> bool" where
  "plain_name n \<longleftrightarrow> n \<noteq> [] \<and> CHR ''/'' \<notin> set n \<and> n \<noteq> ''.'' \<and> n \<noteq> ''..''"

definition abs_path :: "string list \<Rightarrow> string" where
  "abs_path ns = ''/'' @ join_with ''/'' ns"

lemma clean_elems_plain: "list_all plain_name ns \<Longrightarrow> clean_elems rooted out ns = rev out @ ns"
  by (induction ns arbitrary: out) (auto simp: plain_name_def)

lemma split_abs_path: "ns \<noteq> [] \<Longrightarrow> list_all plain_name ns \<Longrightarrow> split_char (CHR ''/'') (abs_path ns) = [] # ns"
  using split_join_char[of ns "CHR ''/''"] split_char_append[of "CHR ''/''" "[]" "join_with ''/'' ns"]
  by (auto simp: abs_path_def plain_name_def list_all_iff simp del: split_char.simps)

lemma Clean_abs_path: "ns \<noteq> [] \<Longrightarrow> list_all plain_name ns \<Longrightarrow> Clean (abs_path ns) = abs_path ns"
  by (simp add: Clean_def split_abs_path clean_elems_plain) (simp add: abs_path_def has_prefix_def)

lemma join_with_snoc: "ns \<noteq> [] \<Longrightarrow> join_with d (ns @ [n]) = join_with d ns @ d @ n"
  by (induction ns rule: induct_list012) auto

lemma abs_path_snoc: "ns \<noteq> [] \<Longrightarrow> abs_path (ns @ [n]) = abs_path ns @ ''/'' @ n"
  by (simp add: abs_path_def join_with_snoc)

lemma Join_abs_path:
  assumes "ns \<noteq> []" "list_all plain_name ns" "plain_name n"
  shows "path_Join [abs_path ns, n] = abs_path (ns @ [n])"
proof -
  have "abs_path ns \<noteq> []" "n \<noteq> []" using assms(3) by (auto simp: abs_path_def plain_name_def)
  then have "path_Join [abs_path ns, n] = Clean (abs_path (ns @ [n]))"
    using abs_path_snoc[OF assms(1), of n] by (simp add: path_Join_def)
  then show ?thesis using Clean_abs_path[of "ns @ [n]"] assms by simp
qed

lemma last_elem_slash: "CHR ''/'' \<notin> set n \<Longrightarrow> last_elem (p @ ''/'' @ n) = n"
proof -
  assume "CHR ''/'' \<notin> set n"
  then have "takeWhile (\<lambda>c. c \<noteq> CHR ''/'') (rev n @ CHR ''/'' # rev p) = rev n"
    by (subst takeWhile_append2) auto
  then show ?thesis by (simp add: last_elem_def)
qed

text \<open>Empty elements, from slashes in a row or at the end, are dropped.\<close>

lemma clean_elems_blank:
  "list_all (\<lambda>n. n = [] \<or> plain_name n) xs \<Longrightarrow> clean_elems rooted out xs = rev out @ filter (\<lambda>n. n \<noteq> []) xs"
  by (induction xs arbitrary: out) (auto simp: plain_name_def)

lemma Clean_blank:
  assumes "xs \<noteq> []" "list_all (\<lambda>n. n = [] \<or> plain_name n) xs"
  shows "Clean (abs_path xs) = abs_path (filter (\<lambda>n. n \<noteq> []) xs)"
proof -
  have plain: "plain_name x \<Longrightarrow> CHR ''/'' \<notin> set x" for x by (simp add: plain_name_def)
  have "CHR ''/'' \<notin> set x" if "x \<in> set xs" for x
    using bspec[OF assms(2)[unfolded list_all_iff] that] plain[of x] by (elim disjE) simp_all
  then have "split_char (CHR ''/'') (abs_path xs) = [] # xs"
    using split_join_char[of xs "CHR ''/''"] split_char_append[of "CHR ''/''" "[]" "join_with ''/'' xs"] assms(1)
    by (simp add: abs_path_def del: split_char.simps)
  with clean_elems_blank[OF assms(2)] show ?thesis
    by (simp add: Clean_def) (simp add: abs_path_def has_prefix_def)
qed

lemma plain_filter: "list_all plain_name ns \<Longrightarrow> filter (\<lambda>n. n \<noteq> []) ns = ns"
  by (induction ns) (auto simp: plain_name_def)

lemma plain_blank: "list_all plain_name ns \<Longrightarrow> list_all (\<lambda>n. n = [] \<or> plain_name n) ns"
  by (auto simp: list_all_iff)

lemma Clean_trailing_slash:
  assumes "ns \<noteq> []" "list_all plain_name ns"
  shows "Clean (abs_path ns @ ''/'') = abs_path ns"
  using Clean_blank[of "ns @ [[]]"] plain_blank[OF assms(2)] plain_filter[OF assms(2)] abs_path_snoc[OF assms(1), of "[]"]
  by simp

lemma Join_trailing_slash:
  assumes "ns \<noteq> []" "list_all plain_name ns" "plain_name n"
  shows "path_Join [abs_path ns @ ''/'', n] = abs_path (ns @ [n])"
proof -
  have "abs_path (ns @ [[], n]) = abs_path ns @ ''//'' @ n"
    using abs_path_snoc[of "ns @ [[]]" n] abs_path_snoc[OF assms(1), of "[]"] by simp
  moreover have "n \<noteq> []" using assms(3) by (simp add: plain_name_def)
  ultimately show ?thesis
    using Clean_blank[of "ns @ [[], n]"] plain_blank[OF assms(2)] plain_filter[OF assms(2)] assms(3)
    by (simp add: path_Join_def)
qed

lemma abs_path_eq: "xs \<noteq> [] \<Longrightarrow> ys \<noteq> [] \<Longrightarrow> list_all plain_name xs \<Longrightarrow> list_all plain_name ys
    \<Longrightarrow> abs_path xs = abs_path ys \<longleftrightarrow> xs = ys"
  by (metis split_abs_path list.inject)

lemma Dir_abs_path:
  assumes "ns \<noteq> []" "list_all plain_name ns" "plain_name n"
  shows "path_Dir (abs_path (ns @ [n])) = abs_path ns"
proof -
  have "last_elem (abs_path (ns @ [n])) = n"
    using last_elem_slash[of n "abs_path ns"] assms(1,3) by (simp add: abs_path_snoc plain_name_def)
  then have "path_Dir (abs_path (ns @ [n])) = Clean (abs_path ns @ ''/'')"
    using assms(1) by (simp add: path_Dir_def abs_path_snoc)
  with Clean_trailing_slash[OF assms(1,2)] show ?thesis by simp
qed

lemma Base_abs_path:
  assumes "ns \<noteq> []" "plain_name n"
  shows "path_Base (abs_path (ns @ [n])) = n"
proof -
  obtain m c where n: "n = m @ [c]" using assms(2) by (cases n rule: rev_cases) (auto simp: plain_name_def)
  then have "c \<noteq> CHR ''/''" using assms(2) by (auto simp: plain_name_def)
  then have "rev (dropWhile (\<lambda>c. c = CHR ''/'') (rev (abs_path ns @ ''/'' @ n))) = abs_path ns @ ''/'' @ n"
    by (simp add: n)
  then show ?thesis using last_elem_slash[of n "abs_path ns"] assms
    by (simp add: path_Base_def Let_def abs_path_snoc plain_name_def)
qed

end
