(* ===== verification/Compose.thy ===== *)
theory Compose
  imports StoreServices FilePaths
begin

text \<open>
  The docker-compose agent of the gateway, \<open>gateway/serve/container.go\<close>: the requests that create,
  update, remove and list compositions. The file system is a record of directories and files and
  the commands that were run are kept in order; what a command answers (\<open>run\<close>), the decoders and
  encoders of JSON and YAML, and the names of temporary directories are parameters.
\<close>

section \<open>Requests\<close>

text \<open>\<open>cr_Yaml\<close>: \<open>None\<close> is a nil map.\<close>

record 'v DockerComposeRequest =
  cr_File :: string
  cr_Dir :: string
  cr_Path :: string
  cr_Args :: "string list"
  cr_Yaml :: "(string, 'v) gomap option"

definition GetAllPaths :: "'v DockerComposeRequest \<Rightarrow> string \<times> string \<times> string" where
  "GetAllPaths req =
     (let dir = (if cr_Dir req = [] then path_Dir (cr_Path req) else cr_Dir req);
          file = (if cr_File req = [] then path_Base (cr_Path req) else cr_File req);
          path = (if cr_Path req = [] then path_Join [dir, file] else cr_Path req)
      in (dir, file, path))"

definition valid_section :: "string \<Rightarrow> bool" where
  "valid_section k \<longleftrightarrow> k = ''version'' \<or> k = ''services'' \<or> k = ''networks'' \<or> k = ''volumes'' \<or> has_prefix k ''x-''"

text \<open>\<open>filterInvalidComposeSection\<close>: the keys are collected first and deleted one by one.\<close>

definition invalid_keys :: "(string, 'v) gomap \<Rightarrow> string list" where
  "invalid_keys data = filter (\<lambda>k. \<not> valid_section k) (map fst data)"

definition filterInvalidComposeSection :: "(string, 'v) gomap \<Rightarrow> (string, 'v) gomap" where
  "filterInvalidComposeSection data = foldl (\<lambda>d k. AList.delete k d) data (invalid_keys data)"

section \<open>The machine\<close>

record compose_os =
  co_dirs :: "string list"
  co_files :: "(string, string) gomap"
  co_cmds :: "(string \<times> string list) list"

text \<open>
  \<open>from_json\<close>: \<open>json.Unmarshal\<close> into a map; \<open>req_json\<close>: into a request; \<open>to_yaml\<close>: \<open>yaml.Marshal\<close>; errors on the
  left. \<open>temp_dir\<close>: \<open>ioutil.TempDir\<close>; \<open>write_error\<close>: the error of writing a file; \<open>run\<close>: what a command,
  given its directory and arguments, answers: exit code, error and output on the left for a failure.
\<close>

record 'v compose_env =
  from_json :: "string \<Rightarrow> string + (string, 'v) gomap"
  req_json :: "string \<Rightarrow> string + 'v DockerComposeRequest"
  to_yaml :: "(string, 'v) gomap \<Rightarrow> string + string"
  temp_dir :: "string + string"
  write_error :: "string \<Rightarrow> string option"
  run :: "string \<Rightarrow> string list \<Rightarrow> (int \<times> string \<times> string) + string"

definition do_cmd :: "string \<Rightarrow> string list \<Rightarrow> compose_os \<Rightarrow> compose_os" where
  "do_cmd dir args os = os\<lparr>co_cmds := co_cmds os @ [(dir, args)]\<rparr>"

definition add_dir :: "string \<Rightarrow> compose_os \<Rightarrow> compose_os" where
  "add_dir d os = (if d \<in> set (co_dirs os) then os else os\<lparr>co_dirs := co_dirs os @ [d]\<rparr>)"

definition under :: "string \<Rightarrow> string \<Rightarrow> bool" where
  "under dir p \<longleftrightarrow> p = dir \<or> has_prefix p (dir @ ''/'')"

definition os_RemoveAll :: "string \<Rightarrow> compose_os \<Rightarrow> compose_os" where
  "os_RemoveAll dir os = os\<lparr>co_dirs := filter (\<lambda>d. \<not> under dir d) (co_dirs os),
     co_files := filter (\<lambda>(f, c). \<not> under dir f) (co_files os)\<rparr>"

definition os_WriteFile :: "string \<Rightarrow> string \<Rightarrow> compose_os \<Rightarrow> compose_os" where
  "os_WriteFile p c os = os\<lparr>co_files := AList.update p c (co_files os)\<rparr>"

section \<open>Handlers\<close>

definition jsonToYaml :: "'v compose_env \<Rightarrow> string \<Rightarrow> string + string" where
  "jsonToYaml E buffer = (case from_json E buffer of
       Inl e \<Rightarrow> Inl e
     | Inr data \<Rightarrow> to_yaml E (filterInvalidComposeSection data))"

text \<open>A request of the agent: its body is an error on the left.\<close>

record compose_http =
  ch_Type :: string
  ch_body :: "string + string"
  ch_id :: string
  ch_query :: "string \<times> string \<times> string"

text \<open>\<open>readJSONBody\<close>: with another content type it writes an error and returns an empty buffer and no error.\<close>

definition contains_json :: "string \<Rightarrow> bool" where
  "contains_json t \<longleftrightarrow> index_of t ''json'' \<noteq> None"

definition readJSONBody :: "compose_http \<Rightarrow> writer \<Rightarrow> (string + string) \<times> writer" where
  "readJSONBody r w =
     (if \<not> contains_json (ch_Type r) then (Inr [], ErrorWithCode 400 w)
      else case ch_body r of
             Inl e \<Rightarrow> (Inl e, ErrorWithCode 400 w)
           | Inr b \<Rightarrow> (Inr b, w))"

definition captureCommandResult :: "'v compose_env \<Rightarrow> string \<Rightarrow> string list \<Rightarrow> compose_os \<Rightarrow> writer
    \<Rightarrow> string option \<times> compose_os \<times> writer" where
  "captureCommandResult E dir args os w =
     (case run E dir args of
        Inl (code, err, out) \<Rightarrow> (None, do_cmd dir args os,
          serve_Error (''Code: '' @ Itoa code @ '', GoErr: '' @ err @ '', Compose: '' @ out) 500 w)
      | Inr out \<Rightarrow> (Some out, do_cmd dir args os, w))"

definition compose_file :: string where
  "compose_file = ''docker-compose.yml''"

definition compose_base :: string where
  "compose_base = ''/data/compose''"

text \<open>The directory of a new composition: a temporary one, or that of its number, in which an older one is taken down.\<close>

definition compose_dir :: "'v compose_env \<Rightarrow> string \<Rightarrow> compose_os \<Rightarrow> (string + string) \<times> compose_os" where
  "compose_dir E composeID os =
     (if composeID = [] then
        (case temp_dir E of Inl e \<Rightarrow> (Inl e, os) | Inr d \<Rightarrow> (Inr d, add_dir d os))
      else let dir = path_Join [compose_base, composeID]
           in if dir \<notin> set (co_dirs os) \<and> map_of (co_files os) dir = None then (Inr dir, add_dir dir os)
              else (Inr dir, do_cmd dir [''-f'', compose_file, ''down''] os))"

definition dockerComposeUp :: "'v compose_env \<Rightarrow> compose_http \<Rightarrow> compose_os \<Rightarrow> writer \<Rightarrow> compose_os \<times> writer" where
  "dockerComposeUp E r os w =
     (case readJSONBody r w of
        (Inl e, w1) \<Rightarrow> (os, w1)
      | (Inr buffer, w1) \<Rightarrow>
          (case jsonToYaml E buffer of
             Inl e \<Rightarrow> (os, serve_Error e 400 w1)
           | Inr yml \<Rightarrow>
               (case compose_dir E (ch_id r) os of
                  (Inl e, os1) \<Rightarrow> (os1, serve_Error e 500 w1)
                | (Inr dir, os1) \<Rightarrow>
                    (let f = path_Join [dir, compose_file] in
                     case write_error E f of
                       Some e \<Rightarrow> (os1, serve_Error e 500 w1)
                     | None \<Rightarrow>
                          (case captureCommandResult E dir [''-f'', compose_file, ''up'', ''-d'', ''--remove-orphans'']
                                  (os_WriteFile f yml os1) w1 of
                             (None, os2, w2) \<Rightarrow> (os2, w2)
                           | (Some out, os2, w2) \<Rightarrow>
                               (os2, WriteData (Some [(''file'', VStr compose_file), (''dir'', VStr dir), (''path'', VStr f)]) w2))))))"

text \<open>\<open>cleanUp\<close> after the request: \<open>status\<close> is that of \<open>r.Response\<close> if there is one, \<open>cancelled\<close> whether the context has an error.\<close>

definition cleanUp :: "string \<Rightarrow> string \<Rightarrow> int option \<Rightarrow> bool \<Rightarrow> compose_os \<Rightarrow> compose_os" where
  "cleanUp dir file status cancelled os =
     (let requestFailed = ((case status of None \<Rightarrow> True | Some c \<Rightarrow> c \<ge> 400) \<or> cancelled)
      in if requestFailed \<and> dir \<notin> set (co_dirs os)
         then os_RemoveAll dir (do_cmd dir [''-f'', file, ''down''] os)
         else os)"

text \<open>\<open>updateYaml\<close>: whether it went on, the files and the replies.\<close>

definition updateYaml :: "'v compose_env \<Rightarrow> 'v DockerComposeRequest \<Rightarrow> string \<Rightarrow> compose_os \<Rightarrow> writer \<Rightarrow> bool \<times> compose_os \<times> writer" where
  "updateYaml E req path os w =
     (case cr_Yaml req of
        None \<Rightarrow> (True, os, w)
      | Some y \<Rightarrow>
          (if length y > 0 then
             (case to_yaml E (filterInvalidComposeSection y) of
                Inl e \<Rightarrow> (False, os, serve_Error e 400 w)
              | Inr yml \<Rightarrow> (case write_error E path of
                               None \<Rightarrow> (True, os_WriteFile path yml os, w)
                             | Some e \<Rightarrow> (False, os, serve_Error e 500 w)))
           else (True, os, w)))"

definition with_request :: "'v compose_env \<Rightarrow> compose_http \<Rightarrow> compose_os \<Rightarrow> writer
    \<Rightarrow> ('v DockerComposeRequest \<Rightarrow> compose_os \<Rightarrow> writer \<Rightarrow> compose_os \<times> writer) \<Rightarrow> compose_os \<times> writer" where
  "with_request E r os w k =
     (case readJSONBody r w of
        (Inl e, w1) \<Rightarrow> (os, w1)
      | (Inr buffer, w1) \<Rightarrow>
          (case req_json E buffer of Inl e \<Rightarrow> (os, serve_Error e 400 w1) | Inr req \<Rightarrow> k req os w1))"

definition dockerComposeUpdate :: "'v compose_env \<Rightarrow> compose_http \<Rightarrow> compose_os \<Rightarrow> writer \<Rightarrow> compose_os \<times> writer" where
  "dockerComposeUpdate E r os w = with_request E r os w (\<lambda>req os w.
     (case GetAllPaths req of (dir, file, path) \<Rightarrow>
       (case updateYaml E req path os w of
          (False, os1, w1) \<Rightarrow> (os1, w1)
        | (True, os1, w1) \<Rightarrow>
            (case captureCommandResult E dir [''-f'', file, ''up'', ''-d''] os1 w1 of
               (None, os2, w2) \<Rightarrow> (os2, w2)
             | (Some out, os2, w2) \<Rightarrow> (os2, WriteData (Some [(''file'', VStr file), (''dir'', VStr dir)]) w2)))))"

definition handleComposeCommand :: "'v compose_env \<Rightarrow> compose_http \<Rightarrow> string \<Rightarrow> bool \<Rightarrow> compose_os \<Rightarrow> writer \<Rightarrow> compose_os \<times> writer" where
  "handleComposeCommand E r command withOutput os w = with_request E r os w (\<lambda>req os w.
     (case GetAllPaths req of (dir, file, path) \<Rightarrow>
       (case captureCommandResult E dir ([''-f'', file, command] @ cr_Args req) os w of
          (None, os2, w2) \<Rightarrow> (os2, w2)
        | (Some out, os2, w2) \<Rightarrow>
            (os2, WriteData (Some ([(''file'', VStr file), (''dir'', VStr dir), (''path'', VStr path)]
               @ (if withOutput then [(''result'', VStr out)] else []))) w2))))"

definition DockerComposeCommand :: "'v compose_env \<Rightarrow> compose_http \<Rightarrow> string \<Rightarrow> compose_os \<Rightarrow> writer \<Rightarrow> compose_os \<times> writer" where
  "DockerComposeCommand E r cmd os w = handleComposeCommand E r cmd False os w"

definition DockerComposeWithOutput :: "'v compose_env \<Rightarrow> compose_http \<Rightarrow> string \<Rightarrow> compose_os \<Rightarrow> writer \<Rightarrow> compose_os \<times> writer" where
  "DockerComposeWithOutput E r cmd os w = handleComposeCommand E r cmd True os w"

definition compose_down :: "'v compose_env \<Rightarrow> 'v DockerComposeRequest \<Rightarrow> compose_os \<Rightarrow> writer \<Rightarrow> compose_os \<times> writer" where
  "compose_down E req os w =
     (case GetAllPaths req of (dir, file, path) \<Rightarrow>
       (case captureCommandResult E dir [''-f'', file, ''down'', ''--remove-orphans''] os w of
          (None, os2, w2) \<Rightarrow> (os2, w2)
        | (Some out, os2, w2) \<Rightarrow>
            (os_RemoveAll dir os2, WriteData (Some [(''file'', VStr file), (''dir'', VStr dir), (''path'', VStr path)]) w2)))"

definition dockerComposeDown :: "'v compose_env \<Rightarrow> compose_http \<Rightarrow> compose_os \<Rightarrow> writer \<Rightarrow> compose_os \<times> writer" where
  "dockerComposeDown E r os w =
     (if contains_json (ch_Type r) then with_request E r os w (compose_down E)
      else case ch_query r of (file, dir, path) \<Rightarrow>
             compose_down E \<lparr>cr_File = file, cr_Dir = dir, cr_Path = path, cr_Args = [], cr_Yaml = None\<rparr> os w)"

text \<open>
  \<open>DockerComposeTruncate\<close>: the entries of the base directory with their kind; the goroutines of
  \<open>checkResult\<close> answer in the order \<open>order\<close>, a permutation of the directories.
\<close>

definition composeDirPrefix :: string where
  "composeDirPrefix = ''compose-''"

definition compose_dirs :: "string \<Rightarrow> (string \<times> bool) list \<Rightarrow> string list" where
  "compose_dirs base entries = map (\<lambda>(n, d). path_Join [base, n]) (filter (\<lambda>(n, d). d \<and> has_prefix n composeDirPrefix) entries)"

definition checkResult :: "'v compose_env \<Rightarrow> string \<Rightarrow> compose_os \<Rightarrow> (int \<times> string \<times> string) option \<times> compose_os" where
  "checkResult E dir os =
     (case run E dir [''-f'', compose_file, ''down''] of
        Inr out \<Rightarrow> (None, os_RemoveAll dir (do_cmd dir [''-f'', compose_file, ''down''] os))
      | Inl e \<Rightarrow> (Some e, do_cmd dir [''-f'', compose_file, ''down''] os))"

definition truncate_one :: "'v compose_env \<Rightarrow> (string, api_value) gomap \<times> compose_os \<Rightarrow> string \<Rightarrow> (string, api_value) gomap \<times> compose_os" where
  "truncate_one E st dir =
     (case checkResult E dir (snd st) of
        (None, os) \<Rightarrow> (fst st, os)
      | (Some (code, err, out), os) \<Rightarrow> (AList.update dir (VStr (''Code: '' @ Itoa code @ '', Compose: '' @ out)) (fst st), os))"

definition DockerComposeTruncate :: "'v compose_env \<Rightarrow> string \<Rightarrow> (string \<times> bool) list option \<Rightarrow> string list \<Rightarrow> compose_os \<Rightarrow> writer
    \<Rightarrow> compose_os \<times> writer" where
  "DockerComposeTruncate E base files order os w =
     (case files of
        None \<Rightarrow> (os, WriteSucess w)
      | Some entries \<Rightarrow>
          (let ds = compose_dirs base entries;
               data = AList.update ''total'' (VInt (int (length ds))) (foldl (\<lambda>m d. AList.update d (VStr []) m) [] ds);
               (data', os') = foldl (truncate_one E) (data, os) order
           in (os', WriteData (Some data') w)))"

definition compose_ServeHTTP :: "'v compose_env \<Rightarrow> string \<Rightarrow> compose_http \<Rightarrow> compose_os \<Rightarrow> writer \<Rightarrow> compose_os \<times> writer" where
  "compose_ServeHTTP E meth r os w =
     (if meth = ''POST'' then dockerComposeUp E r os w
      else if meth = ''PUT'' then dockerComposeUpdate E r os w
      else if meth = ''DELETE'' then dockerComposeDown E r os w
      else (os, ErrorWithCode 405 w))"

section \<open>Sections\<close>

lemma map_of_deletes: "map_of (foldl (\<lambda>d k. AList.delete k d) data ks) = (\<lambda>k. if k \<in> set ks then None else map_of data k)"
  by (induction ks arbitrary: data) auto

text \<open>What is written to the file has the sections that docker-compose knows, with their content, and no other.\<close>

theorem filter_sections_exact:
  "map_of (filterInvalidComposeSection data) k = (if valid_section k then map_of data k else None)"
proof -
  have "k \<in> set (invalid_keys data) \<longleftrightarrow> map_of data k \<noteq> None \<and> \<not> valid_section k"
    by (auto simp: invalid_keys_def map_of_eq_None_iff simp del: not_None_eq)
  then show ?thesis by (auto simp: filterInvalidComposeSection_def map_of_deletes)
qed

section \<open>Creating and removing\<close>

lemma path_of_plain:
  assumes "plain_name n"
  shows "path_Join [compose_base, n] = abs_path [''data'', ''compose'', n]"
    "path_Join [abs_path [''data'', ''compose'', n], compose_file] = abs_path [''data'', ''compose'', n, compose_file]"
    "path_Dir (abs_path [''data'', ''compose'', n, compose_file]) = abs_path [''data'', ''compose'', n]"
    "path_Base (abs_path [''data'', ''compose'', n, compose_file]) = compose_file"
proof -
  have b: "compose_base = abs_path [''data'', ''compose'']" by code_simp
  have p: "list_all plain_name [''data'', ''compose'']" "plain_name compose_file" by code_simp+
  then have q: "list_all plain_name [''data'', ''compose'', n]" using assms by simp
  show "path_Join [compose_base, n] = abs_path [''data'', ''compose'', n]"
    using Join_abs_path[OF _ p(1) assms] unfolding b by simp
  show "path_Join [abs_path [''data'', ''compose'', n], compose_file] = abs_path [''data'', ''compose'', n, compose_file]"
    "path_Dir (abs_path [''data'', ''compose'', n, compose_file]) = abs_path [''data'', ''compose'', n]"
    "path_Base (abs_path [''data'', ''compose'', n, compose_file]) = compose_file"
    using Join_abs_path[OF _ q p(2)] Dir_abs_path[OF _ q p(2)] Base_abs_path[OF _ p(2), of "[''data'', ''compose'', n]"] by simp_all
qed

lemma under_file: "under (abs_path [''data'', ''compose'', n]) (abs_path [''data'', ''compose'', n, compose_file])"
  using abs_path_snoc[of "[''data'', ''compose'', n]" compose_file]
  by (auto simp: under_def has_prefix_iff)

lemma map_of_filter_under:
  "map_of (filter (\<lambda>(f, c). \<not> under dir f) fs) p = (if under dir p then None else map_of fs p)"
  by (induction fs) auto

lemma compose_dir_plain:
  assumes "plain_name n"
  shows "\<exists>os1. compose_dir E n os = (Inr (abs_path [''data'', ''compose'', n]), os1) \<and> co_files os1 = co_files os"
  using assms path_of_plain(1)[OF assms]
  by (auto simp: compose_dir_def Let_def add_dir_def do_cmd_def plain_name_def)

text \<open>
  C28. A composition that is created under a number and then removed by the path that its creation
  returned: the file with its sections was there in between, the removal runs \<open>down\<close> in the same
  directory on the same file, nothing of the directory is left, and no other file has changed.
\<close>

theorem compose_up_then_down:
  assumes n: "plain_name (ch_id r)" and json: "contains_json (ch_Type r)" "ch_body r = Inr b" "jsonToYaml E b = Inr yml"
    and dir: "dir = abs_path [''data'', ''compose'', ch_id r]" and f: "f = abs_path [''data'', ''compose'', ch_id r, compose_file]"
    and ok: "write_error E f = None" "run E dir [''-f'', compose_file, ''up'', ''-d'', ''--remove-orphans''] = Inr o1"
      "run E dir [''-f'', compose_file, ''down'', ''--remove-orphans''] = Inr o2"
    and r': "\<not> contains_json (ch_Type r')" "ch_query r' = ([], [], f)"
  shows "\<exists>os1 os2. dockerComposeUp E r os [] = (os1, [ApiData (Some [(''file'', VStr compose_file), (''dir'', VStr dir), (''path'', VStr f)])])
    \<and> map_of (co_files os1) f = Some yml
    \<and> dockerComposeDown E r' os1 [] = (os2, [ApiData (Some [(''file'', VStr compose_file), (''dir'', VStr dir), (''path'', VStr f)])])
    \<and> last (co_cmds os2) = (dir, [''-f'', compose_file, ''down'', ''--remove-orphans''])
    \<and> dir \<notin> set (co_dirs os2) \<and> (\<forall>p. map_of (co_files os2) p = (if under dir p then None else map_of (co_files os) p))"
proof -
  obtain os0 where c: "compose_dir E (ch_id r) os = (Inr dir, os0)" "co_files os0 = co_files os"
    using compose_dir_plain[OF n] dir by blast
  define os1 where "os1 = do_cmd dir [''-f'', compose_file, ''up'', ''-d'', ''--remove-orphans''] (os_WriteFile f yml os0)"
  have up: "dockerComposeUp E r os [] = (os1, [ApiData (Some [(''file'', VStr compose_file), (''dir'', VStr dir), (''path'', VStr f)])])"
    using json c(1) ok(1,2) path_of_plain(2)[OF n]
    by (simp add: dockerComposeUp_def readJSONBody_def captureCommandResult_def WriteData_def Let_def os1_def dir f)
  define os2 where "os2 = os_RemoveAll dir (do_cmd dir [''-f'', compose_file, ''down'', ''--remove-orphans''] os1)"
  have "f \<noteq> []" by (simp add: f abs_path_def)
  then have down: "dockerComposeDown E r' os1 [] = (os2, [ApiData (Some [(''file'', VStr compose_file), (''dir'', VStr dir), (''path'', VStr f)])])"
    using r' ok(3) path_of_plain(3,4)[OF n]
    by (simp add: dockerComposeDown_def compose_down_def GetAllPaths_def captureCommandResult_def WriteData_def os2_def dir f)
  have "map_of (co_files os1) f = Some yml" by (simp add: os1_def do_cmd_def os_WriteFile_def)
  moreover have "map_of (co_files os2) p = (if under dir p then None else map_of (co_files os) p)" for p
    using c(2) under_file[of "ch_id r"]
    by (auto simp: os2_def os1_def os_RemoveAll_def do_cmd_def os_WriteFile_def map_of_filter_under dir f)
  moreover have "dir \<notin> set (co_dirs os2)" by (simp add: os2_def os_RemoveAll_def under_def)
  ultimately show ?thesis using up down by (auto simp: os2_def os_RemoveAll_def do_cmd_def)
qed

text \<open>A body that is not announced as JSON is answered twice: the first error does not end the request.\<close>

lemma not_json_answered_twice:
  "\<not> contains_json (ch_Type r) \<Longrightarrow> from_json E [] = Inl e \<Longrightarrow>
   dockerComposeUp E r os [] = (os, [ApiError 400 ''Bad Request'', ApiError 400 e])"
  by (simp add: dockerComposeUp_def readJSONBody_def jsonToYaml_def ErrorWithCode_def serve_Error_def StatusText_def)

text \<open>The clean-up of a failed request does nothing as long as its directory is there.\<close>

lemma cleanUp_never_cleans: "dir \<in> set (co_dirs os) \<Longrightarrow> cleanUp dir file status cancelled os = os"
  by (simp add: cleanUp_def)

section \<open>Removing all\<close>

definition down_ok :: "'v compose_env \<Rightarrow> string \<Rightarrow> bool" where
  "down_ok E d \<longleftrightarrow> (case run E d [''-f'', compose_file, ''down''] of Inl e \<Rightarrow> False | Inr out \<Rightarrow> True)"

definition down_result :: "'v compose_env \<Rightarrow> string \<Rightarrow> string" where
  "down_result E d = (case run E d [''-f'', compose_file, ''down''] of
     Inl (code, err, out) \<Rightarrow> ''Code: '' @ Itoa code @ '', Compose: '' @ out | Inr out \<Rightarrow> [])"

lemma truncate_one_facts:
  "map_of (fst (truncate_one E (m, os) d)) k = (if k = d \<and> \<not> down_ok E d then Some (VStr (down_result E d)) else map_of m k)"
  "co_files (snd (truncate_one E (m, os) d)) = filter (\<lambda>(f, c). \<not> (down_ok E d \<and> under d f)) (co_files os)"
  by (auto simp: truncate_one_def checkResult_def down_ok_def down_result_def os_RemoveAll_def do_cmd_def
        split: sum.splits prod.splits intro!: filter_cong)

lemma truncate_all_facts:
  "map_of (fst (foldl (truncate_one E) (m, os) ds)) k = (if k \<in> set ds \<and> \<not> down_ok E k then Some (VStr (down_result E k)) else map_of m k)"
  "co_files (snd (foldl (truncate_one E) (m, os) ds)) = filter (\<lambda>(f, c). \<not> (\<exists>d\<in>set ds. down_ok E d \<and> under d f)) (co_files os)"
proof (induction ds arbitrary: m os)
  case (Cons d ds)
  { case 1 show ?case
      using Cons.IH(1)[of "fst (truncate_one E (m, os) d)" "snd (truncate_one E (m, os) d)"] truncate_one_facts(1)[of E m os d]
      by auto }
  { case 2 show ?case
      using Cons.IH(2)[of "fst (truncate_one E (m, os) d)" "snd (truncate_one E (m, os) d)"] truncate_one_facts(2)[of E m os d]
      by (auto intro!: filter_cong) }
qed (simp_all add: case_prod_beta)

lemma map_of_empty_results: "map_of (foldl (\<lambda>m d. AList.update d (VStr []) m) m ds) k = (if k \<in> set ds then Some (VStr []) else map_of m k)"
  by (induction ds arbitrary: m) auto

text \<open>
  Removing all compositions, whatever the order in which the goroutines end: the answer counts the
  directories with the prefix and gives for each an empty text or the error of its command; exactly
  the files of those whose command worked are gone.
\<close>

theorem compose_truncate:
  assumes "set order = set (compose_dirs base entries)" "''total'' \<notin> set order"
  shows "\<exists>os' data. DockerComposeTruncate E base (Some entries) order os w = (os', w @ [ApiData (Some data)])
    \<and> map_of data ''total'' = Some (VInt (int (length (compose_dirs base entries))))
    \<and> (\<forall>d\<in>set (compose_dirs base entries). map_of data d = Some (VStr (if down_ok E d then [] else down_result E d)))
    \<and> co_files os' = filter (\<lambda>(f, c). \<not> (\<exists>d\<in>set (compose_dirs base entries). down_ok E d \<and> under d f)) (co_files os)"
proof -
  let ?ds = "compose_dirs base entries"
  let ?m = "AList.update ''total'' (VInt (int (length ?ds))) (foldl (\<lambda>m d. AList.update d (VStr []) m) [] ?ds)"
  obtain data os' where t: "foldl (truncate_one E) (?m, os) order = (data, os')"
    by (cases "foldl (truncate_one E) (?m, os) order")
  have "map_of data k = (if k \<in> set order \<and> \<not> down_ok E k then Some (VStr (down_result E k)) else map_of ?m k)" for k
    using truncate_all_facts(1)[of E ?m os order k] t by simp
  moreover have "co_files os' = filter (\<lambda>(f, c). \<not> (\<exists>d\<in>set order. down_ok E d \<and> under d f)) (co_files os)"
    using truncate_all_facts(2)[of E ?m os order] t by simp
  ultimately show ?thesis using assms t
    by (auto simp: DockerComposeTruncate_def WriteData_def map_of_empty_results)
qed

section \<open>Witnesses\<close>

definition demo_compose :: "string compose_env" where
  "demo_compose = \<lparr>from_json = (\<lambda>b. Inr [(''services'', b), (''secret'', b)]), req_json = (\<lambda>b. Inl []),
     to_yaml = (\<lambda>m. Inr (concat (map (\<lambda>(k, v). k @ '': '' @ v) m))), temp_dir = Inl [], write_error = (\<lambda>p. None),
     run = (\<lambda>d a. Inr [])\<rparr>"

theorem compose_up_then_down_witness:
  "\<exists>os1 w. dockerComposeUp demo_compose \<lparr>ch_Type = ''application/json'', ch_body = Inr ''web'', ch_id = ''app'', ch_query = ([], [], [])\<rparr>
      \<lparr>co_dirs = [], co_files = [], co_cmds = []\<rparr> [] = (os1, w)
    \<and> map_of (co_files os1) ''/data/compose/app/docker-compose.yml'' = Some ''services: web''"
proof -
  let ?r = "\<lparr>ch_Type = ''application/json'', ch_body = Inr ''web'', ch_id = ''app'', ch_query = ([], [], [])\<rparr>"
  let ?r' = "\<lparr>ch_Type = [], ch_body = Inr [], ch_id = [], ch_query = ([], [], ''/data/compose/app/docker-compose.yml'')\<rparr>"
  have n: "plain_name (ch_id ?r)" and j: "contains_json (ch_Type ?r)" "ch_body ?r = Inr ''web''"
    and y: "jsonToYaml demo_compose ''web'' = Inr ''services: web''"
    and d: "''/data/compose/app'' = abs_path [''data'', ''compose'', ch_id ?r]"
    and f: "''/data/compose/app/docker-compose.yml'' = abs_path [''data'', ''compose'', ch_id ?r, compose_file]"
    and r': "\<not> contains_json (ch_Type ?r')" "ch_query ?r' = ([], [], ''/data/compose/app/docker-compose.yml'')"
    by code_simp+
  have ok: "write_error demo_compose p = None" "run demo_compose q a = Inr []" for p q a by (simp_all add: demo_compose_def)
  show ?thesis
    using compose_up_then_down[OF n j y d f ok(1) ok(2) ok(2) r', where os = "\<lparr>co_dirs = [], co_files = [], co_cmds = []\<rparr>"] by blast
qed

end
