(* ===== verification/AiServing.thy ===== *)
theory AiServing
  imports StoreServices
begin

text \<open>
  The gateway's AI service, \<open>gateway/serve/aiserving.go\<close>: the registration of a backend with consul, its
  removal, and the forwarding of requests. The calls to consul and the requests that are forwarded are
  recorded; their results, the decoders and the file system are parameters.
\<close>

section \<open>Requests and effects\<close>

record ai_registration =
  reg_ID :: string
  reg_Tags :: "string list"
  reg_Name :: string
  reg_Kind :: string
  reg_Address :: string
  reg_Port :: int
  reg_Check :: string

text \<open>
  In the order in which they happen: a reply, a bare status, a bare text; a service registered with or
  removed from consul; a request forwarded to an address, with its path and body.
\<close>

datatype ai_act =
    AiReply api_reply | AiStatus int | AiSuccess
  | ConsulRegister ai_registration | ConsulDeregister string
  | AiForward string string string

text \<open>The body of a request is an error on the left.\<close>

record ai_request =
  ai_path :: string
  ai_method :: string
  ai_length :: string
  ai_body :: "string + string"
  ai_name :: string
  image_path :: string

text \<open>
  \<open>detect_json\<close>, \<open>registry_json\<close>, \<open>anti_json\<close>: \<open>json.Unmarshal\<close> into the types \<open>aiDetectBody\<close>, \<open>registry\<close> (name,
  heartbeat path, address) and \<open>antiRegistry\<close>; \<open>consul_ok\<close>: whether consul accepts a call; \<open>consul_client\<close>:
  \<open>NewClient\<close>; \<open>catalog\<close>: the services under a name and tag, \<open>None\<close> for an error; \<open>file_exists\<close>, \<open>read_file\<close>: the
  file system; \<open>image_json\<close>: the encoded request with the image in base 64; \<open>port_url\<close>: whether \<open>url.Parse\<close>
  accepts the address of a service.
\<close>

record ai_env =
  serving_addr :: string
  detect_json :: "string \<Rightarrow> string + string"
  registry_json :: "string \<Rightarrow> (string \<times> string \<times> string) option"
  anti_json :: "string \<Rightarrow> string option"
  consul_ok :: "ai_act \<Rightarrow> bool"
  consul_client :: bool
  catalog :: "string \<Rightarrow> string \<Rightarrow> (string \<times> int) list option"
  file_exists :: "string \<Rightarrow> bool"
  read_file :: "string \<Rightarrow> string option"
  image_json :: "string \<Rightarrow> string"
  url_ok :: "string \<Rightarrow> bool"

abbreviation ai_error :: "int \<Rightarrow> ai_act" where
  "ai_error code \<equiv> AiReply (ApiError code (StatusText code))"

section \<open>Handlers\<close>

definition handleDetect :: "ai_env \<Rightarrow> ai_request \<Rightarrow> ai_act list" where
  "handleDetect E r =
     (if ai_method r \<noteq> ''POST'' then [ai_error 405]
      else if ai_length r = [] \<or> ai_length r = ''0'' then [ai_error 400]
      else case ai_body r of
             Inl e \<Rightarrow> [AiReply (ApiError 400 e)]
           | Inr buff \<Rightarrow>
               (case detect_json E buff of
                  Inl e \<Rightarrow> [AiReply (ApiError 400 e)]
                | Inr path \<Rightarrow>
                    (if path = [] then [AiReply (ApiError 400 (''Missing Argument '' @ [CHR 0x27] @ ''path'' @ [CHR 0x27]))]
                     else if \<not> file_exists E path then [AiReply (ApiError 404 ''File Not Exist'')]
                     else [AiForward (serving_addr E) (ai_path r) buff])))"

definition deRegisterAIHandler :: "ai_env \<Rightarrow> ai_request \<Rightarrow> ai_act list" where
  "deRegisterAIHandler E r =
     (case ai_body r of
        Inl e \<Rightarrow> [ai_error 400]
      | Inr data \<Rightarrow>
          (case anti_json E data of
             None \<Rightarrow> [ai_error 400]
           | Some name \<Rightarrow>
               (let call = ConsulDeregister (join_with ''.'' [name, name])
                in if consul_ok E call then [call, AiSuccess] else [call, ai_error 400])))"

definition ai_service :: string where
  "ai_service = ''ai_service''"

text \<open>The port is that of \<open>strconv.Atoi\<close>, whose error is ignored: 0, or the nearest limit for a number out of range.\<close>

definition port_number :: "string \<Rightarrow> int" where
  "port_number p = (case Atoi p of
       Some v \<Rightarrow> v
     | None \<Rightarrow> (case parse_int p of None \<Rightarrow> 0 | Some v \<Rightarrow> if v < 0 then - (2 ^ 63) else 2 ^ 63 - 1))"

definition make_registration :: "string \<Rightarrow> string \<Rightarrow> string \<Rightarrow> string \<Rightarrow> string \<Rightarrow> ai_registration" where
  "make_registration name beat addr host port =
     \<lparr>reg_ID = name, reg_Tags = [ai_service], reg_Name = name, reg_Kind = ai_service, reg_Address = host,
      reg_Port = port_number port, reg_Check = join_with [] [''http://'', addr, beat]\<rparr>"

definition registerAIHandler :: "ai_env \<Rightarrow> ai_request \<Rightarrow> ai_act list" where
  "registerAIHandler E r =
     (case ai_body r of
        Inl e \<Rightarrow> []
      | Inr data \<Rightarrow>
          (case registry_json E data of
             None \<Rightarrow> [ai_error 400]
           | Some (name, beat, addr) \<Rightarrow>
               (case SplitHostPort addr of
                  None \<Rightarrow> [ai_error 400]
                | Some (host, port) \<Rightarrow>
                    (let call = ConsulRegister (make_registration name beat addr host port)
                     in if consul_ok E call then [call, AiSuccess] else [call, ai_error 400]))))"

text \<open>
  The common end of the two handlers that ask the catalogue: with exactly one service the request is
  forwarded to it, otherwise nothing is written. An address that \<open>url.Parse\<close> refuses is a nil pointer.
\<close>

definition forward_detect :: "ai_env \<Rightarrow> (string \<times> int) list \<Rightarrow> string \<Rightarrow> ai_act list go" where
  "forward_detect E services body =
     (if length services \<noteq> 1 then Ret []
      else (case services ! 0 of (host, port) \<Rightarrow>
              (let u = ''http://'' @ JoinHostPort host (Itoa port)
               in if url_ok E u then Ret [AiForward u ''/api/detect'' body] else Panic)))"

definition handleDetectHTTP :: "ai_env \<Rightarrow> ai_request \<Rightarrow> ai_act list go" where
  "handleDetectHTTP E r =
     (if ai_method r \<noteq> ''POST'' then Ret [ai_error 405]
      else if \<not> consul_client E then Ret [AiStatus 500]
      else case catalog E (ai_name r) ai_service of
             None \<Rightarrow> Ret [AiStatus 500]
           | Some services \<Rightarrow> forward_detect E services (case ai_body r of Inl e \<Rightarrow> [] | Inr b \<Rightarrow> b))"

text \<open>The error of the catalogue is not looked at: there are no services then.\<close>

definition handleLocalDetectHTTP :: "ai_env \<Rightarrow> ai_request \<Rightarrow> ai_act list go" where
  "handleLocalDetectHTTP E r =
     (if ai_method r \<noteq> ''POST'' then Ret [ai_error 405]
      else if \<not> consul_client E then Ret [AiStatus 500]
      else case read_file E (image_path r) of
             None \<Rightarrow> Ret [AiStatus 500]
           | Some img \<Rightarrow>
               forward_detect E (case catalog E (ai_name r) ai_service of None \<Rightarrow> [] | Some ss \<Rightarrow> ss) (image_json E img))"

definition ai_ServeHTTP :: "ai_env \<Rightarrow> ai_request \<Rightarrow> ai_act list go" where
  "ai_ServeHTTP E r =
     (let path = ai_path r in
      if path = ''/v1/detect'' then Ret (handleDetect E r)
      else if path = ''v1/switch'' then
        Ret (if ai_method r = ''GET'' \<or> ai_method r = ''POST'' then [] else [ai_error 405])
      else if path = ''/v1/register'' then Ret (registerAIHandler E r)
      else if path = ''/v1/remotedetect'' then handleDetectHTTP E r
      else if path = ''/v1/localdetect'' then handleLocalDetectHTTP E r
      else if path = ''/v1/deregister'' then Ret (deRegisterAIHandler E r)
      else Ret [AiForward (serving_addr E) path (case ai_body r of Inl e \<Rightarrow> [] | Inr b \<Rightarrow> b)])"

section \<open>Properties\<close>

text \<open>
  A backend that registers the address \<open>host:port\<close> is known to consul under its name with that host
  and that port, so that a detection that finds it is forwarded to the address it registered.
\<close>

theorem registered_address_is_used:
  assumes "ai_body r = Inr data" "registry_json E data = Some (name, beat, JoinHostPort host (Itoa port))"
    and "CHR ''['' \<notin> set host" "CHR '']'' \<notin> set host" "host \<noteq> []" "in_int64 port"
  shows "\<exists>reg rest. registerAIHandler E r = ConsulRegister reg # rest \<and> reg_ID reg = name \<and> reg_Name reg = name
    \<and> reg_Tags reg = [ai_service]
    \<and> (url_ok E (''http://'' @ JoinHostPort host (Itoa port)) \<longrightarrow>
        forward_detect E [(reg_Address reg, reg_Port reg)] body = Ret [AiForward (''http://'' @ JoinHostPort host (Itoa port)) ''/api/detect'' body])"
proof -
  have "\<forall>d\<in>set [0..<10]. digit_char d \<noteq> CHR '':'' \<and> digit_char d \<noteq> CHR ''['' \<and> digit_char d \<noteq> CHR '']''" by code_simp
  then have "c \<noteq> CHR '':'' \<and> c \<noteq> CHR ''['' \<and> c \<noteq> CHR '']''" if "c \<in> set (Itoa port)" for c
    using Itoa_chars[OF that] by auto
  then have s: "SplitHostPort (JoinHostPort host (Itoa port)) = Some (host, Itoa port)"
    using assms(3-5) by (intro SplitHostPort_Join) blast+
  have "port_number (Itoa port) = port" using assms(6) by (simp add: port_number_def)
  with assms(1,2) s show ?thesis
    by (auto simp: registerAIHandler_def Let_def make_registration_def forward_detect_def)
qed

text \<open>Removing a backend names another service than its registration: the name twice.\<close>

theorem deregister_other_service:
  assumes "registerAIHandler E r = ConsulRegister reg # rest" "deRegisterAIHandler E r' = ConsulDeregister i # rest'"
    and "ai_body r' = Inr data'" "anti_json E data' = Some (reg_ID reg)"
  shows "i \<noteq> reg_ID reg"
  using assms(2-) by (auto simp: deRegisterAIHandler_def Let_def split: if_splits)

text \<open>Nothing is written when there is not exactly one backend of the name: the client sees an empty success.\<close>

lemma no_backend_no_reply:
  "ai_method r = ''POST'' \<Longrightarrow> consul_client E \<Longrightarrow> catalog E (ai_name r) ai_service = Some [] \<Longrightarrow> handleDetectHTTP E r = Ret []"
  by (simp add: handleDetectHTTP_def forward_detect_def)

end
