(* ===== verification/Vpn.thy ===== *)
theory Vpn
  imports NetAddr
begin

text \<open>
  The VPN client and the choice of the network interface: \<open>internal/network/vpn\<close> (both kinds of VPN,
  \<open>Restart\<close>, \<open>UpdateConfig\<close>, the readers of their configuration files), \<open>internal/network/iface/iface.go\<close>,
  \<open>internal/network/ip.go\<close> and \<open>RunUntilSuccess\<close> of \<open>lowapi/utils/err.go\<close>. The machine is a state \<open>'w\<close>; the
  commands, the routing table of netlink, the name resolver and \<open>ping\<close> are the fields of \<open>net_env\<close>.
\<close>

section \<open>Retrying\<close>

text \<open>
  \<open>RunUntilSuccess\<close>: a first attempt, and one more at every tick until the context ends; the context
  lets \<open>n\<close> ticks pass.
\<close>

fun RunUntilSuccess :: "nat \<Rightarrow> ('w \<Rightarrow> string option \<times> 'w) \<Rightarrow> 'w \<Rightarrow> string option \<times> 'w" where
  "RunUntilSuccess 0 f w = f w"
| "RunUntilSuccess (Suc n) f w =
     (case f w of (None, w') \<Rightarrow> (None, w') | (Some e, w') \<Rightarrow> RunUntilSuccess n f w')"

text \<open>The world after \<open>k\<close> attempts.\<close>

definition after :: "('w \<Rightarrow> string option \<times> 'w) \<Rightarrow> nat \<Rightarrow> 'w \<Rightarrow> 'w" where
  "after f k w = ((\<lambda>w. snd (f w)) ^^ k) w"

lemma after_Suc: "after f (Suc k) w = after f k (snd (f w))"
  by (simp add: after_def funpow_Suc_right del: funpow.simps)

text \<open>
  It stops with the first attempt that succeeds; when none of those the context allows does, it
  returns the error of the last.
\<close>

theorem RunUntilSuccess_spec:
  "RunUntilSuccess n f w =
     (case find (\<lambda>k. fst (f (after f k w)) = None) [0..<Suc n] of
        Some k \<Rightarrow> f (after f k w)
      | None \<Rightarrow> f (after f n w))"
proof (induction n arbitrary: w)
  case (Suc n)
  show ?case
  proof (cases "f w")
    case (Pair e w')
    have l: "[0..<Suc (Suc n)] = 0 # map Suc [0..<Suc n]" by (simp add: map_Suc_upt upt_conv_Cons del: upt_Suc)
    have sh: "find P (map Suc xs) = map_option Suc (find (\<lambda>k. P (Suc k)) xs)" for P xs
      by (induction xs) auto
    show ?thesis using Pair Suc.IH[of w']
      by (cases e) (auto simp: l sh after_Suc after_def[of f 0] simp del: upt_Suc split: option.splits)
  qed
qed (simp add: after_def)

text \<open>
  \<open>RunAndRestartOnError\<close>: the function runs again after every return, with or without an error, until a
  return finds the context done; \<open>n\<close> returns come before that.
\<close>

fun RunAndRestartOnError :: "nat \<Rightarrow> ('w \<Rightarrow> string option \<times> 'w) \<Rightarrow> 'w \<Rightarrow> string option \<times> 'w" where
  "RunAndRestartOnError 0 f w = f w"
| "RunAndRestartOnError (Suc n) f w = RunAndRestartOnError n f (snd (f w))"

lemma RunAndRestartOnError_runs: "RunAndRestartOnError n f w = f (after f n w)"
  by (induction n arbitrary: w) (simp_all add: after_Suc, simp add: after_def)

section \<open>Addresses of interfaces\<close>

text \<open>\<open>addrs\<close>: the interface by its name with its addresses, those that are no \<open>IPNet\<close> being \<open>None\<close>, or an error.\<close>

definition GetMyIPSlice :: "(string \<Rightarrow> string + string option list) \<Rightarrow> string \<Rightarrow> string + string list" where
  "GetMyIPSlice addrs name = (case addrs name of Inl e \<Rightarrow> Inl e | Inr as \<Rightarrow> Inr (List.map_filter id as))"

definition GetMyIP :: "(string \<Rightarrow> string + string option list) \<Rightarrow> string \<Rightarrow> string + string" where
  "GetMyIP addrs name = (case GetMyIPSlice addrs name of
       Inl e \<Rightarrow> Inl e
     | Inr ips \<Rightarrow> (if length ips = 0 then Inl (''No IP found for interface '' @ name) else Inr (ips ! 0)))"

section \<open>The machine\<close>

record route =
  r_Gw :: "string option"
  r_Dst :: "string option"
  r_Priority :: int

text \<open>
  \<open>command\<close>: runs a command, the error being that of its exit; \<open>addresses\<close>: the interfaces; \<open>unzip\<close>: \<open>utils.Unzip\<close>;
  \<open>symlink\<close>: \<open>FileExists\<close> and \<open>Symlink\<close> of \<open>setup\<close>; \<open>ticks\<close>: how often the context lets a command be tried again;
  \<open>routes\<close>: the routes of an interface, or that there is no such link; \<open>route_replace\<close>: \<open>RouteReplace\<close>; \<open>ping\<close>;
  \<open>lookup_host\<close>: the resolver; \<open>apply_dns\<close>: \<open>dns.ApplyInterfaceDNSResolv\<close>; \<open>parse_ip\<close>: \<open>net.ParseIP\<close>.
\<close>

record 'w net_env =
  command :: "string list \<Rightarrow> 'w \<Rightarrow> string option \<times> 'w"
  addresses :: "'w \<Rightarrow> string \<Rightarrow> string + string option list"
  unzip :: "string \<Rightarrow> string \<Rightarrow> 'w \<Rightarrow> string option \<times> 'w"
  symlink :: "string \<Rightarrow> string \<Rightarrow> 'w \<Rightarrow> 'w"
  ticks :: "string \<Rightarrow> nat"
  routes :: "string \<Rightarrow> 'w \<Rightarrow> string + route list"
  route_replace :: "route \<Rightarrow> 'w \<Rightarrow> string option \<times> 'w"
  ping :: "string \<Rightarrow> 'w \<Rightarrow> bool"
  lookup_host :: "string \<Rightarrow> 'w \<Rightarrow> string list option"
  apply_dns :: "string \<Rightarrow> 'w \<Rightarrow> string option \<times> 'w"

definition shell :: "'w net_env \<Rightarrow> string \<Rightarrow> 'w \<Rightarrow> string option \<times> 'w" where
  "shell E c = command E [''/bin/bash'', ''-c'', c]"

section \<open>The two kinds of VPN\<close>

datatype vpn_kind = OpenVpn | WireGuard

definition openvpnServiceName :: string where
  "openvpnServiceName = ''openvpn@iotedge''"

definition vpn_iface :: "vpn_kind \<Rightarrow> string" where
  "vpn_iface k = (case k of OpenVpn \<Rightarrow> ''tun0'' | WireGuard \<Rightarrow> ''wg0'')"

definition openvpn_setup :: "'w net_env \<Rightarrow> 'w \<Rightarrow> 'w" where
  "openvpn_setup E = symlink E ''/etc/openvpn/client.ovpn'' ''/etc/openvpn/iotedge.conf''"

definition vpn_retryStart :: "'w net_env \<Rightarrow> vpn_kind \<Rightarrow> 'w \<Rightarrow> string option \<times> 'w" where
  "vpn_retryStart E k w = (case k of
       OpenVpn \<Rightarrow>
         (let enable = ''systemctl enable '' @ openvpnServiceName; start = ''systemctl start '' @ openvpnServiceName
          in case RunUntilSuccess (ticks E enable) (shell E enable) (openvpn_setup E w) of
               (Some e, w1) \<Rightarrow> (Some e, w1)
             | (None, w1) \<Rightarrow> RunUntilSuccess (ticks E start) (shell E start) w1)
     | WireGuard \<Rightarrow> command E [''wg-quick'', ''up'', ''wg0''] w)"

definition vpn_stop :: "'w net_env \<Rightarrow> vpn_kind \<Rightarrow> 'w \<Rightarrow> string option \<times> 'w" where
  "vpn_stop E k w = (case k of
       OpenVpn \<Rightarrow>
         (case shell E (''systemctl disable '' @ openvpnServiceName) w of
            (Some e, w1) \<Rightarrow> (Some e, w1)
          | (None, w1) \<Rightarrow> shell E (''systemctl stop '' @ openvpnServiceName) w1)
     | WireGuard \<Rightarrow> command E [''wg-quick'', ''down'', ''wg0''] w)"

definition vpn_updateConfig :: "'w net_env \<Rightarrow> vpn_kind \<Rightarrow> string \<Rightarrow> 'w \<Rightarrow> string option \<times> 'w" where
  "vpn_updateConfig E k cfg = unzip E cfg (case k of OpenVpn \<Rightarrow> ''/etc/openvpn/'' | WireGuard \<Rightarrow> ''/etc/wireguard/'')"

text \<open>Asking for the address does not change the machine; what it becomes between two attempts is \<open>pass\<close>.\<close>

definition ip_attempt :: "'w net_env \<Rightarrow> ('w \<Rightarrow> 'w) \<Rightarrow> vpn_kind \<Rightarrow> 'w \<Rightarrow> string option \<times> 'w" where
  "ip_attempt E pass k w = (case GetMyIP (addresses E w) (vpn_iface k) of Inl e \<Rightarrow> (Some e, pass w) | Inr ip \<Rightarrow> (None, w))"

definition vpn_getIp :: "'w net_env \<Rightarrow> ('w \<Rightarrow> 'w) \<Rightarrow> vpn_kind \<Rightarrow> 'w \<Rightarrow> (string + string) \<times> 'w" where
  "vpn_getIp E pass k w = (case k of
       OpenVpn \<Rightarrow>
         (case RunUntilSuccess (ticks E ''ip'') (ip_attempt E pass k) w of
            (Some e, w1) \<Rightarrow> (Inl e, w1)
          | (None, w1) \<Rightarrow> (GetMyIP (addresses E w1) (vpn_iface k), w1))
     | WireGuard \<Rightarrow> (GetMyIP (addresses E w) (vpn_iface k), w))"

text \<open>The package variables and the machine.\<close>

record 'w vpn_state =
  vpnInstance :: "vpn_kind option"
  lastVpnIp :: string
  machine :: 'w

text \<open>\<open>dev\<close>: the mode of the device's record, or the error of reading it.\<close>

definition getVpnInstance :: "string + string \<Rightarrow> 'w vpn_state \<Rightarrow> (string + vpn_kind) \<times> 'w vpn_state" where
  "getVpnInstance dev s = (case vpnInstance s of
       Some k \<Rightarrow> (Inr k, s)
     | None \<Rightarrow>
         (case dev of
            Inl e \<Rightarrow> (Inl e, s)
          | Inr mode \<Rightarrow>
              (if mode = ''openvpn'' then (Inr OpenVpn, s\<lparr>vpnInstance := Some OpenVpn\<rparr>)
               else if mode = ''wireguard'' then (Inr WireGuard, s\<lparr>vpnInstance := Some WireGuard\<rparr>)
               else (Inl (''VPN mode not supported: '' @ mode), s))))"

definition vpn_Restart :: "'w net_env \<Rightarrow> ('w \<Rightarrow> 'w) \<Rightarrow> string + string \<Rightarrow> 'w vpn_state \<Rightarrow> string option \<times> 'w vpn_state" where
  "vpn_Restart E pass dev s =
     (case getVpnInstance dev s of
        (Inl e, s1) \<Rightarrow> (Some e, s1)
      | (Inr k, s1) \<Rightarrow>
          (case vpn_stop E k (machine s1) of
             (Some e, w1) \<Rightarrow> (Some e, s1\<lparr>machine := w1\<rparr>)
           | (None, w1) \<Rightarrow>
               (case vpn_retryStart E k w1 of
                  (Some e, w2) \<Rightarrow> (Some e, s1\<lparr>machine := w2\<rparr>)
                | (None, w2) \<Rightarrow>
                    (case vpn_getIp E pass k w2 of
                       (Inl e, w3) \<Rightarrow> (Some (''Failed to update cluster ip: '' @ e), s1\<lparr>machine := w3\<rparr>)
                     | (Inr ip, w3) \<Rightarrow> (None, s1\<lparr>machine := w3, lastVpnIp := ip\<rparr>)))))"

definition vpn_UpdateConfig :: "'w net_env \<Rightarrow> ('w \<Rightarrow> 'w) \<Rightarrow> string + string \<Rightarrow> string \<Rightarrow> 'w vpn_state \<Rightarrow> string option \<times> 'w vpn_state" where
  "vpn_UpdateConfig E pass dev cfg s =
     (case getVpnInstance dev s of
        (Inl e, s1) \<Rightarrow> (Some e, s1)
      | (Inr k, s1) \<Rightarrow>
          (case vpn_updateConfig E k cfg (machine s1) of
             (Some e, w1) \<Rightarrow> (Some e, s1\<lparr>machine := w1\<rparr>)
           | (None, w1) \<Rightarrow> vpn_Restart E pass dev (s1\<lparr>machine := w1\<rparr>)))"

section \<open>Configuration files\<close>

text \<open>The file is \<open>None\<close> when it cannot be read.\<close>

fun openvpn_lines :: "string list \<Rightarrow> string option" where
  "openvpn_lines [] = None"
| "openvpn_lines (line # lines) =
     (let res = split_char (CHR '' '') line
      in if has_prefix line ''remote'' \<and> length res > 2 then Some (res ! 1) else openvpn_lines lines)"

definition ParseOpenvpnConfig :: "string option \<Rightarrow> string option" where
  "ParseOpenvpnConfig data = (case data of None \<Rightarrow> None | Some t \<Rightarrow> openvpn_lines (split_char (CHR 0x0A) t))"

text \<open>With two fields the third is out of range; the error of \<open>SplitHostPort\<close> ends the search.\<close>

fun wireguard_lines :: "string list \<Rightarrow> string option go" where
  "wireguard_lines [] = Ret None"
| "wireguard_lines (line # lines) =
     (let res = split_char (CHR '' '') line
      in if has_prefix line ''Endpoint'' \<and> length res \<ge> 2 then
           (if length res = 2 then Panic else Ret (map_option fst (SplitHostPort (res ! 2))))
         else wireguard_lines lines)"

definition ParseWireGuardConfig :: "string option \<Rightarrow> string option go" where
  "ParseWireGuardConfig data = (case data of None \<Rightarrow> Ret None | Some t \<Rightarrow> wireguard_lines (split_char (CHR 0x0A) t))"

definition ParseMasterIPFromVpnConfig :: "string + string \<Rightarrow> string option \<Rightarrow> string option \<Rightarrow> string option go" where
  "ParseMasterIPFromVpnConfig dev ovpn wg = (case dev of
       Inl e \<Rightarrow> Ret None
     | Inr mode \<Rightarrow>
         (if mode = ''openvpn'' then Ret (ParseOpenvpnConfig ovpn)
          else if mode = ''wireguard'' then ParseWireGuardConfig wg
          else Ret None))"

section \<open>The best interface\<close>

definition IFaceUp :: "'w net_env \<Rightarrow> string \<Rightarrow> 'w \<Rightarrow> 'w" where
  "IFaceUp E i w = snd (command E [''killall'', ''dhclient''] (snd (command E [''ifup'', ''--force'', i] w)))"

definition GetGWRoute :: "'w net_env \<Rightarrow> string \<Rightarrow> 'w \<Rightarrow> string + route" where
  "GetGWRoute E i w = (case routes E i w of
       Inl e \<Rightarrow> Inl e
     | Inr rs \<Rightarrow> (case find (\<lambda>r. r_Gw r \<noteq> None) rs of Some r \<Rightarrow> Inr r | None \<Rightarrow> Inl (''Gateway route of '' @ i @ '' not found'')))"

definition testIP :: string where
  "testIP = ''114.114.114.114''"

definition testConnect :: "'w net_env \<Rightarrow> string \<Rightarrow> 'w \<Rightarrow> bool \<times> 'w" where
  "testConnect E i w =
     (let (res, w1) = (case GetGWRoute E i w of
            Inr r \<Rightarrow> (Inr r, w)
          | Inl e \<Rightarrow> (let w' = IFaceUp E i w in (GetGWRoute E i w', w')))
      in case res of
           Inl e \<Rightarrow> (False, w1)
         | Inr gw \<Rightarrow>
             (case route_replace E \<lparr>r_Gw = r_Gw gw, r_Dst = Some testIP, r_Priority = 0\<rparr> w1 of
                (Some e, w2) \<Rightarrow> (False, w2)
              | (None, w2) \<Rightarrow>
                  (if ping E testIP w2 then (True, w2)
                   else (let w3 = IFaceUp E i w2 in (ping E testIP w3, w3)))))"

text \<open>\<open>findBestIFace\<close> tries the interfaces in the order of the configuration.\<close>

fun findBestIFace :: "'w net_env \<Rightarrow> string \<Rightarrow> string list \<Rightarrow> 'w \<Rightarrow> string \<times> 'w" where
  "findBestIFace E backup [] w = (backup, w)"
| "findBestIFace E backup (i # is) w =
     (case testConnect E i w of (True, w') \<Rightarrow> (i, w') | (False, w') \<Rightarrow> findBestIFace E backup is w')"

definition SetHighPriority :: "route \<Rightarrow> route" where
  "SetHighPriority r = r\<lparr>r_Priority := 5\<rparr>"

definition ReplcaeRouteMask32 :: "'w net_env \<Rightarrow> route \<Rightarrow> string \<Rightarrow> 'w \<Rightarrow> string option \<times> 'w" where
  "ReplcaeRouteMask32 E r ip w = route_replace E (r\<lparr>r_Dst := Some ip\<rparr>) w"

fun replace_all :: "'w net_env \<Rightarrow> route \<Rightarrow> string list \<Rightarrow> 'w \<Rightarrow> string option \<times> 'w" where
  "replace_all E r [] w = (None, w)"
| "replace_all E r (a # as) w =
     (case ReplcaeRouteMask32 E (SetHighPriority r) a w of
        (Some e, w') \<Rightarrow> (Some e, w')
      | (None, w') \<Rightarrow> replace_all E (SetHighPriority r\<lparr>r_Dst := Some a\<rparr>) as w')"

record 'w iface_state =
  currentIFace :: string
  if_host :: 'w

definition switchDhcpRouter :: "'w net_env \<Rightarrow> string \<Rightarrow> string \<Rightarrow> 'w iface_state \<Rightarrow> string option \<times> 'w iface_state" where
  "switchDhcpRouter E i dhcpServer s =
     (if i = currentIFace s then (None, s)
      else case GetGWRoute E i (if_host s) of
             Inl e \<Rightarrow> (Some e, s)
           | Inr r \<Rightarrow>
               (case lookup_host E dhcpServer (if_host s) of
                  None \<Rightarrow>
                    (case apply_dns E i (if_host s) of
                       (None, w1) \<Rightarrow> (None, s\<lparr>if_host := w1\<rparr>)
                     | (Some e, w1) \<Rightarrow> (case apply_dns E i (IFaceUp E i w1) of (res, w2) \<Rightarrow> (res, s\<lparr>if_host := w2\<rparr>)))
                | Some servers \<Rightarrow>
                    (case replace_all E r servers (if_host s) of
                       (Some e, w1) \<Rightarrow> (Some e, s\<lparr>if_host := w1\<rparr>)
                     | (None, w1) \<Rightarrow> (None, s\<lparr>if_host := w1, currentIFace := i\<rparr>))))"

text \<open>One tick of \<open>MaintainBestIFace\<close>; errors are logged.\<close>

definition iface_tick :: "'w net_env \<Rightarrow> string \<Rightarrow> string list \<Rightarrow> string \<Rightarrow> 'w iface_state \<Rightarrow> 'w iface_state" where
  "iface_tick E backup priority dhcp s =
     (case findBestIFace E backup priority (if_host s) of (i, w) \<Rightarrow> snd (switchDhcpRouter E i dhcp (s\<lparr>if_host := w\<rparr>)))"

section \<open>Properties of the VPN client\<close>

text \<open>The kind of VPN is fixed by the first call that finds one.\<close>

lemma getVpnInstance_fixed:
  "getVpnInstance dev s = (Inr k, s') \<Longrightarrow> getVpnInstance dev' s' = (Inr k, s')"
  by (auto simp: getVpnInstance_def split: option.splits sum.splits if_splits)

text \<open>
  The address that \<open>GetClusterIP\<close> gives changes only when \<open>Restart\<close> succeeds, and is then the first
  address of the VPN's interface.
\<close>

lemma vpn_getIp_Inr: "vpn_getIp E pass k w = (Inr ip, w') \<Longrightarrow> GetMyIP (addresses E w') (vpn_iface k) = Inr ip"
  by (auto simp: vpn_getIp_def split: vpn_kind.splits prod.splits option.splits)

lemma getVpnInstance_ip: "getVpnInstance dev s = (r, s') \<Longrightarrow> lastVpnIp s' = lastVpnIp s"
  by (auto simp: getVpnInstance_def split: option.splits sum.splits if_splits)

theorem Restart_address:
  assumes "vpn_Restart E pass dev s = (res, s')"
  shows "(res \<noteq> None \<longrightarrow> lastVpnIp s' = lastVpnIp s)
    \<and> (res = None \<longrightarrow> (\<exists>k. vpnInstance s' = Some k \<and> GetMyIP (addresses E (machine s')) (vpn_iface k) = Inr (lastVpnIp s')))"
proof (cases "getVpnInstance dev s")
  case (Pair r s1)
  show ?thesis
  proof (cases r)
    case (Inl e)
    with Pair assms getVpnInstance_ip[OF Pair] show ?thesis by (auto simp: vpn_Restart_def)
  next
    case (Inr k)
    have k: "vpnInstance s1 = Some k" using Pair Inr by (auto simp: getVpnInstance_def split: option.splits sum.splits if_splits)
    show ?thesis using assms getVpnInstance_ip[OF Pair] k vpn_getIp_Inr[of E pass k]
      by (auto simp: vpn_Restart_def Pair Inr split: prod.splits option.splits sum.splits)
  qed
qed

text \<open>
  With wireguard an interface that is not up is not brought up: \<open>wg-quick down\<close> fails and \<open>Restart\<close>
  returns before the start.
\<close>

theorem wireguard_down_blocks_start:
  assumes "vpnInstance s = Some WireGuard" "command E [''wg-quick'', ''down'', ''wg0''] (machine s) = (Some e, w)"
  shows "vpn_Restart E pass dev s = (Some e, s\<lparr>machine := w\<rparr>)"
  using assms by (simp add: vpn_Restart_def getVpnInstance_def vpn_stop_def)

section \<open>Properties of the readers\<close>

lemma wireguard_skip: "\<forall>l\<in>set pre. \<not> has_prefix l ''Endpoint'' \<Longrightarrow> wireguard_lines (pre @ ls) = wireguard_lines ls"
  by (induction pre) auto

lemma openvpn_skip: "\<forall>l\<in>set pre. \<not> has_prefix l ''remote'' \<Longrightarrow> openvpn_lines (pre @ ls) = openvpn_lines ls"
  by (induction pre) auto

text \<open>
  The master's address is read back from a configuration of either kind: from the first \<open>Endpoint\<close> line
  of a wireguard file, brackets of an IPv6 address removed, and from the first \<open>remote\<close> line of an
  openvpn file.
\<close>

theorem vpn_config_address:
  assumes "CHR '' '' \<notin> set host \<and> CHR ''['' \<notin> set host \<and> CHR '']'' \<notin> set host \<and> CHR 0x0A \<notin> set host \<and> host \<noteq> []"
    and "CHR '' '' \<notin> set port \<and> CHR '':'' \<notin> set port \<and> CHR ''['' \<notin> set port \<and> CHR '']'' \<notin> set port \<and> CHR 0x0A \<notin> set port"
    and "\<forall>l\<in>set (pre @ post). CHR 0x0A \<notin> set l" "\<forall>l\<in>set pre. \<not> has_prefix l ''Endpoint'' \<and> \<not> has_prefix l ''remote''"
  shows "ParseMasterIPFromVpnConfig (Inr ''wireguard'') ovpn
      (Some (join_with [CHR 0x0A] (pre @ [''Endpoint = '' @ JoinHostPort host port] @ post))) = Ret (Some host)
    \<and> ParseMasterIPFromVpnConfig (Inr ''openvpn'')
      (Some (join_with [CHR 0x0A] (pre @ [''remote '' @ host @ '' '' @ port] @ post))) wg = Ret (Some host)"
proof -
  have j: "CHR '' '' \<notin> set (JoinHostPort host port)" "CHR 0x0A \<notin> set (JoinHostPort host port)"
    using assms(1,2) by (auto simp: JoinHostPort_def)
  have sp: "split_char (CHR '' '') (''Endpoint = '' @ JoinHostPort host port) = [''Endpoint'', ''='', JoinHostPort host port]"
    using split_char_append[of "CHR '' ''" "''Endpoint''" "''= '' @ JoinHostPort host port"]
      split_char_append[of "CHR '' ''" "''=''" "JoinHostPort host port"] split_char_single[OF j(1)]
    by (simp del: split_char.simps)
  have so: "split_char (CHR '' '') (''remote '' @ host @ '' '' @ port) = [''remote'', host, port]"
    using split_char_append[of "CHR '' ''" "''remote''" "host @ '' '' @ port"]
      split_char_append[of "CHR '' ''" host port] split_char_single[of "CHR '' ''" port] assms(1,2)
    by (simp del: split_char.simps)
  have lines: "split_char (CHR 0x0A) (join_with [CHR 0x0A] (pre @ [l] @ post)) = pre @ [l] @ post" if "CHR 0x0A \<notin> set l" for l
    using that assms(3) by (intro split_join_char) auto
  have h: "SplitHostPort (JoinHostPort host port) = Some (host, port)"
    using assms(1,2) by (intro SplitHostPort_Join) auto
  have "wireguard_lines (pre @ [''Endpoint = '' @ JoinHostPort host port] @ post) = Ret (Some host)"
    using wireguard_skip[of pre] assms(4) sp h by (simp add: has_prefix_def Let_def del: split_char.simps)
  moreover have "openvpn_lines (pre @ [''remote '' @ host @ '' '' @ port] @ post) = Some host"
    using openvpn_skip[of pre] assms(4) so by (simp add: has_prefix_def Let_def del: split_char.simps)
  moreover have "CHR 0x0A \<notin> set (''Endpoint = '' @ JoinHostPort host port)" "CHR 0x0A \<notin> set (''remote '' @ host @ '' '' @ port)"
    using j(2) assms(1,2) by auto
  ultimately show ?thesis using lines
    by (simp add: ParseMasterIPFromVpnConfig_def ParseWireGuardConfig_def ParseOpenvpnConfig_def)
qed

text \<open>An \<open>Endpoint\<close> line with one space only makes the reader panic.\<close>

lemma ParseWireGuardConfig_panics: "ParseWireGuardConfig (Some ''Endpoint =1.2.3.4:5'') = Panic"
  by code_simp

section \<open>Properties of the choice\<close>

text \<open>The machine after the interfaces of a list were tried.\<close>

definition tried :: "'w net_env \<Rightarrow> string list \<Rightarrow> 'w \<Rightarrow> 'w" where
  "tried E is w = foldl (\<lambda>w i. snd (testConnect E i w)) w is"

text \<open>
  The interface that is chosen is the first of the configuration that reaches the test address, the
  ones before it having failed; the backup is chosen when all fail.
\<close>

theorem findBestIFace_first:
  assumes "findBestIFace E backup priority w = (i, w')"
  shows "(\<exists>pre post. priority = pre @ i # post \<and> testConnect E i (tried E pre w) = (True, w')
      \<and> (\<forall>n<length pre. \<not> fst (testConnect E (pre ! n) (tried E (take n pre) w))))
    \<or> i = backup \<and> w' = tried E priority w \<and> (\<forall>n<length priority. \<not> fst (testConnect E (priority ! n) (tried E (take n priority) w)))"
  using assms
proof (induction priority arbitrary: w)
  case (Cons j js)
  obtain b w1 where t: "testConnect E j w = (b, w1)" by (cases "testConnect E j w")
  show ?case
  proof (cases b)
    case True
    with t Cons.prems have "j # js = [] @ i # js \<and> testConnect E i (tried E [] w) = (True, w')" by (simp add: tried_def)
    then show ?thesis by fastforce
  next
    case False
    with t Cons.prems have "findBestIFace E backup js w1 = (i, w')" by simp
    from Cons.IH[OF this] show ?thesis
    proof (elim disjE exE conjE)
      fix pre post
      assume h: "js = pre @ i # post" "testConnect E i (tried E pre w1) = (True, w')"
        "\<forall>n<length pre. \<not> fst (testConnect E (pre ! n) (tried E (take n pre) w1))"
      have "\<not> fst (testConnect E ((j # pre) ! n) (tried E (take n (j # pre)) w))" if "n < length (j # pre)" for n
        using that h(3) t False by (cases n) (auto simp: tried_def)
      with h t False show ?thesis
        by (intro disjI1 exI[of _ "j # pre"] exI[of _ post]) (auto simp: tried_def)
    next
      assume h: "i = backup" "w' = tried E js w1" "\<forall>n<length js. \<not> fst (testConnect E (js ! n) (tried E (take n js) w1))"
      have "\<not> fst (testConnect E ((j # js) ! n) (tried E (take n (j # js)) w))" if "n < length (j # js)" for n
        using that h(3) t False by (cases n) (auto simp: tried_def)
      with h t show ?thesis by (auto simp: tried_def)
    qed
  qed
qed (simp add: tried_def)

text \<open>
  When the DHCP server's name cannot be resolved but the interface's name servers can be applied, the
  switch is reported as done and the current interface stays.
\<close>

lemma switch_without_dns:
  "i \<noteq> currentIFace s \<Longrightarrow> GetGWRoute E i (if_host s) = Inr r \<Longrightarrow> lookup_host E d (if_host s) = None \<Longrightarrow>
   apply_dns E i (if_host s) = (None, w) \<Longrightarrow> switchDhcpRouter E i d s = (None, s\<lparr>if_host := w\<rparr>)"
  by (simp add: switchDhcpRouter_def)

section \<open>Witnesses\<close>

theorem vpn_config_address_witness:
  "ParseMasterIPFromVpnConfig (Inr ''wireguard'') None (Some (join_with [CHR 0x0A] [''[Peer]'', ''Endpoint = 152.136.212.176:52000'', ''AllowedIPs = x'']))
     = Ret (Some ''152.136.212.176'')"
proof -
  have j: "JoinHostPort ''152.136.212.176'' ''52000'' = ''152.136.212.176:52000''" by code_simp
  show ?thesis
    using vpn_config_address[of "''152.136.212.176''" "''52000''" "[''[Peer]'']" "[''AllowedIPs = x'']" None None]
    unfolding j by (simp add: has_prefix_def)
qed

end
