(* ===== verification/MasterLink.thy ===== *)
theory MasterLink
  imports Registration DnsFiles Vpn
begin

text \<open>
  The connection to the master, \<open>core/register/register.go\<close> and \<open>side_effect.go\<close>, which puts the parts of the
  network together: the device is registered (\<open>Registration\<close>), the VPN gets the configuration of the
  answer and is restarted (\<open>Vpn\<close>), the address of the master goes to the hosts file (\<open>DnsFiles\<close>), the other
  services get theirs from templates (\<open>internal/config/template.go\<close>), and the heartbeat is reported until it fails.
\<close>

section \<open>State\<close>

text \<open>
  What the loop does that is visible outside: the callback of the first connection and the addresses
  the heartbeat was reported to. \<open>lk_dev\<close> is the cache of \<open>device.GetDevice\<close>.
\<close>

datatype link_act = FirstConnect | Report string

record 'w link_state =
  lk_dev :: "Device option"
  lk_vpn :: "'w vpn_state"
  lk_iface :: string
  lk_files :: fsys
  lk_acts :: "link_act list"

text \<open>
  The libraries: \<open>le_yaml\<close> decodes the device's file, whose content is \<open>le_init\<close>; \<open>le_marshal\<close> and \<open>le_consul\<close> encode the
  request and the configuration of consul; \<open>le_vpnfiles\<close> reads the configuration files of the VPN
  (\<open>client.ovpn\<close>, \<open>wg0.conf\<close>); \<open>le_render\<close> is a template, \<open>None\<close> when it cannot be parsed. \<open>le_public\<close> is
  \<open>HeartBeatThroughPublic\<close>.
\<close>

record consulConfig =
  cc_Server :: bool
  cc_ClientAddr :: string
  cc_AdvertiseAddrWan :: string
  cc_BootstrapExpect :: int
  cc_Datacenter :: string
  cc_NodeName :: string
  cc_RetryJoinWan :: "string list"
  cc_UI :: bool

record 'w link_env =
  le_net :: "'w net_env"
  le_yaml :: "string \<Rightarrow> Device option \<times> string option"
  le_init :: string
  le_marshal :: "reqRegister \<Rightarrow> byte list"
  le_consul :: "consulConfig \<Rightarrow> string"
  le_vpnfiles :: "'w \<Rightarrow> string option \<times> string option"
  le_render :: "string \<Rightarrow> (string \<times> string) list \<Rightarrow> string option"
  le_version :: string
  le_public :: bool

text \<open>A tick of the search: the time, the server's answer, and what happens to the machine between two attempts.\<close>

record 'w link_tick =
  tk_now :: int
  tk_post :: "string \<Rightarrow> string \<Rightarrow> http_answer"
  tk_pass :: "'w \<Rightarrow> 'w"

section \<open>Finding the master\<close>

definition link_device :: "'w link_env \<Rightarrow> 'w link_state \<Rightarrow> (Device \<times> string option) \<times> 'w link_state" where
  "link_device L s =
     (let d = GetDevice (le_yaml L) (le_init L) (lk_dev s) in (d, s\<lparr>lk_dev := Some (fst d)\<rparr>))"

text \<open>The mode of the device, or the error of reading it, as the VPN package asks for it.\<close>

definition dev_mode :: "Device \<times> string option \<Rightarrow> string + string" where
  "dev_mode d = (case snd d of None \<Rightarrow> Inr (dv_Vpn (fst d)) | Some e \<Rightarrow> Inl e)"

definition bytes_text :: "byte list \<Rightarrow> string" where
  "bytes_text bs = map (\<lambda>b. char_of (unat b)) bs"

text \<open>What is done with the answer of the registration; \<open>None\<close> is an error, which the caller only logs.\<close>

definition apply_registration :: "'w link_env \<Rightarrow> 'w link_tick \<Rightarrow> Device \<Rightarrow> string \<Rightarrow> byte list \<Rightarrow> 'w link_state \<Rightarrow> string option \<times> 'w link_state" where
  "apply_registration L t dev masterip vpnConfig s =
     (case vpn_UpdateConfig (le_net L) (tk_pass t) (dev_mode (dev, None)) (bytes_text vpnConfig) (lk_vpn s) of
        (Some e, v) \<Rightarrow> (None, s\<lparr>lk_vpn := v\<rparr>)
      | (None, v) \<Rightarrow>
          (case SaveMasterIPToHostFile masterip (lk_files s) of
             (Some e, fs) \<Rightarrow> (None, s\<lparr>lk_vpn := v, lk_files := fs\<rparr>)
           | (None, fs) \<Rightarrow> (Some masterip, s\<lparr>lk_vpn := v, lk_files := fs\<rparr>)))"

definition findMasterFromDHCPServer :: "'w link_env \<Rightarrow> 'w link_tick \<Rightarrow> 'w link_state \<Rightarrow> (string option \<times> 'w link_state) go" where
  "findMasterFromDHCPServer L t s =
     (case link_device L s of
        ((dev, Some e), s1) \<Rightarrow> Ret (None, s1)
      | ((dev, None), s1) \<Rightarrow>
          bindg (register (le_marshal L) (tk_post t) (tk_now t) (le_version L) dev) (\<lambda>r. Ret (case r of
            Inl e \<Rightarrow> (None, s1)
          | Inr (masterip, vpnConfig) \<Rightarrow> apply_registration L t dev masterip vpnConfig s1)))"

definition link_public_ip :: "'w link_env \<Rightarrow> 'w link_state \<Rightarrow> (string option \<times> 'w link_state) go" where
  "link_public_ip L s =
     (let (d, s1) = link_device L s; (ovpn, wg) = le_vpnfiles L (machine (lk_vpn s1))
      in bindg (ParseMasterIPFromVpnConfig (dev_mode d) ovpn wg) (\<lambda>r. Ret (r, s1)))"

text \<open>The search: one attempt at a tick, until the ticks end because the context is done.\<close>

fun retryfindMaster :: "'w link_env \<Rightarrow> 'w link_tick list \<Rightarrow> 'w link_state \<Rightarrow> ((string \<times> string) \<times> 'w link_state) go" where
  "retryfindMaster L [] s = Ret (([], []), s)"
| "retryfindMaster L (t # ts) s =
     bindg (findMasterFromDHCPServer L t s) (\<lambda>(r, s1). case r of
       None \<Rightarrow> retryfindMaster L ts s1
     | Some masterVpnIp \<Rightarrow>
         bindg (link_public_ip L s1) (\<lambda>(p, s2). case p of
           None \<Rightarrow> retryfindMaster L ts s2
         | Some masterIP \<Rightarrow> Ret ((masterIP, masterVpnIp), s2)))"

section \<open>The configuration of the other services\<close>

definition consulConfigPath :: string where "consulConfigPath = ''/data/edgex/consul/config/consul_conf.json''"
definition telegrafTmplPath :: string where "telegrafTmplPath = ''/edge/edge-guard/template/telegraf.cfg.tpl''"
definition telegrafConfPath :: string where "telegrafConfPath = ''/edge/monitor/telegraf/bin/telegraf.cfg''"
definition statsiteTmplPath :: string where "statsiteTmplPath = ''/edge/edge-guard/template/influxdb.ini.tpl''"
definition statsiteConfPath :: string where "statsiteConfPath = ''/edge/monitor/device-statsite/conf/influxdb.ini''"
definition cadvisorTmplPath :: string where "cadvisorTmplPath = ''/edge/edge-guard/template/cadvisor.yaml.tpl''"
definition cadvisorConfPath :: string where "cadvisorConfPath = ''/jxbootstrap/worker/docker-compose.d/cadvisor/docker-compose.yaml''"

definition putConfig :: "'w link_env \<Rightarrow> string \<Rightarrow> string \<Rightarrow> (string \<times> string) list \<Rightarrow> fsys \<Rightarrow> fsys" where
  "putConfig L tmplPath targetPath sweaters fs =
     (case ReadFile tmplPath fs of
        Inl e \<Rightarrow> fs
      | Inr tmpl \<Rightarrow> (case le_render L tmpl sweaters of None \<Rightarrow> fs | Some t \<Rightarrow> snd (WriteFile targetPath t fs)))"

definition Telegrafcfg :: "'w link_env \<Rightarrow> string \<Rightarrow> string \<Rightarrow> fsys \<Rightarrow> fsys" where
  "Telegrafcfg L masterip workerid = putConfig L telegrafTmplPath telegrafConfPath [(''WORKER_ID'', workerid), (''MASTER_IP'', masterip)]"

definition Statsitecfg :: "'w link_env \<Rightarrow> string \<Rightarrow> string \<Rightarrow> fsys \<Rightarrow> fsys" where
  "Statsitecfg L masterip vpnIP = putConfig L statsiteTmplPath statsiteConfPath [(''MASTER_IP'', masterip), (''VpnIP'', vpnIP)]"

definition Cadvisorcfg :: "'w link_env \<Rightarrow> string \<Rightarrow> string \<Rightarrow> fsys \<Rightarrow> fsys" where
  "Cadvisorcfg L masterip workerid = putConfig L cadvisorTmplPath cadvisorConfPath [(''MASTER_IP'', masterip), (''WORKER_ID'', workerid)]"

definition TimdsyncdCfg :: "'w link_env \<Rightarrow> string \<Rightarrow> fsys \<Rightarrow> fsys" where
  "TimdsyncdCfg L serverAddr = putConfig L ''/edge/edge-guard/template/timesyncd.conf.tpl'' ''/etc/systemd/timesyncd.conf''
     [(''SERVER_ADDR'', serverAddr)]"

definition consul_config :: "string \<Rightarrow> Device \<Rightarrow> consulConfig" where
  "consul_config vpnIp dev = \<lparr>cc_Server = True, cc_ClientAddr = ''0.0.0.0'', cc_AdvertiseAddrWan = vpnIp,
     cc_BootstrapExpect = 1, cc_Datacenter = ''worker-'' @ dv_WorkerID dev,
     cc_NodeName = ''worker-'' @ dv_WorkerID dev, cc_RetryJoinWan = [MasterHostName], cc_UI = True\<rparr>"

definition updateConsulConfig :: "'w link_env \<Rightarrow> string \<Rightarrow> Device \<Rightarrow> fsys \<Rightarrow> fsys" where
  "updateConsulConfig L vpnIp dev fs =
     (case WriteFile consulConfigPath (le_consul L (consul_config vpnIp dev)) fs of
        (None, fs1) \<Rightarrow> run_cmd ''docker restart edgex-core-consul'' fs1
      | (Some e, fs1) \<Rightarrow> fs1)"

definition compose_restart :: "string \<Rightarrow> string" where
  "compose_restart f = ''docker-compose -f '' @ f @ '' down && docker-compose -f '' @ f @ '' up -d''"

definition updateTelegrafConfig :: "'w link_env \<Rightarrow> string \<Rightarrow> Device \<Rightarrow> string \<Rightarrow> fsys \<Rightarrow> fsys" where
  "updateTelegrafConfig L vpnIp dev masterip fs =
     (let fs1 = Telegrafcfg L masterip (dv_WorkerID dev) fs;
          fs2 = Cadvisorcfg L masterip (dv_WorkerID dev) fs1;
          fs3 = (if vpnIp \<noteq> [] then Statsitecfg L masterip vpnIp fs2 else fs2)
      in run_cmd (compose_restart ''/jxbootstrap/worker/docker-compose.d/statsite/docker-compose.yml'')
           (run_cmd (compose_restart cadvisorConfPath) fs3))"

definition onMasterIPChanged :: "'w link_env \<Rightarrow> string \<Rightarrow> 'w link_state \<Rightarrow> 'w link_state" where
  "onMasterIPChanged L masterip s =
     (let ((dev, err), s1) = link_device L s; ip = lastVpnIp (lk_vpn s1)
      in s1\<lparr>lk_files := updateTelegrafConfig L ip dev masterip (updateConsulConfig L ip dev (lk_files s1))\<rparr>)"

section \<open>The loop\<close>

definition link_do :: "link_act \<Rightarrow> 'w link_state \<Rightarrow> 'w link_state" where
  "link_do a s = s\<lparr>lk_acts := lk_acts s @ [a]\<rparr>"

text \<open>The address of the heartbeat and the route to it; \<open>None\<close> is a \<open>continue\<close> of the loop.\<close>

definition heartbeat_target :: "'w link_env \<Rightarrow> string \<Rightarrow> string \<Rightarrow> 'w link_state \<Rightarrow> string option \<times> 'w link_state" where
  "heartbeat_target L masterPublicIP masterVpnIP s =
     (if \<not> le_public L then (Some masterVpnIP, s)
      else let w = machine (lk_vpn s) in
           case GetGWRoute (le_net L) (lk_iface s) w of
             Inl e \<Rightarrow> (None, s)
           | Inr route \<Rightarrow>
               (case ReplcaeRouteMask32 (le_net L) (SetHighPriority route) masterPublicIP w of
                  (Some e, w1) \<Rightarrow> (None, s\<lparr>lk_vpn := (lk_vpn s)\<lparr>machine := w1\<rparr>\<rparr>)
                | (None, w1) \<Rightarrow> (Some masterPublicIP, s\<lparr>lk_vpn := (lk_vpn s)\<lparr>machine := w1\<rparr>\<rparr>)))"

text \<open>What follows the search: \<open>AliveReport\<close> returns when the heartbeat fails; its error goes to the logs only, which are left out.\<close>

definition link_connected :: "'w link_env \<Rightarrow> bool \<Rightarrow> string \<times> string \<Rightarrow> 'w link_state \<Rightarrow> 'w link_state" where
  "link_connected L once ips s =
     (let s1 = (if \<not> once then link_do FirstConnect s else s)
      in case heartbeat_target L (fst ips) (snd ips) s1 of
           (None, s2) \<Rightarrow> s2
         | (Some ip, s2) \<Rightarrow> link_do (Report ip) (onMasterIPChanged L ip s2))"

text \<open>
  The rounds of the loop, each with the ticks of its search; the context is done when there is no
  further round, and a search whose ticks end has found it done.
\<close>

fun maintain_rounds :: "'w link_env \<Rightarrow> bool \<Rightarrow> 'w link_tick list list \<Rightarrow> 'w link_state \<Rightarrow> 'w link_state go" where
  "maintain_rounds L once [] s = Ret s"
| "maintain_rounds L once (ts # rounds) s =
     bindg (retryfindMaster L ts s) (\<lambda>(ips, s1). maintain_rounds L True rounds (link_connected L once ips s1))"

definition MaintainMasterConnection :: "'w link_env \<Rightarrow> 'w link_tick list list \<Rightarrow> 'w link_state \<Rightarrow> 'w link_state go" where
  "MaintainMasterConnection L rounds s = maintain_rounds L False rounds s"

section \<open>The callback of the first connection\<close>

lemma link_device_simps:
  "link_device L s = (d, s') \<Longrightarrow> lk_acts s' = lk_acts s \<and> lk_files s' = lk_files s \<and> lk_vpn s' = lk_vpn s
     \<and> lk_iface s' = lk_iface s \<and> lk_dev s' = Some (fst d)"
  by (auto simp: link_device_def Let_def)

lemma apply_registration_acts: "lk_acts (snd (apply_registration L t dev ip cfg s)) = lk_acts s"
  by (simp add: apply_registration_def split: prod.splits option.splits)

lemma findMaster_cases:
  assumes "findMasterFromDHCPServer L t s = Ret (r, s')"
  obtains dev err s1 where "link_device L s = ((dev, err), s1)" "r = None" "s' = s1"
  | dev s1 ip cfg where "link_device L s = ((dev, None), s1)" "apply_registration L t dev ip cfg s1 = (r, s')"
proof -
  obtain dev err s1 where d: "link_device L s = ((dev, err), s1)" by (metis surj_pair)
  show ?thesis
  proof (cases err)
    case (Some e)
    then show ?thesis using that(1)[OF d] assms d by (simp add: findMasterFromDHCPServer_def)
  next
    case None
    then have "\<exists>x :: string + string \<times> byte list. (case x of Inl e \<Rightarrow> (None, s1) | Inr (ip, cfg) \<Rightarrow> apply_registration L t dev ip cfg s1) = (r, s')"
      using assms d by (auto simp: findMasterFromDHCPServer_def bindg_eq_Ret)
    then obtain x :: "string + string \<times> byte list" where x: "(r, s') = (case x of Inl e \<Rightarrow> (None, s1) | Inr (ip, cfg) \<Rightarrow> apply_registration L t dev ip cfg s1)"
      by metis
    show ?thesis
    proof (cases x)
      case (Inl e)
      then show ?thesis using that(1)[OF d] x by simp
    next
      case (Inr y)
      then show ?thesis using that(2)[of dev s1 "fst y" "snd y"] x d None by (simp add: case_prod_beta)
    qed
  qed
qed

lemma findMaster_acts: "findMasterFromDHCPServer L t s = Ret (r, s') \<Longrightarrow> lk_acts s' = lk_acts s"
  by (erule findMaster_cases)
    (auto dest!: link_device_simps, metis apply_registration_acts snd_conv)

lemma public_ip_keeps:
  "link_public_ip L s = Ret (r, s') \<Longrightarrow> lk_acts s' = lk_acts s \<and> lk_files s' = lk_files s \<and> lk_vpn s' = lk_vpn s"
  by (auto simp: link_public_ip_def Let_def bindg_eq_Ret split: prod.splits dest!: link_device_simps)

lemma retry_acts: "retryfindMaster L ts s = Ret (ips, s') \<Longrightarrow> lk_acts s' = lk_acts s"
proof (induction ts arbitrary: s)
  case (Cons t ts)
  then show ?case
    by (auto simp: bindg_eq_Ret split: prod.splits option.splits dest!: findMaster_acts public_ip_keeps)
qed simp

lemma changed_acts [simp]: "lk_acts (onMasterIPChanged L ip s) = lk_acts s"
  by (auto simp: onMasterIPChanged_def Let_def split: prod.splits dest!: link_device_simps)

lemma target_acts: "heartbeat_target L a b s = (r, s') \<Longrightarrow> lk_acts s' = lk_acts s \<and> lk_files s' = lk_files s \<and> lk_dev s' = lk_dev s
    \<and> lastVpnIp (lk_vpn s') = lastVpnIp (lk_vpn s)"
  by (auto simp: heartbeat_target_def Let_def split: if_splits sum.splits prod.splits option.splits)

lemma connected_acts:
  "\<exists>rs. lk_acts (link_connected L once ips s) = lk_acts s @ (if once then [] else [FirstConnect]) @ rs \<and> FirstConnect \<notin> set rs"
  by (auto simp: link_connected_def link_do_def Let_def split: prod.splits option.splits dest!: target_acts)

lemma rounds_acts:
  "maintain_rounds L once rounds s = Ret s'
    \<Longrightarrow> \<exists>rs. lk_acts s' = lk_acts s @ (if once \<or> rounds = [] then [] else [FirstConnect]) @ rs \<and> FirstConnect \<notin> set rs"
proof (induction rounds arbitrary: once s)
  case (Cons ts rounds)
  then obtain ips s1 where r: "retryfindMaster L ts s = Ret (ips, s1)"
      "maintain_rounds L True rounds (link_connected L once ips s1) = Ret s'"
    by (auto simp: bindg_eq_Ret)
  obtain as where "lk_acts (link_connected L once ips s1) = lk_acts s1 @ (if once then [] else [FirstConnect]) @ as" "FirstConnect \<notin> set as"
    using connected_acts by blast
  with Cons.IH[OF r(2)] retry_acts[OF r(1)] show ?case by force
qed simp

text \<open>
  The callback runs exactly once, before the first report, however often the connection is lost and
  found again.
\<close>

theorem first_connect_once:
  assumes "MaintainMasterConnection L rounds s = Ret s'" "rounds \<noteq> []"
  shows "\<exists>rs. lk_acts s' = lk_acts s @ [FirstConnect] @ rs \<and> FirstConnect \<notin> set rs"
  using rounds_acts[of L False rounds s s'] assms by (simp add: MaintainMasterConnection_def)

text \<open>
  It also runs when the context ends before any master was found, and then the empty address is
  written to the configurations and the heartbeat is reported to it.
\<close>

theorem cancelled_search_reports:
  assumes "\<not> le_public L"
  shows "MaintainMasterConnection L [[]] s = Ret (link_do (Report []) (onMasterIPChanged L [] (link_do FirstConnect s)))"
  using assms by (simp add: MaintainMasterConnection_def link_connected_def heartbeat_target_def Let_def)

section \<open>A round that finds the master\<close>

lemma WriteFile_other: "p \<noteq> q \<Longrightarrow> map_of (files (snd (WriteFile q t fs))) p = map_of (files fs) p"
  "unreadable (snd (WriteFile q t fs)) = unreadable fs"
  by (simp_all add: WriteFile_def)

lemma putConfig_other:
  "p \<noteq> target \<Longrightarrow> map_of (files (putConfig L tmpl target sw fs)) p = map_of (files fs) p"
  "unreadable (putConfig L tmpl target sw fs) = unreadable fs"
  by (simp_all add: putConfig_def WriteFile_other split: sum.splits option.splits)

lemma run_cmd_simps [simp]: "files (run_cmd c fs) = files fs" "unreadable (run_cmd c fs) = unreadable fs"
  by (simp_all add: run_cmd_def)

lemma paths_apart:
  "DnsmasqHostFile \<notin> {consulConfigPath, telegrafConfPath, statsiteConfPath, cadvisorConfPath}"
  "consulConfigPath \<notin> {telegrafConfPath, statsiteConfPath, cadvisorConfPath}"
  by code_simp+

lemma telegraf_other:
  "p \<notin> {telegrafConfPath, statsiteConfPath, cadvisorConfPath}
     \<Longrightarrow> map_of (files (updateTelegrafConfig L v dev ip fs)) p = map_of (files fs) p"
  "unreadable (updateTelegrafConfig L v dev ip fs) = unreadable fs"
  by (simp_all add: updateTelegrafConfig_def Let_def Telegrafcfg_def Statsitecfg_def Cadvisorcfg_def putConfig_other)

lemma consul_other:
  "p \<noteq> consulConfigPath \<Longrightarrow> map_of (files (updateConsulConfig L v dev fs)) p = map_of (files fs) p"
  "unreadable (updateConsulConfig L v dev fs) = unreadable fs"
  by (simp_all add: updateConsulConfig_def WriteFile_def)

lemma changed_hosts: "LoadMasterFromHostFile (lk_files (onMasterIPChanged L ip s)) = LoadMasterFromHostFile (lk_files s)"
proof -
  obtain d s1 where d: "link_device L s = (d, s1)" "lk_files s1 = lk_files s"
    using link_device_simps by (cases "link_device L s") blast
  have "map_of (files (lk_files (onMasterIPChanged L ip s))) DnsmasqHostFile = map_of (files (lk_files s)) DnsmasqHostFile"
    "unreadable (lk_files (onMasterIPChanged L ip s)) = unreadable (lk_files s)"
    using d paths_apart(1)
    by (auto simp: onMasterIPChanged_def Let_def telegraf_other consul_other split: prod.splits)
  then show ?thesis by (simp add: LoadMasterFromHostFile_def ReadFile_def)
qed

text \<open>The configuration of consul that the change of the master leaves.\<close>

lemma changed_consul:
  assumes "lk_dev s = Some dev" "consulConfigPath \<notin> set (unwritable (lk_files s))"
  shows "map_of (files (lk_files (onMasterIPChanged L ip s))) consulConfigPath
    = Some (le_consul L (consul_config (lastVpnIp (lk_vpn s)) dev))"
proof -
  have "link_device L s = ((dev, None), s\<lparr>lk_dev := Some dev\<rparr>)" using assms(1) by (simp add: link_device_def GetDevice_def)
  then show ?thesis using assms(2) paths_apart(2)
    by (simp add: onMasterIPChanged_def Let_def telegraf_other updateConsulConfig_def WriteFile_def)
qed

text \<open>
  The VPN is set up with a configuration: it was unpacked into the directory of the VPN's kind, then the VPN was stopped
  and started, and the address of the cluster is what was then asked of its interface.
\<close>

definition set_up_with :: "'w net_env \<Rightarrow> ('w \<Rightarrow> 'w) \<Rightarrow> string \<Rightarrow> 'w vpn_state \<Rightarrow> 'w vpn_state \<Rightarrow> bool" where
  "set_up_with E pass cfg v v' \<longleftrightarrow> (\<exists>k w1 w2 w3. vpnInstance v' = Some k
     \<and> unzip E cfg (if k = OpenVpn then ''/etc/openvpn/'' else ''/etc/wireguard/'') (machine v) = (None, w1)
     \<and> vpn_stop E k w1 = (None, w2) \<and> vpn_retryStart E k w2 = (None, w3)
     \<and> vpn_getIp E pass k w3 = (Inr (lastVpnIp v'), machine v'))"

lemma getVpnInstance_Inr:
  "getVpnInstance dev v = (Inr k, v1) \<Longrightarrow> vpnInstance v1 = Some k \<and> machine v1 = machine v"
  by (auto simp: getVpnInstance_def split: option.splits sum.splits if_splits)

lemma UpdateConfig_sets_up:
  assumes "vpn_UpdateConfig E pass dev cfg v = (None, v')"
  shows "set_up_with E pass cfg v v'"
proof -
  obtain k v1 w1 where k: "getVpnInstance dev v = (Inr k, v1)" "vpn_updateConfig E k cfg (machine v1) = (None, w1)"
      "vpn_Restart E pass dev (v1\<lparr>machine := w1\<rparr>) = (None, v')"
    using assms by (auto simp: vpn_UpdateConfig_def split: prod.splits sum.splits option.splits)
  have i: "vpnInstance v1 = Some k" "machine v1 = machine v" using getVpnInstance_Inr[OF k(1)] by simp_all
  then have g: "getVpnInstance dev (v1\<lparr>machine := w1\<rparr>) = (Inr k, v1\<lparr>machine := w1\<rparr>)" by (simp add: getVpnInstance_def)
  obtain w2 w3 where "vpn_stop E k w1 = (None, w2)" "vpn_retryStart E k w2 = (None, w3)"
      "vpn_getIp E pass k w3 = (Inr (lastVpnIp v'), machine v')" "vpnInstance v' = Some k"
    using k(3) i(1) by (auto simp: vpn_Restart_def g split: prod.splits sum.splits option.splits)
  moreover have "unzip E cfg (if k = OpenVpn then ''/etc/openvpn/'' else ''/etc/wireguard/'') (machine v) = (None, w1)"
    using k(2) i(2) by (cases k) (simp_all add: vpn_updateConfig_def)
  ultimately show ?thesis unfolding set_up_with_def by blast
qed

text \<open>A search that gives a master has it from the registration of one of its ticks, whose VPN configuration it has set up.\<close>

definition registered_at :: "'w link_env \<Rightarrow> 'w link_tick \<Rightarrow> Device \<Rightarrow> string \<Rightarrow> 'w vpn_state \<Rightarrow> bool" where
  "registered_at L t dev vip v \<longleftrightarrow>
     (\<exists>cfg v0. register (le_marshal L) (tk_post t) (tk_now t) (le_version L) dev = Ret (Inr (vip, cfg))
        \<and> set_up_with (le_net L) (tk_pass t) (bytes_text cfg) v0 v)"

lemma findMaster_found:
  assumes "findMasterFromDHCPServer L t s = Ret (Some ip, s')"
  shows "\<exists>dev fs. registered_at L t dev ip (lk_vpn s') \<and> lk_dev s' = Some dev \<and> SaveMasterIPToHostFile ip fs = (None, lk_files s')"
proof -
  obtain dev s1 where d: "link_device L s = ((dev, None), s1)"
    using assms by (auto simp: findMasterFromDHCPServer_def split: prod.splits option.splits)
  then obtain r where r: "register (le_marshal L) (tk_post t) (tk_now t) (le_version L) dev = Ret r"
      "(case r of Inl e \<Rightarrow> (None, s1) | Inr (m, cfg) \<Rightarrow> apply_registration L t dev m cfg s1) = (Some ip, s')"
    using assms by (auto simp: findMasterFromDHCPServer_def bindg_eq_Ret)
  then obtain m cfg where m: "r = Inr (m, cfg)" "apply_registration L t dev m cfg s1 = (Some ip, s')"
    by (cases r) auto
  then obtain v fs where c: "vpn_UpdateConfig (le_net L) (tk_pass t) (dev_mode (dev, None)) (bytes_text cfg) (lk_vpn s1) = (None, v)"
      "SaveMasterIPToHostFile ip (lk_files s1) = (None, fs)" "s' = s1\<lparr>lk_vpn := v, lk_files := fs\<rparr>" "m = ip"
    by (auto simp: apply_registration_def split: prod.splits option.splits)
  show ?thesis using r(1) m(1) UpdateConfig_sets_up[OF c(1)] c(2-4) link_device_simps[OF d]
    by (fastforce simp: registered_at_def)
qed

lemma public_ip_dev: "link_public_ip L s = Ret (r, s') \<Longrightarrow> lk_dev s = Some dev \<Longrightarrow> lk_dev s' = Some dev"
  by (auto simp: link_public_ip_def link_device_def GetDevice_def Let_def bindg_eq_Ret split: prod.splits)

lemma retry_found:
  "retryfindMaster L ts s = Ret ((ip, vip), s') \<Longrightarrow> vip \<noteq> []
    \<Longrightarrow> \<exists>t\<in>set ts. \<exists>dev fs. registered_at L t dev vip (lk_vpn s') \<and> lk_dev s' = Some dev
          \<and> SaveMasterIPToHostFile vip fs = (None, lk_files s')"
proof (induction ts arbitrary: s)
  case (Cons t ts)
  obtain r s1 where f: "findMasterFromDHCPServer L t s = Ret (r, s1)" using Cons.prems(1) by (auto simp: bindg_eq_Ret)
  show ?case
  proof (cases r)
    case None
    then show ?thesis using Cons f by simp
  next
    case (Some v)
    then obtain p s2 where p: "link_public_ip L s1 = Ret (p, s2)" using Cons.prems(1) f by (auto simp: bindg_eq_Ret)
    show ?thesis
    proof (cases p)
      case None
      then show ?thesis using Cons Some f p by simp
    next
      case (Some m)
      then have "v = vip" "s2 = s'" using Cons.prems(1) \<open>r = Some v\<close> f p by simp_all
      moreover obtain dev fs where "registered_at L t dev v (lk_vpn s1)" "lk_dev s1 = Some dev"
          "SaveMasterIPToHostFile v fs = (None, lk_files s1)"
        using findMaster_found[of L t s v s1] f \<open>r = Some v\<close> by blast
      ultimately show ?thesis using public_ip_keeps[OF p] public_ip_dev[OF p] by auto
    qed
  qed
qed simp

text \<open>C23. A round of the loop whose search finds a master at an address, when the heartbeat does not go through the
  public network (\<open>HeartBeatThroughPublic\<close> is off) and consul's file can be written: the address is the one that
  the registration at a tick of the search answered, the configuration of this answer was unpacked into the
  directory of the device's VPN, which was then restarted and gave its address; the heartbeat is reported to
  the address of the master, and at the report the hosts file names the same master and consul is configured
  with the address of the VPN.
\<close>

theorem round_reports_registered_master:
  assumes "retryfindMaster L ts s = Ret ((ip, vip), s1)" "set vip \<subseteq> set ip_chars" "vip \<noteq> []" "\<not> le_public L"
    and "consulConfigPath \<notin> set (unwritable (lk_files s1))"
  shows "\<exists>s2 dev cfg v0. \<exists>t\<in>set ts. maintain_rounds L once [ts] s = Ret s2 \<and> last (lk_acts s2) = Report vip
    \<and> register (le_marshal L) (tk_post t) (tk_now t) (le_version L) dev = Ret (Inr (vip, cfg))
    \<and> set_up_with (le_net L) (tk_pass t) (bytes_text cfg) v0 (lk_vpn s2)
    \<and> LoadMasterFromHostFile (lk_files s2) = Inr vip
    \<and> map_of (files (lk_files s2)) consulConfigPath = Some (le_consul L (consul_config (lastVpnIp (lk_vpn s2)) dev))"
proof -
  obtain t dev fs where f: "t \<in> set ts" "registered_at L t dev vip (lk_vpn s1)" "lk_dev s1 = Some dev"
      "SaveMasterIPToHostFile vip fs = (None, lk_files s1)"
    using retry_found[OF assms(1,3)] by blast
  define s0 where "s0 = (if once then s1 else link_do FirstConnect s1)"
  have s0: "lk_vpn s0 = lk_vpn s1" "lk_files s0 = lk_files s1" "lk_dev s0 = Some dev" using f(3) by (simp_all add: s0_def link_do_def)
  define s2 where "s2 = link_do (Report vip) (onMasterIPChanged L vip s0)"
  have run: "maintain_rounds L once [ts] s = Ret s2" using assms(1,4)
    by (simp add: link_connected_def heartbeat_target_def Let_def s2_def s0_def)
  have vpn: "lk_vpn s2 = lk_vpn s1"
    using s0 by (auto simp: s2_def link_do_def onMasterIPChanged_def Let_def split: prod.splits dest!: link_device_simps)
  have "LoadMasterFromHostFile (lk_files s2) = Inr vip"
    using changed_hosts[of L vip s0] SaveMaster_loads[OF f(4) assms(2,3)] s0(2) by (simp add: s2_def link_do_def)
  moreover have "map_of (files (lk_files s2)) consulConfigPath = Some (le_consul L (consul_config (lastVpnIp (lk_vpn s2)) dev))"
    using changed_consul[OF s0(3)] s0(1,2) assms(5) vpn by (simp add: s2_def link_do_def)
  moreover have "last (lk_acts s2) = Report vip" by (simp add: s2_def link_do_def)
  moreover obtain cfg v0 where "register (le_marshal L) (tk_post t) (tk_now t) (le_version L) dev = Ret (Inr (vip, cfg))"
      "set_up_with (le_net L) (tk_pass t) (bytes_text cfg) v0 (lk_vpn s2)"
    using f(2) vpn by (auto simp: registered_at_def)
  ultimately show ?thesis using run f(1) by blast
qed

section \<open>Witnesses\<close>

definition demo_net :: "unit net_env" where
  "demo_net = \<lparr>command = (\<lambda>c w. (None, w)), addresses = (\<lambda>w i. Inr [Some ''10.8.0.7'']), unzip = (\<lambda>c d w. (None, w)),
     symlink = (\<lambda>a b w. w), ticks = (\<lambda>c. 0), routes = (\<lambda>i w. Inr []), route_replace = (\<lambda>r w. (None, w)),
     ping = (\<lambda>h w. True), lookup_host = (\<lambda>h w. None), apply_dns = (\<lambda>i w. (None, w))\<rparr>"

definition demo_link :: "unit link_env" where
  "demo_link = \<lparr>le_net = demo_net,
     le_yaml = (\<lambda>c. (Some \<lparr>dv_WorkerID = ''J01'', dv_Key = ''k'', dv_DhcpServer = ''http://dhcp'', dv_Vpn = ''wireguard''\<rparr>, None)),
     le_init = [], le_marshal = (\<lambda>r. []), le_consul = cc_AdvertiseAddrWan,
     le_vpnfiles = (\<lambda>w. (None, Some ''Endpoint = 1.2.3.4:51820'')), le_render = (\<lambda>t v. None), le_version = [], le_public = False\<rparr>"

definition demo_tick :: "unit link_tick" where
  "demo_tick = \<lparr>tk_now = 0, tk_post = (\<lambda>u b. HttpAnswer 200 ''200 OK'' ''10.8.0.1'' (Inr (replicate 641 0))), tk_pass = (\<lambda>w. w)\<rparr>"

definition down_tick :: "unit link_tick" where
  "down_tick = \<lparr>tk_now = 0, tk_post = (\<lambda>u b. HttpError ''refused''), tk_pass = (\<lambda>w. w)\<rparr>"

definition demo_state :: "unit link_state" where
  "demo_state = \<lparr>lk_dev = None, lk_vpn = \<lparr>vpnInstance = None, lastVpnIp = [], machine = ()\<rparr>, lk_iface = ''eth0'',
     lk_files = \<lparr>files = [], unreadable = [], unwritable = [], cmds = []\<rparr>, lk_acts = []\<rparr>"

lemma demo_search:
  "case retryfindMaster demo_link [down_tick, demo_tick] demo_state of
     Ret (ips, s1) \<Rightarrow> ips = (''1.2.3.4'', ''10.8.0.1'') \<and> unwritable (lk_files s1) = [] | Panic \<Rightarrow> False | Hang \<Rightarrow> False"
  by code_simp

theorem round_reports_registered_master_witness:
  "\<exists>s2. maintain_rounds demo_link False [[down_tick, demo_tick]] demo_state = Ret s2 \<and> last (lk_acts s2) = Report ''10.8.0.1''
    \<and> LoadMasterFromHostFile (lk_files s2) = Inr ''10.8.0.1''"
proof -
  obtain s1 where "retryfindMaster demo_link [down_tick, demo_tick] demo_state = Ret ((''1.2.3.4'', ''10.8.0.1''), s1)"
      "unwritable (lk_files s1) = []"
    using demo_search by (auto split: go.splits)
  moreover have "set ''10.8.0.1'' \<subseteq> set ip_chars" "\<not> le_public demo_link" by code_simp+
  ultimately show ?thesis
    using round_reports_registered_master[of demo_link "[down_tick, demo_tick]" demo_state "''1.2.3.4''" "''10.8.0.1''" s1 False]
    by auto
qed

end
