(* ===== verification/FileService.thy ===== *)
theory FileService
  imports StoreServices FilePaths
begin

text \<open>
  Files: the file service of the gateway (\<open>gateway/serve/file.go\<close>), the key-value store on files
  (\<open>lowapi/store/filestore/kv.go\<close>), and unpacking and copying (\<open>lowapi/utils/file.go\<close>). The file system has
  directories and files with their content; \<open>denied\<close> says for which paths the system refuses an operation.
\<close>

section \<open>The file system\<close>

record file_sys =
  fs_dirs :: "string list"
  fs_files :: "(string, string) gomap"
  denied :: "string \<Rightarrow> bool"

datatype fs_error = ENOENT | EACCES | EISDIR | ENOTDIR | EIO

definition ends_slash :: "string \<Rightarrow> bool" where
  "ends_slash p \<longleftrightarrow> p \<noteq> [] \<and> last p = CHR ''/''"

text \<open>The system resolves a path as \<open>Clean\<close> does (there are no symbolic links); a slash at the end asks for a directory.\<close>

definition fs_Stat :: "string \<Rightarrow> file_sys \<Rightarrow> fs_error option" where
  "fs_Stat p fs =
     (let q = Clean p in
      if denied fs q then Some EACCES
      else if q \<in> set (fs_dirs fs) then None
      else if map_of (fs_files fs) q \<noteq> None then (if ends_slash p then Some ENOTDIR else None)
      else Some ENOENT)"

definition fs_Read :: "string \<Rightarrow> file_sys \<Rightarrow> fs_error + string" where
  "fs_Read p fs =
     (let q = Clean p in
      if denied fs q then Inl EACCES
      else case map_of (fs_files fs) q of
             Some c \<Rightarrow> Inr c
           | None \<Rightarrow> Inl (if q \<in> set (fs_dirs fs) then EISDIR else ENOENT))"

text \<open>Writing a file creates it; the directory it is in has to be there.\<close>

definition fs_Write :: "string \<Rightarrow> string \<Rightarrow> file_sys \<Rightarrow> fs_error option \<times> file_sys" where
  "fs_Write p c fs =
     (let q = Clean p in
      if denied fs q then (Some EACCES, fs)
      else if q \<in> set (fs_dirs fs) then (Some EISDIR, fs)
      else if path_Dir q \<notin> set (fs_dirs fs) then (Some ENOENT, fs)
      else (None, fs\<lparr>fs_files := AList.update q c (fs_files fs)\<rparr>))"

definition fs_Remove :: "string \<Rightarrow> file_sys \<Rightarrow> file_sys" where
  "fs_Remove p fs = (let q = Clean p in if denied fs q then fs else fs\<lparr>fs_files := AList.delete q (fs_files fs)\<rparr>)"

text \<open>\<open>MkdirAll\<close> makes the directories of a path from the left.\<close>

definition parents :: "string \<Rightarrow> string list" where
  "parents p = map (\<lambda>i. take i p) (filter (\<lambda>i. p ! i = CHR ''/'') [1..<length p]) @ [p]"

definition mkdir_one :: "fs_error option \<times> file_sys \<Rightarrow> string \<Rightarrow> fs_error option \<times> file_sys" where
  "mkdir_one st q = (case st of
       (Some e, fs) \<Rightarrow> (Some e, fs)
     | (None, fs) \<Rightarrow>
         (if q \<in> set (fs_dirs fs) then (None, fs)
          else if map_of (fs_files fs) q \<noteq> None then (Some ENOTDIR, fs)
          else if denied fs q then (Some EACCES, fs)
          else (None, fs\<lparr>fs_dirs := fs_dirs fs @ [q]\<rparr>)))"

definition fs_MkdirAll :: "string \<Rightarrow> file_sys \<Rightarrow> fs_error option \<times> file_sys" where
  "fs_MkdirAll p fs = foldl mkdir_one (None, fs) (parents (Clean p))"

text \<open>What making directories needs, and what it does.\<close>

definition can_make :: "file_sys \<Rightarrow> string \<Rightarrow> bool" where
  "can_make fs p \<longleftrightarrow> list_all (\<lambda>q. map_of (fs_files fs) q = None \<and> \<not> denied fs q) (parents p)"

lemma mkdir_all:
  "list_all (\<lambda>q. map_of (fs_files fs) q = None \<and> \<not> denied fs q) qs
     \<Longrightarrow> \<exists>ds. foldl mkdir_one (None, fs) qs = (None, fs\<lparr>fs_dirs := ds\<rparr>) \<and> set ds = set (fs_dirs fs) \<union> set qs"
proof (induction qs arbitrary: fs)
  case Nil
  show ?case by (rule exI[of _ "fs_dirs fs"]) simp
next
  case (Cons q qs)
  show ?case
  proof (cases "q \<in> set (fs_dirs fs)")
    case True
    then show ?thesis using Cons.IH[of fs] Cons.prems by (auto simp: mkdir_one_def)
  next
    case False
    then show ?thesis using Cons.IH[of "fs\<lparr>fs_dirs := fs_dirs fs @ [q]\<rparr>"] Cons.prems by (auto simp: mkdir_one_def)
  qed
qed

lemma fs_MkdirAll_ok:
  "can_make fs (Clean p)
     \<Longrightarrow> \<exists>ds. fs_MkdirAll p fs = (None, fs\<lparr>fs_dirs := ds\<rparr>) \<and> set ds = set (fs_dirs fs) \<union> set (parents (Clean p))"
  unfolding can_make_def fs_MkdirAll_def by (rule mkdir_all)

lemma parents_self [simp]: "p \<in> set (parents p)"
  by (simp add: parents_def)

lemma parents_length: "q \<in> set (parents p) \<Longrightarrow> length q \<le> length p"
  by (auto simp: parents_def)

section \<open>The key-value store\<close>

definition kv_path :: "string \<Rightarrow> string \<Rightarrow> string" where
  "kv_path baseDir key = path_Join [baseDir, key]"

definition kv_Get :: "string \<Rightarrow> string \<Rightarrow> file_sys \<Rightarrow> fs_error + string" where
  "kv_Get baseDir key fs = fs_Read (kv_path baseDir key) fs"

definition kv_GetDefault :: "string \<Rightarrow> string \<Rightarrow> string \<Rightarrow> file_sys \<Rightarrow> fs_error + string" where
  "kv_GetDefault baseDir key value fs =
     (case kv_Get baseDir key fs of
        Inl e \<Rightarrow> if e = ENOENT then Inr value else Inl e
      | Inr data \<Rightarrow> Inr data)"

text \<open>\<open>inited\<close> is never set, so that the directory is made at every call.\<close>

definition kv_Set :: "string \<Rightarrow> string \<Rightarrow> string \<Rightarrow> file_sys \<Rightarrow> fs_error option \<times> file_sys" where
  "kv_Set baseDir key value fs =
     (let keyPath = kv_path baseDir key in
      case fs_MkdirAll (path_Dir keyPath) fs of
        (Some e, fs1) \<Rightarrow> (Some e, fs1)
      | (None, fs1) \<Rightarrow> fs_Write keyPath value fs1)"

section \<open>Unpacking\<close>

text \<open>An entry: the error of \<open>Open\<close>, or what can be read of it and the error that ends the reading.\<close>

record zip_entry =
  ze_Name :: string
  ze_IsDir :: bool
  ze_Content :: "fs_error + string \<times> fs_error option"

definition unzip_one :: "string \<Rightarrow> fs_error option \<times> file_sys \<Rightarrow> zip_entry \<Rightarrow> fs_error option \<times> file_sys" where
  "unzip_one target st e =
     (case st of
        (Some err, fs) \<Rightarrow> (Some err, fs)
      | (None, fs) \<Rightarrow>
          (let p = path_Join [target, ze_Name e] in
           if ze_IsDir e then fs_MkdirAll p fs
           else (case ze_Content e of
                   Inl err \<Rightarrow> (Some err, fs)
                 | Inr (c, rest) \<Rightarrow>
                     (case fs_Write p c fs of
                        (Some err, fs1) \<Rightarrow> (Some err, fs1)
                      | (None, fs1) \<Rightarrow> (rest, fs1)))))"

text \<open>\<open>archive\<close>: the entries, or the error of the reader.\<close>

definition Unzip :: "fs_error + zip_entry list \<Rightarrow> string \<Rightarrow> file_sys \<Rightarrow> fs_error option \<times> file_sys" where
  "Unzip archive target fs = (case archive of
       Inl e \<Rightarrow> (Some e, fs)
     | Inr es \<Rightarrow> foldl (unzip_one target) (fs_MkdirAll target fs) es)"

text \<open>The reader of \<open>SaveFile\<close>: what it delivers and the error that ends it.\<close>

definition SaveFile :: "string \<Rightarrow> string \<times> fs_error option \<Rightarrow> file_sys \<Rightarrow> fs_error option \<times> file_sys" where
  "SaveFile tempfilename binfile fs =
     (case fs_Write tempfilename (fst binfile) fs of
        (Some e, fs1) \<Rightarrow> (Some e, fs1)
      | (None, fs1) \<Rightarrow> (snd binfile, fs1))"

definition FileExists :: "string \<Rightarrow> file_sys \<Rightarrow> bool" where
  "FileExists p fs = (fs_Stat p fs = None)"

definition IsDir :: "string \<Rightarrow> file_sys \<Rightarrow> bool" where
  "IsDir p fs = (fs_Stat p fs = None \<and> Clean p \<in> set (fs_dirs fs))"

definition IsFile :: "string \<Rightarrow> file_sys \<Rightarrow> bool" where
  "IsFile p fs = (\<not> IsDir p fs)"

text \<open>
  \<open>filepath.Walk\<close> gives every path below a root, whether it is a directory, and an error for one that it could not read;
  the function of the source ends the walk at an error. \<open>walk\<close> stands for the list.
\<close>

type_synonym walk = "string \<Rightarrow> file_sys \<Rightarrow> (string \<times> bool \<times> bool) list"

fun walk_files :: "(string \<Rightarrow> file_sys \<Rightarrow> file_sys) \<Rightarrow> (string \<times> bool \<times> bool) list \<Rightarrow> file_sys \<Rightarrow> file_sys" where
  "walk_files f [] fs = fs"
| "walk_files f ((p, isDir, failed) # ws) fs =
     (if failed then fs else if \<not> isDir then walk_files f ws (f p fs) else walk_files f ws fs)"

definition each_file :: "walk \<Rightarrow> (string \<Rightarrow> file_sys \<Rightarrow> file_sys) \<Rightarrow> string list \<Rightarrow> file_sys \<Rightarrow> file_sys" where
  "each_file walk f path_list fs = foldl (\<lambda>fs p.
      if FileExists p fs then (if IsDir p fs then walk_files f (walk p fs) fs else f p fs) else fs) fs path_list"

definition DelFile :: "walk \<Rightarrow> string list \<Rightarrow> file_sys \<Rightarrow> file_sys" where
  "DelFile walk path_list fs = each_file walk fs_Remove path_list fs"

definition truncate_file :: "string \<Rightarrow> file_sys \<Rightarrow> file_sys" where
  "truncate_file p fs = snd (fs_Write p [] fs)"

definition ResetFile :: "walk \<Rightarrow> string list \<Rightarrow> file_sys \<Rightarrow> file_sys" where
  "ResetFile walk path_list fs = each_file walk truncate_file path_list fs"

definition CopyTo :: "string \<Rightarrow> string \<Rightarrow> file_sys \<Rightarrow> fs_error option \<times> file_sys" where
  "CopyTo srcPath dstPath fs =
     (if \<not> FileExists srcPath fs then (Some ENOENT, fs)
      else case fs_Read srcPath fs of Inl e \<Rightarrow> (Some e, fs) | Inr data \<Rightarrow> fs_Write dstPath data fs)"

section \<open>The system configuration and its backup\<close>

text \<open>\<open>mapSettings\<close>: the backup and its original. The range over the map is in any order: \<open>ms\<close> is the list of its pairs in that order.\<close>

definition mapSettings :: "(string \<times> string) list" where
  "mapSettings = [(''/edge/recover/edge-guard_settings'', ''/edge/edge-guard/bin/settings''),
     (''/edge/recover/consul_conf.json'', ''/data/edgex/consul/config/consul_conf.json''),
     (''/edge/recover/interfaces'', ''/etc/network/interfaces'')]"

fun ResetSystemConfig :: "(string \<times> string) list \<Rightarrow> file_sys \<Rightarrow> fs_error option \<times> file_sys" where
  "ResetSystemConfig [] fs = (None, fs)"
| "ResetSystemConfig ((src, dst) # ms) fs =
     (case CopyTo src dst fs of
        (Some e, fs1) \<Rightarrow> (Some e, fs1)
      | (None, fs1) \<Rightarrow> ResetSystemConfig ms fs1)"

fun EnsureSystemConfigBackup :: "(string \<times> string) list \<Rightarrow> file_sys \<Rightarrow> fs_error option \<times> file_sys" where
  "EnsureSystemConfigBackup [] fs = (None, fs)"
| "EnsureSystemConfigBackup ((src, dst) # ms) fs =
     (if \<not> FileExists src fs then
        (case CopyTo dst src fs of
           (Some e, fs1) \<Rightarrow> (Some e, fs1)
         | (None, fs1) \<Rightarrow> EnsureSystemConfigBackup ms fs1)
      else EnsureSystemConfigBackup ms fs)"

section \<open>The file service\<close>

text \<open>\<open>checkPath\<close>: the error, the file system and the destination, which becomes a file in the directory named.\<close>

definition make_missing :: "string \<Rightarrow> file_sys \<Rightarrow> fs_error option \<times> file_sys" where
  "make_missing d fs = (case fs_Stat d fs of
       None \<Rightarrow> (None, fs)
     | Some e \<Rightarrow> if e = ENOENT then fs_MkdirAll d fs else (Some e, fs))"

definition checkPath :: "string \<Rightarrow> string \<Rightarrow> file_sys \<Rightarrow> fs_error option \<times> file_sys \<times> string" where
  "checkPath source destination fs =
     (case fs_Stat source fs of
        Some e \<Rightarrow> (Some e, fs, destination)
      | None \<Rightarrow>
          (if ends_slash destination then
             (case make_missing destination fs of
                (Some e, fs1) \<Rightarrow> (Some e, fs1, destination)
              | (None, fs1) \<Rightarrow> (None, fs1, path_Join [destination, path_Base source]))
           else (case make_missing (path_Dir destination) fs of (e, fs1) \<Rightarrow> (e, fs1, destination))))"

text \<open>\<open>copyFile\<close> opens the source, creates the destination, which empties it, and only then reads.\<close>

definition copyFile :: "string \<Rightarrow> string \<Rightarrow> file_sys \<Rightarrow> fs_error option \<times> file_sys" where
  "copyFile source destination fs =
     (case fs_Stat source fs of
        Some e \<Rightarrow> (Some e, fs)
      | None \<Rightarrow>
          (case fs_Write destination [] fs of
             (Some e, fs1) \<Rightarrow> (Some e, fs1)
           | (None, fs1) \<Rightarrow>
               (case fs_Read source fs1 of Inl e \<Rightarrow> (Some e, fs1) | Inr c \<Rightarrow> fs_Write destination c fs1)))"

definition SyncFile :: "string \<Rightarrow> string \<Rightarrow> file_sys \<Rightarrow> fs_error option \<times> file_sys" where
  "SyncFile source destination fs =
     (case checkPath source destination fs of
        (Some e, fs1, d) \<Rightarrow> (Some e, fs1)
      | (None, fs1, d) \<Rightarrow> copyFile source d fs1)"

text \<open>\<open>SyncFolder\<close> runs \<open>cp -ur\<close>: \<open>cp\<close> stands for the command.\<close>

definition SyncFolder :: "(string \<Rightarrow> string \<Rightarrow> file_sys \<Rightarrow> fs_error option \<times> file_sys) \<Rightarrow> string \<Rightarrow> string \<Rightarrow> file_sys \<Rightarrow> fs_error option \<times> file_sys" where
  "SyncFolder cp source destination fs =
     (case checkPath source destination fs of
        (Some e, fs1, d) \<Rightarrow> (Some e, fs1)
      | (None, fs1, d) \<Rightarrow> cp source d fs1)"

record fileSyncRequest =
  fr_Source :: string
  fr_Destination :: string
  fr_IsDir :: bool

text \<open>\<open>req\<close>: the decoded request, or the error of reading or decoding it; \<open>text_of\<close>: the text of an error.\<close>

definition SyncFileSystemHTTP :: "(string \<Rightarrow> string \<Rightarrow> file_sys \<Rightarrow> fs_error option \<times> file_sys) \<Rightarrow> (fs_error \<Rightarrow> string)
    \<Rightarrow> string + fileSyncRequest \<Rightarrow> file_sys \<Rightarrow> writer \<Rightarrow> (file_sys \<times> writer) go" where
  "SyncFileSystemHTTP cp text_of req fs w =
     (case req of
        Inl e \<Rightarrow> Ret (fs, serve_Error e 400 w)
      | Inr r \<Rightarrow>
          (if fr_Source r = [] \<or> fr_Destination r = [] then Panic
           else (case (if fr_IsDir r then SyncFolder cp (fr_Source r) (fr_Destination r) fs
                       else SyncFile (fr_Source r) (fr_Destination r) fs) of
                   (Some e, fs1) \<Rightarrow> Ret (fs1, serve_Error (text_of e) 500 w)
                 | (None, fs1) \<Rightarrow> Ret (fs1, WriteSucess w))))"

text \<open>\<open>CleanJournalHTTP\<close>: the command line of the request with size and time; \<open>run\<close> gives error and output, or the output.\<close>

definition journal_command :: "string \<Rightarrow> string \<Rightarrow> string option" where
  "journal_command sz t =
     (let args = (if sz \<noteq> [] then [''journalctl --vacuum-size='' @ sz] else [])
               @ (if t \<noteq> [] then [''journalctl --vacuum-time='' @ t] else [])
      in if length args = 0 then None else Some (join_with '' & '' args))"

definition CleanJournalHTTP :: "(string \<Rightarrow> (string \<times> string) + string) \<Rightarrow> string + string \<times> string \<Rightarrow> writer \<Rightarrow> writer go" where
  "CleanJournalHTTP run req w =
     (case req of
        Inl e \<Rightarrow> Ret (serve_Error e 400 w)
      | Inr (sz, t) \<Rightarrow>
          (case journal_command sz t of
             None \<Rightarrow> Panic
           | Some c \<Rightarrow>
               (case run c of
                  Inl (err, out) \<Rightarrow> Ret (serve_Error (out @ err) 500 w)
                | Inr out \<Rightarrow> Ret (WriteData (Some [(''output'', VStr out)]) w))))"

datatype file_request =
  FileSync "string + fileSyncRequest" | CleanJournal "string + string \<times> string" | NotPost

definition file_ServeHTTP :: "(string \<Rightarrow> string \<Rightarrow> file_sys \<Rightarrow> fs_error option \<times> file_sys) \<Rightarrow> (fs_error \<Rightarrow> string)
    \<Rightarrow> (string \<Rightarrow> (string \<times> string) + string) \<Rightarrow> file_request \<Rightarrow> file_sys \<Rightarrow> writer \<Rightarrow> (file_sys \<times> writer) go" where
  "file_ServeHTTP cp text_of run r fs w = (case r of
       NotPost \<Rightarrow> Ret (fs, ErrorWithCode 405 w)
     | CleanJournal q \<Rightarrow> bindg (CleanJournalHTTP run q w) (\<lambda>w'. Ret (fs, w'))
     | FileSync q \<Rightarrow> SyncFileSystemHTTP cp text_of q fs w)"

section \<open>Properties\<close>

lemma kv_path_plain: "ns \<noteq> [] \<Longrightarrow> list_all plain_name ns \<Longrightarrow> plain_name key \<Longrightarrow> kv_path (abs_path ns) key = abs_path (ns @ [key])"
  by (simp add: kv_path_def Join_abs_path)

lemma abs_path_inj: "ns \<noteq> [] \<Longrightarrow> abs_path (ns @ [a]) = abs_path (ns @ [b]) \<Longrightarrow> a = b"
  by (simp add: abs_path_snoc)

lemma child_not_parent: "ns \<noteq> [] \<Longrightarrow> abs_path (ns @ [n]) \<notin> set (parents (abs_path ns))"
  using parents_length[of "abs_path (ns @ [n])" "abs_path ns"] by (auto simp: abs_path_snoc)

lemma Clean_child: "list_all plain_name ns \<Longrightarrow> plain_name n \<Longrightarrow> Clean (abs_path (ns @ [n])) = abs_path (ns @ [n])"
  by (rule Clean_abs_path) auto

lemma child_no_slash: "plain_name n \<Longrightarrow> \<not> ends_slash (abs_path (ns @ [n]))"
  by (cases n rule: rev_cases; cases "ns = []")
    (auto simp: ends_slash_def abs_path_def join_with_snoc plain_name_def)

lemma Stat_child:
  "list_all plain_name ns \<Longrightarrow> plain_name n \<Longrightarrow> \<not> denied fs (abs_path (ns @ [n]))
    \<Longrightarrow> map_of (fs_files fs) (abs_path (ns @ [n])) = Some c \<Longrightarrow> fs_Stat (abs_path (ns @ [n])) fs = None"
  by (simp add: fs_Stat_def Let_def Clean_child child_no_slash)

lemma Write_child:
  assumes "ns \<noteq> []" "list_all plain_name ns" "plain_name n" "abs_path ns \<in> set (fs_dirs fs)"
    "abs_path (ns @ [n]) \<notin> set (fs_dirs fs)" "\<not> denied fs (abs_path (ns @ [n]))"
  shows "fs_Write (abs_path (ns @ [n])) c fs = (None, fs\<lparr>fs_files := AList.update (abs_path (ns @ [n])) c (fs_files fs)\<rparr>)"
  using assms by (simp add: fs_Write_def Let_def Clean_child Dir_abs_path)

lemma kv_Set_write:
  assumes "ns \<noteq> []" "list_all plain_name ns" "plain_name key" "can_make fs (abs_path ns)"
    "\<not> denied fs (abs_path (ns @ [key]))" "abs_path (ns @ [key]) \<notin> set (fs_dirs fs)"
  shows "\<exists>ds. kv_Set (abs_path ns) key value fs = (None, fs\<lparr>fs_dirs := ds, fs_files := AList.update (abs_path (ns @ [key])) value (fs_files fs)\<rparr>)
    \<and> set ds = set (fs_dirs fs) \<union> set (parents (abs_path ns))"
proof -
  obtain ds where d: "fs_MkdirAll (abs_path ns) fs = (None, fs\<lparr>fs_dirs := ds\<rparr>)" "set ds = set (fs_dirs fs) \<union> set (parents (abs_path ns))"
    using fs_MkdirAll_ok[of fs "abs_path ns"] assms(1,2,4) by (auto simp: Clean_abs_path)
  have "fs_Write (abs_path (ns @ [key])) value (fs\<lparr>fs_dirs := ds\<rparr>)
      = (None, fs\<lparr>fs_dirs := ds, fs_files := AList.update (abs_path (ns @ [key])) value (fs_files fs)\<rparr>)"
    using Write_child[OF assms(1-3), of "fs\<lparr>fs_dirs := ds\<rparr>" "value"] d(2) assms(5,6) child_not_parent[OF assms(1)] by simp
  then show ?thesis
    using d by (intro exI[of _ ds]) (simp add: kv_Set_def kv_path_plain[OF assms(1-3)] Dir_abs_path[OF assms(1-3)])
qed

lemma kv_set_get:
  assumes "ns \<noteq> []" "list_all plain_name ns" "plain_name key" "plain_name other"
    and "can_make fs (abs_path ns)" "\<not> denied fs (abs_path (ns @ [key]))" "abs_path (ns @ [key]) \<notin> set (fs_dirs fs)"
  shows "\<exists>fs'. kv_Set (abs_path ns) key value fs = (None, fs')
    \<and> kv_GetDefault (abs_path ns) other dflt fs'
      = (if other = key then Inr value else kv_GetDefault (abs_path ns) other dflt fs)"
proof -
  obtain ds where s: "kv_Set (abs_path ns) key value fs = (None, fs\<lparr>fs_dirs := ds, fs_files := AList.update (abs_path (ns @ [key])) value (fs_files fs)\<rparr>)"
    "set ds = set (fs_dirs fs) \<union> set (parents (abs_path ns))" using kv_Set_write[OF assms(1-3,5,6,7)] by blast
  have r: "kv_path (abs_path ns) other = abs_path (ns @ [other])" "Clean (abs_path (ns @ [other])) = abs_path (ns @ [other])"
    using kv_path_plain[OF assms(1,2,4)] Clean_child[OF assms(2,4)] by simp_all
  have eq: "abs_path (ns @ [other]) = abs_path (ns @ [key]) \<longleftrightarrow> other = key" using abs_path_inj[OF assms(1)] by blast
  show ?thesis unfolding s(1) using s(2) assms(6) child_not_parent[OF assms(1), of other]
    by (auto simp: kv_GetDefault_def kv_Get_def fs_Read_def r eq update_conv' Let_def)
qed



text \<open>A key with two dots leaves the base directory.\<close>

lemma kv_key_escapes: "kv_path ''/edge/store'' ''../../etc/passwd'' = ''/etc/passwd''"
  by code_simp

text \<open>An archive may write outside of its target.\<close>

lemma unzip_escapes:
  "fs_files (snd (Unzip (Inr [\<lparr>ze_Name = ''../cron'', ze_IsDir = False, ze_Content = Inr (''x'', None)\<rparr>]) ''/etc/openvpn/''
     \<lparr>fs_dirs = [''/etc''], fs_files = [], denied = (\<lambda>p. False)\<rparr>)) = [(''/etc/cron'', ''x'')]"
  by code_simp

text \<open>
  A file that is synchronised into a directory, existing or new, has the content of its source there,
  under its own name, and every other file is as before, provided that the directory is not the one it is in.
\<close>

lemma make_missing_ok:
  assumes "ms \<noteq> []" "list_all plain_name ms" "can_make fs (abs_path ms)"
  shows "\<exists>ds. make_missing (abs_path ms @ ''/'') fs = (None, fs\<lparr>fs_dirs := ds\<rparr>) \<and> abs_path ms \<in> set ds
    \<and> set (fs_dirs fs) \<subseteq> set ds \<and> set ds \<subseteq> set (fs_dirs fs) \<union> set (parents (abs_path ms))"
proof -
  have c: "Clean (abs_path ms @ ''/'') = abs_path ms" by (rule Clean_trailing_slash[OF assms(1,2)])
  have f: "map_of (fs_files fs) (abs_path ms) = None" "\<not> denied fs (abs_path ms)"
    using assms(3) by (auto simp: can_make_def list_all_iff)
  show ?thesis
  proof (cases "abs_path ms \<in> set (fs_dirs fs)")
    case True
    then have "make_missing (abs_path ms @ ''/'') fs = (None, fs)"
      using c f by (simp add: make_missing_def fs_Stat_def)
    with True show ?thesis by (intro exI[of _ "fs_dirs fs"]) auto
  next
    case False
    then have "make_missing (abs_path ms @ ''/'') fs = fs_MkdirAll (abs_path ms @ ''/'') fs"
      using c f by (simp add: make_missing_def fs_Stat_def)
    then show ?thesis using fs_MkdirAll_ok[of fs "abs_path ms @ ''/''"] assms(3) unfolding c by auto
  qed
qed

lemma copyFile_child:
  assumes "list_all plain_name ns" "ms \<noteq> []" "list_all plain_name ms" "plain_name n" "ms \<noteq> ns"
    and "\<And>p. \<not> denied fs p" "map_of (fs_files fs) (abs_path (ns @ [n])) = Some c"
    and "abs_path ms \<in> set (fs_dirs fs)" "abs_path (ms @ [n]) \<notin> set (fs_dirs fs)"
  shows "copyFile (abs_path (ns @ [n])) (abs_path (ms @ [n])) fs
    = (None, fs\<lparr>fs_files := AList.update (abs_path (ms @ [n])) c (AList.update (abs_path (ms @ [n])) [] (fs_files fs))\<rparr>)"
proof -
  have ne: "abs_path (ns @ [n]) \<noteq> abs_path (ms @ [n])"
    using abs_path_eq[of "ns @ [n]" "ms @ [n]"] assms(1,3,4,5) by simp
  have "fs_Stat (abs_path (ns @ [n])) fs = None" by (rule Stat_child[OF assms(1,4,6,7)])
  then show ?thesis using ne assms(6-9)
    by (simp add: Let_def copyFile_def Write_child[OF assms(2-4)] fs_Read_def Clean_child[OF assms(1,4)] update_conv')
qed

theorem SyncFile_copies:
  assumes "ns \<noteq> []" "list_all plain_name ns" "ms \<noteq> []" "list_all plain_name ms" "plain_name n" "ms \<noteq> ns"
    and "\<And>p. \<not> denied fs p" "map_of (fs_files fs) (abs_path (ns @ [n])) = Some c"
    and "abs_path (ms @ [n]) \<notin> set (fs_dirs fs)" "can_make fs (abs_path ms)"
  shows "\<exists>fs'. SyncFile (abs_path (ns @ [n])) (abs_path ms @ ''/'') fs = (None, fs')
    \<and> map_of (fs_files fs') = (map_of (fs_files fs))(abs_path (ms @ [n]) \<mapsto> c) \<and> abs_path ms \<in> set (fs_dirs fs')"
proof -
  obtain ds where d: "make_missing (abs_path ms @ ''/'') fs = (None, fs\<lparr>fs_dirs := ds\<rparr>)" "abs_path ms \<in> set ds"
      "set ds \<subseteq> set (fs_dirs fs) \<union> set (parents (abs_path ms))"
    using make_missing_ok[OF assms(3,4,10)] by blast
  have "abs_path (ms @ [n]) \<notin> set ds" using d(3) assms(9) child_not_parent[OF assms(3)] by blast
  then have cp: "copyFile (abs_path (ns @ [n])) (abs_path (ms @ [n])) (fs\<lparr>fs_dirs := ds\<rparr>) = (None, fs\<lparr>fs_dirs := ds,
      fs_files := AList.update (abs_path (ms @ [n])) c (AList.update (abs_path (ms @ [n])) [] (fs_files fs))\<rparr>)"
    using copyFile_child[OF assms(2-6), of "fs\<lparr>fs_dirs := ds\<rparr>" c] d(2) assms(7,8) by simp
  have st: "fs_Stat (abs_path (ns @ [n])) fs = None"
    by (rule Stat_child[OF assms(2,5,7,8)])
  have "checkPath (abs_path (ns @ [n])) (abs_path ms @ ''/'') fs = (None, fs\<lparr>fs_dirs := ds\<rparr>, abs_path (ms @ [n]))"
    using st d(1) by (simp add: checkPath_def ends_slash_def Base_abs_path[OF assms(1,5)] Join_trailing_slash[OF assms(3-5)])
  then show ?thesis using cp d(2) by (simp add: SyncFile_def update_conv')
qed

text \<open>A file that is synchronised into its own directory is emptied, and the service reports success.\<close>

lemma SyncFile_onto_itself:
  "SyncFile ''/data/f'' ''/data/'' \<lparr>fs_dirs = [''/data''], fs_files = [(''/data/f'', ''content'')], denied = (\<lambda>p. False)\<rparr>
   = (None, \<lparr>fs_dirs = [''/data''], fs_files = [(''/data/f'', [])], denied = (\<lambda>p. False)\<rparr>)"
  by (simp add: SyncFile_def checkPath_def copyFile_def make_missing_def fs_Stat_def fs_Read_def fs_Write_def ends_slash_def
      Clean_def has_prefix_def path_Join_def path_Base_def path_Dir_def last_elem_def Let_def)

text \<open>A request without its arguments panics: the error that is reported is nil.\<close>

lemma SyncFileSystemHTTP_panics:
  "SyncFileSystemHTTP cp text_of (Inr r) fs w = Panic \<longleftrightarrow> fr_Source r = [] \<or> fr_Destination r = []"
  by (simp add: SyncFileSystemHTTP_def split: option.splits prod.splits)

lemma CleanJournalHTTP_panics: "CleanJournalHTTP run (Inr (sz, t)) w = Panic \<longleftrightarrow> sz = [] \<and> t = []"
  by (simp add: CleanJournalHTTP_def journal_command_def Let_def split: sum.splits)

text \<open>Removing the files below a directory keeps the directories, and takes exactly the files that the walk gives.\<close>

lemma walk_remove:
  "list_all (\<lambda>(p, isDir, failed). \<not> failed) ws \<Longrightarrow> (\<And>p. \<not> denied fs p)
   \<Longrightarrow> fs_dirs (walk_files fs_Remove ws fs) = fs_dirs fs
     \<and> map_of (fs_files (walk_files fs_Remove ws fs)) q
       = (if \<exists>(p, isDir, failed) \<in> set ws. \<not> isDir \<and> Clean p = q then None else map_of (fs_files fs) q)"
proof (induction ws arbitrary: fs)
  case (Cons x ws)
  obtain p d f where x: "x = (p, d, f)" by (cases x)
  show ?case using Cons.IH[of "if d then fs else fs_Remove p fs"] Cons.prems
    by (auto simp: x fs_Remove_def Let_def delete_conv' split: if_splits)
qed simp

theorem DelFile_directory:
  assumes "IsDir p fs" "\<And>q. \<not> denied fs q" "list_all (\<lambda>(p, isDir, failed). \<not> failed) (walk p fs)"
  shows "fs_dirs (DelFile walk [p] fs) = fs_dirs fs"
    and "map_of (fs_files (DelFile walk [p] fs)) q
      = (if \<exists>(p, isDir, failed) \<in> set (walk p fs). \<not> isDir \<and> Clean p = q then None else map_of (fs_files fs) q)"
  using walk_remove[OF assms(3,2)] assms(1)
  by (simp_all add: DelFile_def each_file_def FileExists_def IsDir_def)

text \<open>With a backup of every file, a reset brings every file back to its backup.\<close>

lemma CopyTo_ok:
  assumes "\<And>q. \<not> denied fs q" "map_of (fs_files fs) (Clean src) = Some c" "\<not> ends_slash src"
    "Clean dst \<notin> set (fs_dirs fs)" "path_Dir (Clean dst) \<in> set (fs_dirs fs)"
  shows "CopyTo src dst fs = (None, fs\<lparr>fs_files := AList.update (Clean dst) c (fs_files fs)\<rparr>)"
  using assms by (simp add: CopyTo_def FileExists_def fs_Stat_def fs_Read_def fs_Write_def Let_def)

definition settings_there :: "(string \<times> string) list \<Rightarrow> file_sys \<Rightarrow> bool" where
  "settings_there ms fs \<longleftrightarrow> list_all (\<lambda>(src, dst). map_of (fs_files fs) (Clean src) \<noteq> None \<and> \<not> ends_slash src
     \<and> Clean dst \<notin> set (fs_dirs fs) \<and> path_Dir (Clean dst) \<in> set (fs_dirs fs)) ms"

lemma reset_restores:
  assumes "\<And>q. \<not> denied fs q" "settings_there ms fs" "distinct (map (Clean \<circ> snd) ms)"
    "\<forall>(s, d) \<in> set ms. \<forall>(s', d') \<in> set ms. Clean s \<noteq> Clean d'"
  shows "\<exists>fs'. ResetSystemConfig ms fs = (None, fs') \<and> fs_dirs fs' = fs_dirs fs
    \<and> (\<forall>q. map_of (fs_files fs') q = (case map_of (map (\<lambda>(s, d). (Clean d, Clean s)) ms) q of
         None \<Rightarrow> map_of (fs_files fs) q | Some s \<Rightarrow> map_of (fs_files fs) s))"
  using assms
proof (induction ms arbitrary: fs)
  case (Cons m ms)
  obtain s d where m: "m = (s, d)" by (cases m)
  obtain c where c: "map_of (fs_files fs) (Clean s) = Some c" using Cons.prems(2) by (auto simp: m settings_there_def)
  let ?fs = "fs\<lparr>fs_files := AList.update (Clean d) c (fs_files fs)\<rparr>"
  have cp: "CopyTo s d fs = (None, ?fs)"
    using CopyTo_ok[OF Cons.prems(1) c] Cons.prems(2) by (simp add: m settings_there_def)
  have ok: "settings_there ms ?fs" using Cons.prems(2) by (auto simp: m settings_there_def list_all_iff update_conv')
  obtain fs' where fs': "ResetSystemConfig ms ?fs = (None, fs')" "fs_dirs fs' = fs_dirs fs"
    "\<And>q. map_of (fs_files fs') q = (case map_of (map (\<lambda>(s, d). (Clean d, Clean s)) ms) q of
         None \<Rightarrow> map_of (fs_files ?fs) q | Some s \<Rightarrow> map_of (fs_files ?fs) s)"
    using Cons.IH[OF _ ok] Cons.prems(1,3,4) by (force simp: m)
  have new: "map_of (map (\<lambda>(s, d). (Clean d, Clean s)) ms) (Clean d) = None"
    using Cons.prems(3) by (force simp: m map_of_eq_None_iff)
  have src: "map_of (map (\<lambda>(s, d). (Clean d, Clean s)) ms) q = Some r \<Longrightarrow> r \<noteq> Clean d" for q r
    using Cons.prems(4) by (force simp: m dest!: map_of_SomeD)
  show ?case using cp fs'(1,2) fs'(3) new c
    by (auto simp: m update_conv' split: option.splits dest: src)
qed simp

lemma mapSettings_apart:
  "distinct (map (Clean \<circ> snd) mapSettings)"
  "\<forall>(s, d) \<in> set mapSettings. \<forall>(s', d') \<in> set mapSettings. Clean s \<noteq> Clean d'"
  by code_simp+

text \<open>For the settings of the source: a reset gives every configuration file the content of its backup.\<close>

theorem reset_mapSettings:
  assumes "\<And>q. \<not> denied fs q" "settings_there mapSettings fs" "(s, d) \<in> set mapSettings"
  shows "\<exists>fs'. ResetSystemConfig mapSettings fs = (None, fs')
    \<and> map_of (fs_files fs') (Clean d) = map_of (fs_files fs) (Clean s)"
proof -
  have "map_of (map (\<lambda>(s, d). (Clean d, Clean s)) mapSettings) (Clean d) = Some (Clean s)"
    using assms(3) mapSettings_apart(1) by (intro map_of_is_SomeI) (force simp: comp_def case_prod_unfold)+
  then show ?thesis using reset_restores[OF assms(1,2) mapSettings_apart] by fastforce
qed

end
