(* ===== verification/WebApi.thy ===== *)
theory WebApi
  imports FileService OpLog
begin

text \<open>
  The web interface of the device, \<open>src/web\<close>: the routes with their middleware (\<open>route/route.go\<close>,
  \<open>route/utils.go\<close>), the replies (\<open>controller/utils\<close>), login and password, the operation log, the time
  settings, the name of the device and the network interfaces (\<open>controller/system\<close>). Settings are kept
  in the key-value store of \<open>FileService\<close>, and the operation log is that of \<open>OpLog\<close>.
\<close>

section \<open>Requests, replies and state\<close>

record interfaceInfo =
  ii_Name :: string
  ii_IP :: string
  ii_Mask :: int
  ii_Gateway :: string
  ii_Nameserver :: "string list"

datatype web_data =
    NoData | Oplogs "LogMessage list" int | NanoTime int | DeviceInfo string string string string
  | Interfaces "interfaceInfo list" | OneInterface interfaceInfo | UpdateStarted string

datatype web_reply = Json int web_data | Reason int string web_data | Plain int string | RawBody string

text \<open>What a handler panics with: an \<open>HTTPError\<close>, another error, or no error at all.\<close>

datatype web_panic = HTTPError int string | OtherError string

text \<open>
  A request: the query gives the values of a key, the body is an error on the left, and \<open>rq_user\<close> is the user
  in the session of its cookie, if it has one that decodes.
\<close>

record web_req =
  rq_method :: string
  rq_path :: string
  rq_query :: "(string, string list) gomap"
  rq_body :: "string + string"
  rq_user :: "bool option"

text \<open>
  The device as the handlers see it: the files, the operation log, the commands that the handlers ran; the
  fields of the update manager they share with its goroutine (\<open>wb_updating\<close>: the status is \<open>UPDATING\<close>; the
  target version; how often the goroutine was signalled); the replies; the sessions that were issued, each
  with its user and whether it expires at once.
\<close>

record web_state =
  wb_fs :: file_sys
  wb_log :: string
  wb_cmds :: "string list"
  wb_updating :: bool
  wb_target :: "(string, string) gomap"
  wb_signals :: nat
  wb_out :: "web_reply list"
  wb_issued :: "(bool \<times> bool) list"

record ntpConfig =
  nc_Enabled :: bool
  nc_ServerAddr :: string

record timeConfig =
  tc_TimeZONE :: string
  tc_Ntp :: ntpConfig

text \<open>
  The libraries and the machine. The decoders of the bodies; \<open>merge_patch\<close> of the package \<open>jsonpatch\<close>; \<open>cmd_err\<close>: the
  error of a command; \<open>render_conf\<close>: what \<open>config.TimdsyncdCfg\<close> runs as an effect; \<open>e_unix\<close>: \<open>time.Unix\<close>; \<open>show_nanos\<close>: a
  number of nanoseconds printed as seconds; \<open>save_err\<close>: the error of saving a session; \<open>target_json\<close>:
  \<open>json.MarshalIndent\<close> of a map of strings, which does not fail.
\<close>

record web_env =
  login_json :: "string \<Rightarrow> string + string"
  passwd_json :: "string \<Rightarrow> string + string \<times> string"
  name_json :: "string \<Rightarrow> string + string \<times> bool"
  time_json :: "string \<Rightarrow> string + int"
  conf_json :: "string \<Rightarrow> string + timeConfig"
  deb_json :: "string \<Rightarrow> string + (string, string) gomap"
  merge_patch :: "string \<Rightarrow> string \<Rightarrow> string + string"
  default_conf :: string
  cmd_err :: "string \<Rightarrow> string option"
  e_now :: gtime
  e_nanos :: int
  e_unix :: "int \<Rightarrow> gtime"
  show_nanos :: "int \<Rightarrow> string"
  err_text :: "fs_error \<Rightarrow> string"
  save_err :: "string option"
  e_ping :: "string \<Rightarrow> bool"
  device_info :: "string + string \<times> string"
  firmware :: string
  target_json :: "(string, string) gomap \<Rightarrow> string"
  e_interfaces :: "string + (string \<times> (string + (string \<times> int) option list)) list"
  e_gateway :: "string \<Rightarrow> string option"
  e_nameservers :: "string \<Rightarrow> string list option"

type_synonym web_handler = "web_req \<Rightarrow> web_state \<Rightarrow> web_panic option \<times> web_state"

section \<open>Replies\<close>

definition web_write :: "web_reply \<Rightarrow> web_state \<Rightarrow> web_state" where
  "web_write x s = s\<lparr>wb_out := wb_out s @ [x]\<rparr>"

text \<open>\<open>RespondJSON\<close> writes nothing for a nil object.\<close>

definition RespondJSON :: "web_data option \<Rightarrow> int \<Rightarrow> web_state \<Rightarrow> web_state" where
  "RespondJSON obj statusCode s = (case obj of None \<Rightarrow> s | Some d \<Rightarrow> web_write (Json statusCode d) s)"

definition RespondReasonJSON :: "web_data \<Rightarrow> string \<Rightarrow> int \<Rightarrow> web_state \<Rightarrow> web_state" where
  "RespondReasonJSON obj reason statusCode = web_write (Reason statusCode reason obj)"

definition RespondSuccessJSON :: "web_data \<Rightarrow> web_state \<Rightarrow> web_state" where
  "RespondSuccessJSON obj = RespondReasonJSON obj ''success'' 200"

definition web_Error :: "web_panic \<Rightarrow> int \<Rightarrow> web_state \<Rightarrow> web_state" where
  "web_Error err code = (case err of
       HTTPError c e \<Rightarrow> RespondReasonJSON NoData e c
     | OtherError e \<Rightarrow> RespondReasonJSON NoData e code)"

definition GetPageInfo :: "web_req \<Rightarrow> int \<times> int" where
  "GetPageInfo r =
     (let v = (case map_of (rq_query r) ''offset'' of None \<Rightarrow> [] | Some v \<Rightarrow> v);
          offset = (if length v = 1 then (case Atoi (v ! 0) of Some n \<Rightarrow> n
              | None \<Rightarrow> (case parse_int (v ! 0) of None \<Rightarrow> 0 | Some n \<Rightarrow> if n < 0 then - (2 ^ 63) else 2 ^ 63 - 1)) else 0);
          p = (case map_of (rq_query r) ''page'' of None \<Rightarrow> [] | Some v \<Rightarrow> v)
      in (offset, if length p = 0 then 65536 else 10))"

section \<open>Middleware\<close>

definition recoverMiddleware :: "web_handler \<Rightarrow> web_req \<Rightarrow> web_state \<Rightarrow> web_state" where
  "recoverMiddleware next r s = (case next r s of
       (None, s') \<Rightarrow> s'
     | (Some p, s') \<Rightarrow> web_Error p 500 s')"

definition GetSessionUser :: "web_req \<Rightarrow> bool" where
  "GetSessionUser r = (case rq_user r of None \<Rightarrow> False | Some a \<Rightarrow> a)"

definition requireLoginMiddleware :: "web_handler \<Rightarrow> web_handler" where
  "requireLoginMiddleware next r s =
     (if \<not> GetSessionUser r then (None, web_write (Plain 401 ''Unauthorized'') s) else next r s)"

section \<open>Login and password\<close>

definition store_dir :: string where
  "store_dir = ''/edge/store''"

definition log_op :: "web_env \<Rightarrow> string \<Rightarrow> string \<Rightarrow> web_state \<Rightarrow> web_state" where
  "log_op E t msg s = s\<lparr>wb_log := oplog_Insert (NewOplog (e_now E) t msg) (wb_log s)\<rparr>"

definition saveSessionUser :: "web_env \<Rightarrow> bool \<Rightarrow> bool \<Rightarrow> web_state \<Rightarrow> string option \<times> web_state" where
  "saveSessionUser E auth expires s = (case save_err E of
       Some e \<Rightarrow> (Some e, s)
     | None \<Rightarrow> (None, s\<lparr>wb_issued := wb_issued s @ [(auth, expires)]\<rparr>))"

definition getPassword :: "web_state \<Rightarrow> fs_error + string" where
  "getPassword s = kv_GetDefault store_dir ''password'' [] (wb_fs s)"

definition read_json :: "(string \<Rightarrow> string + 'a) \<Rightarrow> web_req \<Rightarrow> string + 'a" where
  "read_json decode r = (case rq_body r of Inl e \<Rightarrow> Inl e | Inr b \<Rightarrow> decode b)"

definition PostLogin :: "web_env \<Rightarrow> web_handler" where
  "PostLogin E r s =
     (case read_json (login_json E) r of
        Inl e \<Rightarrow> (Some (OtherError e), s)
      | Inr given \<Rightarrow>
          (case getPassword s of
             Inl e \<Rightarrow> (Some (OtherError (err_text E e)), s)
           | Inr password \<Rightarrow>
               (if password \<noteq> given then (Some (HTTPError 401 ''password incorrect.''), s)
                else (case saveSessionUser E True False s of
                        (Some e, s1) \<Rightarrow> (Some (OtherError e), s1)
                      | (None, s1) \<Rightarrow> (None, log_op E ''AUTH'' ''somce one login'' s1)))))"

definition PostLogout :: "web_env \<Rightarrow> web_handler" where
  "PostLogout E r s = (case saveSessionUser E False True s of
       (Some e, s1) \<Rightarrow> (Some (OtherError e), s1)
     | (None, s1) \<Rightarrow> (None, log_op E ''AUTH'' ''somce one logout'' s1))"

definition SetPasswordHandler :: "web_env \<Rightarrow> web_handler" where
  "SetPasswordHandler E r s =
     (case read_json (passwd_json E) r of
        Inl e \<Rightarrow> (Some (OtherError e), s)
      | Inr (old_password, new_password) \<Rightarrow>
          (case getPassword s of
             Inl e \<Rightarrow> (Some (OtherError (err_text E e)), s)
           | Inr oldPassword \<Rightarrow>
               (if oldPassword \<noteq> old_password then (Some (HTTPError 400 ''old password incorrect.''), s)
                else (case kv_Set store_dir ''password'' new_password (wb_fs s) of
                        (Some e, fs) \<Rightarrow> (Some (OtherError (err_text E e)), s\<lparr>wb_fs := fs\<rparr>)
                      | (None, fs) \<Rightarrow> (None, RespondSuccessJSON NoData (log_op E ''AUTH'' ''change passwd'' (s\<lparr>wb_fs := fs\<rparr>)))))))"

section \<open>The operation log\<close>

text \<open>
  The part of the result that is shown. When the page ends exactly at the end of the list none of the
  three branches is taken. Slicing from a negative offset panics.
\<close>

definition page_slice :: "int \<Rightarrow> int \<Rightarrow> 'a list \<Rightarrow> 'a list option" where
  "page_slice offset limit xs =
     (let n = int (length xs); e = wrap64 (offset + limit) in
      if offset > n then Some []
      else if e < n then (if 0 \<le> offset \<and> offset \<le> e then Some (drop (nat offset) (take (nat e) xs)) else None)
      else if e > n then (if 0 \<le> offset then Some (drop (nat offset) xs) else None)
      else Some xs)"

definition query_first :: "string \<Rightarrow> web_req \<Rightarrow> string option" where
  "query_first k r = (case map_of (rq_query r) k of None \<Rightarrow> None | Some v \<Rightarrow> if v = [] then None else Some (v ! 0))"

text \<open>The type is indexed before it is known to be there. A panic of the log's reader ends the handler as well.\<close>

definition GetOplog :: "web_env \<Rightarrow> web_handler" where
  "GetOplog E r s =
     (case query_first ''from'' r of
        None \<Rightarrow> (None, RespondReasonJSON NoData ''notfound args from'' 400 s)
      | Some fromStr \<Rightarrow>
     (case query_first ''until'' r of
        None \<Rightarrow> (None, RespondReasonJSON NoData ''notfound args util'' 400 s)
      | Some untilStr \<Rightarrow>
     (case query_first ''type'' r of
        None \<Rightarrow> (Some (OtherError ''runtime error: index out of range''), s)
      | Some t \<Rightarrow>
     (case Atoi fromStr of
        None \<Rightarrow> (None, RespondReasonJSON NoData ''invalid args from'' 400 s)
      | Some from \<Rightarrow>
     (case Atoi untilStr of
        None \<Rightarrow> (None, RespondReasonJSON NoData ''invalid args util'' 400 s)
      | Some until \<Rightarrow>
     (case FindMany [DefaultTimeFilter (e_unix E from) (e_unix E until), DefaultTypeFilter (if t = [] then ''all'' else t)] (wb_log s) of
        Ret findResult \<Rightarrow>
          (case page_slice (fst (GetPageInfo r)) (snd (GetPageInfo r)) findResult of
             None \<Rightarrow> (Some (OtherError ''runtime error: slice bounds out of range''), s)
           | Some page \<Rightarrow> (None, RespondSuccessJSON (Oplogs page (int (length findResult))) s))
      | Panic \<Rightarrow> (Some (OtherError ''runtime error: index out of range''), s)
      | Hang \<Rightarrow> (None, s)))))))"

section \<open>Time\<close>

definition web_command :: "web_env \<Rightarrow> string \<Rightarrow> web_state \<Rightarrow> string option \<times> web_state" where
  "web_command E c s = (cmd_err E c, s\<lparr>wb_cmds := wb_cmds s @ [c]\<rparr>)"

definition SetTime :: "web_env \<Rightarrow> web_handler" where
  "SetTime E r s =
     (case read_json (time_json E) r of
        Inl e \<Rightarrow> (Some (OtherError e), s)
      | Inr t \<Rightarrow>
          (case web_command E (''date -u --set=@'' @ show_nanos E t @ '' && hwclock -w'') s of
             (Some e, s1) \<Rightarrow> (Some (OtherError e), s1)
           | (None, s1) \<Rightarrow> (None, RespondJSON None 200 (log_op E ''DEVICE'' (''set time '' @ time_Format (e_unix E t)) s1))))"

definition GetTime :: "web_env \<Rightarrow> web_handler" where
  "GetTime E r s = (None, RespondJSON (Some (NanoTime (e_nanos E))) 200 s)"

definition GetNtpConfig :: "web_env \<Rightarrow> web_handler" where
  "GetNtpConfig E r s =
     (case kv_GetDefault store_dir ''time_config'' (default_conf E) (wb_fs s) of
        Inl e \<Rightarrow> (Some (OtherError (err_text E e)), s)
      | Inr data \<Rightarrow> (None, web_write (RawBody data) s))"

definition TestNtpConfig :: "web_env \<Rightarrow> web_handler" where
  "TestNtpConfig E r s =
     (case read_json (conf_json E) r of
        Inl e \<Rightarrow> (Some (OtherError e), s)
      | Inr c \<Rightarrow> (if \<not> e_ping E (nc_ServerAddr (tc_Ntp c))
                   then (Some (OtherError (''The ntp server arn'' @ [CHR 0x27] @ ''t reachable'')), s)
                   else (None, RespondSuccessJSON NoData s)))"

definition patchConfig :: "web_env \<Rightarrow> string \<Rightarrow> string \<Rightarrow> string + timeConfig \<times> timeConfig \<times> string" where
  "patchConfig E oldData patch =
     (case merge_patch E oldData patch of
        Inl e \<Rightarrow> Inl e
      | Inr newData \<Rightarrow>
          (case conf_json E oldData of
             Inl e \<Rightarrow> Inl e
           | Inr old \<Rightarrow> (case conf_json E newData of Inl e \<Rightarrow> Inl e | Inr new \<Rightarrow> Inr (old, new, newData))))"

text \<open>The timezone, the server, and the switch of the synchronisation; the first error that is not ignored ends it.\<close>

definition apply_time_config :: "web_env \<Rightarrow> timeConfig \<Rightarrow> timeConfig \<Rightarrow> web_state \<Rightarrow> string option \<times> web_state" where
  "apply_time_config E old new s =
     (case (if tc_TimeZONE old \<noteq> tc_TimeZONE new then web_command E (''timedatectl set-timezone '' @ tc_TimeZONE new) s else (None, s)) of
        (Some e, s1) \<Rightarrow> (Some e, s1)
      | (None, s1) \<Rightarrow>
          (let s2 = s1\<lparr>wb_cmds := wb_cmds s1 @ [''TimdsyncdCfg '' @ nc_ServerAddr (tc_Ntp new)]\<rparr>;
               s3 = snd (web_command E ''timedatectl set-ntp false'' s2)
           in if nc_Enabled (tc_Ntp new) then web_command E ''timedatectl set-ntp true'' s3 else (None, s3)))"

definition SetNtpConfig :: "web_env \<Rightarrow> web_handler" where
  "SetNtpConfig E r s =
     (if query_first ''test'' r = Some ''true'' then TestNtpConfig E r s
      else case rq_body r of
        Inl e \<Rightarrow> (Some (OtherError e), s)
      | Inr patch \<Rightarrow>
          (case kv_GetDefault store_dir ''time_config'' (default_conf E) (wb_fs s) of
             Inl e \<Rightarrow> (Some (OtherError (err_text E e)), s)
           | Inr oldData \<Rightarrow>
               (case patchConfig E oldData patch of
                  Inl e \<Rightarrow> (None, RespondReasonJSON NoData ''Config not valid'' 400 s)
                | Inr (old, new, newData) \<Rightarrow>
                    (case kv_Set store_dir ''time_config'' newData (wb_fs s) of
                       (Some e, fs) \<Rightarrow> (Some (OtherError (err_text E e)), s\<lparr>wb_fs := fs\<rparr>)
                     | (None, fs) \<Rightarrow>
                         (case apply_time_config E old new (s\<lparr>wb_fs := fs\<rparr>) of
                            (Some e, s1) \<Rightarrow> (Some (OtherError e), s1)
                          | (None, s1) \<Rightarrow> (None, RespondJSON None 200 (log_op E ''DEVICE'' (''set ntp time server '' @ patch) s1)))))))"

section \<open>The device\<close>

definition GetDeviceInfo :: "web_env \<Rightarrow> web_handler" where
  "GetDeviceInfo E r s =
     (case device_info E of
        Inl e \<Rightarrow> (Some (OtherError e), s)
      | Inr (workerID, deviceType) \<Rightarrow>
          (let name = (case kv_GetDefault store_dir ''name'' workerID (wb_fs s) of Inl e \<Rightarrow> [] | Inr d \<Rightarrow> d)
           in (None, RespondJSON (Some (DeviceInfo name workerID deviceType (firmware E))) 200 s)))"

definition SetDeviceName :: "web_env \<Rightarrow> web_handler" where
  "SetDeviceName E r s =
     (case read_json (name_json E) r of
        Inl e \<Rightarrow> (Some (OtherError e), s)
      | Inr (name, skip) \<Rightarrow>
          (case kv_Set store_dir ''name'' name (wb_fs s) of
             (Some e, fs) \<Rightarrow> (Some (OtherError (err_text E e)), s\<lparr>wb_fs := fs\<rparr>)
           | (None, fs) \<Rightarrow> (None, RespondSuccessJSON NoData (s\<lparr>wb_fs := fs\<rparr>))))"

definition Reboot :: "web_env \<Rightarrow> web_handler" where
  "Reboot E r s =
     (case web_command E ''reboot'' (log_op E ''DEVICE'' ''rebbot'' s) of
        (Some e, s1) \<Rightarrow> (Some (OtherError e), s1)
      | (None, s1) \<Rightarrow> (None, RespondSuccessJSON NoData s1))"

text \<open>
  \<open>SetTargetVersion\<close> of the update manager: the target is set, then written to its file, then the
  goroutine of the updates is signalled (it installs the target with \<open>apt\<close>, see the theory \<open>Updates\<close>). The result is
  \<open>None\<close> for success, otherwise whether the error is \<open>ErrUpdating\<close>, and its text.
\<close>

definition TARGETVERSION :: string where
  "TARGETVERSION = ''/etc/edgetarget''"

definition web_SetTargetVersion :: "web_env \<Rightarrow> (string, string) gomap \<Rightarrow> web_state \<Rightarrow> (bool \<times> string) option \<times> web_state" where
  "web_SetTargetVersion E version s =
     (if wb_updating s then (Some (True, ''updating''), s)
      else (let s1 = s\<lparr>wb_target := version\<rparr> in
        case fs_Write TARGETVERSION (target_json E version) (wb_fs s1) of
          (Some e, fs) \<Rightarrow> (Some (False, err_text E e), s1\<lparr>wb_fs := fs\<rparr>)
        | (None, fs) \<Rightarrow> (None, s1\<lparr>wb_fs := fs, wb_signals := Suc (wb_signals s1)\<rparr>)))"

definition UpdateByDeb :: "web_env \<Rightarrow> web_handler" where
  "UpdateByDeb E r s =
     (case read_json (deb_json E) r of
        Inl e \<Rightarrow> (Some (OtherError e), s)
      | Inr target \<Rightarrow>
          (case web_SetTargetVersion E target s of
             (Some (True, e), s1) \<Rightarrow> (None, RespondReasonJSON NoData ''machine is busy to updating, please update later'' 400 s1)
           | (Some (False, e), s1) \<Rightarrow> (Some (OtherError e), s1)
           | (None, s1) \<Rightarrow>
               (case device_info E of
                  Inl e \<Rightarrow> (Some (OtherError e), s1)
                | Inr (workerID, t) \<Rightarrow>
                    (None, RespondJSON (Some (UpdateStarted workerID)) 200 (log_op E ''UPDATE''
                       (''updated online '' @ (case map_of target ''jx-toolset'' of None \<Rightarrow> [] | Some v \<Rightarrow> v)) s1)))))"

section \<open>Network interfaces\<close>

text \<open>An address: \<open>None\<close> for one that is no version 4 address, otherwise its text and the length of the default mask of its class.\<close>

fun first_v4 :: "(string \<times> int) option list \<Rightarrow> (string \<times> int) option" where
  "first_v4 [] = None"
| "first_v4 (None # as) = first_v4 as"
| "first_v4 (Some a # as) = Some a"

definition parseInterfaceInfo :: "web_env \<Rightarrow> string \<Rightarrow> string + (string \<times> int) option list \<Rightarrow> string + interfaceInfo" where
  "parseInterfaceInfo E name addrs =
     (case addrs of
        Inl e \<Rightarrow> Inl e
      | Inr as \<Rightarrow>
          (case first_v4 as of
             None \<Rightarrow> Inl (''network info for interface '' @ [CHR 0x22] @ name @ [CHR 0x22] @ '' not found'')
           | Some (ip, m) \<Rightarrow> Inr \<lparr>ii_Name = name, ii_IP = ip, ii_Mask = m,
               ii_Gateway = (case e_gateway E name of None \<Rightarrow> [] | Some g \<Rightarrow> g),
               ii_Nameserver = (case e_nameservers E name of None \<Rightarrow> [] | Some ns \<Rightarrow> ns)\<rparr>))"

definition shown_iface :: "string \<Rightarrow> bool" where
  "shown_iface n \<longleftrightarrow> \<not> (has_prefix n ''veth'' \<or> has_prefix n ''br-'' \<or> has_prefix n ''docker'' \<or> has_prefix n ''lo'')"

definition GetNetworkInterfaces :: "web_env \<Rightarrow> web_handler" where
  "GetNetworkInterfaces E r s =
     (case e_interfaces E of
        Inl e \<Rightarrow> (Some (OtherError e), s)
      | Inr is \<Rightarrow> (None, RespondSuccessJSON (Interfaces (List.map_filter (\<lambda>(n, as).
          if shown_iface n then (case parseInterfaceInfo E n as of Inl e \<Rightarrow> None | Inr i \<Rightarrow> Some i) else None) is)) s))"

definition GetNetworkInterfaceByName :: "web_env \<Rightarrow> string \<Rightarrow> web_handler" where
  "GetNetworkInterfaceByName E name r s =
     (case e_interfaces E of
        Inl e \<Rightarrow> (Some (OtherError e), s)
      | Inr is \<Rightarrow>
          (case map_of is name of
             None \<Rightarrow> (Some (OtherError ''route ip+net: no such network interface''), s)
           | Some as \<Rightarrow> (case parseInterfaceInfo E name as of
                            Inl e \<Rightarrow> (Some (OtherError e), s)
                          | Inr i \<Rightarrow> (None, RespondSuccessJSON (OneInterface i) s))))"

text \<open>The format of the record prints a bool as a string.\<close>

definition EnableFourGInterface :: "web_env \<Rightarrow> web_handler" where
  "EnableFourGInterface E r s =
     (case ParseBool (case query_first ''enable'' r of None \<Rightarrow> [] | Some v \<Rightarrow> v) of
        None \<Rightarrow> (None, RespondReasonJSON NoData ''pare args error'' 400 s)
      | Some enable \<Rightarrow>
          (case web_command E (if enable then ''ifup usb0'' else ''ifdown usb0'') s of
             (Some e, s1) \<Rightarrow> (None, RespondReasonJSON NoData (''operated faild with err : '' @ e) 400 s1)
           | (None, s1) \<Rightarrow> (None, RespondSuccessJSON NoData
               (log_op E ''NETWORKE'' (''set 4g %!s(bool='' @ (if enable then ''true'' else ''false'') @ '')'') s1))))"

section \<open>Routes\<close>

text \<open>
  The handlers behind the login, by method and path below \<open>/api/v1\<close>; \<open>other\<close> stands for those that are not
  modelled here (upgrade by upload, drivers and their proxy, the 4G state).
\<close>

definition iface_path :: "string \<Rightarrow> string option" where
  "iface_path q = (if has_prefix q ''/network/interface/'' then
       (let n = drop 19 q in if n \<noteq> [] \<and> CHR ''/'' \<notin> set n then Some n else None) else None)"

definition driver_path :: "string \<Rightarrow> bool" where
  "driver_path q \<longleftrightarrow> has_prefix q ''/driver/'' \<and> length q > 8 \<and> q ! 8 \<noteq> CHR ''/''"

definition secret_handler :: "web_env \<Rightarrow> (string \<Rightarrow> web_handler) \<Rightarrow> string \<Rightarrow> string \<Rightarrow> web_handler option" where
  "secret_handler E other m q =
     (if m = ''POST'' \<and> q = ''/system/upgrade'' then Some (other ''UploadAndUpdate'')
      else if m = ''POST'' \<and> q = ''/system/reboot'' then Some (Reboot E)
      else if m = ''GET'' \<and> q = ''/settings/time'' then Some (GetNtpConfig E)
      else if m = ''POST'' \<and> q = ''/settings/time'' then Some (SetNtpConfig E)
      else if m = ''GET'' \<and> q = ''/time'' then Some (GetTime E)
      else if m = ''POST'' \<and> q = ''/time'' then Some (SetTime E)
      else if m = ''GET'' \<and> q = ''/node/info'' then Some (GetDeviceInfo E)
      else if m = ''POST'' \<and> q = ''/node/name'' then Some (SetDeviceName E)
      else if m = ''GET'' \<and> q = ''/drivers'' then Some (other ''GetEdgexDrivers'')
      else if m = ''POST'' \<and> q = ''/drivers'' then Some (other ''PostInstallDriver'')
      else if driver_path q then Some (other ''Proxy'')
      else if m = ''GET'' \<and> q = ''/network/interfaces'' then Some (GetNetworkInterfaces E)
      else if m = ''GET'' \<and> iface_path q \<noteq> None then Some (GetNetworkInterfaceByName E (the (iface_path q)))
      else if m = ''GET'' \<and> q = ''/network/interfaces/fourg'' then Some (other ''GetFourGInterface'')
      else if m = ''POST'' \<and> q = ''/network/interfaces/fourg'' then Some (EnableFourGInterface E)
      else if m = ''POST'' \<and> q = ''/system/password'' then Some (SetPasswordHandler E)
      else None)"

text \<open>\<open>static\<close>: what the file server and the download of the log answer.\<close>

definition serve_static :: "(web_req \<Rightarrow> web_reply) \<Rightarrow> web_handler" where
  "serve_static static r s = (None, web_write (static r) s)"

definition web_route :: "web_env \<Rightarrow> (string \<Rightarrow> web_handler) \<Rightarrow> (web_req \<Rightarrow> web_reply) \<Rightarrow> web_req \<Rightarrow> web_handler" where
  "web_route E other static r =
     (let m = rq_method r; p = rq_path r; q = drop 7 p in
      if m = ''POST'' \<and> p = ''/edgenode/exec/update'' then UpdateByDeb E
      else if has_prefix p ''/api/v1'' then
        (if m = ''GET'' \<and> q = ''/log'' then GetOplog E
         else if m = ''POST'' \<and> q = ''/login'' then PostLogin E
         else if m = ''POST'' \<and> q = ''/logout'' then PostLogout E
         else (case secret_handler E other m q of
                 Some h \<Rightarrow> requireLoginMiddleware h
               | None \<Rightarrow> serve_static static))
      else serve_static static)"

definition web_serve :: "web_env \<Rightarrow> (string \<Rightarrow> web_handler) \<Rightarrow> (web_req \<Rightarrow> web_reply) \<Rightarrow> web_req \<Rightarrow> web_state \<Rightarrow> web_state" where
  "web_serve E other static r s = recoverMiddleware (web_route E other static r) r s"

section \<open>The login protects the device\<close>

text \<open>
  The cookies are signed: the user of a request is one of a session that was issued. Each request finds the
  update manager in some status. A run of requests stops at one that is not possible.
\<close>

definition admissible :: "web_state \<Rightarrow> web_req \<Rightarrow> bool" where
  "admissible s r \<longleftrightarrow> (case rq_user r of None \<Rightarrow> True | Some a \<Rightarrow> a \<in> fst ` set (wb_issued s))"

fun web_run :: "web_env \<Rightarrow> (string \<Rightarrow> web_handler) \<Rightarrow> (web_req \<Rightarrow> web_reply) \<Rightarrow> (bool \<times> web_req) list \<Rightarrow> web_state \<Rightarrow> web_state option" where
  "web_run E other static [] s = Some s"
| "web_run E other static ((updating, r) # rs) s =
     (if admissible s r then web_run E other static rs (web_serve E other static r (s\<lparr>wb_updating := updating\<rparr>)) else None)"

definition is_login :: "web_req \<Rightarrow> bool" where
  "is_login r \<longleftrightarrow> rq_method r = ''POST'' \<and> rq_path r = ''/api/v1/login''"

definition is_update :: "web_req \<Rightarrow> bool" where
  "is_update r \<longleftrightarrow> rq_method r = ''POST'' \<and> rq_path r = ''/edgenode/exec/update''"

text \<open>
  What a handler outside of the login leaves alone: every file and directory but the operation log and the file
  of the update target, the commands, the sessions of a user; the handlers other than that of the update, this file and the
  update manager as well.
\<close>

definition same_but_target :: "file_sys \<Rightarrow> file_sys \<Rightarrow> bool" where
  "same_but_target fs fs' \<longleftrightarrow> fs_dirs fs' = fs_dirs fs \<and> denied fs' = denied fs
     \<and> (\<forall>p. p \<noteq> TARGETVERSION \<longrightarrow> map_of (fs_files fs') p = map_of (fs_files fs) p)"

definition untouched :: "web_state \<Rightarrow> web_state \<Rightarrow> bool" where
  "untouched s s' \<longleftrightarrow> wb_fs s' = wb_fs s \<and> wb_target s' = wb_target s \<and> wb_signals s' = wb_signals s"

definition web_keeps :: "bool \<Rightarrow> web_state \<Rightarrow> web_state \<Rightarrow> bool" where
  "web_keeps update s s' \<longleftrightarrow> same_but_target (wb_fs s) (wb_fs s') \<and> wb_cmds s' = wb_cmds s
     \<and> (\<forall>a \<in> set (wb_issued s'). a \<in> set (wb_issued s) \<or> \<not> fst a) \<and> (\<not> update \<longrightarrow> untouched s s')"

lemma same_but_target_refl [simp]: "same_but_target fs fs"
  by (simp add: same_but_target_def)

lemma same_but_target_trans: "same_but_target a b \<Longrightarrow> same_but_target b c \<Longrightarrow> same_but_target a c"
  by (simp add: same_but_target_def)

lemma web_keeps_refl [simp]: "web_keeps u s s"
  by (simp add: web_keeps_def untouched_def)

lemma web_reply_keeps [simp]:
  "web_keeps u s (RespondReasonJSON d m c s') = web_keeps u s s'" "web_keeps u s (RespondSuccessJSON d s') = web_keeps u s s'"
  "web_keeps u s (RespondJSON o1 c s') = web_keeps u s s'" "web_keeps u s (web_write x s') = web_keeps u s s'"
  "web_keeps u s (log_op E t m s') = web_keeps u s s'" "web_keeps u s (web_Error p c s') = web_keeps u s s'"
  by (simp_all add: web_keeps_def untouched_def RespondReasonJSON_def RespondSuccessJSON_def RespondJSON_def web_write_def
        log_op_def web_Error_def split: option.splits web_panic.splits)

lemma target_write: "fs_Write TARGETVERSION c fs = (e, fs') \<Longrightarrow> same_but_target fs fs'"
proof -
  have "Clean TARGETVERSION = TARGETVERSION" by code_simp
  then show "fs_Write TARGETVERSION c fs = (e, fs') \<Longrightarrow> same_but_target fs fs'"
    by (auto simp: fs_Write_def same_but_target_def Let_def map_of_update split: if_splits)
qed

lemma set_target_keeps: "web_SetTargetVersion E v s = (x, s') \<Longrightarrow> web_keeps True s s'"
  by (auto simp: web_SetTargetVersion_def web_keeps_def Let_def split: if_splits prod.splits option.splits dest: target_write)

lemma open_handlers_keep:
  "web_keeps u s (snd (GetOplog E r s))" "web_keeps True s (snd (UpdateByDeb E r s))" "web_keeps u s (snd (PostLogout E r s))"
  "web_keeps u s (snd (serve_static static r s))"
proof -
  show "web_keeps u s (snd (GetOplog E r s))" by (simp add: GetOplog_def split: option.splits go.splits)
  show "web_keeps True s (snd (UpdateByDeb E r s))"
    by (auto simp: UpdateByDeb_def split: option.splits sum.splits prod.splits bool.splits dest: set_target_keeps)
  show "web_keeps u s (snd (PostLogout E r s))"
    by (auto simp: PostLogout_def saveSessionUser_def web_keeps_def untouched_def log_op_def split: option.splits)
  show "web_keeps u s (snd (serve_static static r s))" by (simp add: serve_static_def)
qed

lemma wrong_login_keeps: "getPassword s = Inr pw \<Longrightarrow> read_json (login_json E) r \<noteq> Inr pw \<Longrightarrow> web_keeps u s (snd (PostLogin E r s))"
  by (auto simp: PostLogin_def split: sum.splits)

lemma no_session_keeps: "\<not> GetSessionUser r \<Longrightarrow> web_keeps u s (snd (requireLoginMiddleware h r s))"
  by (simp add: requireLoginMiddleware_def)

lemma serve_keeps:
  assumes "getPassword s = Inr pw" "is_login r \<Longrightarrow> read_json (login_json E) r \<noteq> Inr pw" "\<not> GetSessionUser r"
  shows "web_keeps (is_update r) s (web_serve E other static r s)"
proof -
  have l: "rq_method r = ''POST'' \<Longrightarrow> has_prefix (rq_path r) ''/api/v1'' \<Longrightarrow> drop 7 (rq_path r) = ''/login'' \<Longrightarrow> is_login r"
    by (auto simp: is_login_def has_prefix_iff)
  have "web_keeps (is_update r) s (snd (web_route E other static r r s))"
  proof (cases "is_update r")
    case True
    then show ?thesis using open_handlers_keep(2) by (simp add: web_route_def is_update_def Let_def)
  next
    case False
    then show ?thesis
      using open_handlers_keep(1,3,4) wrong_login_keeps[OF assms(1,2)] no_session_keeps[OF assms(3)] l
      by (auto simp: web_route_def is_update_def Let_def split: option.splits)
  qed
  then show ?thesis by (auto simp: web_serve_def recoverMiddleware_def split: prod.splits option.splits)
qed

lemma password_kept: "same_but_target (wb_fs s) (wb_fs s') \<Longrightarrow> getPassword s' = getPassword s"
proof -
  have "Clean (kv_path store_dir ''password'') \<noteq> TARGETVERSION" by code_simp
  then show "same_but_target (wb_fs s) (wb_fs s') \<Longrightarrow> getPassword s' = getPassword s"
    by (simp add: getPassword_def kv_GetDefault_def kv_Get_def fs_Read_def same_but_target_def Let_def)
qed

lemma locked_run:
  assumes "web_run E other static rs s = Some s'" "\<forall>a \<in> set (wb_issued s). \<not> fst a" "getPassword s = Inr pw"
    "\<forall>(b, r) \<in> set rs. is_login r \<longrightarrow> read_json (login_json E) r \<noteq> Inr pw"
  shows "wb_cmds s' = wb_cmds s \<and> same_but_target (wb_fs s) (wb_fs s') \<and> ((\<forall>(b, r) \<in> set rs. \<not> is_update r) \<longrightarrow> untouched s s')"
  using assms
proof (induction rs arbitrary: s)
  case Nil
  then show ?case by (simp add: untouched_def)
next
  case (Cons q rs)
  obtain b r where q: "q = (b, r)" by (cases q)
  let ?s1 = "s\<lparr>wb_updating := b\<rparr>"
  let ?s = "web_serve E other static r ?s1"
  have "\<not> GetSessionUser r"
    using Cons.prems(1,2) by (auto simp: q admissible_def GetSessionUser_def split: option.splits if_splits)
  moreover have "getPassword ?s1 = Inr pw" using Cons.prems(3) by (simp add: getPassword_def)
  ultimately have k: "web_keeps (is_update r) ?s1 ?s" using Cons.prems(4) by (intro serve_keeps) (auto simp: q)
  then have same: "same_but_target (wb_fs s) (wb_fs ?s)" by (simp add: web_keeps_def)
  then have "getPassword ?s = Inr pw" using password_kept[of s ?s] Cons.prems(3) by simp
  moreover have "\<forall>a\<in>set (wb_issued ?s). \<not> fst a" using k Cons.prems(2) by (auto simp: web_keeps_def)
  ultimately have "wb_cmds s' = wb_cmds ?s \<and> same_but_target (wb_fs ?s) (wb_fs s')
      \<and> ((\<forall>(b, r) \<in> set rs. \<not> is_update r) \<longrightarrow> untouched ?s s')"
    using Cons.IH[of ?s] Cons.prems(1,4) by (auto simp: q split: if_splits)
  with k same show ?case
    by (auto simp: q web_keeps_def untouched_def intro: same_but_target_trans)
qed

text \<open>C18. What the login protects. Whatever requests a client sends, as long as no session was issued before and no
  login has the password of the device, no handler runs a command and, apart from the operation log, every file but
  \<open>/etc/edgetarget\<close> stays as it was, also by the handlers that are not modelled. The one open route to more is
  \<open>POST /edgenode/exec/update\<close>: a client that does not use it leaves that file alone too, sets no update target
  and starts no update.
\<close>

theorem web_locked_without_password:
  assumes "web_run E other static rs s = Some s'" "wb_issued s = []" "getPassword s = Inr pw"
    "\<forall>(b, r) \<in> set rs. is_login r \<longrightarrow> read_json (login_json E) r \<noteq> Inr pw"
  shows "wb_cmds s' = wb_cmds s \<and> same_but_target (wb_fs s) (wb_fs s')
    \<and> ((\<forall>(b, r) \<in> set rs. \<not> is_update r)
         \<longrightarrow> wb_fs s' = wb_fs s \<and> wb_target s' = wb_target s \<and> wb_signals s' = wb_signals s)"
  using locked_run[OF assms(1) _ assms(3,4)] assms(2) by (simp add: untouched_def)

text \<open>
  The route of the update asks for no login: any client sets the target version, overwrites
  \<open>/etc/edgetarget\<close> and starts the update.
\<close>

lemma update_needs_no_login:
  assumes "is_update r" "rq_user r = None" "\<not> wb_updating s" "read_json (deb_json E) r = Inr target"
    and "fs_Write TARGETVERSION (target_json E target) (wb_fs s) = (None, fs)"
  shows "let s' = web_serve E other static r s
    in wb_target s' = target \<and> wb_fs s' = fs \<and> wb_signals s' = Suc (wb_signals s)"
  using assms
  by (auto simp: is_update_def web_serve_def web_route_def recoverMiddleware_def UpdateByDeb_def web_SetTargetVersion_def
      RespondJSON_def web_write_def log_op_def web_Error_def RespondReasonJSON_def Let_def split: sum.splits)

section \<open>Changing the password\<close>

text \<open>The store is usable for a key: its directory exists or can be made, and the file of the key can be written.\<close>

definition store_usable :: "string \<Rightarrow> file_sys \<Rightarrow> bool" where
  "store_usable key fs \<longleftrightarrow> can_make fs store_dir \<and> \<not> denied fs (kv_path store_dir key) \<and> kv_path store_dir key \<notin> set (fs_dirs fs)"

lemma store_dir_abs: "store_dir = abs_path [''edge'', ''store'']" "list_all plain_name [''edge'', ''store'']"
  by code_simp+

lemma store_set_get:
  assumes "plain_name key" "plain_name other" "store_usable key fs"
  shows "\<exists>fs'. kv_Set store_dir key v fs = (None, fs')
    \<and> kv_GetDefault store_dir other d fs' = (if other = key then Inr v else kv_GetDefault store_dir other d fs)"
  using kv_set_get[OF _ store_dir_abs(2) assms(1,2), of fs v d] assms(3)
    kv_path_plain[OF _ store_dir_abs(2) assms(1)]
  by (cases "other = key") (simp_all add: store_usable_def store_dir_abs(1))

lemma password_plain: "plain_name ''password''" "plain_name ''time_config''" "plain_name ''name''"
  by code_simp+

text \<open>
  After a change of the password with the old one, a login with the new password gets a session and
  one with any other password is refused with 401 and gets none.
\<close>

theorem password_change_then_login:
  assumes "getPassword s = Inr old" "read_json (passwd_json E) r = Inr (old, new)" "store_usable ''password'' (wb_fs s)"
    and "read_json (login_json E) r' = Inr given" "save_err E = None"
  shows "\<exists>s1. SetPasswordHandler E r s = (None, s1)
    \<and> (given = new \<longrightarrow> (\<exists>s2. PostLogin E r' s1 = (None, s2) \<and> wb_issued s2 = wb_issued s @ [(True, False)]))
    \<and> (given \<noteq> new \<longrightarrow> PostLogin E r' s1 = (Some (HTTPError 401 ''password incorrect.''), s1))"
proof -
  obtain fs where fs: "kv_Set store_dir ''password'' new (wb_fs s) = (None, fs)" "kv_GetDefault store_dir ''password'' [] fs = Inr new"
    using store_set_get[OF password_plain(1,1) assms(3), of new "[]"] by auto
  define s1 where "s1 = RespondSuccessJSON NoData (log_op E ''AUTH'' ''change passwd'' (s\<lparr>wb_fs := fs\<rparr>))"
  have w: "wb_fs s1 = fs" "wb_issued s1 = wb_issued s"
    by (simp_all add: s1_def RespondSuccessJSON_def RespondReasonJSON_def web_write_def log_op_def)
  have "SetPasswordHandler E r s = (None, s1)" using assms(1,2) fs(1) by (simp add: SetPasswordHandler_def s1_def)
  moreover have "getPassword s1 = Inr new" using fs(2) w(1) by (simp add: getPassword_def)
  ultimately show ?thesis using assms(4,5) w(2) by (simp add: PostLogin_def saveSessionUser_def log_op_def)
qed

text \<open>A setting is read back as it was stored.\<close>

theorem device_name_roundtrip:
  assumes "read_json (name_json E) r = Inr (name, skip)" "store_usable ''name'' (wb_fs s)" "device_info E = Inr (w, t)"
  shows "\<exists>s1. SetDeviceName E r s = (None, s1)
    \<and> GetDeviceInfo E r' s1 = (None, web_write (Json 200 (DeviceInfo name w t (firmware E))) s1)"
proof -
  obtain fs where "kv_Set store_dir ''name'' name (wb_fs s) = (None, fs)" "kv_GetDefault store_dir ''name'' w fs = Inr name"
    using store_set_get[OF password_plain(3,3) assms(2), of name w] by auto
  then show ?thesis using assms(1,3)
    by (simp add: SetDeviceName_def GetDeviceInfo_def RespondSuccessJSON_def RespondReasonJSON_def RespondJSON_def web_write_def)
qed

section \<open>Pages of the log\<close>

text \<open>A page has the records from its offset, except when it ends exactly at the end of the list: then it is the whole list.\<close>

theorem page_slice_spec:
  assumes "0 \<le> offset" "0 \<le> limit" "offset + limit < 2 ^ 63"
  shows "page_slice offset limit xs
    = Some (if offset + limit = int (length xs) then xs else take (nat limit) (drop (nat offset) xs))"
proof -
  have e: "wrap64 (offset + limit) = offset + limit" using assms by (intro wrap64_id) (simp add: in_int64_def)
  have t: "nat (offset + limit) = nat offset + nat limit" using assms by (simp add: nat_add_distrib)
  have d: "drop (nat offset) (take (nat offset + nat limit) xs) = take (nat limit) (drop (nat offset) xs)"
    by (simp add: drop_take)
  consider "offset > int (length xs)" | "offset \<le> int (length xs)" "offset + limit < int (length xs)"
    | "offset \<le> int (length xs)" "offset + limit > int (length xs)" | "offset + limit = int (length xs)" by linarith
  then show ?thesis
  proof cases
    case 1
    then show ?thesis using assms by (simp add: page_slice_def Let_def e)
  next
    case 2
    then show ?thesis using assms by (simp add: page_slice_def Let_def e t d)
  next
    case 3
    then have "length (drop (nat offset) xs) \<le> nat limit" using assms by simp
    with 3 show ?thesis using assms by (simp add: page_slice_def Let_def e)
  next
    case 4
    then have "wrap64 (offset + limit) = int (length xs)" "\<not> offset > int (length xs)" using e assms by linarith+
    with 4 show ?thesis by (simp add: page_slice_def Let_def)
  qed
qed

lemma last_page_is_whole_list: "page_slice 10 10 (replicate 20 x) = Some (replicate 20 x)"
  by (simp add: page_slice_def wrap64_def)

text \<open>A request without a type is answered with an internal error.\<close>

lemma GetOplog_no_type:
  "query_first ''from'' r = Some a \<Longrightarrow> query_first ''until'' r = Some b \<Longrightarrow> query_first ''type'' r = None
     \<Longrightarrow> recoverMiddleware (GetOplog E) r s = RespondReasonJSON NoData ''runtime error: index out of range'' 500 s"
  by (simp add: recoverMiddleware_def GetOplog_def web_Error_def)

section \<open>Witnesses\<close>

definition demo_web_env :: web_env where
  "demo_web_env = \<lparr>login_json = Inr, passwd_json = (\<lambda>b. Inr ([], b)), name_json = (\<lambda>b. Inr (b, True)), time_json = (\<lambda>b. Inr 0),
     conf_json = (\<lambda>b. Inl b), deb_json = (\<lambda>b. Inr [(''jx-toolset'', b)]), merge_patch = (\<lambda>a b. Inr b), default_conf = [], cmd_err = (\<lambda>c. None), e_now = zero_time,
     e_nanos = 0, e_unix = (\<lambda>n. zero_time), show_nanos = Itoa, err_text = (\<lambda>e. []), save_err = None, e_ping = (\<lambda>h. True),
     device_info = Inr (''J01'', ''nano''), firmware = [], target_json = (\<lambda>t. concat (map (\<lambda>(k, v). k @ v) t)), e_interfaces = Inr [], e_gateway = (\<lambda>n. None),
     e_nameservers = (\<lambda>n. None)\<rparr>"

definition demo_web :: "string \<Rightarrow> web_state" where
  "demo_web password = \<lparr>wb_fs = \<lparr>fs_dirs = [''/'', ''/etc'', ''/edge'', ''/edge/store''], fs_files = [(''/edge/store/password'', password)],
       denied = (\<lambda>p. False)\<rparr>, wb_log = [], wb_cmds = [], wb_updating = False, wb_target = [], wb_signals = 0, wb_out = [], wb_issued = []\<rparr>"

definition web_post :: "string \<Rightarrow> string \<Rightarrow> bool option \<Rightarrow> web_req" where
  "web_post p b u = \<lparr>rq_method = ''POST'', rq_path = p, rq_query = [], rq_body = Inr b, rq_user = u\<rparr>"

text \<open>A client without the password that tries to log in and to reboot the device, and one that also starts an update.\<close>

definition intruder :: "(bool \<times> web_req) list" where
  "intruder = [(False, web_post ''/api/v1/login'' ''guess'' None), (True, web_post ''/api/v1/system/reboot'' [] None)]"

theorem web_locked_without_password_witness:
  "(\<exists>s'. web_run demo_web_env (\<lambda>n r s. (None, s)) (\<lambda>r. Plain 404 []) intruder (demo_web ''secret'') = Some s'
      \<and> wb_cmds s' = [] \<and> wb_fs s' = wb_fs (demo_web ''secret'') \<and> wb_signals s' = 0)
    \<and> (\<exists>s'. web_run demo_web_env (\<lambda>n r s. (None, s)) (\<lambda>r. Plain 404 [])
        (intruder @ [(False, web_post ''/edgenode/exec/update'' ''9'' None)]) (demo_web ''secret'') = Some s'
      \<and> wb_cmds s' = [] \<and> same_but_target (wb_fs (demo_web ''secret'')) (wb_fs s'))"
proof -
  let ?run = "\<lambda>rs. web_run demo_web_env (\<lambda>n r s. (None, s)) (\<lambda>r. Plain 404 []) rs (demo_web ''secret'')"
  let ?more = "intruder @ [(False, web_post ''/edgenode/exec/update'' ''9'' None)]"
  obtain s1 s2 where run: "?run intruder = Some s1" "?run ?more = Some s2"
    by (simp add: intruder_def admissible_def web_post_def)
  have pw: "getPassword (demo_web ''secret'') = Inr ''secret''" by code_simp
  have "\<forall>(b, r) \<in> set ?more. is_login r \<longrightarrow> read_json (login_json demo_web_env) r \<noteq> Inr ''secret''"
    by (simp add: intruder_def web_post_def read_json_def demo_web_env_def is_login_def)
  then have no_pw: "\<forall>(b, r) \<in> set intruder. is_login r \<longrightarrow> read_json (login_json demo_web_env) r \<noteq> Inr ''secret''"
    "\<forall>(b, r) \<in> set ?more. is_login r \<longrightarrow> read_json (login_json demo_web_env) r \<noteq> Inr ''secret''"
    by auto
  have "\<forall>(b, r) \<in> set intruder. \<not> is_update r" by (simp add: intruder_def web_post_def is_update_def)
  with web_locked_without_password[OF run(1) _ pw no_pw(1)] web_locked_without_password[OF run(2) _ pw no_pw(2)] run
  show ?thesis by (simp add: demo_web_def)
qed

theorem password_change_then_login_witness:
  "\<exists>s1. SetPasswordHandler demo_web_env (web_post [] ''new'' (Some True)) (demo_web []) = (None, s1)
    \<and> (\<exists>s2. PostLogin demo_web_env (web_post [] ''new'' None) s1 = (None, s2) \<and> wb_issued s2 = [(True, False)])"
proof -
  have "getPassword (demo_web []) = Inr []" by code_simp
  moreover have "read_json (passwd_json demo_web_env) (web_post [] ''new'' (Some True)) = Inr ([], ''new'')"
    "read_json (login_json demo_web_env) (web_post [] ''new'' None) = Inr ''new''" "save_err demo_web_env = None"
    by (simp_all add: demo_web_env_def web_post_def read_json_def)
  moreover have "store_usable ''password'' (wb_fs (demo_web []))" by code_simp
  ultimately show ?thesis
    using password_change_then_login[of "demo_web []" "[]" demo_web_env "web_post [] ''new'' (Some True)" "''new''" "web_post [] ''new'' None" "''new''"]
    by (simp add: demo_web_def)
qed

end
