(* ===== verification/Spec2Isabelle.thy ===== *)
theory Spec2Isabelle
  imports EventLoop SupervisorFacts Heartbeat Collector Registration DynService Gateway DnsFiles OpLog Updates
    ConfigAgent Control Mount Compose AiServing MasterLink WebApi
begin

text \<open>
  jxcore (edge-guard) runs on an edge device: a process supervisor in the manner of supervisord
  (\<open>src/subprocess\<close>), a gateway for the device's services (\<open>src/gateway\<close>), and the core that
  registers the device and reports to the cloud (\<open>src/core\<close>), with the management of updates
  (\<open>src/management\<close>), the network (\<open>src/internal\<close>), a web interface (\<open>src/web\<close>) and a control client
  (\<open>src/ctl\<close>). This library models the whole supervisor, the part with state machines, concurrency,
  parsing and bounded buffers, and the logic of the other parts: heartbeat, registration and the
  connection to the master, the gateway's services, updates, name resolution, VPN and interfaces,
  the mount monitor, the web interface, the control client and the operation log.

  \<^bold>\<open>How the parts interact.\<close> The supervisor loads its configuration (\<open>ConfigStore\<close>), sorts the programs
  (\<open>ProcSort\<close>) and runs them (\<open>ProcessRun\<close>, \<open>ProcManager\<close>); their output goes to logs (\<open>LogFile\<close>) and their
  changes to event listeners (\<open>Events\<close>, \<open>EventLoop\<close>); the control client calls it (\<open>Control\<close>). The core
  registers the device (\<open>Registration\<close>), configures the VPN with the answer (\<open>Vpn\<close>), saves the master's
  address (\<open>DnsFiles\<close>) and reports the heartbeat to it (\<open>Heartbeat\<close>); \<open>MasterLink\<close> composes these. The web
  interface (\<open>WebApi\<close>) keeps its settings in the store on files (\<open>FileService\<close>) and reads the operation
  log (\<open>OpLog\<close>).

  \<^bold>\<open>Conventions.\<close> A Go function that may panic or never return has the result type \<open>'a go\<close> of the
  theory \<open>GoPrelude\<close> (\<open>Ret\<close>, \<open>Panic\<close>, \<open>Hang\<close>); errors are values (\<open>option\<close>, sums, \<open>log_error\<close>). Strings
  are byte lists, a Go \<open>int\<close> is an \<open>int\<close> with the wrap-around written out (\<open>wrap64\<close>, \<open>wrap32\<close>) where the
  source computes with unchecked values. Maps are association lists; where the source ranges
  over a map or calls \<open>sort.Sort\<close>, the order is a parameter (\<open>passes\<close>, \<open>sorter\<close>) and the theorems hold
  for every permutation. Objects shared by pointer live in heaps (lists indexed by addresses).
  Loops that may not end are \<open>partial_function (option)\<close>, and \<open>None\<close> becomes \<open>Hang\<close>. Code outside the
  repository is a parameter: the operating system's answers (\<open>os_env\<close>, \<open>user_db\<close>, \<open>penv\<close>, \<open>senv\<close>), the
  package \<open>go-ini\<close> (\<open>ini_api\<close>), SHA-1 (\<open>sha1_hex\<close>).

  \<^bold>\<open>Theories, in the order of their imports.\<close>

  \<^item> \<open>GoPrelude\<close>: results, strings (\<open>Index\<close>, \<open>Split\<close>, \<open>Fields\<close>, \<open>TrimSpace\<close>, \<open>Itoa\<close>, \<open>Atoi\<close>), machine
    integers, maps, and the lemmas all components share.
  \<^item> \<open>Steps\<close>: the interfaces as locales: \<open>transition_system\<close> (reachable states and invariants),
    \<open>bounded_fifo\<close> (a queue that refuses when full), \<open>name_deletion\<close> and \<open>name_table\<close> (lookup after
    deletion and update).
  \<^item> \<open>StringExpr\<close> (\<open>config/string_expression.go\<close>): \<open>Eval\<close> substitutes \<open>%(name)s\<close> and \<open>%(name)d\<close>; on
    templates its result is the substitution, and self-referring variables make it hang.
  \<^item> \<open>ProcGroup\<close> (\<open>util/util.go\<close>, \<open>config/process_group.go\<close>): the group table and the added, changed and
    removed groups of a reload.
  \<^item> \<open>ConfigEntries\<close>, \<open>ConfigStore\<close> (\<open>config/config.go\<close>): typed access to a section; loading keeps the
    table well formed and every entry at its address; removal is exact.
  \<^item> \<open>ProcSort\<close> (\<open>config/process_sort.go\<close>): the sort is topological and total on acyclic dependencies,
    and never ends on a cycle.
  \<^item> \<open>CommandParser\<close> (\<open>process/command_parser.go\<close>, \<open>process/path.go\<close>): quoting and parsing are inverse.
  \<^item> \<open>Events\<close>, \<open>EventLoop\<close>, \<open>Capture\<close> (\<open>events/events.go\<close>): the bounded queue of a listener (an instance
    of \<open>bounded_fifo\<close>), the encoding and its decoder, subscription, ticks; the listener goroutine
    delivers in order and drains its queue; the capture extracts exactly the marked events.
  \<^item> \<open>LogFile\<close>, \<open>Loggers\<close> (\<open>logger/log.go\<close>, \<open>log_unix.go\<close>, \<open>faults\<close>): the rotating log refines a list of
    segments (locale \<open>segmented_log\<close>): what it keeps is a suffix of what was written; reads are
    slices of the file.
  \<^item> \<open>ProcConfig\<close> (\<open>process/process.go\<close>, \<open>signals/signal.go\<close>): the process record, its accessors and the
    command line, user, environment and loggers of a start.
  \<^item> \<open>ProcessRun\<close> (\<open>process/process.go\<close>): \<open>Start\<close>, \<open>run\<close>, the monitors and \<open>Stop\<close> as a transition system;
    a step is the code between two points at which another goroutine can interfere. Its
    invariant gives the safety of the accessors, the life cycle and the end of failing starts.
  \<^item> \<open>ProcManager\<close> (\<open>process/process_manager.go\<close>): the tables of processes, lookup, and the iteration
    over all programs; calls on processes are machines that block, run under a schedule.
  \<^item> \<open>Supervisor\<close>, \<open>SupervisorFacts\<close> (\<open>supervisor.go\<close>, \<open>xmlrpc.go\<close>, \<open>rest_rpc.go\<close>, \<open>types\<close>): remote
    procedures, reload, HTTP front ends; the invariant of the whole supervisor under all
    procedures and interleavings, the effect of a reload, queries that never panic, and which HTTP servers
    listen when their goroutines race for the flag \<open>started\<close>.

  \<^item> \<open>HeartbeatWire\<close>, \<open>Heartbeat\<close> (\<open>core/heartbeat\<close>): packets and their reading through a buffer that the
    segments of the connection fill; the sender, its readers and the bounded channel between them as a
    transition system (the locale of \<open>Steps\<close>): an invariant of all states, the stream that decodes up to the first
    torn write, and the schedule on which the sender waits for itself for ever.
  \<^item> \<open>Collector\<close> (\<open>core/heartbeat/collector\<close>): the parsers of the files of \<open>/proc\<close> and what is reported.
  \<^item> \<open>Registration\<close> (\<open>core/register\<close>, \<open>core/device\<close>): the worker's number, the encoded request and the scrambled
    configuration, equal to their specifications.
  \<^item> \<open>LevelStore\<close> (\<open>gateway/store/store.go\<close>): the interface \<open>Store\<close> with its errors and its implementation
    \<open>LevelDBStore\<close>, which opens its database at the first use. The locale \<open>leveldb_laws\<close> states what
    \<open>goleveldb\<close> documents; \<open>kv_store\<close>, the contract of the services, is a sublocale proved of \<open>LevelDBStore\<close>.
  \<^item> \<open>DynService\<close> (\<open>gateway/serve/dynamic.go\<close>): the registry of services with the pointers it holds, and what it
    writes into the store (locale \<open>reliable_store\<close>, a \<open>kv_store\<close> without failures).
  \<^item> \<open>Gateway\<close> (\<open>gateway/serve/reverse.go\<close>, \<open>option/option.go\<close>, \<open>management/programmanage/method.go\<close>): the proxy
    routes as its configuration says.
  \<^item> \<open>DnsFiles\<close> (\<open>internal/network/dns\<close>): the hosts file and the list of servers; saved addresses are found
    again, applying the servers of an interface again changes nothing, and the user's lines above the header stay.
  \<^item> \<open>OpLog\<close> (\<open>oplog\<close>): records come back from the file they were appended to.

  \<^item> \<open>Updates\<close> (\<open>management/updatemanage\<close>): the update loop and its handlers as a transition system; a target
    that is set while nothing runs is reached, an update that runs ends, and the schedules on which a
    signal is lost or two updates run at a time.
  \<^item> \<open>ConfigAgent\<close> (\<open>gateway/serve/configagent.go\<close>): one websocket with its reader, handler and polling
    goroutines; what is sent for a key follows its changes.
  \<^item> \<open>Control\<close> (\<open>ctl\<close>): the calls to the supervisor and the commands of the prompt, with every index into the
    arguments checked, and the commands that panic.
  \<^item> \<open>Mount\<close> (\<open>monitor/mount.go\<close>): the mount table follows the card; a link that was lost is not made again.
  \<^item> \<open>NetAddr\<close>, \<open>FilePaths\<close>: the functions of the packages \<open>net\<close>, \<open>path\<close> and \<open>filepath\<close> that the services use, on
    clean paths.
  \<^item> \<open>StoreServices\<close> (\<open>gateway/serve/mq.go\<close>, \<open>tsdb.go\<close>, \<open>result.go\<close>, \<open>error.go\<close>): topics and databases are sets of
    names under a prefix of \<open>LevelDBStore\<close>, as far as the store does not fail; a failure is answered with success.
  \<^item> \<open>Compose\<close> (\<open>gateway/serve/container.go\<close>): compositions are created, updated and removed; removal takes
    exactly the directory of the composition.
  \<^item> \<open>AiServing\<close> (\<open>gateway/serve/aiserving.go\<close>): registration with consul and forwarding.
  \<^item> \<open>Vpn\<close> (\<open>internal/network/vpn\<close>, \<open>iface\<close>, \<open>ip.go\<close>, \<open>lowapi/utils/err.go\<close>): both kinds of VPN, their files, the
    choice of the interface; the retries equal their specification.
  \<^item> \<open>FileService\<close> (\<open>gateway/serve/file.go\<close>, \<open>lowapi/utils/file.go\<close>, \<open>lowapi/store/filestore/kv.go\<close>,
    \<open>internal/config/system.go\<close>): a file system with directories, and what the copies and the store promise on it.
  \<^item> \<open>MasterLink\<close> (\<open>core/register\<close>, \<open>internal/config/template.go\<close>): the loop that connects to the master; a round
    reports to the master that the registration named, over the VPN set up with the configuration it sent.
  \<^item> \<open>WebApi\<close> (\<open>web\<close>): the routes and their handlers; without the password no sequence of requests runs a
    command or changes a file but the update target, which is open to every client.

  \<^bold>\<open>Bounds and fuel.\<close> The only fuel is the number of steps of \<open>drive\<close> in \<open>ProcessRun\<close> (theorem
  \<open>spawn_failures_end_fatal\<close>): one step to enter \<open>run\<close> and four per attempt, for the
  \<open>max(1, startretries)\<close> attempts of the source, is proved to be enough. Schedules (\<open>sched list\<close>) are finite sequences of steps of the
  goroutines; a call that has not returned at the end of one is reported as blocked. Where a context or a
  ticker ends a loop (\<open>RunUntilSuccess\<close>, \<open>retryfindMaster\<close>), the number or the list of the ticks is an argument.

  \<^bold>\<open>Not modelled.\<close> The pauses of \<open>time.Sleep\<close> (a schedule says who moves next), the log library, the
  wire formats of XML-RPC and JSON, \<open>os.Exit\<close>, the endless loop of \<open>run_sup.go\<close>, the file change
  monitors (a process records which it has registered), and Windows variants. Protobuf, JSON, TOML,
  YAML, MD5, HTTP, \<open>goleveldb\<close>, consul, docker-compose and netlink are arguments of the definitions that use them. Left
  out as calls of libraries without logic of their own: the routing tables and the log of the gateway
  (\<open>gateway.go\<close>, \<open>gateway/log\<close>), the docker proxy, the docker and ceph wrappers of \<open>lowapi\<close>, the edgex client
  and the pages without a route in \<open>web\<close>, SSDP, the readers of the device's own configuration, the start-up
  sequences of \<open>cmd\<close>, the texts of the programs (\<open>programmanage/attributes.go\<close>) and the generated
  protobuf code.
\<close>

end
